(* ===== verification/Prelude.thy ===== *)
theory Prelude
  imports Main
begin

text \<open>
  Shared vocabulary of the development: the collections of rewrite rules that the component
  theories fill and use, the result type of the fallible Go functions, and generic lemmas on maps,
  lists and results that several components need.
\<close>

section \<open>Collections\<close>

text \<open>
  \<open>go_defs\<close> collects the definitions a component's proofs unfold, \<open>go_inv\<close> the invariant
  preservation facts.
\<close>

named_theorems go_defs "definitions of modelled operations"
named_theorems go_inv "invariant preservation of modelled operations"

section \<open>Results\<close>

text \<open>
  A Go function with results \<open>(x, err)\<close> returns a value of type \<open>'e + 'a\<close>:
  \<open>Inl e\<close> when \<open>err\<close> is the error \<open>e\<close>, \<open>Inr x\<close> when \<open>err\<close> is nil.
\<close>

type_synonym ('e, 'a) result = "'e + 'a"

abbreviation is_ok :: "('e, 'a) result \<Rightarrow> bool" where
  "is_ok r \<equiv> \<not> isl r"

text \<open>The run-time panics of Go that the modelled code can raise.\<close>

datatype go_panic = NegativeLength | IndexOutOfRange | CloseOfClosedChannel | NilDereference | TypeAssertion

section \<open>Integers\<close>

text \<open>Go's integer division truncates towards zero.\<close>

definition goQuot :: "int \<Rightarrow> int \<Rightarrow> int" where
  "goQuot a b = sgn a * sgn b * (\<bar>a\<bar> div \<bar>b\<bar>)"

lemma goQuot_0 [simp]: "goQuot 0 b = 0"
  by (simp add: goQuot_def)

lemma goQuot_nonneg: "0 \<le> a \<Longrightarrow> 0 < b \<Longrightarrow> goQuot a b = a div b"
  by (cases "a = 0") (simp_all add: goQuot_def)

lemma goQuot_mult [simp]: "0 < b \<Longrightarrow> goQuot (k * b) b = k"
  by (simp add: goQuot_def sgn_mult abs_mult) (simp add: sgn_mult_abs)

section \<open>Maps\<close>

lemma dom_map_filter [simp]:
  "dom (\<lambda>k. case m k of None \<Rightarrow> None | Some v \<Rightarrow> if P k v then Some v else None)
     = {k. \<exists>v. m k = Some v \<and> P k v}"
  by (auto simp: dom_def split: option.splits if_splits)

lemma map_upd_delete_same [simp]: "m k = None \<Longrightarrow> (m(k \<mapsto> v))(k := None) = m"
  by (auto simp: fun_eq_iff)

end
