(* ===== verification/Decimal.thy ===== *)
theory Decimal
  imports Prelude
begin

text \<open>
  Decimal rendering of integers, as Go's \<^verbatim>\<open>strconv.Itoa\<close> and \<^verbatim>\<open>%d\<close>
  and JavaScript's conversion of an integral number to a string produce it, and the reading of a
  decimal numeral, with the round trip between the two.
\<close>

definition digitChar :: "nat \<Rightarrow> char" where
  "digitChar n = ''0123456789'' ! n"

fun showNat :: "nat \<Rightarrow> string" where
  "showNat n = (if n < 10 then [digitChar n] else showNat (n div 10) @ [digitChar (n mod 10)])"

declare showNat.simps [simp del]

definition showInt :: "int \<Rightarrow> string" where
  "showInt i = (if i < 0 then CHR ''-'' # showNat (nat (- i)) else showNat (nat i))"

definition charDigit :: "char \<Rightarrow> nat option" where
  "charDigit c = map_of (zip ''0123456789'' [0..<10]) c"

fun readDigits :: "nat \<Rightarrow> string \<Rightarrow> nat option" where
  "readDigits acc [] = Some acc"
| "readDigits acc (c # cs) =
     (case charDigit c of None \<Rightarrow> None | Some d \<Rightarrow> readDigits (10 * acc + d) cs)"

lemma lt10_cases:
  "(n::nat) < 10 \<Longrightarrow> n = 0 \<or> n = 1 \<or> n = 2 \<or> n = 3 \<or> n = 4 \<or> n = 5 \<or> n = 6 \<or> n = 7 \<or> n = 8 \<or> n = 9"
  by arith

lemma upt_10: "[0..<10] = [0, 1, 2, 3, 4, 5, 6, 7, 8, 9::nat]"
  by code_simp

lemma charDigit_digitChar [simp]: "n < 10 \<Longrightarrow> charDigit (digitChar n) = Some n"
  by (drule lt10_cases) (auto simp: charDigit_def digitChar_def upt_10)

lemma digitChar_neq: "n < 10 \<Longrightarrow> digitChar n \<noteq> CHR ''-''"
  by (drule lt10_cases) (auto simp: digitChar_def)

lemma readDigits_append:
  "readDigits acc (xs @ ys) = (case readDigits acc xs of None \<Rightarrow> None | Some a \<Rightarrow> readDigits a ys)"
  by (induction xs arbitrary: acc) (auto split: option.splits)

lemma readDigits_showNat [simp]: "readDigits 0 (showNat n) = Some n"
proof (induction n rule: showNat.induct)
  case (1 n)
  then show ?case
    by (subst showNat.simps) (auto simp: readDigits_append)
qed

lemma showNat_nonempty [simp]: "showNat n \<noteq> []"
  by (subst showNat.simps) auto

lemma showNat_inject [simp]: "showNat m = showNat n \<longleftrightarrow> m = n"
  using readDigits_showNat by (metis option.inject)

lemma showNat_no_minus: "CHR ''-'' \<notin> set (showNat n)"
proof (induction n rule: showNat.induct)
  case (1 n)
  then show ?case
    using digitChar_neq by (subst showNat.simps) (auto dest: sym)
qed

lemma showInt_inject [simp]: "showInt i = showInt j \<longleftrightarrow> i = j"
proof -
  have "CHR ''-'' # showNat m \<noteq> showNat n" for m n
    using showNat_no_minus by (metis list.set_intros(1))
  then show ?thesis by (auto simp: showInt_def) (metis+)
qed

lemma showInt_nonempty [simp]: "showInt i \<noteq> []"
  by (simp add: showInt_def)

end
