(* ===== verification/GoStrings.thy ===== *)
theory GoStrings
  imports Decimal
begin

text \<open>
  The functions of Go's \<^verbatim>\<open>strings\<close> package that the code uses, on strings as lists of bytes:
  Split and Join, TrimSpace (for text whose ends are not one of the spaces outside ASCII), HasPrefix,
  HasSuffix, Contains, ToLower (ASCII letters) and Compare.
\<close>

fun goSplit :: "char \<Rightarrow> string \<Rightarrow> string list" where
  "goSplit c [] = [[]]"
| "goSplit c (x # xs) = (if x = c then [] # goSplit c xs
     else case goSplit c xs of [] \<Rightarrow> [[x]] | r # rs \<Rightarrow> (x # r) # rs)"

fun goJoin :: "string \<Rightarrow> string list \<Rightarrow> string" where
  "goJoin sep [] = []"
| "goJoin sep [x] = x"
| "goJoin sep (x # y # xs) = x @ sep @ goJoin sep (y # xs)"

definition goSpace :: "char \<Rightarrow> bool" where
  "goSpace c \<longleftrightarrow> c \<in> set [CHR '' '', CHR 0x09, CHR 0x0A, CHR 0x0B, CHR 0x0C, CHR 0x0D]"

definition trimSpace :: "string \<Rightarrow> string" where
  "trimSpace s = rev (dropWhile goSpace (rev (dropWhile goSpace s)))"

definition hasPrefix :: "string \<Rightarrow> string \<Rightarrow> bool" where
  "hasPrefix s p \<longleftrightarrow> take (length p) s = p"

definition hasSuffix :: "string \<Rightarrow> string \<Rightarrow> bool" where
  "hasSuffix s p \<longleftrightarrow> hasPrefix (rev s) (rev p)"

fun goContains :: "string \<Rightarrow> string \<Rightarrow> bool" where
  "goContains [] p = (p = [])"
| "goContains (c # cs) p = (hasPrefix (c # cs) p \<or> goContains cs p)"

definition lowerChar :: "char \<Rightarrow> char" where
  "lowerChar c = (if 65 \<le> (of_char c :: nat) \<and> of_char c \<le> (90 :: nat) then char_of ((of_char c :: nat) + 32) else c)"

definition toLower :: "string \<Rightarrow> string" where
  "toLower s = map lowerChar s"

fun strLess :: "string \<Rightarrow> string \<Rightarrow> bool" where
  "strLess _ [] = False"
| "strLess [] (_ # _) = True"
| "strLess (x # xs) (y # ys) =
     ((of_char x :: nat) < of_char y \<or> (x = y \<and> strLess xs ys))"

section \<open>Split and join\<close>

lemma goSplit_nonempty [simp]: "goSplit c s \<noteq> []"
  by (induction s) (auto split: list.splits)

lemma goSplit_length: "length (goSplit c s) = Suc (count_list s c)"
  by (induction s) (auto split: list.splits)

lemma goSplit_no_sep: "r \<in> set (goSplit c s) \<Longrightarrow> c \<notin> set r"
proof (induction s arbitrary: r)
  case (Cons x xs)
  then show ?case by (cases "goSplit c xs") (auto split: if_splits)
qed simp

lemma goJoin_Cons: "xs \<noteq> [] \<Longrightarrow> goJoin sep (x # xs) = x @ sep @ goJoin sep xs"
  by (cases xs) auto

lemma goJoin_goSplit: "goJoin [c] (goSplit c s) = s"
proof (induction s)
  case (Cons x xs)
  obtain r rs where r: "goSplit c xs = r # rs" by (cases "goSplit c xs") auto
  show ?case
  proof (cases "x = c")
    case True
    then show ?thesis using Cons by (simp add: goJoin_Cons)
  next
    case False
    then show ?thesis using Cons r by (cases rs) auto
  qed
qed simp

lemma goSplit_plain: "c \<notin> set s \<Longrightarrow> goSplit c s = [s]"
  by (induction s) auto

lemma goSplit_append_sep: "c \<notin> set x \<Longrightarrow> goSplit c (x @ c # ys) = x # goSplit c ys"
  by (induction x) auto

lemma goSplit_goJoin:
  "rs \<noteq> [] \<Longrightarrow> list_all (\<lambda>r. c \<notin> set r) rs \<Longrightarrow> goSplit c (goJoin [c] rs) = rs"
proof (induction rs)
  case (Cons r rs)
  then show ?case
    by (cases "rs = []") (auto simp: goSplit_plain goJoin_Cons goSplit_append_sep)
qed simp

section \<open>Prefixes and trimming\<close>

lemma hasPrefix_refl [simp]: "hasPrefix s s" "hasPrefix s []"
  by (simp_all add: hasPrefix_def)

lemma hasPrefix_iff: "hasPrefix s p \<longleftrightarrow> (\<exists>t. s = p @ t)"
  unfolding hasPrefix_def by (metis append_eq_conv_conj append_take_drop_id)

lemma trimSpace_subset: "set (trimSpace s) \<subseteq> set s"
  by (auto simp: trimSpace_def dest!: set_dropWhileD)

lemma dropWhile_idem [simp]: "dropWhile P (dropWhile P xs) = dropWhile P xs"
  by (induction xs) auto

lemma dropWhile_hd: "dropWhile P xs = [] \<or> \<not> P (hd (dropWhile P xs))"
  using hd_dropWhile by blast

lemma trimSpace_idem [simp]: "trimSpace (trimSpace s) = trimSpace s"
proof -
  define a where "a = dropWhile goSpace s"
  define t where "t = trimSpace s"
  have a: "a = [] \<or> \<not> goSpace (hd a)" unfolding a_def by (rule dropWhile_hd)
  have t: "t = rev (dropWhile goSpace (rev a))" by (simp add: t_def trimSpace_def a_def)
  obtain u where u: "rev a = u @ dropWhile goSpace (rev a)"
    by (metis takeWhile_dropWhile_id)
  then have at: "a = t @ rev u" using t by (metis rev_append rev_rev_ident)
  have "t = [] \<or> \<not> goSpace (hd t)" using a at by (cases t) auto
  then have d: "dropWhile goSpace t = t" by (cases t) auto
  have "trimSpace t = t" by (simp add: trimSpace_def d) (simp add: t)
  then show ?thesis by (simp add: t_def)
qed

lemma trimSpace_no: "c \<notin> set s \<Longrightarrow> c \<notin> set (trimSpace s)"
  using trimSpace_subset by blast

section \<open>Containing a string\<close>

lemma goContains_refl: "goContains (p @ ys) p"
proof (cases "p @ ys")
  case Nil
  then show ?thesis by simp
next
  case (Cons c cs)
  then have "hasPrefix (c # cs) p" by (metis hasPrefix_iff)
  then show ?thesis using Cons by simp
qed

lemma goContains_append: "goContains ys p \<Longrightarrow> goContains (xs @ ys) p"
  by (induction xs) auto

lemma goContains_middle: "goContains (xs @ p @ ys) p"
  by (intro goContains_append goContains_refl)

lemma goContains_char: "goContains s [c] \<longleftrightarrow> c \<in> set s"
  by (induction s) (auto simp: hasPrefix_def)

section \<open>Order\<close>

lemma strLess_prefix: "strLess p (p @ c # cs)"
  by (induction p) auto

lemma prefix_longer_greater:
  assumes "hasPrefix path a" "hasPrefix path b" "length a < length b"
  shows "strLess a b"
proof -
  have a: "a = take (length a) path" and b: "b = take (length b) path"
    using assms(1,2) by (simp_all add: hasPrefix_def)
  have "b = take (length a) b @ drop (length a) b" by simp
  moreover have "take (length a) b = a"
    using assms(3) by (subst b, subst (2) a) (simp add: min_def)
  ultimately have "b = a @ drop (length a) b" by simp
  moreover obtain c cs where "drop (length a) b = c # cs" using assms(3) by (cases "drop (length a) b") auto
  ultimately show ?thesis using strLess_prefix [of a c cs] by simp
qed

lemma strLess_irrefl [simp]: "\<not> strLess s s"
  by (induction s) auto

lemma strLess_trans: "strLess a b \<Longrightarrow> strLess b c \<Longrightarrow> strLess a c"
proof (induction a b arbitrary: c rule: strLess.induct)
  case (3 x xs y ys)
  then show ?case by (cases c) auto
next
  case (2 y ys)
  then show ?case by (cases c) auto
qed simp

lemma strLess_linear: "strLess a b \<or> a = b \<or> strLess b a"
proof (induction a b rule: strLess.induct)
  case (1 a)
  then show ?case by (cases a) auto
next
  case (3 x xs y ys)
  have "(of_char x :: nat) < of_char y \<or> x = y \<or> (of_char y :: nat) < of_char x"
    using linorder_less_linear [of "of_char x :: nat" "of_char y"] by auto
  then show ?case using 3 by auto
qed simp

lemma strLess_asym: "strLess a b \<Longrightarrow> \<not> strLess b a"
  using strLess_trans strLess_irrefl by blast

end
