(* ===== verification/Interfaces.thy ===== *)
theory Interfaces
  imports Prelude GoStrings
begin

text \<open>
  The interfaces between the components, as locales: the operations a client calls and the laws the
  provider promises. The lemmas a client needs are proved here once, from the laws; the provider's
  theory interprets the locale on the model of the code.
\<close>

section \<open>A pool of ports\<close>

text \<open>
  What \<^verbatim>\<open>server/proxy/tcp.go\<close>, \<^verbatim>\<open>server/proxy/udp.go\<close> and
  \<^verbatim>\<open>server/group/tcp.go\<close> rely on when they call \<open>Acquire\<close> and
  \<open>Release\<close> of a port manager. \<open>env\<close> is what the environment decides during a call
  and \<open>envOk\<close> what it may decide.
\<close>

locale port_pool =
  fixes acquire :: "'env \<Rightarrow> string \<Rightarrow> int \<Rightarrow> 's \<Rightarrow> ('e, int) result \<times> 's"
    and release :: "int \<Rightarrow> int \<Rightarrow> 's \<Rightarrow> 's"
    and inUse :: "'s \<Rightarrow> int set"
    and free :: "'s \<Rightarrow> int set"
    and invar :: "'s \<Rightarrow> bool"
    and envOk :: "'env \<Rightarrow> 's \<Rightarrow> bool"
  assumes acquire_Inr:
      "invar s \<Longrightarrow> envOk env s \<Longrightarrow> acquire env name port s = (Inr p, s') \<Longrightarrow>
         p \<in> free s \<and> inUse s' = insert p (inUse s) \<and> free s' = free s - {p} \<and>
         (port \<noteq> 0 \<longrightarrow> p = port)"
    and acquire_Inl:
      "invar s \<Longrightarrow> envOk env s \<Longrightarrow> acquire env name port s = (Inl e, s') \<Longrightarrow>
         inUse s' = inUse s \<and> free s' = free s"
    and release_inUse:
      "invar s \<Longrightarrow> p \<in> inUse s \<Longrightarrow>
         inUse (release now p s) = inUse s - {p} \<and> free (release now p s) = insert p (free s)"
    and release_unused: "p \<notin> inUse s \<Longrightarrow> release now p s = s"
    and disjoint: "invar s \<Longrightarrow> inUse s \<inter> free s = {}"
    and invar_acquire: "invar s \<Longrightarrow> envOk env s \<Longrightarrow> invar (snd (acquire env name port s))"
    and invar_release: "invar s \<Longrightarrow> invar (release now p s)"
begin

lemma acquire_fresh:
  "invar s \<Longrightarrow> envOk env s \<Longrightarrow> acquire env name port s = (Inr p, s') \<Longrightarrow> p \<notin> inUse s"
  using acquire_Inr disjoint by (metis disjoint_iff)

lemma invar_acquire':
  "invar s \<Longrightarrow> envOk env s \<Longrightarrow> acquire env name port s = (res, s') \<Longrightarrow> invar s'"
  using invar_acquire by (metis snd_conv)

text \<open>Giving a port back after taking it restores both sets.\<close>

lemma acquire_release:
  assumes "invar s" and "envOk env s" and "acquire env name port s = (Inr p, s')"
  shows "inUse (release now p s') = inUse s" and "free (release now p s') = free s"
proof -
  note a = acquire_Inr [OF assms]
  have "p \<in> inUse s'" using a by simp
  note r = release_inUse [OF invar_acquire' [OF assms] this]
  show "inUse (release now p s') = inUse s" using r a acquire_fresh [OF assms] by simp
  show "free (release now p s') = free s" using r a by auto
qed

text \<open>Two ports taken one after the other are different.\<close>

lemma acquire_acquire:
  assumes "invar s" and "envOk e1 s" and "acquire e1 n1 p1 s = (Inr p, s1)"
    and "envOk e2 s1" and "acquire e2 n2 p2 s1 = (Inr q, s2)"
  shows "p \<noteq> q"
  using acquire_fresh [OF invar_acquire' [OF assms(1-3)] assms(4,5)] acquire_Inr [OF assms(1-3)]
  by auto

text \<open>No operation changes which ports the pool manages.\<close>

lemma total_acquire:
  assumes "invar s" and "envOk env s" and "acquire env name port s = (res, s')"
  shows "inUse s' \<union> free s' = inUse s \<union> free s"
  using assms acquire_Inl [of s env name port _ s'] acquire_Inr [of s env name port _ s']
  by (cases res) auto

lemma total_release: "invar s \<Longrightarrow> inUse (release now p s) \<union> free (release now p s) = inUse s \<union> free s"
  using release_inUse [of s p now] release_unused [of p s now] by (cases "p \<in> inUse s") auto

end

section \<open>A table of routes\<close>

text \<open>
  What the users of a routing table rely on: a route is a domain, a location and a user; adding a route
  fails exactly when it exists; adding and deleting one route leaves the others; a lookup finds the
  route with the longest location that is a prefix of the path.
\<close>

locale route_table =
  fixes add :: "'t \<Rightarrow> string \<Rightarrow> string \<Rightarrow> string \<Rightarrow> 'p \<Rightarrow> ('e, 't) result"
    and del :: "'t \<Rightarrow> string \<Rightarrow> string \<Rightarrow> string \<Rightarrow> 't"
    and route :: "'t \<Rightarrow> string \<Rightarrow> string \<Rightarrow> string \<Rightarrow> 'p option"
    and best :: "'t \<Rightarrow> string \<Rightarrow> string \<Rightarrow> string \<Rightarrow> (string \<times> 'p) option"
    and invar :: "'t \<Rightarrow> bool"
  assumes add_fails: "invar t \<Longrightarrow> isl (add t d l u p) \<longleftrightarrow> route t d l u \<noteq> None"
    and add_invar: "invar t \<Longrightarrow> add t d l u p = Inr t' \<Longrightarrow> invar t'"
    and add_route: "invar t \<Longrightarrow> add t d l u p = Inr t' \<Longrightarrow>
      route t' d' l' u' = (if (d', l', u') = (d, l, u) then Some p else route t d' l' u')"
    and del_invar: "invar t \<Longrightarrow> invar (del t d l u)"
    and del_route: "invar t \<Longrightarrow>
      route (del t d l u) d' l' u' = (if (d', l', u') = (d, l, u) then None else route t d' l' u')"
    and best_some: "invar t \<Longrightarrow> best t d path u = Some (l, p) \<longleftrightarrow>
      route t d l u = Some p \<and> hasPrefix path l \<and>
      (\<forall>l'. route t d l' u \<noteq> None \<and> hasPrefix path l' \<longrightarrow> length l' \<le> length l)"
    and best_none: "invar t \<Longrightarrow> best t d path u = None \<longleftrightarrow>
      (\<forall>l. route t d l u \<noteq> None \<longrightarrow> \<not> hasPrefix path l)"
begin

text \<open>Taking back the route just added restores every route, and every lookup.\<close>

lemma add_del_route:
  assumes "invar t" "add t d l u p = Inr t'"
  shows "route (del t' d l u) d' l' u' = route t d' l' u'"
proof -
  have "route t d l u = None" using add_fails [OF assms(1), of d l u p] assms(2) by simp
  then show ?thesis using assms add_invar add_route del_route by auto
qed

lemma best_determined:
  assumes "invar t" "invar s" "\<And>l. route t d l u = route s d l u"
  shows "best t d path u = best s d path u"
proof (cases "best t d path u")
  case None
  then have "\<forall>l. route s d l u \<noteq> None \<longrightarrow> \<not> hasPrefix path l"
    using best_none [OF assms(1), of d path u] assms(3) by metis
  then have "best s d path u = None" using best_none [OF assms(2), of d path u] by blast
  then show ?thesis using None by simp
next
  case (Some lp)
  obtain l p where lp: "lp = (l, p)" by (cases lp)
  have "best s d path u = Some (l, p)"
    unfolding best_some [OF assms(2)] assms(3) [symmetric]
    using Some lp best_some [OF assms(1), of d path u l p] by blast
  then show ?thesis using Some lp by simp
qed

lemma add_del_best:
  "invar t \<Longrightarrow> add t d l u p = Inr t' \<Longrightarrow> best (del t' d l u) d' path u' = best t d' path u'"
  by (rule best_determined) (auto intro: add_invar del_invar simp: add_del_route)

lemma del_then_add: "invar t \<Longrightarrow> \<not> isl (add (del t d l u) d l u p)"
  by (simp add: add_fails del_invar del_route)

lemma add_other_best:
  assumes "invar t" "add t d l u p = Inr t'" "(d', u') \<noteq> (d, u)"
  shows "best t' d' path u' = best t d' path u'"
  by (rule best_determined) (use assms in \<open>auto intro: add_invar simp: add_route\<close>)

end

end
