(* ===== verification/PortManager.thy ===== *)
theory PortManager
  imports Interfaces
begin

text \<open>
  The port manager of frps, \<^verbatim>\<open>server/ports/ports.go\<close>: the public TCP or UDP ports that
  proxies ask for, use and give back. A \<open>PortCtx\<close> is allocated by \<open>Acquire\<close> and shared
  by pointer between \<open>usedPorts\<close> and \<open>reservedPorts\<close>; \<open>Release\<close> writes through
  the pointer found in \<open>usedPorts\<close> and the change is seen through \<open>reservedPorts\<close>.
  The aliasing is kept: the maps hold references into an explicit store.

  Parameters of the model: whether the operating system lets the process listen on a port
  (\<open>resolve\<close>, \<open>listen\<close>, and their combination \<open>avail\<close>), the clock in
  nanoseconds, and the order in which Go's \<open>range\<close> visits \<open>freePorts\<close>, which the
  language leaves open.
\<close>

section \<open>State\<close>

definition MinPort :: int where "MinPort = 1"
definition MaxPort :: int where "MaxPort = 65535"
definition MaxPortReservedDuration :: int where
  "MaxPortReservedDuration = 24 * 3600 * 1000000000"

datatype port_error = ErrPortAlreadyUsed | ErrPortNotAllowed | ErrPortUnAvailable | ErrNoAvailablePort

record port_ctx =
  ProxyName :: string
  Port :: int
  Closed :: bool
  UpdateTime :: int

record port_manager =
  reservedPorts :: "string \<rightharpoonup> nat"
  usedPorts :: "int \<rightharpoonup> nat"
  freePorts :: "int set"
  bindAddr :: string
  netType :: string
  ctxStore :: "nat \<rightharpoonup> port_ctx"
  ctxNext :: nat

definition NewManager :: "string \<Rightarrow> string \<Rightarrow> int set \<Rightarrow> port_manager" where
  "NewManager net addr allowPorts =
     \<lparr> reservedPorts = Map.empty, usedPorts = Map.empty,
       freePorts = (if allowPorts \<noteq> {} then allowPorts else {MinPort..MaxPort}),
       bindAddr = addr, netType = net, ctxStore = Map.empty, ctxNext = 0 \<rparr>"

section \<open>Operations\<close>

text \<open>
  \<open>isPortAvailable\<close> probes the operating system: UDP resolves the address first. The two
  operating system calls are parameters that say whether the call succeeds.
\<close>

definition isPortAvailable ::
  "(string \<Rightarrow> int \<Rightarrow> bool) \<Rightarrow> (string \<Rightarrow> string \<Rightarrow> int \<Rightarrow> bool) \<Rightarrow> port_manager \<Rightarrow> int \<Rightarrow> bool"
where
  "isPortAvailable resolve listen pm port =
     (if netType pm = ''udp''
      then if \<not> resolve (bindAddr pm) port then False
           else listen ''udp'' (bindAddr pm) port
      else listen (netType pm) (bindAddr pm) port)"

text \<open>The random search of \<open>Acquire\<close>: at most five candidates, in the order visited.\<close>

fun tryRandom :: "(int \<Rightarrow> bool) \<Rightarrow> nat \<Rightarrow> int list \<Rightarrow> int option" where
  "tryRandom avail count [] = None"
| "tryRandom avail count (k # ks) =
     (if Suc count > 5 then None
      else if avail k then Some k
      else tryRandom avail (Suc count) ks)"

text \<open>The three assignments every successful branch makes.\<close>

definition takePort :: "string \<Rightarrow> nat \<Rightarrow> int \<Rightarrow> port_manager \<Rightarrow> port_manager" where
  "takePort name ref realPort pm =
     pm\<lparr> usedPorts := (usedPorts pm)(realPort \<mapsto> ref),
         reservedPorts := (reservedPorts pm)(name \<mapsto> ref),
         freePorts := freePorts pm - {realPort} \<rparr>"

text \<open>The deferred assignment \<open>portCtx.Port = realPort\<close> of a call that returns no error.\<close>

definition setPort :: "nat \<Rightarrow> int \<Rightarrow> port_manager \<Rightarrow> port_manager" where
  "setPort ref realPort pm =
     pm\<lparr> ctxStore := (case ctxStore pm ref of
           None \<Rightarrow> ctxStore pm
         | Some c \<Rightarrow> (ctxStore pm)(ref \<mapsto> c\<lparr>Port := realPort\<rparr>)) \<rparr>"

definition newCtx :: "string \<Rightarrow> int \<Rightarrow> port_manager \<Rightarrow> nat \<times> port_manager" where
  "newCtx name now pm =
     (ctxNext pm,
      pm\<lparr> ctxStore := (ctxStore pm)
            (ctxNext pm \<mapsto> \<lparr> ProxyName = name, Port = 0, Closed = False, UpdateTime = now \<rparr>),
          ctxNext := Suc (ctxNext pm) \<rparr>)"

text \<open>
  The port reserved for a name, when it can be listened on: the check that precedes the random
  search.
\<close>

definition reservedFor :: "(int \<Rightarrow> bool) \<Rightarrow> string \<Rightarrow> port_manager \<Rightarrow> int option" where
  "reservedFor avail name pm =
     (case reservedPorts pm name of
        None \<Rightarrow> None
      | Some r \<Rightarrow> (case ctxStore pm r of
          None \<Rightarrow> None
        | Some c \<Rightarrow> if avail (Port c) then Some (Port c) else None))"

definition Acquire ::
  "(int \<Rightarrow> bool) \<Rightarrow> int list \<Rightarrow> int \<Rightarrow> string \<Rightarrow> int \<Rightarrow> port_manager
     \<Rightarrow> (port_error, int) result \<times> port_manager"
where
  "Acquire avail order now name port pm0 =
     (let (ref, pm) = newCtx name now pm0 in
      case (if port = 0 then reservedFor avail name pm else None) of
        Some p \<Rightarrow> (Inr p, setPort ref p (takePort name ref p pm))
      | None \<Rightarrow>
          if port = 0 then
            (case tryRandom avail 0 order of
               None \<Rightarrow> (Inl ErrNoAvailablePort, pm)
             | Some k \<Rightarrow>
                 if k = 0 then (Inl ErrNoAvailablePort, takePort name ref k pm)
                 else (Inr k, setPort ref k (takePort name ref k pm)))
          else if port \<in> freePorts pm then
            (if avail port then (Inr port, setPort ref port (takePort name ref port pm))
             else (Inl ErrPortUnAvailable, pm))
          else if usedPorts pm port \<noteq> None then (Inl ErrPortAlreadyUsed, pm)
          else (Inl ErrPortNotAllowed, pm))"

definition Release :: "int \<Rightarrow> int \<Rightarrow> port_manager \<Rightarrow> port_manager" where
  "Release now port pm =
     (case usedPorts pm port of
        None \<Rightarrow> pm
      | Some r \<Rightarrow>
          pm\<lparr> freePorts := insert port (freePorts pm),
              usedPorts := (usedPorts pm)(port := None),
              ctxStore := (case ctxStore pm r of
                  None \<Rightarrow> ctxStore pm
                | Some c \<Rightarrow> (ctxStore pm)(r \<mapsto> c\<lparr>Closed := True, UpdateTime := now\<rparr>)) \<rparr>)"

text \<open>One round of \<open>cleanReservedPortsWorker\<close>, which runs every hour.\<close>

definition expired :: "int \<Rightarrow> port_ctx \<Rightarrow> bool" where
  "expired now c \<longleftrightarrow> Closed c \<and> now - UpdateTime c > MaxPortReservedDuration"

definition cleanReservedPorts :: "int \<Rightarrow> port_manager \<Rightarrow> port_manager" where
  "cleanReservedPorts now pm =
     pm\<lparr> reservedPorts := (\<lambda>n. case reservedPorts pm n of
           None \<Rightarrow> None
         | Some r \<Rightarrow> (case ctxStore pm r of
             None \<Rightarrow> Some r
           | Some c \<Rightarrow> if expired now c then None else Some r)) \<rparr>"

lemmas port_defs [go_defs] =
  NewManager_def takePort_def setPort_def newCtx_def reservedFor_def Acquire_def Release_def
  expired_def cleanReservedPorts_def


section \<open>Runs of the manager\<close>

text \<open>
  The manager serialises its calls with a mutex, so a history is a sequence of calls. A call of
  \<open>Acquire\<close> carries what the environment decides: which ports the operating system grants, the
  order of the range over the free ports, and the time.
\<close>

datatype port_event =
    EvAcquire "int \<Rightarrow> bool" "int list" int string int
  | EvRelease int int
  | EvClean int

fun portApply :: "port_event \<Rightarrow> port_manager \<Rightarrow> port_manager" where
  "portApply (EvAcquire avail order now name port) pm = snd (Acquire avail order now name port pm)"
| "portApply (EvRelease now port) pm = Release now port pm"
| "portApply (EvClean now) pm = cleanReservedPorts now pm"

definition rangeOrder :: "int list \<Rightarrow> port_manager \<Rightarrow> bool" where
  "rangeOrder order pm \<longleftrightarrow> set order = freePorts pm \<and> distinct order"

fun eventOk :: "port_event \<Rightarrow> port_manager \<Rightarrow> bool" where
  "eventOk (EvAcquire avail order now name port) pm = rangeOrder order pm"
| "eventOk (EvRelease now port) pm = True"
| "eventOk (EvClean now) pm = True"

inductive portReachable :: "int set \<Rightarrow> port_manager \<Rightarrow> bool" for allowPorts where
  start: "portReachable allowPorts (NewManager net addr allowPorts)"
| step: "portReachable allowPorts pm \<Longrightarrow> eventOk e pm \<Longrightarrow> portReachable allowPorts (portApply e pm)"

definition allowed :: "int set \<Rightarrow> int set" where
  "allowed allowPorts = (if allowPorts \<noteq> {} then allowPorts else {MinPort..MaxPort})"

section \<open>The invariant\<close>

definition ctxOk :: "port_manager \<Rightarrow> bool" where
  "ctxOk pm \<longleftrightarrow> (\<forall>r c. ctxStore pm r = Some c \<longrightarrow> r < ctxNext pm)"

definition usedOk :: "port_manager \<Rightarrow> bool" where
  "usedOk pm \<longleftrightarrow> (\<forall>p r. usedPorts pm p = Some r \<longrightarrow>
     (\<exists>c. ctxStore pm r = Some c \<and> Port c = p \<and> \<not> Closed c))"

definition reservedOk :: "int set \<Rightarrow> port_manager \<Rightarrow> bool" where
  "reservedOk A pm \<longleftrightarrow> (\<forall>n r. reservedPorts pm n = Some r \<longrightarrow>
     (\<exists>c. ctxStore pm r = Some c \<and> ProxyName c = n \<and> Port c \<in> A))"

definition portInv :: "int set \<Rightarrow> port_manager \<Rightarrow> bool" where
  "portInv A pm \<longleftrightarrow>
     freePorts pm \<union> dom (usedPorts pm) = A \<and> freePorts pm \<inter> dom (usedPorts pm) = {} \<and>
     ctxOk pm \<and> usedOk pm \<and> reservedOk A pm"

lemmas portInv_defs = portInv_def ctxOk_def usedOk_def reservedOk_def

lemma portInv_NewManager [go_inv]: "portInv (allowed A) (NewManager net addr A)"
  by (simp add: portInv_defs NewManager_def allowed_def)

text \<open>A new context is fresh: it is stored under a reference no map holds.\<close>

lemma newCtx_inv:
  assumes "portInv A pm" and "newCtx name now pm = (ref, pm')"
  shows "portInv A pm'" and "ctxStore pm' ref = Some \<lparr> ProxyName = name, Port = 0, Closed = False, UpdateTime = now \<rparr>"
    and "\<forall>p. usedPorts pm' p \<noteq> Some ref" and "\<forall>n. reservedPorts pm' n \<noteq> Some ref"
    and "usedPorts pm' = usedPorts pm" and "freePorts pm' = freePorts pm"
    and "reservedPorts pm' = reservedPorts pm"
proof -
  have ref: "ref = ctxNext pm" and pm': "pm' = snd (newCtx name now pm)"
    using assms(2) by (auto simp: newCtx_def)
  have none: "ctxStore pm ref = None"
    using assms(1) ref unfolding portInv_def ctxOk_def by (meson less_irrefl not_Some_eq)
  show "portInv A pm'"
    using assms(1) none ref unfolding portInv_defs pm' newCtx_def
    by (auto simp: less_Suc_eq) (metis option.distinct(1))+
  show "ctxStore pm' ref = Some \<lparr> ProxyName = name, Port = 0, Closed = False, UpdateTime = now \<rparr>"
    and "usedPorts pm' = usedPorts pm" and "freePorts pm' = freePorts pm"
    and "reservedPorts pm' = reservedPorts pm"
    using assms(2) by (auto simp: newCtx_def)
  show "\<forall>p. usedPorts pm' p \<noteq> Some ref" and "\<forall>n. reservedPorts pm' n \<noteq> Some ref"
    using assms(1) none unfolding portInv_defs pm' newCtx_def by fastforce+
qed

text \<open>Taking a port of the allowed set for a fresh context keeps the invariant.\<close>

lemma takePort_inv:
  assumes inv: "portInv A pm" and p: "p \<in> A"
    and c: "ctxStore pm ref = Some c" "ProxyName c = name" "\<not> Closed c"
    and fresh: "\<forall>q. usedPorts pm q \<noteq> Some ref" "\<forall>n. reservedPorts pm n \<noteq> Some ref"
  shows "portInv A (setPort ref p (takePort name ref p pm))"
  using assms unfolding portInv_defs setPort_def takePort_def
  by (auto split: if_splits)

lemma setPort_same:
  "ctxStore pm ref = Some c \<Longrightarrow> Port c = p \<Longrightarrow> setPort ref p pm = pm"
  by (auto simp: setPort_def fun_upd_idem)

lemma tryRandom_Some: "tryRandom avail n ks = Some k \<Longrightarrow> k \<in> set ks \<and> avail k"
  by (induction avail n ks rule: tryRandom.induct) (auto split: if_splits)

lemma reservedFor_Some:
  assumes "portInv A pm" and "reservedFor avail name pm = Some q"
  shows "q \<in> A" and "avail q"
proof -
  obtain r c where rc: "reservedPorts pm name = Some r" "ctxStore pm r = Some c" "Port c = q" "avail q"
    using assms(2) by (auto simp: reservedFor_def split: option.splits if_splits)
  then show "avail q" by simp
  show "q \<in> A"
    using assms(1) rc(1-3) unfolding portInv_def reservedOk_def by (metis option.inject)
qed

lemma Acquire_inv [go_inv]:
  assumes inv: "portInv A pm" and order: "rangeOrder order pm"
  shows "portInv A (snd (Acquire avail order now name port pm))"
proof -
  obtain ref pm1 where new: "newCtx name now pm = (ref, pm1)" by fastforce
  note n = newCtx_inv [OF inv new]
  have take: "portInv A (setPort ref p (takePort name ref p pm1))" if "p \<in> A" for p
    by (rule takePort_inv [OF n(1) that n(2)]) (simp_all add: n(3,4))
  have zero: "takePort name ref 0 pm1 = setPort ref 0 (takePort name ref 0 pm1)"
    by (rule setPort_same [symmetric, of _ _
          "\<lparr> ProxyName = name, Port = 0, Closed = False, UpdateTime = now \<rparr>"])
       (simp_all add: takePort_def n(2))
  note res = reservedFor_Some(1) [OF n(1)]
  have rnd: "k \<in> A" if "tryRandom avail 0 order = Some k" for k
    using tryRandom_Some [OF that] order inv by (auto simp: rangeOrder_def portInv_def)
  have free: "p \<in> A" if "p \<in> freePorts pm1" for p
    using that n(1) by (auto simp: portInv_def)
  show ?thesis
    unfolding Acquire_def new
    using take [of 0] zero
    by (auto simp: n(1) take res rnd free split: option.split dest: rnd)
qed

lemma Release_inv [go_inv]:
  assumes inv: "portInv A pm" shows "portInv A (Release now port pm)"
proof (cases "usedPorts pm port")
  case None
  then show ?thesis using inv by (simp add: Release_def)
next
  case (Some r)
  obtain c where c: "ctxStore pm r = Some c" "Port c = port"
    using inv Some unfolding portInv_def usedOk_def by blast
  have other: "usedPorts pm q \<noteq> Some r" if "q \<noteq> port" for q
    using that inv c unfolding portInv_def usedOk_def by fastforce
  show ?thesis
    using inv Some c other unfolding portInv_defs Release_def
    by (auto split: if_splits) fastforce
qed

lemma cleanReservedPorts_inv [go_inv]:
  "portInv A pm \<Longrightarrow> portInv A (cleanReservedPorts now pm)"
  unfolding portInv_defs cleanReservedPorts_def
  by (auto split: option.splits if_splits)

lemma portApply_inv [go_inv]: "portInv A pm \<Longrightarrow> eventOk e pm \<Longrightarrow> portInv A (portApply e pm)"
  by (cases e) (auto intro: go_inv)

lemma reachable_inv: "portReachable A pm \<Longrightarrow> portInv (allowed A) pm"
  by (induction rule: portReachable.induct) (auto intro: go_inv)

section \<open>The manager as a pool of ports\<close>

text \<open>
  The environment of a call of \<open>Acquire\<close>. The operating system refuses to listen on a port that
  a proxy listens on (\<^verbatim>\<open>EADDRINUSE\<close> of \<^verbatim>\<open>net.Listen\<close>).
\<close>

type_synonym port_env = "(int \<Rightarrow> bool) \<times> int list \<times> int"

fun portEnvOk :: "port_env \<Rightarrow> port_manager \<Rightarrow> bool" where
  "portEnvOk (avail, order, now) pm \<longleftrightarrow>
     rangeOrder order pm \<and> (\<forall>p. usedPorts pm p \<noteq> None \<longrightarrow> \<not> avail p)"

fun acquireIn :: "port_env \<Rightarrow> string \<Rightarrow> int \<Rightarrow> port_manager \<Rightarrow> (port_error, int) result \<times> port_manager"
where
  "acquireIn (avail, order, now) name port pm = Acquire avail order now name port pm"

definition poolInv :: "int set \<Rightarrow> port_manager \<Rightarrow> bool" where
  "poolInv A pm \<longleftrightarrow> portInv A pm \<and> 0 \<notin> A"

text \<open>The three ways a call succeeds.\<close>

lemma Acquire_InrE:
  assumes "Acquire avail order now name port pm = (Inr p, pm')"
    and "newCtx name now pm = (ref, pm1)"
  obtains (reserved) "port = 0" "reservedFor avail name pm1 = Some p"
      "pm' = setPort ref p (takePort name ref p pm1)"
    | (random) "port = 0" "tryRandom avail 0 order = Some p" "p \<noteq> 0"
      "pm' = setPort ref p (takePort name ref p pm1)"
    | (given) "port = p" "p \<noteq> 0" "p \<in> freePorts pm1" "avail p"
      "pm' = setPort ref p (takePort name ref p pm1)"
  using assms unfolding Acquire_def by (auto split: option.splits if_splits)

lemma Acquire_free:
  assumes inv: "portInv A pm" and order: "rangeOrder order pm"
    and os: "\<And>p. usedPorts pm p \<noteq> None \<Longrightarrow> \<not> avail p"
    and acq: "Acquire avail order now name port pm = (Inr p, pm')"
  shows "p \<in> freePorts pm \<and> usedPorts pm' = (usedPorts pm)(p \<mapsto> ctxNext pm)
       \<and> freePorts pm' = freePorts pm - {p} \<and> (port \<noteq> 0 \<longrightarrow> p = port) \<and> avail p"
proof -
  obtain ref pm1 where new: "newCtx name now pm = (ref, pm1)" by fastforce
  note n = newCtx_inv [OF inv new]
  have ref: "ref = ctxNext pm" using new by (auto simp: newCtx_def)
  have take: "usedPorts (setPort r q (takePort nm r q pm1)) = (usedPorts pm)(q \<mapsto> r)"
    "freePorts (setPort r q (takePort nm r q pm1)) = freePorts pm - {q}" for r q nm
    by (simp_all add: setPort_def takePort_def n(5,6))
  from acq new show ?thesis
  proof (cases rule: Acquire_InrE)
    case reserved
    note r = reservedFor_Some [OF n(1) reserved(2)]
    have "usedPorts pm p = None" using os r(2) by blast
    with r(1) inv have "p \<in> freePorts pm" by (auto simp: portInv_def)
    then show ?thesis using reserved(1,3) r(2) by (simp add: take ref)
  next
    case random
    then show ?thesis
      using tryRandom_Some [OF random(2)] order by (simp add: take ref rangeOrder_def)
  next
    case given
    then show ?thesis by (simp add: take ref n(6))
  qed
qed

lemma Acquire_error:
  assumes inv: "portInv A pm" and order: "rangeOrder order pm" and z: "0 \<notin> A"
    and acq: "Acquire avail order now name port pm = (Inl e, pm')"
  shows "usedPorts pm' = usedPorts pm \<and> freePorts pm' = freePorts pm
       \<and> reservedPorts pm' = reservedPorts pm"
proof -
  obtain ref pm1 where new: "newCtx name now pm = (ref, pm1)" by fastforce
  note n = newCtx_inv [OF inv new]
  have "tryRandom avail 0 order \<noteq> Some 0"
    using tryRandom_Some [of avail 0 order 0] order inv z by (auto simp: rangeOrder_def portInv_def)
  then show ?thesis
    using acq n(5-7) unfolding Acquire_def new by (auto split: option.splits if_splits)
qed

lemma acquireIn_poolInv [go_inv]:
  "poolInv A pm \<Longrightarrow> portEnvOk env pm \<Longrightarrow> poolInv A (snd (acquireIn env name port pm))"
  by (cases env) (auto simp: poolInv_def intro: go_inv)

lemma Release_poolInv [go_inv]: "poolInv A pm \<Longrightarrow> poolInv A (Release now port pm)"
  by (auto simp: poolInv_def intro: go_inv)

lemma Release_used:
  "usedPorts pm p \<noteq> None \<Longrightarrow> usedPorts (Release now p pm) = (usedPorts pm)(p := None)
     \<and> freePorts (Release now p pm) = insert p (freePorts pm)"
  by (auto simp: Release_def)

lemma Release_unused: "usedPorts pm p = None \<Longrightarrow> Release now p pm = pm"
  by (simp add: Release_def)

interpretation ports: port_pool acquireIn Release "\<lambda>pm. dom (usedPorts pm)" freePorts "poolInv A" portEnvOk
  for A
proof
  fix s env name port p s'
  assume h: "poolInv A s" "portEnvOk env s" "acquireIn env name port s = (Inr p, s')"
  show "p \<in> freePorts s \<and> dom (usedPorts s') = insert p (dom (usedPorts s)) \<and>
        freePorts s' = freePorts s - {p} \<and> (port \<noteq> 0 \<longrightarrow> p = port)"
  proof -
    obtain avail order now where env: "env = (avail, order, now)" by (cases env) auto
    show ?thesis
      using Acquire_free [of A s order avail now name port p s'] h by (simp add: env poolInv_def)
  qed
next
  fix s env name port e s'
  assume h: "poolInv A s" "portEnvOk env s" "acquireIn env name port s = (Inl e, s')"
  show "dom (usedPorts s') = dom (usedPorts s) \<and> freePorts s' = freePorts s"
  proof -
    obtain avail order now where env: "env = (avail, order, now)" by (cases env) auto
    show ?thesis
      using Acquire_error [of A s order avail now name port e s'] h by (simp add: env poolInv_def)
  qed
next
  fix s p now
  assume "poolInv A s" "p \<in> dom (usedPorts s)"
  then show "dom (usedPorts (Release now p s)) = dom (usedPorts s) - {p} \<and>
      freePorts (Release now p s) = insert p (freePorts s)"
    using Release_used [of s p now] by (auto split: if_splits)
next
  fix s
  assume "poolInv A s"
  then show "dom (usedPorts s) \<inter> freePorts s = {}" by (auto simp: poolInv_def portInv_def)
next
  fix s :: port_manager and p now
  assume "p \<notin> dom (usedPorts s)"
  then show "Release now p s = s" by (simp add: Release_unused domIff)
qed (auto intro: go_inv)

section \<open>Reservations\<close>

text \<open>
  A proxy that asks for a random port gets the port it had before, for 24 hours: \<open>sticky\<close> says
  that the reservation of \<open>name\<close> still leads to a context with port \<open>p\<close> written at time
  \<open>t\<close> or later.
\<close>

fun portRun :: "port_event list \<Rightarrow> port_manager \<Rightarrow> port_manager" where
  "portRun [] pm = pm"
| "portRun (e # es) pm = portRun es (portApply e pm)"

fun quietFor :: "string \<Rightarrow> int \<Rightarrow> port_event \<Rightarrow> bool" where
  "quietFor name t (EvAcquire avail order now n port) = (n \<noteq> name)"
| "quietFor name t (EvRelease now port) = (t \<le> now)"
| "quietFor name t (EvClean now) = (now - t \<le> MaxPortReservedDuration)"

definition sticky :: "string \<Rightarrow> int \<Rightarrow> int \<Rightarrow> port_manager \<Rightarrow> bool" where
  "sticky name p t pm \<longleftrightarrow> (\<exists>r c. reservedPorts pm name = Some r \<and> r < ctxNext pm \<and>
     ctxStore pm r = Some c \<and> Port c = p \<and> t \<le> UpdateTime c)"

lemma newCtx_sticky: "newCtx n now pm = (ref, pm1) \<Longrightarrow> sticky name p t pm \<Longrightarrow> sticky name p t pm1"
  unfolding sticky_def newCtx_def by fastforce

lemma takePort_sticky:
  assumes "sticky name p t pm" and "n \<noteq> name" and "\<forall>m. reservedPorts pm m \<noteq> Some ref"
  shows "sticky name p t (setPort ref k (takePort n ref k pm))" "sticky name p t (takePort n ref k pm)"
  using assms unfolding sticky_def setPort_def takePort_def by (auto split: option.splits)

lemma Acquire_sticky:
  assumes "sticky name p t pm" and "n \<noteq> name"
  shows "sticky name p t (snd (Acquire avail order now n port pm))"
proof -
  obtain ref pm1 where new: "newCtx n now pm = (ref, pm1)" by fastforce
  obtain r c where r: "reservedPorts pm name = Some r" "r < ctxNext pm" "ctxStore pm r = Some c"
      "Port c = p" "t \<le> UpdateTime c"
    using assms(1) by (auto simp: sticky_def)
  have pm1: "reservedPorts pm1 name = Some r" "r < ctxNext pm1" "ctxStore pm1 r = Some c" "r \<noteq> ref"
    using new r by (auto simp: newCtx_def)
  have keep: "sticky name p t (setPort ref k (takePort n ref k pm1))"
    "sticky name p t (takePort n ref k pm1)" "sticky name p t pm1" for k
    using pm1 r(4,5) assms(2) unfolding sticky_def setPort_def takePort_def
    by (auto split: option.splits)
  show ?thesis
    unfolding Acquire_def new using keep by (auto split: option.split)
qed

lemma portApply_sticky:
  "sticky name p t pm \<Longrightarrow> quietFor name t e \<Longrightarrow> sticky name p t (portApply e pm)"
proof (cases e)
  case (EvAcquire avail order now n port)
  then show "sticky name p t pm \<Longrightarrow> quietFor name t e \<Longrightarrow> ?thesis"
    by (simp add: Acquire_sticky)
next
  case (EvRelease now port)
  then show "sticky name p t pm \<Longrightarrow> quietFor name t e \<Longrightarrow> ?thesis"
    by (auto simp: sticky_def Release_def split: option.splits)
next
  case (EvClean now)
  then show "sticky name p t pm \<Longrightarrow> quietFor name t e \<Longrightarrow> ?thesis"
    by (auto simp: sticky_def cleanReservedPorts_def expired_def split: option.splits)
qed

lemma portRun_sticky:
  "sticky name p t pm \<Longrightarrow> list_all (quietFor name t) es \<Longrightarrow> sticky name p t (portRun es pm)"
  by (induction es arbitrary: pm) (auto intro: portApply_sticky)

lemma Acquire_makes_sticky:
  assumes "Acquire avail order t name port pm = (Inr p, pm')"
  shows "sticky name p t pm'"
proof -
  obtain ref pm1 where new: "newCtx name t pm = (ref, pm1)" by fastforce
  have "sticky name p t (setPort ref p (takePort name ref p pm1))"
    using new by (auto simp: sticky_def setPort_def takePort_def newCtx_def)
  with assms new show ?thesis by (auto elim!: Acquire_InrE)
qed

lemma sticky_reserved:
  assumes "sticky name p t pm" and "avail p" and "newCtx n now pm = (ref, pm1)"
  shows "reservedFor avail name pm1 = Some p"
  using newCtx_sticky [OF assms(3,1)] assms(2) by (auto simp: sticky_def reservedFor_def)

section \<open>Properties\<close>

text \<open>
  C15: in every state reachable through calls of Acquire, Release and the cleaning worker, the free
  and the used ports are disjoint and together are exactly the allowed ports (all of 1 to 65535 when
  none are configured): no call loses a port or invents one.
\<close>
theorem ports_conserved:
  assumes "portReachable allowPorts pm"
  shows "freePorts pm \<union> dom (usedPorts pm) = allowed allowPorts \<and> freePorts pm \<inter> dom (usedPorts pm) = {}"
  using reachable_inv [OF assms] by (simp add: portInv_def)

theorem ports_conserved_witness:
  "usedPorts (portApply (EvAcquire (\<lambda>_. True) [7000] 5 ''web'' 7000) (NewManager ''tcp'' ''::'' {7000})) 7000
     = Some 0 \<and>
   freePorts (portApply (EvAcquire (\<lambda>_. True) [7000] 5 ''web'' 7000) (NewManager ''tcp'' ''::'' {7000}))
     \<union> dom (usedPorts (portApply (EvAcquire (\<lambda>_. True) [7000] 5 ''web'' 7000)
              (NewManager ''tcp'' ''::'' {7000}))) = allowed {7000}"
proof -
  let ?pm = "portApply (EvAcquire (\<lambda>_. True) [7000] 5 ''web'' 7000) (NewManager ''tcp'' ''::'' {7000})"
  have "portReachable {7000} ?pm"
    by (rule portReachable.step [OF portReachable.start]) (simp add: rangeOrder_def NewManager_def)
  note r = ports_conserved [OF this]
  have "usedPorts ?pm 7000 = Some 0" by (simp add: port_defs Let_def)
  with r show ?thesis by blast
qed

text \<open>
  When the operating system grants no port that a proxy holds, a successful Acquire hands out a
  port that was free and in nobody's use, marks it used, and, when a port was asked for, that very
  port; the other ports keep their state.
\<close>
lemma acquire_exclusive:
  assumes "portReachable allowPorts pm" and "0 \<notin> allowPorts" and "portEnvOk env pm"
    and "acquireIn env name port pm = (Inr p, pm')"
  shows "p \<in> freePorts pm \<and> p \<notin> dom (usedPorts pm) \<and> dom (usedPorts pm') = insert p (dom (usedPorts pm))
       \<and> freePorts pm' = freePorts pm - {p} \<and> (port \<noteq> 0 \<longrightarrow> p = port)"
proof -
  have "poolInv (allowed allowPorts) pm"
    using reachable_inv [OF assms(1)] assms(2) by (auto simp: poolInv_def allowed_def MinPort_def)
  then show ?thesis
    using ports.acquire_Inr [OF _ assms(3,4)] ports.acquire_fresh [OF _ assms(3,4)] by blast
qed

text \<open>
  Giving a port back with Release after Acquire handed it out restores the used and the free
  ports, whatever the time of the release.
\<close>
lemma acquire_release_roundtrip:
  assumes "portReachable allowPorts pm" and "0 \<notin> allowPorts" and "portEnvOk env pm"
    and "acquireIn env name port pm = (Inr p, pm')"
  shows "dom (usedPorts (Release now p pm')) = dom (usedPorts pm) \<and> freePorts (Release now p pm') = freePorts pm"
proof -
  have "poolInv (allowed allowPorts) pm"
    using reachable_inv [OF assms(1)] assms(2) by (auto simp: poolInv_def allowed_def MinPort_def)
  then show ?thesis using ports.acquire_release [OF _ assms(3,4)] by blast
qed

text \<open>
  Asking for a given port in a reachable state: the error is "already used" exactly for ports a
  proxy holds, "not allowed" exactly for ports outside the allowed set, "unavailable" exactly for free
  ports the operating system refuses, and every other request succeeds with that port.
\<close>
lemma acquire_given_port:
  assumes "portReachable allowPorts pm" and "port \<noteq> 0"
  shows "fst (Acquire avail order now name port pm) =
     (if port \<notin> allowed allowPorts then Inl ErrPortNotAllowed
      else if port \<in> dom (usedPorts pm) then Inl ErrPortAlreadyUsed
      else if avail port then Inr port else Inl ErrPortUnAvailable)"
proof -
  have inv: "freePorts pm \<union> dom (usedPorts pm) = allowed allowPorts" "freePorts pm \<inter> dom (usedPorts pm) = {}"
    using reachable_inv [OF assms(1)] by (auto simp: portInv_def)
  show ?thesis
    using assms(2) inv unfolding Acquire_def newCtx_def by (auto simp: dom_def)
qed

text \<open>
  A proxy name that was given port p at time t gets p again from a request for a random port, if
  the operating system grants it: whatever other names acquire and however often ports are released
  in between, provided the cleaning worker only ran within 24 hours of t.
\<close>
lemma reserved_port_sticky:
  assumes "Acquire avail order t name port pm = (Inr p, pm1)"
    and "list_all (quietFor name t) es" and "avail' p"
  shows "fst (Acquire avail' order' t' name 0 (portRun es pm1)) = Inr p"
proof -
  have "sticky name p t (portRun es pm1)"
    by (rule portRun_sticky [OF Acquire_makes_sticky [OF assms(1)] assms(2)])
  moreover obtain ref pm2 where "newCtx name t' (portRun es pm1) = (ref, pm2)" by fastforce
  ultimately show ?thesis
    using sticky_reserved [of name p t _ avail'] assms(3) by (simp add: Acquire_def)
qed

end
