(* ===== verification/ProxyConf.thy ===== *)
theory ProxyConf
  imports Interfaces GoStrings "HOL-Library.Finite_Map"
begin

text \<open>
  The configuration of a proxy, \<^verbatim>\<open>pkg/config/proxy.go\<close>, \<^verbatim>\<open>types.go\<close> and
  \<^verbatim>\<open>utils.go\<close>: its eight types, how a client reads one from its file and sends it
  to the server (\<open>MarshalToMsg\<close>), how the server rebuilds it from the message
  (\<open>UnmarshalFromMsg\<close>), the checks of both sides, and the comparison that decides which proxies a
  reload restarts.

  Parameters: the mapping of a section of the file to the fields of a configuration, which a library
  does, and the floating-point product by which a bandwidth is turned into bytes.
\<close>

section \<open>Maps and slices\<close>

text \<open>A map or a slice of Go may be nil, which \<open>reflect.DeepEqual\<close> tells from an empty one.\<close>

type_synonym go_map = "(string, string) fmap option"
type_synonym go_slice = "string list option"

definition elems :: "go_slice \<Rightarrow> string list" where
  "elems s = (case s of None \<Rightarrow> [] | Some xs \<Rightarrow> xs)"

definition GetMapWithoutPrefix :: "(string \<times> string) list \<Rightarrow> string \<Rightarrow> go_map" where
  "GetMapWithoutPrefix kvs prefix =
     (let m = [(drop (length prefix) k, v). (k, v) \<leftarrow> kvs, hasPrefix k prefix] in
      if m = [] then None else Some (fmap_of_list m))"

definition GetMapByPrefix :: "(string \<times> string) list \<Rightarrow> string \<Rightarrow> go_map" where
  "GetMapByPrefix kvs prefix =
     (let m = [(k, v). (k, v) \<leftarrow> kvs, hasPrefix k prefix] in if m = [] then None else Some (fmap_of_list m))"

section \<open>Bandwidth\<close>

record bandwidth =
  bw_s :: string
  bw_i :: int

text \<open>
  \<open>floatBytes f base\<close> is \<open>int64(f * float64(base))\<close> for the number that \<open>strconv.ParseFloat\<close> reads
  from the text, or its error.
\<close>

type_synonym float_bytes = "string \<Rightarrow> int \<Rightarrow> (string, int) result"

definition MB :: int where "MB = 1024 * 1024"
definition KB :: int where "KB = 1024"

definition UnmarshalString :: "float_bytes \<Rightarrow> string \<Rightarrow> bandwidth \<Rightarrow> (string, bandwidth) result" where
  "UnmarshalString floatBytes s0 q =
     (let s = trimSpace s0 in
      if s = [] then Inr q
      else if hasSuffix s ''MB'' then
        (case floatBytes (take (length s - 2) s) MB of Inl e \<Rightarrow> Inl e | Inr n \<Rightarrow> Inr \<lparr> bw_s = s, bw_i = n \<rparr>)
      else if hasSuffix s ''KB'' then
        (case floatBytes (take (length s - 2) s) KB of Inl e \<Rightarrow> Inl e | Inr n \<Rightarrow> Inr \<lparr> bw_s = s, bw_i = n \<rparr>)
      else Inl ''unit not support'')"

definition zeroBandwidth :: bandwidth where "zeroBandwidth = \<lparr> bw_s = [], bw_i = 0 \<rparr>"

definition NewBandwidthQuantity :: "float_bytes \<Rightarrow> string \<Rightarrow> (string, bandwidth) result" where
  "NewBandwidthQuantity floatBytes s = UnmarshalString floatBytes s zeroBandwidth"

definition bwEqual :: "bandwidth \<Rightarrow> bandwidth \<Rightarrow> bool" where
  "bwEqual q u \<longleftrightarrow> bw_i q = bw_i u"

section \<open>Configurations\<close>

record local_svr =
  LocalIP :: string
  LocalPort :: int
  Plugin :: string
  PluginParams :: go_map

record health_check =
  HealthCheckType :: string
  HealthCheckTimeoutS :: int
  HealthCheckMaxFailed :: int
  HealthCheckIntervalS :: int
  HealthCheckURL :: string
  HealthCheckAddr :: string

record base_conf =
  ProxyName :: string
  ProxyType :: string
  UseEncryption :: bool
  UseCompression :: bool
  Group :: string
  GroupKey :: string
  ProxyProtocolVersion :: string
  BandwidthLimit :: bandwidth
  Metas :: go_map
  localSvr :: local_svr
  healthCheck :: health_check

record domain_conf =
  CustomDomains :: go_slice
  SubDomain :: string

record http_opts =
  Locations :: go_slice
  HTTPUser :: string
  HTTPPwd :: string
  HostHeaderRewrite :: string
  Headers :: go_map
  RouteByHTTPUser :: string

text \<open>
  The eight structs. The arguments after the common part are the remote port; the domains and the other
  fields of \<open>http\<close>; the domains, the routing user and the multiplexer of \<open>tcpmux\<close>; the role and
  the secret key.
\<close>

datatype proxy_conf =
    TCPProxyConf base_conf int
  | TCPMuxProxyConf base_conf domain_conf string string
  | UDPProxyConf base_conf int
  | HTTPProxyConf base_conf domain_conf http_opts
  | HTTPSProxyConf base_conf domain_conf
  | STCPProxyConf base_conf string string
  | XTCPProxyConf base_conf string string
  | SUDPProxyConf base_conf string string

fun GetBaseInfo :: "proxy_conf \<Rightarrow> base_conf" where
  "GetBaseInfo (TCPProxyConf b p) = b"
| "GetBaseInfo (TCPMuxProxyConf b d u m) = b"
| "GetBaseInfo (UDPProxyConf b p) = b"
| "GetBaseInfo (HTTPProxyConf b d h) = b"
| "GetBaseInfo (HTTPSProxyConf b d) = b"
| "GetBaseInfo (STCPProxyConf b r k) = b"
| "GetBaseInfo (XTCPProxyConf b r k) = b"
| "GetBaseInfo (SUDPProxyConf b r k) = b"

text \<open>The update of the common part through the pointer that \<open>GetBaseInfo\<close> returns.\<close>

fun updBase :: "base_conf \<Rightarrow> proxy_conf \<Rightarrow> proxy_conf" where
  "updBase b (TCPProxyConf _ p) = TCPProxyConf b p"
| "updBase b (TCPMuxProxyConf _ d u m) = TCPMuxProxyConf b d u m"
| "updBase b (UDPProxyConf _ p) = UDPProxyConf b p"
| "updBase b (HTTPProxyConf _ d h) = HTTPProxyConf b d h"
| "updBase b (HTTPSProxyConf _ d) = HTTPSProxyConf b d"
| "updBase b (STCPProxyConf _ r k) = STCPProxyConf b r k"
| "updBase b (XTCPProxyConf _ r k) = XTCPProxyConf b r k"
| "updBase b (SUDPProxyConf _ r k) = SUDPProxyConf b r k"

section \<open>Defaults\<close>

definition zeroHealth :: health_check where
  "zeroHealth = \<lparr> HealthCheckType = [], HealthCheckTimeoutS = 0, HealthCheckMaxFailed = 0,
     HealthCheckIntervalS = 0, HealthCheckURL = [], HealthCheckAddr = [] \<rparr>"

definition defaultBaseProxyConf :: "string \<Rightarrow> base_conf" where
  "defaultBaseProxyConf proxyType = \<lparr> ProxyName = [], ProxyType = proxyType, UseEncryption = False,
     UseCompression = False, Group = [], GroupKey = [], ProxyProtocolVersion = [],
     BandwidthLimit = zeroBandwidth, Metas = None,
     localSvr = \<lparr> LocalIP = ''127.0.0.1'', LocalPort = 0, Plugin = [], PluginParams = None \<rparr>,
     healthCheck = zeroHealth \<rparr>"

definition zeroDomain :: domain_conf where "zeroDomain = \<lparr> CustomDomains = None, SubDomain = [] \<rparr>"
definition zeroHttp :: http_opts where
  "zeroHttp = \<lparr> Locations = None, HTTPUser = [], HTTPPwd = [], HostHeaderRewrite = [], Headers = None,
     RouteByHTTPUser = [] \<rparr>"

definition DefaultProxyConf :: "string \<Rightarrow> proxy_conf option" where
  "DefaultProxyConf ty =
     (let b = defaultBaseProxyConf ty in
      if ty = ''tcp'' then Some (TCPProxyConf b 0)
      else if ty = ''tcpmux'' then Some (TCPMuxProxyConf b zeroDomain [] [])
      else if ty = ''udp'' then Some (UDPProxyConf b 0)
      else if ty = ''http'' then Some (HTTPProxyConf b zeroDomain zeroHttp)
      else if ty = ''https'' then Some (HTTPSProxyConf b zeroDomain)
      else if ty = ''stcp'' then Some (STCPProxyConf b ''server'' [])
      else if ty = ''xtcp'' then Some (XTCPProxyConf b ''server'' [])
      else if ty = ''sudp'' then Some (SUDPProxyConf b ''server'' [])
      else None)"

section \<open>Messages\<close>

record new_proxy =
  np_ProxyName :: string
  np_ProxyType :: string
  np_UseEncryption :: bool
  np_UseCompression :: bool
  np_Group :: string
  np_GroupKey :: string
  np_Metas :: go_map
  np_RemotePort :: int
  np_CustomDomains :: go_slice
  np_SubDomain :: string
  np_Locations :: go_slice
  np_HTTPUser :: string
  np_HTTPPwd :: string
  np_HostHeaderRewrite :: string
  np_Headers :: go_map
  np_RouteByHTTPUser :: string
  np_Sk :: string
  np_Multiplexer :: string

definition emptyMsg :: new_proxy where
  "emptyMsg = \<lparr> np_ProxyName = [], np_ProxyType = [], np_UseEncryption = False, np_UseCompression = False,
     np_Group = [], np_GroupKey = [], np_Metas = None, np_RemotePort = 0, np_CustomDomains = None,
     np_SubDomain = [], np_Locations = None, np_HTTPUser = [], np_HTTPPwd = [], np_HostHeaderRewrite = [],
     np_Headers = None, np_RouteByHTTPUser = [], np_Sk = [], np_Multiplexer = [] \<rparr>"

text \<open>
  On the wire a field that is empty is omitted, as its tags say, and the receiver's field is then the
  zero value of its type: an empty map or slice arrives as nil.
\<close>

definition omitMap :: "go_map \<Rightarrow> go_map" where
  "omitMap m = (if m = Some fmempty then None else m)"

definition omitSlice :: "go_slice \<Rightarrow> go_slice" where
  "omitSlice s = (if s = Some [] then None else s)"

definition wire :: "new_proxy \<Rightarrow> new_proxy" where
  "wire m = m\<lparr> np_Metas := omitMap (np_Metas m), np_CustomDomains := omitSlice (np_CustomDomains m),
     np_Locations := omitSlice (np_Locations m), np_Headers := omitMap (np_Headers m) \<rparr>"

definition marshalBase :: "base_conf \<Rightarrow> new_proxy \<Rightarrow> new_proxy" where
  "marshalBase b m = m\<lparr> np_ProxyName := ProxyName b, np_ProxyType := ProxyType b,
     np_UseEncryption := UseEncryption b, np_UseCompression := UseCompression b, np_Group := Group b,
     np_GroupKey := GroupKey b, np_Metas := Metas b \<rparr>"

definition unmarshalBase :: "new_proxy \<Rightarrow> base_conf \<Rightarrow> base_conf" where
  "unmarshalBase m b = b\<lparr> ProxyName := np_ProxyName m, ProxyType := np_ProxyType m,
     UseEncryption := np_UseEncryption m, UseCompression := np_UseCompression m, Group := np_Group m,
     GroupKey := np_GroupKey m, Metas := np_Metas m \<rparr>"

definition TCP_MarshalToMsg :: "base_conf \<Rightarrow> int \<Rightarrow> new_proxy \<Rightarrow> new_proxy" where
  "TCP_MarshalToMsg b p m = (marshalBase b m)\<lparr> np_RemotePort := p \<rparr>"

definition TCPMux_MarshalToMsg :: "base_conf \<Rightarrow> domain_conf \<Rightarrow> string \<Rightarrow> string \<Rightarrow> new_proxy \<Rightarrow> new_proxy" where
  "TCPMux_MarshalToMsg b d u x m = (marshalBase b m)\<lparr> np_CustomDomains := CustomDomains d,
     np_SubDomain := SubDomain d, np_Multiplexer := x, np_RouteByHTTPUser := u \<rparr>"

definition UDP_MarshalToMsg :: "base_conf \<Rightarrow> int \<Rightarrow> new_proxy \<Rightarrow> new_proxy" where
  "UDP_MarshalToMsg b p m = (marshalBase b m)\<lparr> np_RemotePort := p \<rparr>"

definition HTTP_MarshalToMsg :: "base_conf \<Rightarrow> domain_conf \<Rightarrow> http_opts \<Rightarrow> new_proxy \<Rightarrow> new_proxy" where
  "HTTP_MarshalToMsg b d h m = (marshalBase b m)\<lparr> np_CustomDomains := CustomDomains d,
     np_SubDomain := SubDomain d, np_Locations := Locations h, np_HostHeaderRewrite := HostHeaderRewrite h,
     np_HTTPUser := HTTPUser h, np_HTTPPwd := HTTPPwd h, np_Headers := Headers h,
     np_RouteByHTTPUser := RouteByHTTPUser h \<rparr>"

definition HTTPS_MarshalToMsg :: "base_conf \<Rightarrow> domain_conf \<Rightarrow> new_proxy \<Rightarrow> new_proxy" where
  "HTTPS_MarshalToMsg b d m = (marshalBase b m)\<lparr> np_CustomDomains := CustomDomains d,
     np_SubDomain := SubDomain d \<rparr>"

definition STCP_MarshalToMsg :: "base_conf \<Rightarrow> string \<Rightarrow> string \<Rightarrow> new_proxy \<Rightarrow> new_proxy" where
  "STCP_MarshalToMsg b r k m = (marshalBase b m)\<lparr> np_Sk := k \<rparr>"

definition XTCP_MarshalToMsg :: "base_conf \<Rightarrow> string \<Rightarrow> string \<Rightarrow> new_proxy \<Rightarrow> new_proxy" where
  "XTCP_MarshalToMsg b r k m = (marshalBase b m)\<lparr> np_Sk := k \<rparr>"

definition SUDP_MarshalToMsg :: "base_conf \<Rightarrow> string \<Rightarrow> string \<Rightarrow> new_proxy \<Rightarrow> new_proxy" where
  "SUDP_MarshalToMsg b r k m = (marshalBase b m)\<lparr> np_Sk := k \<rparr>"

fun MarshalToMsg :: "proxy_conf \<Rightarrow> new_proxy \<Rightarrow> new_proxy" where
  "MarshalToMsg (TCPProxyConf b p) m = TCP_MarshalToMsg b p m"
| "MarshalToMsg (TCPMuxProxyConf b d u x) m = TCPMux_MarshalToMsg b d u x m"
| "MarshalToMsg (UDPProxyConf b p) m = UDP_MarshalToMsg b p m"
| "MarshalToMsg (HTTPProxyConf b d h) m = HTTP_MarshalToMsg b d h m"
| "MarshalToMsg (HTTPSProxyConf b d) m = HTTPS_MarshalToMsg b d m"
| "MarshalToMsg (STCPProxyConf b r k) m = STCP_MarshalToMsg b r k m"
| "MarshalToMsg (XTCPProxyConf b r k) m = XTCP_MarshalToMsg b r k m"
| "MarshalToMsg (SUDPProxyConf b r k) m = SUDP_MarshalToMsg b r k m"

definition TCP_UnmarshalFromMsg :: "new_proxy \<Rightarrow> base_conf \<Rightarrow> int \<Rightarrow> proxy_conf" where
  "TCP_UnmarshalFromMsg m b p = TCPProxyConf (unmarshalBase m b) (np_RemotePort m)"

definition TCPMux_UnmarshalFromMsg :: "new_proxy \<Rightarrow> base_conf \<Rightarrow> domain_conf \<Rightarrow> string \<Rightarrow> string \<Rightarrow> proxy_conf" where
  "TCPMux_UnmarshalFromMsg m b d u x = TCPMuxProxyConf (unmarshalBase m b)
     \<lparr> CustomDomains = np_CustomDomains m, SubDomain = np_SubDomain m \<rparr> (np_RouteByHTTPUser m) (np_Multiplexer m)"

definition UDP_UnmarshalFromMsg :: "new_proxy \<Rightarrow> base_conf \<Rightarrow> int \<Rightarrow> proxy_conf" where
  "UDP_UnmarshalFromMsg m b p = UDPProxyConf (unmarshalBase m b) (np_RemotePort m)"

definition HTTP_UnmarshalFromMsg :: "new_proxy \<Rightarrow> base_conf \<Rightarrow> domain_conf \<Rightarrow> http_opts \<Rightarrow> proxy_conf" where
  "HTTP_UnmarshalFromMsg m b d h = HTTPProxyConf (unmarshalBase m b)
     \<lparr> CustomDomains = np_CustomDomains m, SubDomain = np_SubDomain m \<rparr>
     \<lparr> Locations = np_Locations m, HTTPUser = np_HTTPUser m, HTTPPwd = np_HTTPPwd m,
       HostHeaderRewrite = np_HostHeaderRewrite m, Headers = np_Headers m,
       RouteByHTTPUser = np_RouteByHTTPUser m \<rparr>"

definition HTTPS_UnmarshalFromMsg :: "new_proxy \<Rightarrow> base_conf \<Rightarrow> domain_conf \<Rightarrow> proxy_conf" where
  "HTTPS_UnmarshalFromMsg m b d = HTTPSProxyConf (unmarshalBase m b)
     \<lparr> CustomDomains = np_CustomDomains m, SubDomain = np_SubDomain m \<rparr>"

definition STCP_UnmarshalFromMsg :: "new_proxy \<Rightarrow> base_conf \<Rightarrow> string \<Rightarrow> string \<Rightarrow> proxy_conf" where
  "STCP_UnmarshalFromMsg m b r k = STCPProxyConf (unmarshalBase m b) r (np_Sk m)"

definition XTCP_UnmarshalFromMsg :: "new_proxy \<Rightarrow> base_conf \<Rightarrow> string \<Rightarrow> string \<Rightarrow> proxy_conf" where
  "XTCP_UnmarshalFromMsg m b r k = XTCPProxyConf (unmarshalBase m b) r (np_Sk m)"

definition SUDP_UnmarshalFromMsg :: "new_proxy \<Rightarrow> base_conf \<Rightarrow> string \<Rightarrow> string \<Rightarrow> proxy_conf" where
  "SUDP_UnmarshalFromMsg m b r k = SUDPProxyConf (unmarshalBase m b) r (np_Sk m)"

fun UnmarshalFromMsg :: "new_proxy \<Rightarrow> proxy_conf \<Rightarrow> proxy_conf" where
  "UnmarshalFromMsg m (TCPProxyConf b p) = TCP_UnmarshalFromMsg m b p"
| "UnmarshalFromMsg m (TCPMuxProxyConf b d u x) = TCPMux_UnmarshalFromMsg m b d u x"
| "UnmarshalFromMsg m (UDPProxyConf b p) = UDP_UnmarshalFromMsg m b p"
| "UnmarshalFromMsg m (HTTPProxyConf b d h) = HTTP_UnmarshalFromMsg m b d h"
| "UnmarshalFromMsg m (HTTPSProxyConf b d) = HTTPS_UnmarshalFromMsg m b d"
| "UnmarshalFromMsg m (STCPProxyConf b r k) = STCP_UnmarshalFromMsg m b r k"
| "UnmarshalFromMsg m (XTCPProxyConf b r k) = XTCP_UnmarshalFromMsg m b r k"
| "UnmarshalFromMsg m (SUDPProxyConf b r k) = SUDP_UnmarshalFromMsg m b r k"

section \<open>Checks\<close>

datatype conf_error =
    InvalidType string string
  | BadProtocolVersion string
  | LocalIpOrPluginRequired
  | BadLocalPort
  | BadHealthCheckType
  | HealthCheckUrlRequired
  | NoDomain
  | DomainBelongsToHost string string
  | SubdomainNotEnabled
  | SubdomainChars
  | DomainCheck string conf_error
  | BadMultiplexer string
  | TCPMuxPortUnset string
  | VhostHTTPUnset
  | VhostHTTPSUnset
  | RoleNotServer
  | IniError string

text \<open>The part of the server's own configuration (\<open>ServerCommonConf\<close>) that the model reads.\<close>

record server_conf =
  BindPort :: int
  BindUDPPort :: int
  KCPBindPort :: int
  VhostHTTPPort :: int
  VhostHTTPSPort :: int
  TCPMuxHTTPConnectPort :: int
  SubDomainHost :: string
  MaxPoolCount :: int
  MaxPortsPerClient :: int
  HeartbeatTimeout :: int

definition orElse :: "conf_error option \<Rightarrow> conf_error option \<Rightarrow> conf_error option" where
  "orElse a b = (case a of None \<Rightarrow> b | Some e \<Rightarrow> Some e)"

definition localCheck :: "local_svr \<Rightarrow> conf_error option" where
  "localCheck l =
     (if Plugin l = [] then
        if LocalIP l = [] then Some LocalIpOrPluginRequired
        else if LocalPort l \<le> 0 then Some BadLocalPort else None
      else None)"

definition healthCheckForCli :: "health_check \<Rightarrow> conf_error option" where
  "healthCheckForCli h =
     (if HealthCheckType h \<noteq> [] \<and> HealthCheckType h \<noteq> ''tcp'' \<and> HealthCheckType h \<noteq> ''http''
      then Some BadHealthCheckType
      else if HealthCheckType h \<noteq> [] \<and> HealthCheckType h = ''http'' \<and> HealthCheckURL h = []
      then Some HealthCheckUrlRequired else None)"

definition baseCheckForCli :: "base_conf \<Rightarrow> conf_error option" where
  "baseCheckForCli b =
     (if ProxyProtocolVersion b \<noteq> [] \<and> ProxyProtocolVersion b \<noteq> ''v1'' \<and> ProxyProtocolVersion b \<noteq> ''v2''
      then Some (BadProtocolVersion (ProxyProtocolVersion b))
      else orElse (localCheck (localSvr b)) (healthCheckForCli (healthCheck b)))"

definition domainCheck :: "domain_conf \<Rightarrow> conf_error option" where
  "domainCheck d = (if elems (CustomDomains d) = [] \<and> SubDomain d = [] then Some NoDomain else None)"

definition belongs :: "string \<Rightarrow> string \<Rightarrow> bool" where
  "belongs host domain \<longleftrightarrow> host \<noteq> [] \<and> length (goSplit CHR ''.'' host) < length (goSplit CHR ''.'' domain) \<and>
     goContains domain host"

fun firstBelonging :: "string \<Rightarrow> string list \<Rightarrow> conf_error option" where
  "firstBelonging host [] = None"
| "firstBelonging host (d # ds) =
     (if belongs host d then Some (DomainBelongsToHost d host) else firstBelonging host ds)"

definition domainCheckForSvr :: "server_conf \<Rightarrow> domain_conf \<Rightarrow> conf_error option" where
  "domainCheckForSvr sc d =
     orElse (domainCheck d)
       (orElse (firstBelonging (SubDomainHost sc) (elems (CustomDomains d)))
         (if SubDomain d \<noteq> [] then
            if SubDomainHost sc = [] then Some SubdomainNotEnabled
            else if goContains (SubDomain d) ''.'' \<or> goContains (SubDomain d) ''*'' then Some SubdomainChars
            else None
          else None))"

definition roleCheck :: "string \<Rightarrow> conf_error option" where
  "roleCheck r = (if r \<noteq> ''server'' then Some RoleNotServer else None)"

definition TCP_CheckForCli :: "base_conf \<Rightarrow> int \<Rightarrow> conf_error option" where
  "TCP_CheckForCli b p = baseCheckForCli b"

definition TCPMux_CheckForCli :: "base_conf \<Rightarrow> domain_conf \<Rightarrow> string \<Rightarrow> string \<Rightarrow> conf_error option" where
  "TCPMux_CheckForCli b d u x =
     orElse (baseCheckForCli b) (orElse (domainCheck d)
       (if x \<noteq> ''httpconnect'' then Some (BadMultiplexer x) else None))"

definition UDP_CheckForCli :: "base_conf \<Rightarrow> int \<Rightarrow> conf_error option" where
  "UDP_CheckForCli b p = baseCheckForCli b"

definition HTTP_CheckForCli :: "base_conf \<Rightarrow> domain_conf \<Rightarrow> http_opts \<Rightarrow> conf_error option" where
  "HTTP_CheckForCli b d h = orElse (baseCheckForCli b) (domainCheck d)"

definition HTTPS_CheckForCli :: "base_conf \<Rightarrow> domain_conf \<Rightarrow> conf_error option" where
  "HTTPS_CheckForCli b d = orElse (baseCheckForCli b) (domainCheck d)"

definition STCP_CheckForCli :: "base_conf \<Rightarrow> string \<Rightarrow> string \<Rightarrow> conf_error option" where
  "STCP_CheckForCli b r k = orElse (baseCheckForCli b) (roleCheck r)"

definition XTCP_CheckForCli :: "base_conf \<Rightarrow> string \<Rightarrow> string \<Rightarrow> conf_error option" where
  "XTCP_CheckForCli b r k = orElse (baseCheckForCli b) (roleCheck r)"

definition SUDP_CheckForCli :: "base_conf \<Rightarrow> string \<Rightarrow> string \<Rightarrow> conf_error option" where
  "SUDP_CheckForCli b r k = orElse (baseCheckForCli b) (roleCheck r)"

fun CheckForCli :: "proxy_conf \<Rightarrow> conf_error option" where
  "CheckForCli (TCPProxyConf b p) = TCP_CheckForCli b p"
| "CheckForCli (TCPMuxProxyConf b d u x) = TCPMux_CheckForCli b d u x"
| "CheckForCli (UDPProxyConf b p) = UDP_CheckForCli b p"
| "CheckForCli (HTTPProxyConf b d h) = HTTP_CheckForCli b d h"
| "CheckForCli (HTTPSProxyConf b d) = HTTPS_CheckForCli b d"
| "CheckForCli (STCPProxyConf b r k) = STCP_CheckForCli b r k"
| "CheckForCli (XTCPProxyConf b r k) = XTCP_CheckForCli b r k"
| "CheckForCli (SUDPProxyConf b r k) = SUDP_CheckForCli b r k"

definition namedDomainCheck :: "server_conf \<Rightarrow> base_conf \<Rightarrow> domain_conf \<Rightarrow> conf_error option" where
  "namedDomainCheck sc b d = map_option (DomainCheck (ProxyName b)) (domainCheckForSvr sc d)"

definition TCP_CheckForSvr :: "server_conf \<Rightarrow> base_conf \<Rightarrow> int \<Rightarrow> conf_error option" where
  "TCP_CheckForSvr sc b p = None"

definition TCPMux_CheckForSvr :: "server_conf \<Rightarrow> base_conf \<Rightarrow> domain_conf \<Rightarrow> string \<Rightarrow> string \<Rightarrow> conf_error option" where
  "TCPMux_CheckForSvr sc b d u x =
     (if x \<noteq> ''httpconnect'' then Some (BadMultiplexer x)
      else if x = ''httpconnect'' \<and> TCPMuxHTTPConnectPort sc = 0 then Some (TCPMuxPortUnset (ProxyName b))
      else namedDomainCheck sc b d)"

definition UDP_CheckForSvr :: "server_conf \<Rightarrow> base_conf \<Rightarrow> int \<Rightarrow> conf_error option" where
  "UDP_CheckForSvr sc b p = None"

definition HTTP_CheckForSvr :: "server_conf \<Rightarrow> base_conf \<Rightarrow> domain_conf \<Rightarrow> http_opts \<Rightarrow> conf_error option" where
  "HTTP_CheckForSvr sc b d h =
     (if VhostHTTPPort sc = 0 then Some VhostHTTPUnset else namedDomainCheck sc b d)"

definition HTTPS_CheckForSvr :: "server_conf \<Rightarrow> base_conf \<Rightarrow> domain_conf \<Rightarrow> conf_error option" where
  "HTTPS_CheckForSvr sc b d =
     (if VhostHTTPSPort sc = 0 then Some VhostHTTPSUnset else namedDomainCheck sc b d)"

definition STCP_CheckForSvr :: "server_conf \<Rightarrow> base_conf \<Rightarrow> string \<Rightarrow> string \<Rightarrow> conf_error option" where
  "STCP_CheckForSvr sc b r k = None"

definition XTCP_CheckForSvr :: "server_conf \<Rightarrow> base_conf \<Rightarrow> string \<Rightarrow> string \<Rightarrow> conf_error option" where
  "XTCP_CheckForSvr sc b r k = None"

definition SUDP_CheckForSvr :: "server_conf \<Rightarrow> base_conf \<Rightarrow> string \<Rightarrow> string \<Rightarrow> conf_error option" where
  "SUDP_CheckForSvr sc b r k = None"

fun CheckForSvr :: "server_conf \<Rightarrow> proxy_conf \<Rightarrow> conf_error option" where
  "CheckForSvr sc (TCPProxyConf b p) = TCP_CheckForSvr sc b p"
| "CheckForSvr sc (TCPMuxProxyConf b d u x) = TCPMux_CheckForSvr sc b d u x"
| "CheckForSvr sc (UDPProxyConf b p) = UDP_CheckForSvr sc b p"
| "CheckForSvr sc (HTTPProxyConf b d h) = HTTP_CheckForSvr sc b d h"
| "CheckForSvr sc (HTTPSProxyConf b d) = HTTPS_CheckForSvr sc b d"
| "CheckForSvr sc (STCPProxyConf b r k) = STCP_CheckForSvr sc b r k"
| "CheckForSvr sc (XTCPProxyConf b r k) = XTCP_CheckForSvr sc b r k"
| "CheckForSvr sc (SUDPProxyConf b r k) = SUDP_CheckForSvr sc b r k"

section \<open>Comparison\<close>

definition compareBase :: "base_conf \<Rightarrow> base_conf \<Rightarrow> bool" where
  "compareBase a b \<longleftrightarrow>
     \<not> (ProxyName a \<noteq> ProxyName b \<or> ProxyType a \<noteq> ProxyType b \<or> UseEncryption a \<noteq> UseEncryption b \<or>
        UseCompression a \<noteq> UseCompression b \<or> Group a \<noteq> Group b \<or> GroupKey a \<noteq> GroupKey b \<or>
        ProxyProtocolVersion a \<noteq> ProxyProtocolVersion b \<or> \<not> bwEqual (BandwidthLimit a) (BandwidthLimit b) \<or>
        Metas a \<noteq> Metas b) \<and>
     localSvr a = localSvr b \<and> healthCheck a = healthCheck b"

definition TCP_Compare :: "base_conf \<Rightarrow> int \<Rightarrow> proxy_conf \<Rightarrow> bool" where
  "TCP_Compare b p c = (case c of
     TCPProxyConf b' p' \<Rightarrow> compareBase b b' \<and> p = p' | _ \<Rightarrow> False)"

definition TCPMux_Compare :: "base_conf \<Rightarrow> domain_conf \<Rightarrow> string \<Rightarrow> string \<Rightarrow> proxy_conf \<Rightarrow> bool" where
  "TCPMux_Compare b d u x c = (case c of
     TCPMuxProxyConf b' d' u' x' \<Rightarrow> compareBase b b' \<and> d = d' \<and> \<not> (x \<noteq> x' \<or> u \<noteq> u') | _ \<Rightarrow> False)"

definition UDP_Compare :: "base_conf \<Rightarrow> int \<Rightarrow> proxy_conf \<Rightarrow> bool" where
  "UDP_Compare b p c = (case c of
     UDPProxyConf b' p' \<Rightarrow> compareBase b b' \<and> p = p' | _ \<Rightarrow> False)"

definition HTTP_Compare :: "base_conf \<Rightarrow> domain_conf \<Rightarrow> http_opts \<Rightarrow> proxy_conf \<Rightarrow> bool" where
  "HTTP_Compare b d h c = (case c of
     HTTPProxyConf b' d' h' \<Rightarrow> compareBase b b' \<and> d = d' \<and>
       \<not> (Locations h \<noteq> Locations h' \<or> HTTPUser h \<noteq> HTTPUser h' \<or> HTTPPwd h \<noteq> HTTPPwd h' \<or>
          HostHeaderRewrite h \<noteq> HostHeaderRewrite h' \<or> RouteByHTTPUser h \<noteq> RouteByHTTPUser h' \<or>
          Headers h \<noteq> Headers h')
   | _ \<Rightarrow> False)"

definition HTTPS_Compare :: "base_conf \<Rightarrow> domain_conf \<Rightarrow> proxy_conf \<Rightarrow> bool" where
  "HTTPS_Compare b d c = (case c of
     HTTPSProxyConf b' d' \<Rightarrow> compareBase b b' \<and> d = d' | _ \<Rightarrow> False)"

definition STCP_Compare :: "base_conf \<Rightarrow> string \<Rightarrow> string \<Rightarrow> proxy_conf \<Rightarrow> bool" where
  "STCP_Compare b r k c = (case c of
     STCPProxyConf b' r' k' \<Rightarrow> compareBase b b' \<and> \<not> (r \<noteq> r' \<or> k \<noteq> k') | _ \<Rightarrow> False)"

definition XTCP_Compare :: "base_conf \<Rightarrow> string \<Rightarrow> string \<Rightarrow> proxy_conf \<Rightarrow> bool" where
  "XTCP_Compare b r k c = (case c of
     XTCPProxyConf b' r' k' \<Rightarrow> compareBase b b' \<and> \<not> (r \<noteq> r' \<or> k \<noteq> k') | _ \<Rightarrow> False)"

definition SUDP_Compare :: "base_conf \<Rightarrow> string \<Rightarrow> string \<Rightarrow> proxy_conf \<Rightarrow> bool" where
  "SUDP_Compare b r k c = (case c of
     SUDPProxyConf b' r' k' \<Rightarrow> compareBase b b' \<and> \<not> (r \<noteq> r' \<or> k \<noteq> k') | _ \<Rightarrow> False)"

fun Compare :: "proxy_conf \<Rightarrow> proxy_conf \<Rightarrow> bool" where
  "Compare (TCPProxyConf b p) c = TCP_Compare b p c"
| "Compare (TCPMuxProxyConf b d u x) c = TCPMux_Compare b d u x c"
| "Compare (UDPProxyConf b p) c = UDP_Compare b p c"
| "Compare (HTTPProxyConf b d h) c = HTTP_Compare b d h c"
| "Compare (HTTPSProxyConf b d) c = HTTPS_Compare b d c"
| "Compare (STCPProxyConf b r k) c = STCP_Compare b r k c"
| "Compare (XTCPProxyConf b r k) c = XTCP_Compare b r k c"
| "Compare (SUDPProxyConf b r k) c = SUDP_Compare b r k c"

section \<open>Loading\<close>

text \<open>
  A section of the file is its list of keys and values. \<open>decorate\<close> completes the common part after
  the library has mapped the keys to the fields; \<open>mapTo\<close> stands for that mapping.
\<close>

type_synonym ini_section = "(string \<times> string) list"
type_synonym ini_map = "ini_section \<Rightarrow> proxy_conf \<Rightarrow> (string, proxy_conf) result"

definition healthAddr :: "base_conf \<Rightarrow> health_check \<Rightarrow> health_check" where
  "healthAddr b h = (let l = localSvr b in
     if HealthCheckType h = ''tcp'' \<and> Plugin l = []
     then h\<lparr> HealthCheckAddr := LocalIP l @ '':'' @ showInt (LocalPort l) \<rparr> else h)"

definition healthUrl :: "base_conf \<Rightarrow> health_check \<Rightarrow> health_check" where
  "healthUrl b h = (let l = localSvr b in
     if HealthCheckType h = ''http'' \<and> Plugin l = [] \<and> HealthCheckURL h \<noteq> []
     then h\<lparr> HealthCheckURL := ''http://'' @ LocalIP l @ '':'' @ showInt (LocalPort l) @
            (if hasPrefix (HealthCheckURL h) ''/'' then [] else ''/'') @ HealthCheckURL h \<rparr> else h)"

definition decorate :: "float_bytes \<Rightarrow> string \<Rightarrow> string \<Rightarrow> ini_section \<Rightarrow> base_conf \<Rightarrow> (string, base_conf) result" where
  "decorate floatBytes prefix name sec b0 =
     (let b1 = b0\<lparr> ProxyName := prefix @ name, Metas := GetMapWithoutPrefix sec ''meta_'' \<rparr>;
          bw = (case map_of sec ''bandwidth_limit'' of None \<Rightarrow> Inr (BandwidthLimit b1)
                | Some s \<Rightarrow> NewBandwidthQuantity floatBytes s) in
      case bw of Inl e \<Rightarrow> Inl e
      | Inr q \<Rightarrow>
          let b2 = b1\<lparr> BandwidthLimit := q,
                       localSvr := (localSvr b1)\<lparr> PluginParams := GetMapByPrefix sec ''plugin_'' \<rparr> \<rparr> in
          Inr (b2\<lparr> healthCheck := healthUrl b2 (healthAddr b2 (healthCheck b2)) \<rparr>))"

definition preUnmarshalFromIni ::
  "ini_map \<Rightarrow> float_bytes \<Rightarrow> string \<Rightarrow> string \<Rightarrow> ini_section \<Rightarrow> proxy_conf \<Rightarrow> (string, proxy_conf) result" where
  "preUnmarshalFromIni mapTo floatBytes prefix name sec c =
     (case mapTo sec c of Inl e \<Rightarrow> Inl e
      | Inr c' \<Rightarrow> (case decorate floatBytes prefix name sec (GetBaseInfo c') of
          Inl e \<Rightarrow> Inl e | Inr b \<Rightarrow> Inr (updBase b c')))"

definition HTTP_afterIni :: "ini_section \<Rightarrow> base_conf \<Rightarrow> domain_conf \<Rightarrow> http_opts \<Rightarrow> proxy_conf" where
  "HTTP_afterIni sec b d h = HTTPProxyConf b d (h\<lparr> Headers := GetMapWithoutPrefix sec ''header_'' \<rparr>)"

definition STCP_afterIni :: "base_conf \<Rightarrow> string \<Rightarrow> string \<Rightarrow> proxy_conf" where
  "STCP_afterIni b r k = STCPProxyConf b (if r = [] then ''server'' else r) k"

definition XTCP_afterIni :: "base_conf \<Rightarrow> string \<Rightarrow> string \<Rightarrow> proxy_conf" where
  "XTCP_afterIni b r k = XTCPProxyConf b (if r = [] then ''server'' else r) k"

fun afterIni :: "ini_section \<Rightarrow> proxy_conf \<Rightarrow> proxy_conf" where
  "afterIni sec (HTTPProxyConf b d h) = HTTP_afterIni sec b d h"
| "afterIni sec (STCPProxyConf b r k) = STCP_afterIni b r k"
| "afterIni sec (XTCPProxyConf b r k) = XTCP_afterIni b r k"
| "afterIni sec c = c"

definition UnmarshalFromIni ::
  "ini_map \<Rightarrow> float_bytes \<Rightarrow> string \<Rightarrow> string \<Rightarrow> ini_section \<Rightarrow> proxy_conf \<Rightarrow> (string, proxy_conf) result" where
  "UnmarshalFromIni mapTo floatBytes prefix name sec c =
     (case preUnmarshalFromIni mapTo floatBytes prefix name sec c of
        Inl e \<Rightarrow> Inl e | Inr c' \<Rightarrow> Inr (afterIni sec c'))"

definition NewProxyConfFromIni ::
  "ini_map \<Rightarrow> float_bytes \<Rightarrow> string \<Rightarrow> string \<Rightarrow> ini_section \<Rightarrow> (conf_error, proxy_conf) result" where
  "NewProxyConfFromIni mapTo floatBytes prefix name sec =
     (let ty0 = (case map_of sec ''type'' of None \<Rightarrow> [] | Some t \<Rightarrow> t);
          ty = (if ty0 = [] then ''tcp'' else ty0) in
      case DefaultProxyConf ty of None \<Rightarrow> Inl (InvalidType name ty)
      | Some c \<Rightarrow> (case UnmarshalFromIni mapTo floatBytes prefix name sec c of
          Inl e \<Rightarrow> Inl (IniError e)
        | Inr c' \<Rightarrow> (case CheckForCli c' of Some e \<Rightarrow> Inl e | None \<Rightarrow> Inr c')))"

definition NewProxyConfFromMsg :: "new_proxy \<Rightarrow> server_conf \<Rightarrow> (conf_error, proxy_conf) result" where
  "NewProxyConfFromMsg m0 sc =
     (let m = (if np_ProxyType m0 = [] then m0\<lparr> np_ProxyType := ''tcp'' \<rparr> else m0) in
      case DefaultProxyConf (np_ProxyType m) of
        None \<Rightarrow> Inl (InvalidType (np_ProxyName m) (np_ProxyType m))
      | Some c \<Rightarrow> let c' = UnmarshalFromMsg m c in
          (case CheckForSvr sc c' of Some e \<Rightarrow> Inl e | None \<Rightarrow> Inr c'))"

lemmas method_defs [go_defs, simp] =
  HTTP_afterIni_def STCP_afterIni_def XTCP_afterIni_def TCP_MarshalToMsg_def TCPMux_MarshalToMsg_def UDP_MarshalToMsg_def HTTP_MarshalToMsg_def
  HTTPS_MarshalToMsg_def STCP_MarshalToMsg_def XTCP_MarshalToMsg_def SUDP_MarshalToMsg_def
  TCP_UnmarshalFromMsg_def TCPMux_UnmarshalFromMsg_def UDP_UnmarshalFromMsg_def HTTP_UnmarshalFromMsg_def
  HTTPS_UnmarshalFromMsg_def STCP_UnmarshalFromMsg_def XTCP_UnmarshalFromMsg_def SUDP_UnmarshalFromMsg_def
  TCP_CheckForCli_def TCPMux_CheckForCli_def UDP_CheckForCli_def HTTP_CheckForCli_def
  HTTPS_CheckForCli_def STCP_CheckForCli_def XTCP_CheckForCli_def SUDP_CheckForCli_def TCP_CheckForSvr_def
  TCPMux_CheckForSvr_def UDP_CheckForSvr_def HTTP_CheckForSvr_def HTTPS_CheckForSvr_def
  STCP_CheckForSvr_def XTCP_CheckForSvr_def SUDP_CheckForSvr_def TCP_Compare_def TCPMux_Compare_def
  UDP_Compare_def HTTP_Compare_def HTTPS_Compare_def STCP_Compare_def XTCP_Compare_def SUDP_Compare_def

lemmas conf_defs [go_defs] =
  wire_def marshalBase_def unmarshalBase_def defaultBaseProxyConf_def zeroBandwidth_def zeroHealth_def
  zeroDomain_def zeroHttp_def omitMap_def omitSlice_def orElse_def

section \<open>What the server sees of a configuration\<close>

fun typeName :: "proxy_conf \<Rightarrow> string" where
  "typeName (TCPProxyConf b p) = ''tcp''"
| "typeName (TCPMuxProxyConf b d u x) = ''tcpmux''"
| "typeName (UDPProxyConf b p) = ''udp''"
| "typeName (HTTPProxyConf b d h) = ''http''"
| "typeName (HTTPSProxyConf b d) = ''https''"
| "typeName (STCPProxyConf b r k) = ''stcp''"
| "typeName (XTCPProxyConf b r k) = ''xtcp''"
| "typeName (SUDPProxyConf b r k) = ''sudp''"

definition wellTyped :: "proxy_conf \<Rightarrow> bool" where
  "wellTyped c \<longleftrightarrow> ProxyType (GetBaseInfo c) = typeName c"

text \<open>
  The specification of the message: every field that concerns the server arrives, an empty map or slice
  as nil; the fields of the client (its local service, its health check, its bandwidth, the version of
  the PROXY protocol) have their defaults, and the role is always that of a server.
\<close>

definition serverBase :: "base_conf \<Rightarrow> base_conf" where
  "serverBase b = (defaultBaseProxyConf (ProxyType b))\<lparr> ProxyName := ProxyName b,
     UseEncryption := UseEncryption b, UseCompression := UseCompression b, Group := Group b,
     GroupKey := GroupKey b, Metas := omitMap (Metas b) \<rparr>"

definition serverDomain :: "domain_conf \<Rightarrow> domain_conf" where
  "serverDomain d = \<lparr> CustomDomains = omitSlice (CustomDomains d), SubDomain = SubDomain d \<rparr>"

fun serverView :: "proxy_conf \<Rightarrow> proxy_conf" where
  "serverView (TCPProxyConf b p) = TCPProxyConf (serverBase b) p"
| "serverView (TCPMuxProxyConf b d u x) = TCPMuxProxyConf (serverBase b) (serverDomain d) u x"
| "serverView (UDPProxyConf b p) = UDPProxyConf (serverBase b) p"
| "serverView (HTTPProxyConf b d h) = HTTPProxyConf (serverBase b) (serverDomain d)
     \<lparr> Locations = omitSlice (Locations h), HTTPUser = HTTPUser h, HTTPPwd = HTTPPwd h,
       HostHeaderRewrite = HostHeaderRewrite h, Headers = omitMap (Headers h), RouteByHTTPUser = RouteByHTTPUser h \<rparr>"
| "serverView (HTTPSProxyConf b d) = HTTPSProxyConf (serverBase b) (serverDomain d)"
| "serverView (STCPProxyConf b r k) = STCPProxyConf (serverBase b) ''server'' k"
| "serverView (XTCPProxyConf b r k) = XTCPProxyConf (serverBase b) ''server'' k"
| "serverView (SUDPProxyConf b r k) = SUDPProxyConf (serverBase b) ''server'' k"

text \<open>The configuration without the text of its bandwidth, of which only the number is compared.\<close>

definition withoutBwText :: "proxy_conf \<Rightarrow> proxy_conf" where
  "withoutBwText c = updBase ((GetBaseInfo c)\<lparr> BandwidthLimit := \<lparr> bw_s = [], bw_i = bw_i (BandwidthLimit (GetBaseInfo c)) \<rparr> \<rparr>) c"

lemma compareBase_iff:
  "compareBase a b \<longleftrightarrow> a\<lparr> BandwidthLimit := \<lparr> bw_s = [], bw_i = bw_i (BandwidthLimit a) \<rparr> \<rparr> =
     b\<lparr> BandwidthLimit := \<lparr> bw_s = [], bw_i = bw_i (BandwidthLimit b) \<rparr> \<rparr>"
  by (cases a; cases b) (auto simp: compareBase_def bwEqual_def)

lemma orElse_None [simp]: "orElse a b = None \<longleftrightarrow> a = None \<and> b = None"
  by (simp add: orElse_def split: option.split)

lemma firstBelonging_None: "firstBelonging host ds = None \<longleftrightarrow> list_all (\<lambda>d. \<not> belongs host d) ds"
  by (induction ds) auto

lemma domainCheckForSvr_None:
  "domainCheckForSvr sc d = None \<longleftrightarrow>
     (elems (CustomDomains d) \<noteq> [] \<or> SubDomain d \<noteq> []) \<and>
     list_all (\<lambda>x. \<not> belongs (SubDomainHost sc) x) (elems (CustomDomains d)) \<and>
     (SubDomain d = [] \<or> SubDomainHost sc \<noteq> [] \<and> CHR ''.'' \<notin> set (SubDomain d) \<and> CHR ''*'' \<notin> set (SubDomain d))"
  by (auto simp: domainCheckForSvr_def domainCheck_def firstBelonging_None goContains_char)

lemma belongs_subdomain:
  assumes "host \<noteq> []" shows "belongs host (sub @ CHR ''.'' # host)"
  using assms goContains_middle [of "sub @ ''.''" host "[]"]
  by (simp add: belongs_def goSplit_length)

text \<open>The domains a configuration asks for, if it has any.\<close>

fun domainOf :: "proxy_conf \<Rightarrow> domain_conf option" where
  "domainOf (TCPMuxProxyConf b d u x) = Some d"
| "domainOf (HTTPProxyConf b d h) = Some d"
| "domainOf (HTTPSProxyConf b d) = Some d"
| "domainOf _ = None"

lemma accepted_domain:
  assumes "NewProxyConfFromMsg m sc = Inr c" and "domainOf c = Some d"
  shows "domainCheckForSvr sc d = None"
proof -
  have "CheckForSvr sc c = None"
    using assms(1) by (auto simp: NewProxyConfFromMsg_def Let_def split: option.splits)
  then show ?thesis
    using assms(2) by (cases c) (auto simp: namedDomainCheck_def split: if_splits)
qed

lemma marshal_type: "np_ProxyType (wire (MarshalToMsg c m)) = ProxyType (GetBaseInfo c)"
  by (cases c) (simp_all add: wire_def marshalBase_def)

lemma typeName_nonempty: "typeName c \<noteq> []"
  by (cases c) simp_all

lemma unmarshalBase_default:
  "unmarshalBase (wire (m\<lparr> np_ProxyName := ProxyName b, np_ProxyType := ty, np_UseEncryption := UseEncryption b,
     np_UseCompression := UseCompression b, np_Group := Group b, np_GroupKey := GroupKey b, np_Metas := Metas b \<rparr>))
     (defaultBaseProxyConf ty) = (serverBase b)\<lparr> ProxyType := ty \<rparr>"
  by (simp add: unmarshalBase_def wire_def serverBase_def defaultBaseProxyConf_def)

lemma unmarshal_marshal:
  assumes "wellTyped c"
  shows "\<exists>d. DefaultProxyConf (ProxyType (GetBaseInfo c)) = Some d \<and>
    UnmarshalFromMsg (wire (MarshalToMsg c emptyMsg)) d = serverView c"
  using assms
  by (cases c)
     (auto simp: wellTyped_def DefaultProxyConf_def unmarshalBase_def wire_def marshalBase_def emptyMsg_def
      serverBase_def serverDomain_def defaultBaseProxyConf_def Let_def)

section \<open>Properties\<close>


definition sampleConf :: proxy_conf where
  "sampleConf = HTTPProxyConf ((defaultBaseProxyConf ''http'')\<lparr> ProxyName := ''web'', Metas := Some fmempty \<rparr>)
     \<lparr> CustomDomains = Some [''www.example.com''], SubDomain = [] \<rparr> (zeroHttp\<lparr> HTTPUser := ''u'' \<rparr>)"

definition sampleServer :: server_conf where
  "sampleServer = \<lparr> BindPort = 7000, BindUDPPort = 0, KCPBindPort = 0, VhostHTTPPort = 80, VhostHTTPSPort = 0,
     TCPMuxHTTPConnectPort = 0, SubDomainHost = ''frp.org'', MaxPoolCount = 5, MaxPortsPerClient = 0,
     HeartbeatTimeout = 90 \<rparr>"


text \<open>
  A reload finds two configurations equal exactly when they are of the same type and agree in every
  field, the bandwidth by its number of bytes; so a proxy is restarted for every change that matters.
\<close>
lemma compare_is_equality:
  "Compare a b \<longleftrightarrow> withoutBwText a = withoutBwText b"
proof -
  have http: "Locations h = Locations h' \<and> HTTPUser h = HTTPUser h' \<and> HTTPPwd h = HTTPPwd h' \<and>
      HostHeaderRewrite h = HostHeaderRewrite h' \<and> RouteByHTTPUser h = RouteByHTTPUser h' \<and>
      Headers h = Headers h' \<longleftrightarrow> h = h'" for h h' :: http_opts
    by auto
  show ?thesis
    by (cases a; cases b) (auto simp: withoutBwText_def compareBase_iff http)
qed

text \<open>
  A custom domain that the server accepts is never a sub-domain of its own sub-domain host, whatever
  name a client puts in front of it; and an accepted sub-domain is a single label without a wildcard.
\<close>
lemma accepted_domain_outside_host:
  assumes "NewProxyConfFromMsg m sc = Inr c" and "domainOf c = Some d" and "SubDomainHost sc \<noteq> []"
  shows "sub @ CHR ''.'' # SubDomainHost sc \<notin> set (elems (CustomDomains d)) \<and>
    CHR ''.'' \<notin> set (SubDomain d) \<and> CHR ''*'' \<notin> set (SubDomain d)"
  using accepted_domain [OF assms(1,2)] belongs_subdomain [OF assms(3), of sub]
  by (auto simp: domainCheckForSvr_None list_all_iff)

text \<open>
  The server accepts an http proxy exactly when it has an http port, some domain is given, no custom
  domain belongs to the sub-domain host, and a sub-domain is only used where there is a host for it and
  is a plain label.
\<close>
lemma http_conf_accepted:
  assumes "np_ProxyType m = ''http''"
  shows "is_ok (NewProxyConfFromMsg m sc) \<longleftrightarrow>
    VhostHTTPPort sc \<noteq> 0 \<and> (elems (np_CustomDomains m) \<noteq> [] \<or> np_SubDomain m \<noteq> []) \<and>
    list_all (\<lambda>x. \<not> belongs (SubDomainHost sc) x) (elems (np_CustomDomains m)) \<and>
    (np_SubDomain m = [] \<or> SubDomainHost sc \<noteq> [] \<and> CHR ''.'' \<notin> set (np_SubDomain m) \<and>
      CHR ''*'' \<notin> set (np_SubDomain m))"
  using assms domainCheckForSvr_None [of sc "\<lparr> CustomDomains = np_CustomDomains m, SubDomain = np_SubDomain m \<rparr>"]
  by (auto simp: NewProxyConfFromMsg_def DefaultProxyConf_def namedDomainCheck_def Let_def split: option.splits)

end
