(* ===== verification/JsValue.thy ===== *)
theory JsValue
  imports Decimal
begin

text \<open>
  The JavaScript values the dashboards compute with, and the operators of the language that their
  code applies to them: property access (an error on \<open>undefined\<close> and \<open>null\<close>), the loose
  comparisons with \<open>null\<close>, \<open>0\<close> and \<open>""\<close>, \<open>+\<close>, and the iteration of
  \<open>for (let x of v)\<close>. Numbers are integers, which is what the servers send; the dashboards
  only add, compare and print them, which doubles do exactly up to \<open>2 ^ 53\<close>. A function stored
  in an object is a name, its body is a definition of its own.
\<close>

section \<open>Values\<close>

datatype jsval =
    JUndef
  | JNull
  | JBool bool
  | JNum int
  | JNaN
  | JStr string
  | JArr "jsval list"
  | JObj "(string \<times> jsval) list"
  | JFun string

datatype js_error = TypeError

fun nullish :: "jsval \<Rightarrow> bool" where
  "nullish JUndef = True"
| "nullish JNull = True"
| "nullish _ = False"

fun jsField :: "jsval \<Rightarrow> string \<Rightarrow> jsval" where
  "jsField (JObj fs) k = (case map_of fs k of None \<Rightarrow> JUndef | Some v \<Rightarrow> v)"
| "jsField _ k = JUndef"

definition jsGet :: "jsval \<Rightarrow> string \<Rightarrow> (js_error, jsval) result" where
  "jsGet v k = (if nullish v then Inl TypeError else Inr (jsField v k))"

section \<open>Conversions\<close>

fun jsStrings :: "string \<Rightarrow> string list \<Rightarrow> string" where
  "jsStrings sep [] = []"
| "jsStrings sep [x] = x"
| "jsStrings sep (x # y # xs) = x @ sep @ jsStrings sep (y # xs)"

fun toStr :: "jsval \<Rightarrow> string" where
  "toStr JUndef = ''undefined''"
| "toStr JNull = ''null''"
| "toStr (JBool b) = (if b then ''true'' else ''false'')"
| "toStr (JNum n) = showInt n"
| "toStr JNaN = ''NaN''"
| "toStr (JStr s) = s"
| "toStr (JArr xs) = jsStrings '','' (map (\<lambda>x. if nullish x then [] else toStr x) xs)"
| "toStr (JObj fs) = ''[object Object]''"
| "toStr (JFun f) = f"

fun isString :: "jsval \<Rightarrow> bool" where
  "isString (JStr s) = True"
| "isString (JArr xs) = True"
| "isString (JObj fs) = True"
| "isString (JFun f) = True"
| "isString _ = False"

text \<open>\<open>isString\<close>: the primitive a value is converted to by \<open>+\<close> is a string.\<close>

fun toNum :: "jsval \<Rightarrow> int option" where
  "toNum (JNum n) = Some n"
| "toNum (JBool b) = Some (if b then 1 else 0)"
| "toNum JNull = Some 0"
| "toNum _ = None"

definition jsAdd :: "jsval \<Rightarrow> jsval \<Rightarrow> jsval" where
  "jsAdd a b =
     (if isString a \<or> isString b then JStr (toStr a @ toStr b)
      else case (toNum a, toNum b) of
        (Some m, Some n) \<Rightarrow> JNum (m + n)
      | _ \<Rightarrow> JNaN)"

text \<open>
  A string that converts to the number zero: blank, or a numeral whose digits are all \<open>0\<close>, with a
  sign, a decimal point, an exponent, or a radix prefix. (A numeral below \<open>10 ^ -324\<close> that rounds
  to zero is not one of these; no field of the servers is such a string.)
\<close>

definition blank :: "char \<Rightarrow> bool" where
  "blank c \<longleftrightarrow> c \<in> set [CHR '' '', CHR 0x09, CHR 0x0A, CHR 0x0B, CHR 0x0C, CHR 0x0D]"

definition trim :: "string \<Rightarrow> string" where
  "trim s = rev (dropWhile blank (rev (dropWhile blank s)))"

definition allDigits :: "string \<Rightarrow> bool" where
  "allDigits s \<longleftrightarrow> list_all (\<lambda>c. charDigit c \<noteq> None) s"

fun unsigned :: "string \<Rightarrow> string" where
  "unsigned (c # cs) = (if c = CHR ''+'' \<or> c = CHR ''-'' then cs else c # cs)"
| "unsigned [] = []"

definition zeroMantissa :: "string \<Rightarrow> bool" where
  "zeroMantissa s \<longleftrightarrow> list_all (\<lambda>c. c = CHR ''0'' \<or> c = CHR ''.'') s \<and> CHR ''0'' \<in> set s \<and>
     count_list s (CHR ''.'') \<le> 1"

definition exponentOk :: "string \<Rightarrow> bool" where
  "exponentOk s \<longleftrightarrow> unsigned s \<noteq> [] \<and> allDigits (unsigned s)"

definition isExp :: "char \<Rightarrow> bool" where
  "isExp c \<longleftrightarrow> c = CHR ''e'' \<or> c = CHR ''E''"

definition zeroDecimal :: "string \<Rightarrow> bool" where
  "zeroDecimal s =
     (let m = takeWhile (\<lambda>c. \<not> isExp c) (unsigned s); e = dropWhile (\<lambda>c. \<not> isExp c) (unsigned s) in
      zeroMantissa m \<and> (e = [] \<or> exponentOk (tl e)))"

definition zeroRadix :: "string \<Rightarrow> bool" where
  "zeroRadix s \<longleftrightarrow> take 2 s \<in> set [''0x'', ''0X'', ''0o'', ''0O'', ''0b'', ''0B''] \<and>
     drop 2 s \<noteq> [] \<and> list_all (\<lambda>c. c = CHR ''0'') (drop 2 s)"

definition zeroString :: "string \<Rightarrow> bool" where
  "zeroString s \<longleftrightarrow> trim s = [] \<or> zeroDecimal (trim s) \<or> zeroRadix (trim s)"

text \<open>\<open>v == 0\<close> and \<open>v == ""\<close>; \<open>v == null\<close> is \<open>nullish v\<close>.\<close>

fun eqZero :: "jsval \<Rightarrow> bool" where
  "eqZero JUndef = False"
| "eqZero JNull = False"
| "eqZero (JNum n) = (n = 0)"
| "eqZero (JBool b) = (\<not> b)"
| "eqZero JNaN = False"
| "eqZero v = zeroString (toStr v)"

fun eqEmpty :: "jsval \<Rightarrow> bool" where
  "eqEmpty JUndef = False"
| "eqEmpty JNull = False"
| "eqEmpty (JNum n) = (n = 0)"
| "eqEmpty (JBool b) = (\<not> b)"
| "eqEmpty JNaN = False"
| "eqEmpty v = (toStr v = [])"

section \<open>Iteration\<close>

fun jsIter :: "jsval \<Rightarrow> (js_error, jsval list) result" where
  "jsIter (JArr xs) = Inr xs"
| "jsIter (JStr s) = Inr (map (\<lambda>c. JStr [c]) s)"
| "jsIter _ = Inl TypeError"

text \<open>
  A loop that pushes an object made from each element: an exception of the constructor stops it, and
  the array keeps what was pushed before.
\<close>

fun pushAll :: "(jsval \<Rightarrow> (js_error, 'p) result) \<Rightarrow> jsval list \<Rightarrow> 'p list \<Rightarrow> 'p list \<times> js_error option"
where
  "pushAll mk [] acc = (acc, None)"
| "pushAll mk (x # xs) acc =
     (case mk x of Inl e \<Rightarrow> (acc, Some e) | Inr p \<Rightarrow> pushAll mk xs (acc @ [p]))"

lemma pushAll_ok:
  "list_all (\<lambda>x. \<exists>p. mk x = Inr p) xs \<Longrightarrow> pushAll mk xs acc = (acc @ map (projr \<circ> mk) xs, None)"
  by (induction xs arbitrary: acc) auto

lemma jsAdd_str [simp]: "jsAdd (JStr s) v = JStr (s @ toStr v)"
  by (simp add: jsAdd_def)

lemma jsAdd_num [simp]: "jsAdd (JNum m) (JNum n) = JNum (m + n)"
  by (simp add: jsAdd_def)

end
