(* ===== verification/AdminApi.thy ===== *)
theory AdminApi
  imports ProxyConf JsValue "HOL-Library.Multiset"
begin

text \<open>
  The administration interface of frpc, \<^verbatim>\<open>client/admin_api.go\<close>: the status of the
  proxies, and reading, saving and reloading the configuration file. A handler returns the response it
  writes; the file is part of the state. Rendering the templates of a configuration, parsing it and
  reloading the proxies are parameters of the handlers that use them, as is whether the file can be
  read and written.
\<close>

section \<open>Responses\<close>

record response =
  Code :: int
  Msg :: string

definition okResponse :: response where "okResponse = \<lparr> Code = 200, Msg = [] \<rparr>"

section \<open>Status\<close>

record working_status =
  ws_Name :: string
  ws_Type :: string
  ws_Phase :: string
  ws_Err :: string
  ws_Cfg :: proxy_conf
  ws_RemoteAddr :: string

record status_resp =
  ps_Name :: string
  ps_Type :: string
  ps_Status :: string
  ps_Err :: string
  ps_LocalAddr :: string
  ps_Plugin :: string
  ps_RemoteAddr :: string

definition hostPort :: "string \<Rightarrow> int \<Rightarrow> string" where
  "hostPort host port = host @ '':'' @ showInt port"

definition localAddrOf :: "base_conf \<Rightarrow> string" where
  "localAddrOf b = (let l = localSvr b in if LocalPort l \<noteq> 0 then hostPort (LocalIP l) (LocalPort l) else [])"

definition NewProxyStatusResp :: "working_status \<Rightarrow> string \<Rightarrow> status_resp" where
  "NewProxyStatusResp st serverAddr =
     (let psr = \<lparr> ps_Name = ws_Name st, ps_Type = ws_Type st, ps_Status = ws_Phase st, ps_Err = ws_Err st,
                  ps_LocalAddr = [], ps_Plugin = [], ps_RemoteAddr = [] \<rparr> in
      case ws_Cfg st of
        TCPProxyConf b p \<Rightarrow> psr\<lparr> ps_LocalAddr := localAddrOf b, ps_Plugin := Plugin (localSvr b),
          ps_RemoteAddr := (if ws_Err st \<noteq> [] then hostPort serverAddr p else serverAddr @ ws_RemoteAddr st) \<rparr>
      | UDPProxyConf b p \<Rightarrow> psr\<lparr> ps_LocalAddr := localAddrOf b,
          ps_RemoteAddr := (if ws_Err st \<noteq> [] then hostPort serverAddr p else serverAddr @ ws_RemoteAddr st) \<rparr>
      | HTTPProxyConf b d h \<Rightarrow> psr\<lparr> ps_LocalAddr := localAddrOf b, ps_Plugin := Plugin (localSvr b),
          ps_RemoteAddr := ws_RemoteAddr st \<rparr>
      | HTTPSProxyConf b d \<Rightarrow> psr\<lparr> ps_LocalAddr := localAddrOf b, ps_Plugin := Plugin (localSvr b),
          ps_RemoteAddr := ws_RemoteAddr st \<rparr>
      | STCPProxyConf b r k \<Rightarrow> psr\<lparr> ps_LocalAddr := localAddrOf b, ps_Plugin := Plugin (localSvr b) \<rparr>
      | XTCPProxyConf b r k \<Rightarrow> psr\<lparr> ps_LocalAddr := localAddrOf b, ps_Plugin := Plugin (localSvr b) \<rparr>
      | SUDPProxyConf b r k \<Rightarrow> psr\<lparr> ps_LocalAddr := localAddrOf b, ps_Plugin := Plugin (localSvr b) \<rparr>
      | TCPMuxProxyConf b d u m \<Rightarrow> psr)"

text \<open>\<open>sort.Sort\<close> by name; the names are distinct, so the sorted order is unique.\<close>

fun insertByName :: "status_resp \<Rightarrow> status_resp list \<Rightarrow> status_resp list" where
  "insertByName x [] = [x]"
| "insertByName x (y # ys) = (if strLess (ps_Name y) (ps_Name x) then y # insertByName x ys else x # y # ys)"

definition sortByName :: "status_resp list \<Rightarrow> status_resp list" where
  "sortByName xs = foldr insertByName xs []"

text \<open>The response: one sorted list for each of seven types; a status of another type is dropped.\<close>

definition statusTypes :: "string list" where
  "statusTypes = [''tcp'', ''udp'', ''http'', ''https'', ''stcp'', ''xtcp'', ''sudp'']"

definition ofType :: "string \<Rightarrow> working_status list \<Rightarrow> string \<Rightarrow> status_resp list" where
  "ofType serverAddr ps ty =
     sortByName (map (\<lambda>st. NewProxyStatusResp st serverAddr) (filter (\<lambda>st. ws_Type st = ty) ps))"

definition apiStatus :: "string \<Rightarrow> working_status list \<Rightarrow> (string \<times> status_resp list) list" where
  "apiStatus serverAddr ps = map (\<lambda>ty. (ty, ofType serverAddr ps ty)) statusTypes"

definition statusJson :: "status_resp \<Rightarrow> jsval" where
  "statusJson s = JObj [(''name'', JStr (ps_Name s)), (''type'', JStr (ps_Type s)), (''status'', JStr (ps_Status s)),
     (''err'', JStr (ps_Err s)), (''local_addr'', JStr (ps_LocalAddr s)), (''plugin'', JStr (ps_Plugin s)),
     (''remote_addr'', JStr (ps_RemoteAddr s))]"

definition statusRespJson :: "(string \<times> status_resp list) list \<Rightarrow> jsval" where
  "statusRespJson res = JObj (map (\<lambda>(ty, ss). (ty, JArr (map statusJson ss))) res)"

section \<open>Reload\<close>

definition apiReload :: "(string, 'c) result \<Rightarrow> ('c \<Rightarrow> string option) \<Rightarrow> response" where
  "apiReload parsed reloadConf =
     (case parsed of
        Inl e \<Rightarrow> \<lparr> Code = 400, Msg = e \<rparr>
      | Inr cfgs \<Rightarrow> (case reloadConf cfgs of
          Some e \<Rightarrow> \<lparr> Code = 500, Msg = e \<rparr>
        | None \<Rightarrow> okResponse))"

section \<open>The configuration file\<close>

definition newline :: char where "newline = CHR 0x0A"

definition isTokenRow :: "string \<Rightarrow> bool" where
  "isTokenRow row \<longleftrightarrow> hasPrefix row ''token''"

definition trimmedRows :: "string \<Rightarrow> string list" where
  "trimmedRows content = map trimSpace (goSplit newline content)"

definition withoutToken :: "string \<Rightarrow> string list" where
  "withoutToken content = filter (\<lambda>row. \<not> isTokenRow row) (trimmedRows content)"

definition apiGetConfig :: "string \<Rightarrow> (string, string) result \<Rightarrow> response" where
  "apiGetConfig cfgFile rendered =
     (if cfgFile = [] then \<lparr> Code = 400, Msg = ''frpc has no config file path'' \<rparr>
      else case rendered of
        Inl e \<Rightarrow> \<lparr> Code = 400, Msg = e \<rparr>
      | Inr content \<Rightarrow> \<lparr> Code = 200, Msg = goJoin [newline] (withoutToken content) \<rparr>)"

definition tokenOf :: "string \<Rightarrow> string" where
  "tokenOf content = (case filter isTokenRow (trimmedRows content) of [] \<Rightarrow> [] | t # _ \<Rightarrow> t)"

definition isCommonRow :: "string \<Rightarrow> bool" where
  "isCommonRow row \<longleftrightarrow> hasPrefix row ''[common]''"

definition withToken :: "string \<Rightarrow> string list \<Rightarrow> string list" where
  "withToken token tmpRows =
     (if token \<noteq> [] then concat (map (\<lambda>row. if isCommonRow row then [row, token] else [row]) tmpRows)
      else tmpRows)"

text \<open>The old content of the file may be unreadable; a write may fail, and then the file is unchanged.\<close>

definition apiPutConfig ::
  "(string, string) result \<Rightarrow> (string, string) result \<Rightarrow> string option \<Rightarrow> response \<times> string option" where
  "apiPutConfig readBody oldContent writeError =
     (case readBody of
        Inl e \<Rightarrow> (\<lparr> Code = 400, Msg = ''read request body error: '' @ e \<rparr>, None)
      | Inr body \<Rightarrow>
          if length body = 0 then (\<lparr> Code = 400, Msg = ''body can't be empty'' \<rparr>, None)
          else (case oldContent of
              Inl e \<Rightarrow> (\<lparr> Code = 400, Msg = e \<rparr>, None)
            | Inr content \<Rightarrow>
                let new = goJoin [newline] (withToken (tokenOf content) (withoutToken body)) in
                (case writeError of
                   Some e \<Rightarrow> (\<lparr> Code = 500, Msg = ''write content to frpc config file error: '' @ e \<rparr>, None)
                 | None \<Rightarrow> (okResponse, Some new))))"

lemmas admin_defs [go_defs] = apiGetConfig_def apiPutConfig_def withToken_def withoutToken_def tokenOf_def

section \<open>Lemmas\<close>

lemma mset_insertByName [simp]: "mset (insertByName x xs) = add_mset x (mset xs)"
  by (induction xs) auto

lemma mset_sortByName [simp]: "mset (sortByName xs) = mset xs"
  by (induction xs) (simp_all add: sortByName_def)

lemma set_sortByName [simp]: "set (sortByName xs) = set xs"
  using mset_sortByName [of xs] by (metis set_mset_mset)

definition byName :: "status_resp \<Rightarrow> status_resp \<Rightarrow> bool" where
  "byName x y \<longleftrightarrow> \<not> strLess (ps_Name y) (ps_Name x)"

lemma byName_trans: "byName x y \<Longrightarrow> byName y z \<Longrightarrow> byName x z"
  unfolding byName_def using strLess_trans strLess_linear by metis

lemma set_insertByName [simp]: "set (insertByName x xs) = insert x (set xs)"
  using mset_insertByName [of x xs] by (metis set_mset_add_mset_insert set_mset_mset)

lemma sorted_insertByName: "sorted_wrt byName xs \<Longrightarrow> sorted_wrt byName (insertByName x xs)"
proof (induction xs)
  case (Cons y ys)
  show ?case
  proof (cases "strLess (ps_Name y) (ps_Name x)")
    case True
    then have "byName y x" unfolding byName_def using strLess_trans strLess_irrefl by blast
    then show ?thesis using True Cons by auto
  next
    case False
    then have "byName x y" by (simp add: byName_def)
    then show ?thesis using False Cons byName_trans by auto
  qed
qed simp

lemma sorted_sortByName: "sorted_wrt byName (sortByName xs)"
  by (induction xs) (simp_all add: sortByName_def sorted_insertByName)

lemma trimmedRows_rows: "row \<in> set (trimmedRows s) \<Longrightarrow> newline \<notin> set row \<and> trimSpace row = row"
  unfolding trimmedRows_def using goSplit_no_sep trimSpace_no by fastforce

lemma trimmedRows_goJoin:
  assumes "rows \<noteq> []" and "\<And>row. row \<in> set rows \<Longrightarrow> newline \<notin> set row \<and> trimSpace row = row"
  shows "trimmedRows (goJoin [newline] rows) = rows"
proof -
  have "goSplit newline (goJoin [newline] rows) = rows"
    using assms by (intro goSplit_goJoin) (auto simp: list_all_iff)
  then show ?thesis using assms(2) by (simp add: trimmedRows_def map_idI)
qed

lemma withoutToken_rows: "row \<in> set (withoutToken s) \<Longrightarrow> newline \<notin> set row \<and> trimSpace row = row \<and> \<not> isTokenRow row"
  unfolding withoutToken_def using trimmedRows_rows by auto

lemma tokenOf_row:
  "tokenOf s = [] \<or> newline \<notin> set (tokenOf s) \<and> trimSpace (tokenOf s) = tokenOf s \<and> isTokenRow (tokenOf s)"
proof (cases "filter isTokenRow (trimmedRows s)")
  case Nil
  then show ?thesis by (simp add: tokenOf_def)
next
  case (Cons t ts)
  then have "t \<in> set (filter isTokenRow (trimmedRows s))" by simp
  then have "t \<in> set (trimmedRows s)" "isTokenRow t" by auto
  then show ?thesis using Cons trimmedRows_rows [of t s] by (simp add: tokenOf_def)
qed

lemma withToken_rows:
  "row \<in> set (withToken token rows) \<Longrightarrow> row \<in> set rows \<or> row = token \<and> token \<noteq> []"
  by (auto simp: withToken_def split: if_splits)

lemma withToken_keep:
  assumes "isTokenRow token \<or> token = []" and "\<And>row. row \<in> set rows \<Longrightarrow> \<not> isTokenRow row"
  shows "filter (\<lambda>row. \<not> isTokenRow row) (withToken token rows) = rows"
  using assms(2)
proof (induction rows)
  case (Cons r rs)
  then show ?case using assms(1) by (auto simp: withToken_def)
qed (simp add: withToken_def)

lemma withToken_tokens:
  assumes "isTokenRow token" "token \<noteq> []" and "\<And>row. row \<in> set rows \<Longrightarrow> \<not> isTokenRow row"
  shows "filter isTokenRow (withToken token rows) = replicate (length (filter isCommonRow rows)) token"
  using assms(3)
proof (induction rows)
  case (Cons r rs)
  then show ?case using assms(1,2) by (auto simp: withToken_def)
qed (simp add: withToken_def)

lemma filter_token_none: "(\<And>row. row \<in> set rows \<Longrightarrow> \<not> isTokenRow row) \<Longrightarrow> filter isTokenRow rows = []"
  by (induction rows) auto

text \<open>Saving a text without a row \<open>[common]\<close> removes the token from the file for good.\<close>

lemma put_without_common_loses_token:
  "map_option tokenOf (snd (apiPutConfig (Inr ''[ssh]'') (Inr (''[common]'' @ [newline] @ ''token = x'')) None)) = Some []"
  by code_simp

text \<open>The lists of the status together hold every proxy of the seven types once, each sorted by name.\<close>

lemma all_status:
  "mset (concat (map snd (apiStatus serverAddr ps))) =
     mset (map (\<lambda>st. NewProxyStatusResp st serverAddr) (filter (\<lambda>st. ws_Type st \<in> set statusTypes) ps)) \<and>
   list_all (sorted_wrt byName) (map snd (apiStatus serverAddr ps))"
proof
  have "mset (concat (map (\<lambda>ty. map f (filter (\<lambda>st. ws_Type st = ty) ps)) tys)) =
      mset (map f (filter (\<lambda>st. ws_Type st \<in> set tys) ps))" if "distinct tys" for f :: "working_status \<Rightarrow> status_resp" and tys
    using that
  proof (induction tys)
    case (Cons ty tys)
    have "mset (filter (\<lambda>st. ws_Type st \<in> set (ty # tys)) ps) =
        mset (filter (\<lambda>st. ws_Type st = ty) ps) + mset (filter (\<lambda>st. ws_Type st \<in> set tys) ps)"
      using Cons.prems by (induction ps) auto
    then show ?case using Cons by simp
  qed simp
  moreover have "mset (concat (map snd (apiStatus serverAddr ps))) =
      mset (concat (map (\<lambda>ty. map (\<lambda>st. NewProxyStatusResp st serverAddr) (filter (\<lambda>st. ws_Type st = ty) ps)) statusTypes))"
    by (simp add: apiStatus_def ofType_def mset_concat comp_def statusTypes_def)
  moreover have "distinct statusTypes" by (simp add: statusTypes_def)
  ultimately show "mset (concat (map snd (apiStatus serverAddr ps))) =
     mset (map (\<lambda>st. NewProxyStatusResp st serverAddr) (filter (\<lambda>st. ws_Type st \<in> set statusTypes) ps))"
    by simp
  show "list_all (sorted_wrt byName) (map snd (apiStatus serverAddr ps))"
    by (simp add: apiStatus_def ofType_def sorted_sortByName list_all_iff)
qed

section \<open>Properties\<close>

text \<open>
  The page that shows the configuration never receives a row that starts with the key of the token.
\<close>
lemma config_get_hides_token:
  assumes "cfgFile \<noteq> []"
  shows "Code (apiGetConfig cfgFile (Inr content)) = 200 \<and>
    list_all (\<lambda>row. \<not> isTokenRow row) (goSplit newline (Msg (apiGetConfig cfgFile (Inr content))))"
proof (cases "withoutToken content = []")
  case True
  then show ?thesis using assms by (simp add: apiGetConfig_def isTokenRow_def hasPrefix_def)
next
  case False
  have "goSplit newline (goJoin [newline] (withoutToken content)) = withoutToken content"
    using False withoutToken_rows by (intro goSplit_goJoin) (auto simp: list_all_iff)
  then show ?thesis using assms withoutToken_rows by (auto simp: apiGetConfig_def list_all_iff)
qed

text \<open>
  C19: saving the text that a user edited keeps the token of the file, which the user never saw, and
  stores every other row of the text: reading the file again shows exactly the rows that were saved.
\<close>
theorem config_put_keeps_token:
  assumes "list_ex isCommonRow (withoutToken body)"
  shows "\<exists>new. apiPutConfig (Inr body) (Inr old) None = (okResponse, Some new) \<and>
    tokenOf new = tokenOf old \<and> withoutToken new = withoutToken body"
proof -
  let ?rows = "withoutToken body" and ?new = "goJoin [newline] (withToken (tokenOf old) (withoutToken body))"
  have body: "length body \<noteq> 0"
  proof
    assume "length body = 0"
    then have "?rows = [[]]"
      by (simp add: withoutToken_def trimmedRows_def trimSpace_def isTokenRow_def hasPrefix_def)
    then show False using assms by (simp add: isCommonRow_def hasPrefix_def)
  qed
  have none: "\<And>row. row \<in> set ?rows \<Longrightarrow> \<not> isTokenRow row" using withoutToken_rows by blast
  have ne: "withToken (tokenOf old) ?rows \<noteq> []"
    using assms by (cases ?rows) (auto simp: withToken_def)
  have rows: "trimmedRows ?new = withToken (tokenOf old) ?rows"
  proof (rule trimmedRows_goJoin [OF ne])
    fix row assume "row \<in> set (withToken (tokenOf old) ?rows)"
    then show "newline \<notin> set row \<and> trimSpace row = row"
      using withToken_rows [of row "tokenOf old" ?rows] withoutToken_rows [of row body] tokenOf_row [of old] by auto
  qed
  have "withoutToken ?new = ?rows"
    unfolding withoutToken_def [of ?new] rows using tokenOf_row [of old] none by (intro withToken_keep) auto
  moreover have "tokenOf ?new = tokenOf old"
  proof (cases "tokenOf old = []")
    case True
    have "filter isTokenRow (trimmedRows ?new) = []"
      unfolding rows using True none by (intro filter_token_none) (auto simp: withToken_def)
    then have "tokenOf ?new = []" by (simp only: tokenOf_def [of ?new] list.case)
    then show ?thesis by (rule trans [OF _ True [symmetric]])
  next
    case False
    then have "isTokenRow (tokenOf old)" using tokenOf_row [of old] by simp
    from withToken_tokens [OF this False none]
    have "filter isTokenRow (trimmedRows ?new) = replicate (length (filter isCommonRow ?rows)) (tokenOf old)"
      by (simp add: rows)
    moreover obtain k where "length (filter isCommonRow ?rows) = Suc k"
      using assms by (cases "length (filter isCommonRow ?rows)") (auto simp: list_ex_iff filter_empty_conv)
    ultimately show ?thesis by (simp add: tokenOf_def [of ?new])
  qed
  ultimately show ?thesis using body by (auto simp: apiPutConfig_def Let_def)
qed

theorem config_put_keeps_token_witness:
  "\<exists>new. apiPutConfig (Inr (''[common]'' @ [newline] @ ''token = y'')) (Inr (''[common]'' @ [newline] @ ''token = x'')) None =
     (okResponse, Some new) \<and> tokenOf new = ''token = x''"
proof -
  have c: "list_ex isCommonRow (withoutToken (''[common]'' @ [newline] @ ''token = y''))" by code_simp
  have t: "tokenOf (''[common]'' @ [newline] @ ''token = x'') = ''token = x''" by code_simp
  from config_put_keeps_token [OF c, of "''[common]'' @ [newline] @ ''token = x''"] show ?thesis
    unfolding t by blast
qed

end
