(* ===== verification/Health.thy ===== *)
theory Health
  imports Prelude Decimal "HOL-Library.Word"
begin

text \<open>
  The health monitor of a proxy of frpc, \<^verbatim>\<open>client/health/health.go\<close>: one round of
  \<open>checkWorker\<close> does a check, stops when the monitor was stopped meanwhile, and otherwise tells its owner
  through one of two callbacks when the status changes. What the network answers is a parameter of a
  round. Times are in seconds; both callbacks are always set by the only caller.
\<close>

section \<open>The monitor\<close>

record monitor =
  checkType :: string
  interval :: int
  timeout :: int
  maxFailedTimes :: int
  mon_addr :: string
  mon_url :: string
  failedTimes :: "64 word"
  statusOK :: bool

definition NewMonitor :: "string \<Rightarrow> int \<Rightarrow> int \<Rightarrow> int \<Rightarrow> string \<Rightarrow> string \<Rightarrow> monitor" where
  "NewMonitor ty intervalS timeoutS maxFailed address url =
     \<lparr> checkType = ty, interval = (if intervalS \<le> 0 then 10 else intervalS),
       timeout = (if timeoutS \<le> 0 then 3 else timeoutS),
       maxFailedTimes = (if maxFailed \<le> 0 then 1 else maxFailed),
       mon_addr = address, mon_url = url, failedTimes = 0, statusOK = False \<rparr>"

section \<open>A check\<close>

datatype http_outcome = BadRequest string | NoReply string | Replied int

record probe =
  dial :: "string \<Rightarrow> string option"
  httpGet :: "string \<Rightarrow> http_outcome"

text \<open>An error of a check is its text; \<open>None\<close> is success.\<close>

definition doTCPCheck :: "probe \<Rightarrow> monitor \<Rightarrow> string option" where
  "doTCPCheck p m = (if mon_addr m = [] then None else dial p (mon_addr m))"

definition doHTTPCheck :: "probe \<Rightarrow> monitor \<Rightarrow> string option" where
  "doHTTPCheck p m =
     (case httpGet p (mon_url m) of
        BadRequest e \<Rightarrow> Some e
      | NoReply e \<Rightarrow> Some e
      | Replied code \<Rightarrow>
          if goQuot code 100 \<noteq> 2
          then Some (''do http health check, StatusCode is ['' @ showInt code @ ''] not 2xx'') else None)"

definition doCheck :: "probe \<Rightarrow> monitor \<Rightarrow> string option" where
  "doCheck p m =
     (if checkType m = ''tcp'' then doTCPCheck p m
      else if checkType m = ''http'' then doHTTPCheck p m
      else Some ''error health check type'')"

section \<open>The worker\<close>

datatype health_call = StatusNormal | StatusFailed

definition afterCheck :: "string option \<Rightarrow> monitor \<Rightarrow> health_call list \<times> monitor" where
  "afterCheck err m =
     (case err of
        None \<Rightarrow> if \<not> statusOK m then ([StatusNormal], m\<lparr> statusOK := True \<rparr>) else ([], m)
      | Some e \<Rightarrow>
          let m' = m\<lparr> failedTimes := failedTimes m + 1 \<rparr> in
          if statusOK m' \<and> sint (failedTimes m') \<ge> maxFailedTimes m'
          then ([StatusFailed], m'\<lparr> statusOK := False \<rparr>) else ([], m'))"

text \<open>The rounds of the worker: what each check met, and whether the monitor was stopped during it.\<close>

fun healthWorker :: "(probe \<times> bool) list \<Rightarrow> monitor \<Rightarrow> health_call list \<times> monitor" where
  "healthWorker [] m = ([], m)"
| "healthWorker ((p, stopped) # rounds) m =
     (if stopped then ([], m)
      else let (cs, m') = afterCheck (doCheck p m) m; (cs', m'') = healthWorker rounds m' in (cs @ cs', m''))"

lemmas health_defs [go_defs] = NewMonitor_def doTCPCheck_def doHTTPCheck_def doCheck_def afterCheck_def

section \<open>Lemmas\<close>

definition runRounds :: "probe list \<Rightarrow> monitor \<Rightarrow> health_call list \<times> monitor" where
  "runRounds ps m = healthWorker (map (\<lambda>p. (p, False)) ps) m"

lemma runRounds_Nil [simp]: "runRounds [] m = ([], m)"
  by (simp add: runRounds_def)

lemma runRounds_append:
  "runRounds (ps @ qs) m =
     (let (cs, m') = runRounds ps m; (ds, m'') = runRounds qs m' in (cs @ ds, m''))"
  by (induction ps arbitrary: m) (auto simp: runRounds_def Let_def case_prod_beta)

lemma runRounds_single: "runRounds [p] m = afterCheck (doCheck p m) m"
  by (simp add: runRounds_def case_prod_beta)

lemma afterCheck_same [simp]:
  "checkType (snd (afterCheck e m)) = checkType m" "mon_addr (snd (afterCheck e m)) = mon_addr m"
  "mon_url (snd (afterCheck e m)) = mon_url m" "maxFailedTimes (snd (afterCheck e m)) = maxFailedTimes m"
  by (simp_all add: afterCheck_def Let_def split: option.split)

lemma runRounds_same [simp]:
  "checkType (snd (runRounds ps m)) = checkType m" "mon_addr (snd (runRounds ps m)) = mon_addr m"
  "mon_url (snd (runRounds ps m)) = mon_url m" "maxFailedTimes (snd (runRounds ps m)) = maxFailedTimes m"
  by (induction ps rule: rev_induct)
     (simp_all add: runRounds_append runRounds_single Let_def case_prod_beta)

lemma doCheck_runRounds: "doCheck p (snd (runRounds ps m)) = doCheck p m"
  by (simp add: doCheck_def doTCPCheck_def doHTTPCheck_def)

text \<open>The state after some rounds, in terms of which checks succeeded.\<close>

definition oks :: "probe list \<Rightarrow> monitor \<Rightarrow> bool list" where
  "oks ps m = map (\<lambda>p. doCheck p m = None) ps"

definition healthInv :: "monitor \<Rightarrow> probe list \<Rightarrow> health_call list \<times> monitor \<Rightarrow> bool" where
  "healthInv m ps r \<longleftrightarrow>
     failedTimes (snd r) = of_nat (count_list (oks ps m) False) \<and>
     (statusOK (snd r) \<longleftrightarrow> True \<in> set (oks ps m) \<and>
        (last (oks ps m) \<or> int (count_list (oks ps m) False) < maxFailedTimes m)) \<and>
     (statusOK (snd r) \<longleftrightarrow> odd (length (fst r))) \<and>
     fst r = map (\<lambda>k. if even k then StatusNormal else StatusFailed) [0..<length (fst r)]"

lemma sint_small: "n < 2 ^ 63 \<Longrightarrow> sint (of_nat n :: 64 word) = int n"
  by (simp add: signed_of_nat signed_take_bit_int_eq_self)

lemma runRounds_inv:
  assumes "failedTimes m = 0" "\<not> statusOK m" "length ps < 2 ^ 63"
  shows "healthInv m ps (runRounds ps m)"
  using assms(3)
proof (induction ps rule: rev_induct)
  case Nil
  then show ?case using assms by (simp add: healthInv_def oks_def)
next
  case (snoc p ps)
  obtain cs m' where r: "runRounds ps m = (cs, m')" by fastforce
  have IH: "healthInv m ps (cs, m')" using snoc r by simp
  have max: "maxFailedTimes m' = maxFailedTimes m" using runRounds_same(4) [of ps m] r by simp
  have chk: "doCheck p m' = doCheck p m" using doCheck_runRounds [of p ps m] r by simp
  let ?n = "count_list (oks ps m) False"
  have "?n \<le> length ps" using count_le_length [of "oks ps m" False] by (simp add: oks_def)
  then have fail: "sint (of_nat ?n + 1 :: 64 word) = int ?n + 1"
    using snoc.prems sint_small [of "Suc ?n"] by (simp add: add.commute)
  show ?case
  proof (cases "doCheck p m")
    case None
    then show ?thesis
      using IH r chk by (auto simp: healthInv_def runRounds_append runRounds_single afterCheck_def oks_def)
  next
    case (Some e)
    then show ?thesis
      using IH r chk fail max
      by (auto simp: healthInv_def runRounds_append runRounds_single afterCheck_def oks_def Let_def last_map)
  qed
qed

text \<open>
  A success does not forget the failures before it: with a limit of two, one failure after an earlier
  one that was followed by a success is enough, although no two failures are consecutive.
\<close>

lemma failures_not_consecutive:
  "fst (runRounds [up, down, up, down] (NewMonitor ''tcp'' 10 3 2 ''127.0.0.1:80'' [])) = [StatusNormal, StatusFailed]"
  if "dial up ''127.0.0.1:80'' = None" "dial down ''127.0.0.1:80'' = Some e"
  using that by (simp add: runRounds_def health_defs Let_def)

section \<open>Properties\<close>

text \<open>
  C29: after any sequence of checks a monitor counts a proxy as healthy exactly when some check has
  succeeded and either the last one did or fewer checks than the limit have failed in all; its owner is
  called alternately, first for success, and the last call tells the present status. Failures are added
  up over the life of the monitor: they need not follow one another.
\<close>
theorem health_status:
  assumes "m = NewMonitor ty intervalS timeoutS maxFailed address url"
    and "outs = map (\<lambda>p. doCheck p m = None) ps" and "length ps < 2 ^ 63"
    and "healthWorker (map (\<lambda>p. (p, False)) ps) m = (calls, m')"
  shows "(statusOK m' \<longleftrightarrow> True \<in> set outs \<and> (last outs \<or> int (count_list outs False) < max 1 maxFailed)) \<and>
    (statusOK m' \<longleftrightarrow> odd (length calls)) \<and>
    calls = map (\<lambda>k. if even k then StatusNormal else StatusFailed) [0..<length calls]"
proof -
  have "healthInv m ps (calls, m')"
    using runRounds_inv [of m ps] assms by (simp add: runRounds_def NewMonitor_def)
  moreover have "maxFailedTimes m = max 1 maxFailed" using assms(1) by (simp add: NewMonitor_def)
  moreover have "outs = oks ps m" by (simp add: oks_def assms(2))
  ultimately show ?thesis by (simp only: healthInv_def fst_conv snd_conv) blast
qed

definition upProbe :: probe where "upProbe = \<lparr> dial = \<lambda>a. None, httpGet = \<lambda>u. Replied 200 \<rparr>"
definition downProbe :: probe where "downProbe = \<lparr> dial = \<lambda>a. Some ''refused'', httpGet = \<lambda>u. Replied 503 \<rparr>"

theorem health_status_witness:
  "\<not> statusOK (snd (healthWorker [(upProbe, False), (downProbe, False), (upProbe, False), (downProbe, False)]
     (NewMonitor ''http'' 10 3 2 [] ''http://127.0.0.1/'')))"
proof -
  let ?m = "NewMonitor ''http'' 10 3 2 [] ''http://127.0.0.1/''" and ?ps = "[upProbe, downProbe, upProbe, downProbe]"
  obtain calls m' where r: "healthWorker (map (\<lambda>p. (p, False)) ?ps) ?m = (calls, m')" by fastforce
  have "map (\<lambda>p. doCheck p ?m = None) ?ps = [True, False, True, False]"
    by (simp add: health_defs upProbe_def downProbe_def goQuot_nonneg)
  then have "\<not> statusOK m'" using health_status [OF refl _ _ r, of "[True, False, True, False]"] by simp
  then show ?thesis using r by simp
qed

end
