(* ===== verification/ProxyWrapper.thy ===== *)
theory ProxyWrapper
  imports AdminApi Health
begin

text \<open>
  The life of a proxy in frpc, \<^verbatim>\<open>client/proxy/proxy_wrapper.go\<close>: the phases between a
  configuration and a running proxy, the messages that register the proxy at the server and close it
  there, and what the health monitor and the server's answers do. Every operation holds the lock of the
  wrapper while it reads or changes the phase and sends its messages, so it is one step; the health flag
  is read before the lock is taken and is an argument of the step that uses it. Whether the local side
  of the proxy can start is a parameter. Instants are nanoseconds, Go's zero time is \<open>None\<close>.
\<close>

section \<open>Phases and messages\<close>

definition ProxyPhaseNew :: string where "ProxyPhaseNew = ''new''"
definition ProxyPhaseWaitStart :: string where "ProxyPhaseWaitStart = ''wait start''"
definition ProxyPhaseStartErr :: string where "ProxyPhaseStartErr = ''start error''"
definition ProxyPhaseRunning :: string where "ProxyPhaseRunning = ''running''"
definition ProxyPhaseCheckFailed :: string where "ProxyPhaseCheckFailed = ''check failed''"
definition ProxyPhaseClosed :: string where "ProxyPhaseClosed = ''closed''"

lemmas phase_defs = ProxyPhaseNew_def ProxyPhaseWaitStart_def ProxyPhaseStartErr_def ProxyPhaseRunning_def
  ProxyPhaseCheckFailed_def ProxyPhaseClosed_def

definition second :: int where "second = 1000000000"
definition waitResponseTimeout :: int where "waitResponseTimeout = 20 * second"
definition startErrTimeout :: int where "startErrTimeout = 30 * second"

text \<open>The messages a wrapper has its manager send to the server.\<close>

datatype client_msg = SendNewProxy new_proxy | SendCloseProxy string

section \<open>The wrapper\<close>

record wrapper =
  w_status :: working_status
  w_monitor :: "monitor option"
  w_health :: nat
  w_lastSendStartMsg :: "int option"
  w_lastStartErr :: "int option"
  w_closeCh :: bool

definition NewWrapper :: "proxy_conf \<Rightarrow> wrapper" where
  "NewWrapper cfg =
     (let base = GetBaseInfo cfg; hc = healthCheck base in
      \<lparr> w_status = \<lparr> ws_Name = ProxyName base, ws_Type = ProxyType base, ws_Phase = ProxyPhaseNew, ws_Err = [],
                     ws_Cfg = cfg, ws_RemoteAddr = [] \<rparr>,
        w_monitor = (if HealthCheckType hc \<noteq> []
          then Some (NewMonitor (HealthCheckType hc) (HealthCheckIntervalS hc) (HealthCheckTimeoutS hc)
                       (HealthCheckMaxFailed hc) (HealthCheckAddr hc) (HealthCheckURL hc))
          else None),
        w_health = (if HealthCheckType hc \<noteq> [] then 1 else 0),
        w_lastSendStartMsg = None, w_lastStartErr = None, w_closeCh = False \<rparr>)"

definition phase :: "wrapper \<Rightarrow> string" where
  "phase w = ws_Phase (w_status w)"

definition setPhase :: "string \<Rightarrow> wrapper \<Rightarrow> wrapper" where
  "setPhase p w = w\<lparr> w_status := (w_status w)\<lparr> ws_Phase := p \<rparr> \<rparr>"

definition setErr :: "string \<Rightarrow> wrapper \<Rightarrow> wrapper" where
  "setErr e w = w\<lparr> w_status := (w_status w)\<lparr> ws_Err := e \<rparr> \<rparr>"

definition setRemoteAddr :: "string \<Rightarrow> wrapper \<Rightarrow> wrapper" where
  "setRemoteAddr a w = w\<lparr> w_status := (w_status w)\<lparr> ws_RemoteAddr := a \<rparr> \<rparr>"

text \<open>\<open>close\<close>: the message that closes the proxy at the server.\<close>

definition closeMsg :: "wrapper \<Rightarrow> client_msg list" where
  "closeMsg w = [SendCloseProxy (ws_Name (w_status w))]"

definition SetRunningStatus ::
  "int \<Rightarrow> string option \<Rightarrow> string \<Rightarrow> string \<Rightarrow> wrapper \<Rightarrow> string option \<times> client_msg list \<times> wrapper"
where
  "SetRunningStatus now runErr remoteAddr respErr w =
     (if phase w \<noteq> ProxyPhaseWaitStart then (Some ''status not wait start, ignore start message'', [], w)
      else let w1 = setRemoteAddr remoteAddr w in
        if respErr \<noteq> [] then
          (Some respErr, [], (setErr respErr (setPhase ProxyPhaseStartErr w1))\<lparr> w_lastStartErr := Some now \<rparr>)
        else (case runErr of
          Some e \<Rightarrow> (Some e, closeMsg w1, (setErr e (setPhase ProxyPhaseStartErr w1))\<lparr> w_lastStartErr := Some now \<rparr>)
        | None \<Rightarrow> (None, [], setErr [] (setPhase ProxyPhaseRunning w1))))"

text \<open>\<open>Stop\<close> closes both channels of the wrapper first, which panics when they are closed already.\<close>

definition Stop :: "wrapper \<Rightarrow> (go_panic, client_msg list \<times> wrapper) result" where
  "Stop w = (if w_closeCh w then Inl CloseOfClosedChannel
     else Inr (closeMsg w, setPhase ProxyPhaseClosed (w\<lparr> w_closeCh := True \<rparr>)))"

section \<open>The worker\<close>

text \<open>\<open>now.After(t.Add(d))\<close>, which holds for the zero time.\<close>

definition afterTimeout :: "int \<Rightarrow> int option \<Rightarrow> int \<Rightarrow> bool" where
  "afterTimeout now t d = (case t of None \<Rightarrow> True | Some t0 \<Rightarrow> now > t0 + d)"

definition mayStart :: "int \<Rightarrow> wrapper \<Rightarrow> bool" where
  "mayStart now w \<longleftrightarrow>
     phase w = ProxyPhaseNew \<or> phase w = ProxyPhaseCheckFailed \<or>
     (phase w = ProxyPhaseWaitStart \<and> afterTimeout now (w_lastSendStartMsg w) waitResponseTimeout) \<or>
     (phase w = ProxyPhaseStartErr \<and> afterTimeout now (w_lastStartErr w) startErrTimeout)"

definition checkWorker :: "int \<Rightarrow> nat \<Rightarrow> wrapper \<Rightarrow> client_msg list \<times> wrapper" where
  "checkWorker now health w =
     (if health = 0 then
        (if mayStart now w
         then ([SendNewProxy (MarshalToMsg (ws_Cfg (w_status w)) emptyMsg)],
               (setPhase ProxyPhaseWaitStart w)\<lparr> w_lastSendStartMsg := Some now \<rparr>)
         else ([], w))
      else if phase w = ProxyPhaseRunning \<or> phase w = ProxyPhaseWaitStart
      then (closeMsg w, setPhase ProxyPhaseCheckFailed w)
      else ([], w))"

definition statusNormalCallback :: "wrapper \<Rightarrow> wrapper" where
  "statusNormalCallback w = w\<lparr> w_health := 0 \<rparr>"

definition statusFailedCallback :: "wrapper \<Rightarrow> wrapper" where
  "statusFailedCallback w = w\<lparr> w_health := 1 \<rparr>"

text \<open>Whether a work connection is handed to the proxy (it is closed otherwise), and the status.\<close>

definition InWorkConn :: "wrapper \<Rightarrow> bool" where
  "InWorkConn w \<longleftrightarrow> phase w = ProxyPhaseRunning"

definition GetStatus :: "wrapper \<Rightarrow> working_status" where
  "GetStatus w = w_status w"

lemmas wrapper_defs [go_defs] =
  NewWrapper_def SetRunningStatus_def Stop_def checkWorker_def statusNormalCallback_def statusFailedCallback_def
  InWorkConn_def GetStatus_def closeMsg_def

lemmas wrapper_field_defs = phase_def setPhase_def setErr_def setRemoteAddr_def

section \<open>What the server was told\<close>

text \<open>The proxy a message is about.\<close>

fun msgName :: "client_msg \<Rightarrow> string" where
  "msgName (SendNewProxy m) = np_ProxyName m"
| "msgName (SendCloseProxy n) = n"

text \<open>
  \<open>told cfg ms p\<close>: after the messages \<open>ms\<close> about a proxy, phase \<open>p\<close> is one in which the server
  was told to run it with configuration \<open>cfg\<close>, or told nothing or to close it, as the phase says; after
  an error at the start both are possible.
\<close>

definition closedAtServer :: "client_msg list \<Rightarrow> bool" where
  "closedAtServer ms \<longleftrightarrow> ms = [] \<or> (\<exists>n. last ms = SendCloseProxy n)"

definition openAtServer :: "proxy_conf \<Rightarrow> client_msg list \<Rightarrow> bool" where
  "openAtServer cfg ms \<longleftrightarrow> ms \<noteq> [] \<and> last ms = SendNewProxy (MarshalToMsg cfg emptyMsg)"

definition told :: "proxy_conf \<Rightarrow> client_msg list \<Rightarrow> string \<Rightarrow> bool" where
  "told cfg ms p \<longleftrightarrow>
     (p = ProxyPhaseNew \<and> closedAtServer ms) \<or>
     (p \<in> {ProxyPhaseCheckFailed, ProxyPhaseClosed} \<and> ms \<noteq> [] \<and> closedAtServer ms) \<or>
     (p \<in> {ProxyPhaseWaitStart, ProxyPhaseRunning} \<and> openAtServer cfg ms) \<or>
     (p = ProxyPhaseStartErr \<and> ms \<noteq> [] \<and> (closedAtServer ms \<or> openAtServer cfg ms))"

text \<open>The messages since the last one that closed the proxy, the latest first.\<close>

fun isClose :: "client_msg \<Rightarrow> bool" where
  "isClose (SendCloseProxy n) \<longleftrightarrow> True"
| "isClose (SendNewProxy m) \<longleftrightarrow> False"

definition sinceClose :: "client_msg list \<Rightarrow> client_msg list" where
  "sinceClose ms = takeWhile (\<lambda>m. \<not> isClose m) (rev ms)"

definition wrapperInv :: "string \<Rightarrow> client_msg list \<Rightarrow> wrapper \<Rightarrow> bool" where
  "wrapperInv name ms w \<longleftrightarrow>
     ws_Name (w_status w) = name \<and> ProxyName (GetBaseInfo (ws_Cfg (w_status w))) = name \<and>
     told (ws_Cfg (w_status w)) ms (phase w) \<and>
     list_all (\<lambda>m. m = SendNewProxy (MarshalToMsg (ws_Cfg (w_status w)) emptyMsg)) (sinceClose ms) \<and> (w_closeCh w \<longleftrightarrow> phase w = ProxyPhaseClosed)"

lemma phase_neq [simp]:
  "ProxyPhaseNew \<noteq> ProxyPhaseWaitStart" "ProxyPhaseNew \<noteq> ProxyPhaseStartErr" "ProxyPhaseNew \<noteq> ProxyPhaseRunning"
  "ProxyPhaseNew \<noteq> ProxyPhaseCheckFailed" "ProxyPhaseNew \<noteq> ProxyPhaseClosed"
  "ProxyPhaseWaitStart \<noteq> ProxyPhaseNew" "ProxyPhaseWaitStart \<noteq> ProxyPhaseStartErr" "ProxyPhaseWaitStart \<noteq> ProxyPhaseRunning"
  "ProxyPhaseWaitStart \<noteq> ProxyPhaseCheckFailed" "ProxyPhaseWaitStart \<noteq> ProxyPhaseClosed"
  "ProxyPhaseStartErr \<noteq> ProxyPhaseNew" "ProxyPhaseStartErr \<noteq> ProxyPhaseWaitStart" "ProxyPhaseStartErr \<noteq> ProxyPhaseRunning"
  "ProxyPhaseStartErr \<noteq> ProxyPhaseCheckFailed" "ProxyPhaseStartErr \<noteq> ProxyPhaseClosed"
  "ProxyPhaseRunning \<noteq> ProxyPhaseNew" "ProxyPhaseRunning \<noteq> ProxyPhaseWaitStart" "ProxyPhaseRunning \<noteq> ProxyPhaseStartErr"
  "ProxyPhaseRunning \<noteq> ProxyPhaseCheckFailed" "ProxyPhaseRunning \<noteq> ProxyPhaseClosed"
  "ProxyPhaseCheckFailed \<noteq> ProxyPhaseNew" "ProxyPhaseCheckFailed \<noteq> ProxyPhaseWaitStart" "ProxyPhaseCheckFailed \<noteq> ProxyPhaseStartErr"
  "ProxyPhaseCheckFailed \<noteq> ProxyPhaseRunning" "ProxyPhaseCheckFailed \<noteq> ProxyPhaseClosed"
  "ProxyPhaseClosed \<noteq> ProxyPhaseNew" "ProxyPhaseClosed \<noteq> ProxyPhaseWaitStart" "ProxyPhaseClosed \<noteq> ProxyPhaseStartErr"
  "ProxyPhaseClosed \<noteq> ProxyPhaseRunning" "ProxyPhaseClosed \<noteq> ProxyPhaseCheckFailed"
  by (simp_all add: phase_defs)

lemma told_phase [simp]:
  "told cfg ms ProxyPhaseNew \<longleftrightarrow> closedAtServer ms"
  "told cfg ms ProxyPhaseCheckFailed \<longleftrightarrow> ms \<noteq> [] \<and> closedAtServer ms"
  "told cfg ms ProxyPhaseClosed \<longleftrightarrow> ms \<noteq> [] \<and> closedAtServer ms"
  "told cfg ms ProxyPhaseWaitStart \<longleftrightarrow> openAtServer cfg ms"
  "told cfg ms ProxyPhaseRunning \<longleftrightarrow> openAtServer cfg ms"
  "told cfg ms ProxyPhaseStartErr \<longleftrightarrow> ms \<noteq> [] \<and> (closedAtServer ms \<or> openAtServer cfg ms)"
  by (simp_all add: told_def)

lemma server_snoc [simp]:
  "closedAtServer (ms @ [SendCloseProxy n])" "\<not> closedAtServer (ms @ [SendNewProxy x])"
  "openAtServer cfg (ms @ [SendNewProxy x]) \<longleftrightarrow> x = MarshalToMsg cfg emptyMsg"
  "\<not> openAtServer cfg (ms @ [SendCloseProxy n])" "closedAtServer []"
  by (simp_all add: closedAtServer_def openAtServer_def)

lemma sinceClose_simps [simp]:
  "sinceClose [] = []" "sinceClose (ms @ [SendCloseProxy n]) = []"
  "sinceClose (ms @ [SendNewProxy m]) = SendNewProxy m # sinceClose ms"
  by (simp_all add: sinceClose_def)

lemma closedAtServer_since [simp]: "closedAtServer ms \<Longrightarrow> sinceClose ms = []"
  by (cases ms rule: rev_cases) (auto simp: closedAtServer_def)

lemma openAtServer_nonempty [simp]: "openAtServer cfg ms \<Longrightarrow> ms \<noteq> []"
  by (simp add: openAtServer_def)

lemma wrapper_fields [simp]:
  "phase (setPhase p w) = p" "phase (setErr e w) = phase w" "phase (setRemoteAddr a w) = phase w"
  "phase (w\<lparr> w_lastSendStartMsg := t \<rparr>) = phase w" "phase (w\<lparr> w_lastStartErr := t \<rparr>) = phase w"
  "phase (w\<lparr> w_closeCh := b \<rparr>) = phase w" "phase (w\<lparr> w_health := h \<rparr>) = phase w"
  "ws_Name (w_status (setPhase p w)) = ws_Name (w_status w)" "ws_Name (w_status (setErr e w)) = ws_Name (w_status w)"
  "ws_Name (w_status (setRemoteAddr a w)) = ws_Name (w_status w)"
  "ws_Cfg (w_status (setPhase p w)) = ws_Cfg (w_status w)" "ws_Cfg (w_status (setErr e w)) = ws_Cfg (w_status w)"
  "ws_Cfg (w_status (setRemoteAddr a w)) = ws_Cfg (w_status w)"
  "w_closeCh (setPhase p w) = w_closeCh w" "w_closeCh (setErr e w) = w_closeCh w"
  "w_closeCh (setRemoteAddr a w) = w_closeCh w"
  by (simp_all add: wrapper_field_defs)

lemma marshal_name [simp]: "np_ProxyName (MarshalToMsg c emptyMsg) = ProxyName (GetBaseInfo c)"
  by (cases c) (simp_all add: conf_defs marshalBase_def)

lemma new_wrapperInv:
  "ProxyName (GetBaseInfo cfg) = name \<Longrightarrow> closedAtServer ms \<Longrightarrow> wrapperInv name ms (NewWrapper cfg)"
  by (simp add: wrapperInv_def NewWrapper_def phase_def Let_def)

lemma checkWorker_inv:
  assumes "wrapperInv name ms w" and "checkWorker now h w = (out, w')"
  shows "wrapperInv name (ms @ out) w'"
proof (cases "out = []")
  case True
  then have "w' = w" using assms(2) by (auto simp: checkWorker_def closeMsg_def split: if_splits)
  then show ?thesis using True assms(1) by simp
next
  case False
  then consider
      (start) "h = 0" "mayStart now w" "out = [SendNewProxy (MarshalToMsg (ws_Cfg (w_status w)) emptyMsg)]"
        "w' = (setPhase ProxyPhaseWaitStart w)\<lparr> w_lastSendStartMsg := Some now \<rparr>"
    | (stop) "phase w = ProxyPhaseRunning \<or> phase w = ProxyPhaseWaitStart"
        "out = [SendCloseProxy (ws_Name (w_status w))]" "w' = setPhase ProxyPhaseCheckFailed w"
    using assms(2) by (auto simp: checkWorker_def closeMsg_def split: if_splits)
  then show ?thesis
  proof cases
    case start
    then have "phase w \<noteq> ProxyPhaseClosed" by (auto simp: mayStart_def)
    then show ?thesis using start(3,4) assms(1) by (simp add: wrapperInv_def)
  next
    case stop
    then have "phase w \<noteq> ProxyPhaseClosed" by auto
    then show ?thesis using stop(2,3) assms(1) by (simp add: wrapperInv_def)
  qed
qed

lemma SetRunningStatus_inv:
  assumes "wrapperInv name ms w" and "SetRunningStatus now runErr addr respErr w = (e, out, w')"
  shows "wrapperInv name (ms @ out) w'"
proof (cases "phase w = ProxyPhaseWaitStart")
  case False
  then show ?thesis using assms by (simp add: SetRunningStatus_def)
next
  case True
  then have "openAtServer (ws_Cfg (w_status w)) ms" "\<not> w_closeCh w" using assms(1) by (simp_all add: wrapperInv_def)
  then show ?thesis
    using assms True
    by (cases runErr) (auto simp: wrapperInv_def SetRunningStatus_def closeMsg_def Let_def split: if_splits)
qed

lemma Stop_inv:
  assumes "wrapperInv name ms w" and "Stop w = Inr (out, w')"
  shows "wrapperInv name (ms @ out) w'" and "closedAtServer (ms @ out)"
  using assms by (auto simp: wrapperInv_def Stop_def closeMsg_def split: if_splits)

lemma messages_name:
  assumes "wrapperInv name ms w"
  shows "checkWorker now h w = (out, w') \<Longrightarrow> list_all (\<lambda>m. msgName m = name) out"
    and "SetRunningStatus now runErr addr respErr w = (e, out, w') \<Longrightarrow> list_all (\<lambda>m. msgName m = name) out"
    and "Stop w = Inr (out, w') \<Longrightarrow> list_all (\<lambda>m. msgName m = name) out"
  using assms by (auto simp: wrapperInv_def checkWorker_def SetRunningStatus_def Stop_def closeMsg_def Let_def split: if_splits option.splits)

text \<open>A closed wrapper sends nothing any more, whatever its worker or late answers do.\<close>

lemma closed_silent:
  assumes "phase w = ProxyPhaseClosed"
  shows "checkWorker now h w = ([], w)" "fst (snd (SetRunningStatus now runErr addr respErr w)) = []"
    "snd (snd (SetRunningStatus now runErr addr respErr w)) = w"
  using assms by (simp_all add: checkWorker_def mayStart_def SetRunningStatus_def)

end
