(* ===== verification/ProxyManager.thy ===== *)
theory ProxyManager
  imports ProxyWrapper
begin

text \<open>
  The proxies of a running frpc, \<^verbatim>\<open>client/proxy/proxy_manager.go\<close>, and the control messages
  that drive them (\<open>HandleNewProxyResp\<close> and \<open>ReloadConf\<close> of
  \<^verbatim>\<open>client/control.go\<close>). The messages sent to the server are kept in the order in which the
  wrappers send them; a send into the closed channel panics, which the manager turns into an error that
  nobody looks at, so the message is lost. The order of a range over a map is a parameter.
\<close>

section \<open>The manager\<close>

record manager =
  pm_proxies :: "string \<rightharpoonup> wrapper"
  pm_sendClosed :: bool
  pm_sent :: "client_msg list"

definition NewManager :: manager where
  "NewManager = \<lparr> pm_proxies = Map.empty, pm_sendClosed = False, pm_sent = [] \<rparr>"

definition HandleEvent :: "client_msg list \<Rightarrow> manager \<Rightarrow> manager" where
  "HandleEvent ms pm = (if pm_sendClosed pm then pm else pm\<lparr> pm_sent := pm_sent pm @ ms \<rparr>)"

definition setProxy :: "string \<Rightarrow> wrapper option \<Rightarrow> manager \<Rightarrow> manager" where
  "setProxy name w pm = pm\<lparr> pm_proxies := (pm_proxies pm)(name := w) \<rparr>"

definition StartProxy ::
  "int \<Rightarrow> string option \<Rightarrow> string \<Rightarrow> string \<Rightarrow> string \<Rightarrow> manager \<Rightarrow> string option \<times> manager" where
  "StartProxy now runErr name remoteAddr serverRespErr pm =
     (case pm_proxies pm name of
        None \<Rightarrow> (Some (''proxy ['' @ name @ ''] not found''), pm)
      | Some w \<Rightarrow> let (err, out, w') = SetRunningStatus now runErr remoteAddr serverRespErr w in
          (err, HandleEvent out (setProxy name (Some w') pm)))"

text \<open>Whether a work connection reaches a proxy.\<close>

definition HandleWorkConn :: "string \<Rightarrow> manager \<Rightarrow> bool" where
  "HandleWorkConn name pm = (case pm_proxies pm name of None \<Rightarrow> False | Some w \<Rightarrow> InWorkConn w)"

definition GetAllProxyStatus :: "string list \<Rightarrow> manager \<Rightarrow> working_status list" where
  "GetAllProxyStatus order pm =
     List.map_filter (\<lambda>n. map_option GetStatus (pm_proxies pm n)) order"

fun stopAll :: "string list \<Rightarrow> manager \<Rightarrow> (go_panic, manager) result" where
  "stopAll [] pm = Inr pm"
| "stopAll (n # ns) pm =
     (case pm_proxies pm n of
        None \<Rightarrow> stopAll ns pm
      | Some w \<Rightarrow> (case Stop w of
          Inl e \<Rightarrow> Inl e
        | Inr (out, w') \<Rightarrow> stopAll ns (HandleEvent out (setProxy n None pm))))"

definition Close :: "string list \<Rightarrow> manager \<Rightarrow> (go_panic, manager) result" where
  "Close order pm = stopAll order pm"

section \<open>Reloading\<close>

text \<open>The names that go: those no longer configured, and those whose configuration is different.\<close>

definition mustDel :: "(string \<rightharpoonup> proxy_conf) \<Rightarrow> string \<Rightarrow> wrapper \<Rightarrow> bool" where
  "mustDel cfgs name w =
     (case cfgs name of None \<Rightarrow> True | Some cfg \<Rightarrow> \<not> Compare (ws_Cfg (w_status w)) cfg)"

definition delNames :: "(string \<rightharpoonup> proxy_conf) \<Rightarrow> string list \<Rightarrow> manager \<Rightarrow> string list" where
  "delNames cfgs order pm =
     filter (\<lambda>n. case pm_proxies pm n of None \<Rightarrow> False | Some w \<Rightarrow> mustDel cfgs n w) order"

fun addAll :: "(string \<rightharpoonup> proxy_conf) \<Rightarrow> string list \<Rightarrow> manager \<Rightarrow> manager" where
  "addAll cfgs [] pm = pm"
| "addAll cfgs (n # ns) pm =
     (case cfgs n of
        None \<Rightarrow> addAll cfgs ns pm
      | Some cfg \<Rightarrow> addAll cfgs ns (if pm_proxies pm n = None then setProxy n (Some (NewWrapper cfg)) pm else pm))"

definition Reload ::
  "(string \<rightharpoonup> proxy_conf) \<Rightarrow> string list \<Rightarrow> string list \<Rightarrow> manager \<Rightarrow> (go_panic, manager) result" where
  "Reload cfgs order1 order2 pm =
     (case stopAll (delNames cfgs order1 pm) pm of Inl e \<Rightarrow> Inl e | Inr pm' \<Rightarrow> Inr (addAll cfgs order2 pm'))"

lemmas manager_defs [go_defs] =
  HandleEvent_def setProxy_def StartProxy_def HandleWorkConn_def GetAllProxyStatus_def Close_def mustDel_def
  delNames_def Reload_def

section \<open>Steps\<close>

text \<open>
  What happens to the manager: a reload, the worker of a proxy, an answer of the server, a call of a
  health monitor, the end of the control connection, after which nothing is sent, and the closing of all
  proxies. The loader of the configuration keys each proxy by its name.
\<close>

definition wellKeyed :: "(string \<rightharpoonup> proxy_conf) \<Rightarrow> bool" where
  "wellKeyed cfgs \<longleftrightarrow> (\<forall>n c. cfgs n = Some c \<longrightarrow> ProxyName (GetBaseInfo c) = n)"

definition rangeOf :: "string list \<Rightarrow> (string \<rightharpoonup> 'a) \<Rightarrow> bool" where
  "rangeOf order m \<longleftrightarrow> distinct order \<and> set order = dom m"

definition workerStep :: "int \<Rightarrow> nat \<Rightarrow> string \<Rightarrow> wrapper \<Rightarrow> manager \<Rightarrow> manager" where
  "workerStep now h n w pm = (let (out, w') = checkWorker now h w in HandleEvent out (setProxy n (Some w') pm))"

inductive mgr_step :: "manager \<Rightarrow> manager \<Rightarrow> bool" where
  reload: "wellKeyed cfgs \<Longrightarrow> rangeOf order1 (pm_proxies pm) \<Longrightarrow> rangeOf order2 cfgs \<Longrightarrow>
    Reload cfgs order1 order2 pm = Inr pm' \<Longrightarrow> mgr_step pm pm'"
| worker: "pm_proxies pm n = Some w \<Longrightarrow> mgr_step pm (workerStep now h n w pm)"
| healthy: "pm_proxies pm n = Some w \<Longrightarrow> mgr_step pm (setProxy n (Some (statusNormalCallback w)) pm)"
| unhealthy: "pm_proxies pm n = Some w \<Longrightarrow> mgr_step pm (setProxy n (Some (statusFailedCallback w)) pm)"
| ended: "mgr_step pm (pm\<lparr> pm_sendClosed := True \<rparr>)"
| closed: "rangeOf order (pm_proxies pm) \<Longrightarrow> Close order pm = Inr pm' \<Longrightarrow> mgr_step pm pm'"

inductive mgr_reach :: "manager \<Rightarrow> bool" where
  start: "mgr_reach NewManager"
| step: "mgr_reach pm \<Longrightarrow> mgr_step pm pm' \<Longrightarrow> mgr_reach pm'"
| answer: "mgr_reach pm \<Longrightarrow> StartProxy now runErr n addr err pm = (e, pm') \<Longrightarrow> mgr_reach pm'"

section \<open>Lemmas\<close>

definition about :: "string \<Rightarrow> manager \<Rightarrow> client_msg list" where
  "about n pm = filter (\<lambda>m. msgName m = n) (pm_sent pm)"

definition nameOk :: "string \<Rightarrow> client_msg list \<Rightarrow> wrapper option \<Rightarrow> bool" where
  "nameOk n ms x \<longleftrightarrow> (case x of None \<Rightarrow> closedAtServer ms | Some w \<Rightarrow> wrapperInv n ms w)"

lemma nameOk_simps [simp]:
  "nameOk n ms None \<longleftrightarrow> closedAtServer ms" "nameOk n ms (Some w) \<longleftrightarrow> wrapperInv n ms w"
  by (simp_all add: nameOk_def)

definition mgrInv :: "manager \<Rightarrow> bool" where
  "mgrInv pm \<longleftrightarrow>
     (\<forall>n w. pm_proxies pm n = Some w \<longrightarrow> ws_Name (w_status w) = n \<and>
        ProxyName (GetBaseInfo (ws_Cfg (w_status w))) = n \<and> \<not> w_closeCh w \<and> phase w \<noteq> ProxyPhaseClosed) \<and>
     (\<not> pm_sendClosed pm \<longrightarrow>
        (\<forall>n. nameOk n (about n pm) (pm_proxies pm n)))"

lemma mgrInvD:
  assumes "mgrInv pm" and "pm_proxies pm n = Some w"
  shows "ws_Name (w_status w) = n" "ProxyName (GetBaseInfo (ws_Cfg (w_status w))) = n" "\<not> w_closeCh w"
    "phase w \<noteq> ProxyPhaseClosed" "\<not> pm_sendClosed pm \<Longrightarrow> wrapperInv n (about n pm) w"
proof -
  show "ws_Name (w_status w) = n" "ProxyName (GetBaseInfo (ws_Cfg (w_status w))) = n" "\<not> w_closeCh w"
    "phase w \<noteq> ProxyPhaseClosed"
    using assms by (auto simp: mgrInv_def)
  assume "\<not> pm_sendClosed pm"
  then have "nameOk n (about n pm) (pm_proxies pm n)" using assms(1) by (simp add: mgrInv_def)
  then show "wrapperInv n (about n pm) w" by (simp add: assms(2))
qed

lemma manager_fields [simp]:
  "pm_proxies (setProxy n w pm) = (pm_proxies pm)(n := w)" "pm_proxies (HandleEvent out pm) = pm_proxies pm"
  "pm_sendClosed (setProxy n w pm) = pm_sendClosed pm" "pm_sendClosed (HandleEvent out pm) = pm_sendClosed pm"
  "pm_sent (setProxy n w pm) = pm_sent pm" "about n (setProxy k w pm) = about n pm"
  by (simp_all add: setProxy_def HandleEvent_def about_def)

lemma HandleEvent_Nil [simp]: "HandleEvent [] pm = pm"
  by (simp add: HandleEvent_def)

lemma about_send:
  assumes "list_all (\<lambda>m. msgName m = k) out" and "\<not> pm_sendClosed pm"
  shows "about n (HandleEvent out pm) = (if n = k then about n pm @ out else about n pm)"
  using assms by (auto simp: about_def HandleEvent_def list_all_iff intro!: filter_True filter_False)

text \<open>A step that concerns one name keeps the invariant of the manager if it keeps it for that name.\<close>

lemma mgrInv_upd:
  assumes inv: "mgrInv pm" and names: "list_all (\<lambda>m. msgName m = n) out"
    and x: "\<not> pm_sendClosed pm \<Longrightarrow> nameOk n (about n pm @ out) x"
    and keep: "\<And>w'. x = Some w' \<Longrightarrow> ws_Name (w_status w') = n \<and>
      ProxyName (GetBaseInfo (ws_Cfg (w_status w'))) = n \<and> \<not> w_closeCh w' \<and> phase w' \<noteq> ProxyPhaseClosed"
  shows "mgrInv (HandleEvent out (setProxy n x pm))"
proof -
  let ?pm = "HandleEvent out (setProxy n x pm)"
  have "nameOk k (about k ?pm) (pm_proxies ?pm k)" if open': "\<not> pm_sendClosed pm" for k
  proof (cases "k = n")
    case True
    then show ?thesis using x [OF open'] open' by (simp add: about_send [OF names])
  next
    case False
    have "nameOk k (about k pm) (pm_proxies pm k)" using inv open' by (simp add: mgrInv_def)
    then show ?thesis using False open' by (simp add: about_send [OF names])
  qed
  moreover have "\<forall>k w. pm_proxies ?pm k = Some w \<longrightarrow> ws_Name (w_status w) = k \<and>
      ProxyName (GetBaseInfo (ws_Cfg (w_status w))) = k \<and> \<not> w_closeCh w \<and> phase w \<noteq> ProxyPhaseClosed"
    using inv keep by (auto simp: mgrInv_def)
  ultimately show ?thesis by (simp add: mgrInv_def)
qed

lemma checkWorker_keep:
  "checkWorker now h w = (out, w') \<Longrightarrow> phase w \<noteq> ProxyPhaseClosed \<Longrightarrow>
     ws_Name (w_status w') = ws_Name (w_status w) \<and> ws_Cfg (w_status w') = ws_Cfg (w_status w) \<and>
     w_closeCh w' = w_closeCh w \<and> phase w' \<noteq> ProxyPhaseClosed"
  by (auto simp: checkWorker_def split: if_splits)

lemma SetRunningStatus_keep:
  "SetRunningStatus now runErr addr respErr w = (e, out, w') \<Longrightarrow> phase w \<noteq> ProxyPhaseClosed \<Longrightarrow>
     ws_Name (w_status w') = ws_Name (w_status w) \<and> ws_Cfg (w_status w') = ws_Cfg (w_status w) \<and>
     w_closeCh w' = w_closeCh w \<and> phase w' \<noteq> ProxyPhaseClosed"
  by (auto simp: SetRunningStatus_def Let_def split: if_splits option.splits)

lemma names_out:
  assumes "ws_Name (w_status w) = n" "ProxyName (GetBaseInfo (ws_Cfg (w_status w))) = n"
  shows "checkWorker now h w = (out, w') \<Longrightarrow> list_all (\<lambda>m. msgName m = n) out"
    and "SetRunningStatus now runErr addr respErr w = (e, out, w') \<Longrightarrow> list_all (\<lambda>m. msgName m = n) out"
    and "Stop w = Inr (out, w') \<Longrightarrow> list_all (\<lambda>m. msgName m = n) out"
  using assms by (auto simp: checkWorker_def SetRunningStatus_def Stop_def closeMsg_def Let_def
      split: if_splits option.splits)

lemma workerStep_inv [go_inv]:
  assumes "mgrInv pm" "pm_proxies pm n = Some w"
  shows "mgrInv (workerStep now h n w pm)"
proof -
  obtain out w' where c: "checkWorker now h w = (out, w')" by fastforce
  note D = mgrInvD [OF assms]
  have "mgrInv (HandleEvent out (setProxy n (Some w') pm))"
    by (rule mgrInv_upd [OF assms(1) names_out(1) [OF D(1,2) c]])
       (use D(1-3) checkWorker_keep [OF c D(4)] checkWorker_inv [OF D(5) c] in auto)
  then show ?thesis by (simp add: workerStep_def c)
qed

lemma StartProxy_inv [go_inv]:
  assumes "mgrInv pm" "StartProxy now runErr n addr err pm = (e, pm')"
  shows "mgrInv pm'"
proof (cases "pm_proxies pm n")
  case None
  then show ?thesis using assms by (simp add: StartProxy_def)
next
  case (Some w)
  obtain e' out w' where c: "SetRunningStatus now runErr addr err w = (e', out, w')" by (metis prod_cases3)
  note D = mgrInvD [OF assms(1) Some]
  have "mgrInv (HandleEvent out (setProxy n (Some w') pm))"
    by (rule mgrInv_upd [OF assms(1) names_out(2) [OF D(1,2) c]])
       (use D(1-3) SetRunningStatus_keep [OF c D(4)] SetRunningStatus_inv [OF D(5) c] in auto)
  then show ?thesis using assms(2) by (simp add: StartProxy_def Some c)
qed

lemma callback_inv [go_inv]:
  assumes "mgrInv pm" "pm_proxies pm n = Some w"
  shows "mgrInv (setProxy n (Some (w\<lparr> w_health := h \<rparr>)) pm)"
proof -
  note D = mgrInvD [OF assms]
  have "wrapperInv n ms w \<Longrightarrow> wrapperInv n ms (w\<lparr> w_health := h \<rparr>)" for ms by (simp add: wrapperInv_def)
  then have "mgrInv (HandleEvent [] (setProxy n (Some (w\<lparr> w_health := h \<rparr>)) pm))"
    by (intro mgrInv_upd [OF assms(1)]) (use D in auto)
  then show ?thesis by simp
qed

lemma closed_channel_inv [go_inv]: "mgrInv pm \<Longrightarrow> mgrInv (pm\<lparr> pm_sendClosed := True \<rparr>)"
  by (simp add: mgrInv_def)

lemma Stop_ok: "\<not> w_closeCh w \<Longrightarrow> \<exists>w'. Stop w = Inr (closeMsg w, w')"
  by (simp add: Stop_def)

text \<open>Stopping proxies of the manager never panics, removes them, and closes each at the server.\<close>

lemma stop_one_inv:
  assumes "mgrInv pm" "pm_proxies pm n = Some w"
  shows "mgrInv (HandleEvent (closeMsg w) (setProxy n None pm))"
proof -
  note D = mgrInvD [OF assms]
  have names: "list_all (\<lambda>m. msgName m = n) (closeMsg w)" using D(1) by (simp add: closeMsg_def)
  show ?thesis by (rule mgrInv_upd [OF assms(1) names]) (simp_all add: closeMsg_def)
qed

lemma stopAll_ok:
  assumes "mgrInv pm"
  shows "\<exists>pm'. stopAll ns pm = Inr pm' \<and> mgrInv pm' \<and> pm_sendClosed pm' = pm_sendClosed pm \<and>
    pm_proxies pm' = (\<lambda>n. if n \<in> set ns then None else pm_proxies pm n) \<and>
    (distinct ns \<longrightarrow> pm_sent pm' = (if pm_sendClosed pm then pm_sent pm
       else pm_sent pm @ map SendCloseProxy (filter (\<lambda>n. pm_proxies pm n \<noteq> None) ns)))"
  using assms
proof (induction ns arbitrary: pm)
  case (Cons n ns)
  show ?case
  proof (cases "pm_proxies pm n")
    case None
    then show ?thesis using Cons.IH [OF Cons.prems] by (auto simp: fun_eq_iff)
  next
    case (Some w)
    note D = mgrInvD [OF Cons.prems Some]
    obtain w' where s: "Stop w = Inr (closeMsg w, w')" using Stop_ok [OF D(3)] by blast
    let ?pm = "HandleEvent (closeMsg w) (setProxy n None pm)"
    have sent: "pm_sent ?pm = (if pm_sendClosed pm then pm_sent pm else pm_sent pm @ [SendCloseProxy n])"
      using D(1) by (simp add: HandleEvent_def closeMsg_def)
    obtain pm' where pm': "stopAll ns ?pm = Inr pm'" "mgrInv pm'" "pm_sendClosed pm' = pm_sendClosed ?pm"
        "pm_proxies pm' = (\<lambda>k. if k \<in> set ns then None else pm_proxies ?pm k)"
        "distinct ns \<longrightarrow> pm_sent pm' = (if pm_sendClosed ?pm then pm_sent ?pm
          else pm_sent ?pm @ map SendCloseProxy (filter (\<lambda>k. pm_proxies ?pm k \<noteq> None) ns))"
      using Cons.IH [OF stop_one_inv [OF Cons.prems Some]] by blast
    have "n \<notin> set ns \<Longrightarrow> filter (\<lambda>k. ((pm_proxies pm)(n := None)) k \<noteq> None) ns = filter (\<lambda>k. pm_proxies pm k \<noteq> None) ns"
      by (intro filter_cong) auto
    then show ?thesis
      using pm' Some s sent by (auto simp: fun_eq_iff)
  qed
qed simp

lemma addAll_spec:
  "pm_proxies (addAll cfgs ns pm) = (\<lambda>n. if n \<in> set ns \<and> pm_proxies pm n = None
      then map_option NewWrapper (cfgs n) else pm_proxies pm n)"
  "pm_sent (addAll cfgs ns pm) = pm_sent pm" "pm_sendClosed (addAll cfgs ns pm) = pm_sendClosed pm"
  by (induction ns arbitrary: pm) (auto simp: fun_eq_iff split: option.split)

lemma new_wrapper_fields [simp]:
  "ws_Name (w_status (NewWrapper c)) = ProxyName (GetBaseInfo c)" "ws_Cfg (w_status (NewWrapper c)) = c"
  "w_closeCh (NewWrapper c) = False" "phase (NewWrapper c) = ProxyPhaseNew"
  by (simp_all add: NewWrapper_def phase_def Let_def)

lemma addAll_inv:
  assumes "mgrInv pm" "wellKeyed cfgs"
  shows "mgrInv (addAll cfgs ns pm)"
proof -
  have sent: "about n (addAll cfgs ns pm) = about n pm" for n by (simp add: about_def addAll_spec)
  have "nameOk n (about n pm) (pm_proxies (addAll cfgs ns pm) n)" if "nameOk n (about n pm) (pm_proxies pm n)" for n
    using that assms(2) by (cases "cfgs n") (auto simp: addAll_spec wellKeyed_def new_wrapperInv)
  then show ?thesis
    using assms unfolding mgrInv_def sent by (auto simp: addAll_spec wellKeyed_def split: if_splits)
qed

text \<open>A reload never panics; its result is determined by the configurations.\<close>

lemma Reload_ok:
  assumes "mgrInv pm" "wellKeyed cfgs" "rangeOf order1 (pm_proxies pm)" "rangeOf order2 cfgs"
  shows "\<exists>pm'. Reload cfgs order1 order2 pm = Inr pm' \<and> mgrInv pm' \<and> pm_sendClosed pm' = pm_sendClosed pm \<and>
    pm_proxies pm' = (\<lambda>n. case cfgs n of None \<Rightarrow> None
      | Some c \<Rightarrow> (case pm_proxies pm n of
            None \<Rightarrow> Some (NewWrapper c)
          | Some w \<Rightarrow> if Compare (ws_Cfg (w_status w)) c then Some w else Some (NewWrapper c))) \<and>
    pm_sent pm' = (if pm_sendClosed pm then pm_sent pm
      else pm_sent pm @ map SendCloseProxy (delNames cfgs order1 pm))"
proof -
  let ?dels = "delNames cfgs order1 pm"
  have dist: "distinct ?dels" using assms(3) by (simp add: delNames_def rangeOf_def)
  have del: "n \<in> set ?dels \<longleftrightarrow> (\<exists>w. pm_proxies pm n = Some w \<and> mustDel cfgs n w)" for n
    using assms(3) by (auto simp: delNames_def rangeOf_def dom_def split: option.splits)
  then have all: "filter (\<lambda>n. pm_proxies pm n \<noteq> None) ?dels = ?dels" by (intro filter_True) auto
  obtain pm1 where pm1: "stopAll ?dels pm = Inr pm1" "mgrInv pm1" "pm_sendClosed pm1 = pm_sendClosed pm"
      "pm_proxies pm1 = (\<lambda>n. if n \<in> set ?dels then None else pm_proxies pm n)"
      "pm_sent pm1 = (if pm_sendClosed pm then pm_sent pm else pm_sent pm @ map SendCloseProxy ?dels)"
    using stopAll_ok [OF assms(1), of ?dels] dist all by auto
  have dom: "n \<in> set order2 \<longleftrightarrow> cfgs n \<noteq> None" for n using assms(4) by (auto simp: rangeOf_def)
  have "pm_proxies (addAll cfgs order2 pm1) = (\<lambda>n. case cfgs n of None \<Rightarrow> None
      | Some c \<Rightarrow> (case pm_proxies pm n of
            None \<Rightarrow> Some (NewWrapper c)
          | Some w \<Rightarrow> if Compare (ws_Cfg (w_status w)) c then Some w else Some (NewWrapper c)))"
    by (auto simp: fun_eq_iff addAll_spec pm1(4) dom del mustDel_def split: option.split)
  then show ?thesis
    using pm1 addAll_inv [OF pm1(2) assms(2)] by (simp add: Reload_def addAll_spec)
qed

lemma mgr_step_inv:
  assumes "mgrInv pm" and "mgr_step pm pm'"
  shows "mgrInv pm'"
  using assms(2)
proof cases
  case (reload cfgs order1 order2)
  then show ?thesis using Reload_ok [OF assms(1)] by fastforce
next
  case (closed order)
  then show ?thesis using stopAll_ok [OF assms(1), of order] by (auto simp: Close_def)
qed (use assms(1) in \<open>auto intro: workerStep_inv callback_inv closed_channel_inv
    simp: statusNormalCallback_def statusFailedCallback_def\<close>)

lemma mgr_reach_inv: "mgr_reach pm \<Longrightarrow> mgrInv pm"
proof (induction rule: mgr_reach.induct)
  case start
  then show ?case by (simp add: mgrInv_def NewManager_def about_def)
qed (auto intro: mgr_step_inv StartProxy_inv)

text \<open>Loading the same configurations again does nothing.\<close>

lemma Compare_refl [simp]: "Compare c c"
  by (cases c) (simp_all add: compareBase_iff)

lemma Reload_again:
  assumes "mgrInv pm" "wellKeyed cfgs" "rangeOf order1 (pm_proxies pm)" "rangeOf order2 cfgs"
    and "\<And>n. case (pm_proxies pm n, cfgs n) of (None, None) \<Rightarrow> True
      | (Some w, Some c) \<Rightarrow> Compare (ws_Cfg (w_status w)) c | _ \<Rightarrow> False"
  shows "Reload cfgs order1 order2 pm = Inr pm"
proof -
  have "(case cfgs n of None \<Rightarrow> None
      | Some c \<Rightarrow> (case pm_proxies pm n of
            None \<Rightarrow> Some (NewWrapper c)
          | Some w \<Rightarrow> if Compare (ws_Cfg (w_status w)) c then Some w else Some (NewWrapper c))) = pm_proxies pm n" for n
    using assms(5) [of n] by (auto split: option.splits)
  moreover have "delNames cfgs order1 pm = []"
    unfolding delNames_def mustDel_def filter_empty_conv
  proof
    fix n
    show "\<not> (case pm_proxies pm n of None \<Rightarrow> False
        | Some w \<Rightarrow> (case cfgs n of None \<Rightarrow> True | Some cfg \<Rightarrow> \<not> Compare (ws_Cfg (w_status w)) cfg))"
      using assms(5) [of n] by (auto split: option.splits)
  qed
  ultimately obtain pm' where "Reload cfgs order1 order2 pm = Inr pm'" "pm_sendClosed pm' = pm_sendClosed pm"
      "pm_proxies pm' = pm_proxies pm" "pm_sent pm' = pm_sent pm"
    using Reload_ok [OF assms(1-4)] by auto
  then show ?thesis by (cases pm'; cases pm) simp
qed

text \<open>
  An answer is matched with its proxy by name alone. When a proxy is closed and registered again while
  the first answer is on its way, that answer is taken for the second one: the proxy counts as running,
  and the error that the second registration meets is ignored.
\<close>

lemma stale_answer_accepted:
  assumes "w = NewWrapper c" "HealthCheckType (healthCheck (GetBaseInfo c)) \<noteq> []" "err \<noteq> []"
    and "checkWorker t1 0 w = (out1, w1)" "checkWorker t2 1 w1 = (out2, w2)" "checkWorker t3 0 w2 = (out3, w3)"
    and "SetRunningStatus t4 None addr [] w3 = (e4, out4, w4)" "SetRunningStatus t5 None [] err w4 = (e5, out5, w5)"
  shows "out1 @ out2 @ out3 @ out4 @ out5 =
      [SendNewProxy (MarshalToMsg c emptyMsg), SendCloseProxy (ProxyName (GetBaseInfo c)), SendNewProxy (MarshalToMsg c emptyMsg)]"
    and "phase w5 = ProxyPhaseRunning"
proof -
  have 1: "phase w1 = ProxyPhaseWaitStart" "out1 = [SendNewProxy (MarshalToMsg c emptyMsg)]"
      "ws_Name (w_status w1) = ProxyName (GetBaseInfo c)" "ws_Cfg (w_status w1) = c"
    using assms(1,4) by (auto simp: checkWorker_def mayStart_def)
  have 2: "phase w2 = ProxyPhaseCheckFailed" "out2 = [SendCloseProxy (ProxyName (GetBaseInfo c))]"
      "ws_Cfg (w_status w2) = c"
    using assms(5) 1 by (auto simp: checkWorker_def closeMsg_def)
  have 3: "phase w3 = ProxyPhaseWaitStart" "out3 = [SendNewProxy (MarshalToMsg c emptyMsg)]"
    using assms(6) 2 by (auto simp: checkWorker_def mayStart_def)
  have 4: "phase w4 = ProxyPhaseRunning" "out4 = []"
    using assms(7) 3 by (auto simp: SetRunningStatus_def Let_def)
  show "phase w5 = ProxyPhaseRunning" "out1 @ out2 @ out3 @ out4 @ out5 =
      [SendNewProxy (MarshalToMsg c emptyMsg), SendCloseProxy (ProxyName (GetBaseInfo c)), SendNewProxy (MarshalToMsg c emptyMsg)]"
    using assms(8) 1 2 3 4 by (auto simp: SetRunningStatus_def)
qed

section \<open>Properties\<close>

text \<open>
  C22: while the control connection lives, what frpc has told the server is what it believes, in every
  state it can reach by reloads, checks, answers and health calls in any order: the last message about a
  proxy that waits for its start or runs is its registration with its present configuration; the last
  message about a proxy that is new, failed its health check, or is no longer configured, if there is
  one, closes it.
\<close>
theorem server_told_truth:
  assumes "mgr_reach pm" and "\<not> pm_sendClosed pm" and "ms = filter (\<lambda>m. msgName m = n) (pm_sent pm)"
  shows "case pm_proxies pm n of
      None \<Rightarrow> ms = [] \<or> last ms = SendCloseProxy n
    | Some w \<Rightarrow>
        (phase w \<in> {ProxyPhaseNew, ProxyPhaseCheckFailed} \<longrightarrow> ms = [] \<or> last ms = SendCloseProxy n) \<and>
        (phase w \<in> {ProxyPhaseWaitStart, ProxyPhaseRunning} \<longrightarrow>
           ms \<noteq> [] \<and> last ms = SendNewProxy (MarshalToMsg (ws_Cfg (w_status w)) emptyMsg))"
proof -
  have "mgrInv pm" by (rule mgr_reach_inv [OF assms(1)])
  then have ok: "nameOk n ms (pm_proxies pm n)" using assms(2,3) by (simp add: mgrInv_def about_def)
  have "k = n" if "ms \<noteq> []" "last ms = SendCloseProxy k" for k
    using last_in_set [OF that(1)] that(2) assms(3) by auto
  then have closed: "closedAtServer ms \<Longrightarrow> ms = [] \<or> last ms = SendCloseProxy n"
    by (auto simp: closedAtServer_def)
  show ?thesis
    using ok closed by (auto simp: wrapperInv_def openAtServer_def split: option.split)
qed

definition sampleProxy :: "int \<Rightarrow> proxy_conf" where
  "sampleProxy p = TCPProxyConf ((defaultBaseProxyConf ''tcp'')\<lparr> ProxyName := ''ssh'' \<rparr>) p"

definition sampleManager :: manager where
  "sampleManager = workerStep 5 0 ''ssh'' (NewWrapper (sampleProxy 6000)) (setProxy ''ssh'' (Some (NewWrapper (sampleProxy 6000))) NewManager)"

lemma sampleManager_reach: "mgr_reach sampleManager"
proof -
  let ?c = "[''ssh'' \<mapsto> sampleProxy 6000]"
  have "Reload ?c [] [''ssh''] NewManager = Inr (setProxy ''ssh'' (Some (NewWrapper (sampleProxy 6000))) NewManager)"
    by (simp add: Reload_def delNames_def NewManager_def)
  moreover have "wellKeyed ?c" by (simp add: wellKeyed_def sampleProxy_def)
  ultimately have "mgr_reach (setProxy ''ssh'' (Some (NewWrapper (sampleProxy 6000))) NewManager)"
    by (intro mgr_reach.step [OF mgr_reach.start] mgr_step.reload [of ?c "[]" _ "[''ssh'']"]) (simp_all add: rangeOf_def NewManager_def)
  then show ?thesis unfolding sampleManager_def by (rule mgr_reach.step, intro mgr_step.worker) simp
qed

lemma sampleManager_state:
  "map_option phase (pm_proxies sampleManager ''ssh'') = Some ProxyPhaseWaitStart" "\<not> pm_sendClosed sampleManager"
  by (simp_all add: sampleManager_def workerStep_def checkWorker_def mayStart_def NewManager_def)

theorem server_told_truth_witness:
  "last (filter (\<lambda>m. msgName m = ''ssh'') (pm_sent sampleManager)) = SendNewProxy (MarshalToMsg (sampleProxy 6000) emptyMsg)"
proof -
  have "ws_Cfg (w_status w) = sampleProxy 6000" if "pm_proxies sampleManager ''ssh'' = Some w" for w
    using that by (auto simp: sampleManager_def workerStep_def checkWorker_def mayStart_def)
  then show ?thesis
    using server_told_truth [OF sampleManager_reach sampleManager_state(2) refl, of "''ssh''"] sampleManager_state(1)
    by (auto split: option.splits)
qed

text \<open>
  C26: a reload never fails and makes the proxies those of the new configurations: a proxy whose
  configuration is the same keeps its wrapper untouched, every other configuration gets a new one, and
  what is no longer configured is gone; the server is told to close exactly the proxies that were removed
  or replaced; and reloading the same configurations once more changes nothing and sends nothing.
\<close>
theorem reload_reconciles:
  assumes "mgr_reach pm" and "wellKeyed cfgs" and "rangeOf order1 (pm_proxies pm)" and "rangeOf order2 cfgs"
  shows "\<exists>pm'. Reload cfgs order1 order2 pm = Inr pm' \<and>
    pm_proxies pm' = (\<lambda>n. case cfgs n of None \<Rightarrow> None
      | Some c \<Rightarrow> (case pm_proxies pm n of
            None \<Rightarrow> Some (NewWrapper c)
          | Some w \<Rightarrow> if Compare (ws_Cfg (w_status w)) c then Some w else Some (NewWrapper c))) \<and>
    (\<not> pm_sendClosed pm \<longrightarrow> pm_sent pm' = pm_sent pm @ map SendCloseProxy
      (filter (\<lambda>n. \<nexists>w c. pm_proxies pm n = Some w \<and> cfgs n = Some c \<and> Compare (ws_Cfg (w_status w)) c) order1)) \<and>
    (rangeOf order3 cfgs \<longrightarrow> Reload cfgs order3 order2 pm' = Inr pm')"
proof -
  note inv = mgr_reach_inv [OF assms(1)]
  obtain pm' where pm': "Reload cfgs order1 order2 pm = Inr pm'" "mgrInv pm'" "pm_sendClosed pm' = pm_sendClosed pm"
      "pm_proxies pm' = (\<lambda>n. case cfgs n of None \<Rightarrow> None
        | Some c \<Rightarrow> (case pm_proxies pm n of
              None \<Rightarrow> Some (NewWrapper c)
            | Some w \<Rightarrow> if Compare (ws_Cfg (w_status w)) c then Some w else Some (NewWrapper c)))"
      "pm_sent pm' = (if pm_sendClosed pm then pm_sent pm else pm_sent pm @ map SendCloseProxy (delNames cfgs order1 pm))"
    using Reload_ok [OF inv assms(2-4)] by blast
  have "set order1 = dom (pm_proxies pm)" using assms(3) by (simp add: rangeOf_def)
  then have dels: "delNames cfgs order1 pm = filter (\<lambda>n. \<nexists>w c. pm_proxies pm n = Some w \<and> cfgs n = Some c \<and>
      Compare (ws_Cfg (w_status w)) c) order1"
    unfolding delNames_def mustDel_def by (intro filter_cong) (auto split: option.splits)
  have "dom (pm_proxies pm') = dom cfgs" by (auto simp: pm'(4) dom_def split: option.splits if_splits)
  then have range: "rangeOf order3 cfgs \<Longrightarrow> rangeOf order3 (pm_proxies pm')" by (simp add: rangeOf_def)
  have same: "case (pm_proxies pm' n, cfgs n) of (None, None) \<Rightarrow> True
      | (Some w, Some c) \<Rightarrow> Compare (ws_Cfg (w_status w)) c | _ \<Rightarrow> False" for n
    by (auto simp: pm'(4) split: option.split)
  show ?thesis
    using pm' dels Reload_again [OF pm'(2) assms(2) range assms(4) same] by auto
qed

theorem reload_reconciles_witness:
  "\<exists>pm'. Reload [''ssh'' \<mapsto> sampleProxy 7000] [''ssh''] [''ssh''] sampleManager = Inr pm' \<and>
     pm_proxies pm' = [''ssh'' \<mapsto> NewWrapper (sampleProxy 7000)] \<and>
     pm_sent pm' = pm_sent sampleManager @ [SendCloseProxy ''ssh'']"
proof -
  let ?c = "[''ssh'' \<mapsto> sampleProxy 7000]"
  obtain w where w: "pm_proxies sampleManager = [''ssh'' \<mapsto> w]" "ws_Cfg (w_status w) = sampleProxy 6000"
    by (auto simp: sampleManager_def workerStep_def checkWorker_def mayStart_def NewManager_def)
  have "\<not> Compare (sampleProxy 6000) (sampleProxy 7000)" by (simp add: sampleProxy_def)
  moreover have "wellKeyed ?c" "rangeOf [''ssh''] (pm_proxies sampleManager)" "rangeOf [''ssh''] ?c"
    by (simp_all add: wellKeyed_def sampleProxy_def rangeOf_def w(1))
  ultimately show ?thesis
    using reload_reconciles [OF sampleManager_reach, of ?c "[''ssh'']" "[''ssh'']" "[''ssh'']"] w sampleManager_state(2)
    by (auto simp: fun_eq_iff)
qed

end
