(* ===== verification/Routers.thy ===== *)
theory Routers
  imports Interfaces
begin

text \<open>
  The routing table of virtual hosts, \<^verbatim>\<open>pkg/util/vhost/router.go\<close>: for each domain
  and each user name a list of routers, sorted by location in descending order, so that the first
  router whose location is a prefix of a path is the one with the longest such location. The payload of
  a router is of any type.
\<close>

section \<open>The table\<close>

record 'p router =
  domain :: string
  location :: string
  httpUser :: string
  payload :: 'p

type_synonym 'p routers = "string \<rightharpoonup> (string \<rightharpoonup> 'p router list)"

definition NewRouters :: "'p routers" where "NewRouters = Map.empty"

text \<open>\<open>sort.Sort(sort.Reverse(ByLocation(vrs)))\<close>: descending by location, as bytes.\<close>

fun insertDesc :: "'p router \<Rightarrow> 'p router list \<Rightarrow> 'p router list" where
  "insertDesc x [] = [x]"
| "insertDesc x (y # ys) = (if strLess (location x) (location y) then y # insertDesc x ys else x # y # ys)"

definition sortReverse :: "'p router list \<Rightarrow> 'p router list" where
  "sortReverse vrs = foldr insertDesc vrs []"

definition exist :: "'p routers \<Rightarrow> string \<Rightarrow> string \<Rightarrow> string \<Rightarrow> 'p router option" where
  "exist r host path user =
     (case r host of None \<Rightarrow> None
      | Some byUser \<Rightarrow> (case byUser user of None \<Rightarrow> None
        | Some vrs \<Rightarrow> find (\<lambda>vr. path = location vr) vrs))"

datatype router_error = ErrRouterConfigConflict

definition Add ::
  "'p routers \<Rightarrow> string \<Rightarrow> string \<Rightarrow> string \<Rightarrow> 'p \<Rightarrow> (router_error, 'p routers) result" where
  "Add r dm loc user pl =
     (if exist r dm loc user \<noteq> None then Inl ErrRouterConfigConflict
      else
        let byUser = (case r dm of None \<Rightarrow> Map.empty | Some m \<Rightarrow> m);
            vrs = (case byUser user of None \<Rightarrow> [] | Some l \<Rightarrow> l);
            vr = \<lparr> domain = dm, location = loc, httpUser = user, payload = pl \<rparr>;
            vrs' = sortReverse (vrs @ [vr]) in
        Inr (r(dm \<mapsto> byUser(user \<mapsto> vrs'))))"

definition Del :: "'p routers \<Rightarrow> string \<Rightarrow> string \<Rightarrow> string \<Rightarrow> 'p routers" where
  "Del r dm loc user =
     (case r dm of None \<Rightarrow> r
      | Some byUser \<Rightarrow> (case byUser user of None \<Rightarrow> r
        | Some vrs \<Rightarrow> r(dm \<mapsto> byUser(user \<mapsto> filter (\<lambda>vr. location vr \<noteq> loc) vrs))))"

definition Get :: "'p routers \<Rightarrow> string \<Rightarrow> string \<Rightarrow> string \<Rightarrow> 'p router option" where
  "Get r host path user =
     (case r host of None \<Rightarrow> None
      | Some byUser \<Rightarrow> (case byUser user of None \<Rightarrow> None
        | Some vrs \<Rightarrow> find (\<lambda>vr. hasPrefix path (location vr)) vrs))"

section \<open>The routers of a domain and a user\<close>

definition routersAt :: "'p routers \<Rightarrow> string \<Rightarrow> string \<Rightarrow> 'p router list" where
  "routersAt r d u = (case r d of None \<Rightarrow> [] | Some m \<Rightarrow> (case m u of None \<Rightarrow> [] | Some vrs \<Rightarrow> vrs))"

definition descending :: "'p router list \<Rightarrow> bool" where
  "descending vrs = sorted_wrt (\<lambda>a b. strLess (location b) (location a)) vrs"

definition routersOk :: "'p routers \<Rightarrow> bool" where
  "routersOk r \<longleftrightarrow> (\<forall>d u. descending (routersAt r d u) \<and>
     (\<forall>vr \<in> set (routersAt r d u). domain vr = d \<and> httpUser vr = u))"

lemma exist_at: "exist r d l u = find (\<lambda>vr. l = location vr) (routersAt r d u)"
  by (simp add: exist_def routersAt_def split: option.split)

lemma Get_at: "Get r d path u = find (\<lambda>vr. hasPrefix path (location vr)) (routersAt r d u)"
  by (simp add: Get_def routersAt_def split: option.split)

lemma Del_at:
  "routersAt (Del r d l u) d' u' =
     (if (d', u') = (d, u) then filter (\<lambda>vr. location vr \<noteq> l) (routersAt r d u) else routersAt r d' u')"
  by (auto simp: Del_def routersAt_def split: option.splits)

lemma Add_at:
  assumes "Add r d l u p = Inr r'"
  shows "routersAt r' d' u' = (if (d', u') = (d, u)
    then sortReverse (routersAt r d u @ [\<lparr> domain = d, location = l, httpUser = u, payload = p \<rparr>])
    else routersAt r d' u')"
proof -
  have "r' = r(d \<mapsto> (case r d of None \<Rightarrow> Map.empty | Some m \<Rightarrow> m)(u \<mapsto>
      sortReverse (routersAt r d u @ [\<lparr> domain = d, location = l, httpUser = u, payload = p \<rparr>])))"
    using assms unfolding Add_def routersAt_def Let_def
    by (cases "r d"; cases "exist r d l u") (auto split: option.splits)
  then show ?thesis by (auto simp: routersAt_def split: option.splits)
qed

lemma set_insertDesc [simp]: "set (insertDesc x xs) = insert x (set xs)"
  by (induction xs) auto

lemma set_sortReverse [simp]: "set (sortReverse xs) = set xs"
  by (induction xs) (simp_all add: sortReverse_def)

lemma descending_insertDesc:
  "descending xs \<Longrightarrow> location x \<notin> location ` set xs \<Longrightarrow> descending (insertDesc x xs)"
proof (induction xs)
  case (Cons y ys)
  then have "strLess (location x) (location y) \<or> strLess (location y) (location x)"
    using strLess_linear by force
  then show ?case
    using Cons strLess_trans by (auto simp: descending_def dest: strLess_asym)
qed (simp add: descending_def)

lemma descending_sortReverse:
  "distinct (map location xs) \<Longrightarrow> descending (sortReverse xs)"
proof (induction xs)
  case Nil
  then show ?case by (simp add: sortReverse_def descending_def)
next
  case (Cons x xs)
  have "descending (insertDesc x (sortReverse xs))"
    using Cons by (intro descending_insertDesc) auto
  then show ?case by (simp add: sortReverse_def)
qed

lemma descending_distinct: "descending xs \<Longrightarrow> distinct (map location xs)"
proof (induction xs)
  case (Cons x xs)
  have "location x \<noteq> location y" if "y \<in> set xs" for y
    using Cons.prems that strLess_irrefl by (metis descending_def sorted_wrt.simps(2))
  then show ?case using Cons by (auto simp: descending_def)
qed simp

lemma descending_filter: "descending xs \<Longrightarrow> descending (filter P xs)"
  unfolding descending_def by (rule sorted_wrt_filter)

text \<open>In a descending list a router is found by its location, whatever its place.\<close>

lemma find_distinct:
  "distinct (map f xs) \<Longrightarrow> find (\<lambda>x. k = f x) xs = Some y \<longleftrightarrow> y \<in> set xs \<and> f y = k"
  by (induction xs) (auto simp: image_iff)

lemma exist_Some:
  "routersOk r \<Longrightarrow> exist r d l u = Some vr \<longleftrightarrow> vr \<in> set (routersAt r d u) \<and> location vr = l"
  unfolding exist_at by (rule find_distinct) (simp add: routersOk_def descending_distinct)

lemma exist_None: "exist r d l u = None \<longleftrightarrow> l \<notin> location ` set (routersAt r d u)"
  by (auto simp: exist_at find_None_iff)

lemma descending_find:
  assumes "descending vrs"
  shows "find (\<lambda>vr. hasPrefix path (location vr)) vrs = Some vr \<longleftrightarrow>
    vr \<in> set vrs \<and> hasPrefix path (location vr) \<and>
    (\<forall>w \<in> set vrs. hasPrefix path (location w) \<longrightarrow> length (location w) \<le> length (location vr))"
  using assms
proof (induction vrs)
  case (Cons v vs)
  have below: "strLess (location w) (location v)" if "w \<in> set vs" for w
    using Cons.prems that by (simp add: descending_def)
  have vs: "descending vs" using Cons.prems by (simp add: descending_def)
  show ?case
  proof (cases "hasPrefix path (location v)")
    case True
    have longest: "length (location w) \<le> length (location v)" if "w \<in> set vs" "hasPrefix path (location w)" for w
      using prefix_longer_greater [OF True that(2)] strLess_asym [OF below [OF that(1)]] by fastforce
    have same: "w = v" if "w \<in> set vs" "hasPrefix path (location w)" "length (location v) \<le> length (location w)" for w
    proof -
      have "length (location w) = length (location v)" using longest that by fastforce
      then have "location w = location v" using True that(2) by (metis hasPrefix_def)
      then show ?thesis using below [OF that(1)] by simp
    qed
    show ?thesis using True longest same by auto
  next
    case False
    then show ?thesis using Cons.IH [OF vs] by auto
  qed
qed simp

lemma Get_Some:
  assumes "routersOk r"
  shows "Get r d path u = Some vr \<longleftrightarrow>
    vr \<in> set (routersAt r d u) \<and> hasPrefix path (location vr) \<and>
    (\<forall>w \<in> set (routersAt r d u). hasPrefix path (location w) \<longrightarrow> length (location w) \<le> length (location vr))"
  unfolding Get_at using assms by (intro descending_find) (simp add: routersOk_def)

lemma Get_fields: "routersOk r \<Longrightarrow> Get r d path u = Some vr \<Longrightarrow> domain vr = d \<and> httpUser vr = u"
  using Get_Some by (metis routersOk_def)

section \<open>The table implements the interface\<close>

definition routeOf :: "'p routers \<Rightarrow> string \<Rightarrow> string \<Rightarrow> string \<Rightarrow> 'p option" where
  "routeOf r d l u = map_option payload (exist r d l u)"

definition bestOf :: "'p routers \<Rightarrow> string \<Rightarrow> string \<Rightarrow> string \<Rightarrow> (string \<times> 'p) option" where
  "bestOf r d path u = map_option (\<lambda>vr. (location vr, payload vr)) (Get r d path u)"

lemma routersOk_new [simp]: "routersOk NewRouters"
  by (simp add: routersOk_def routersAt_def NewRouters_def descending_def)

lemma routersOk_Del: "routersOk r \<Longrightarrow> routersOk (Del r d l u)"
  by (auto simp: routersOk_def Del_at descending_filter)

lemma Add_fails: "isl (Add r d l u p) \<longleftrightarrow> exist r d l u \<noteq> None"
  by (simp add: Add_def Let_def)

lemma routersOk_Add:
  assumes "routersOk r" "Add r d l u p = Inr r'"
  shows "routersOk r'"
proof -
  let ?v = "\<lparr> domain = d, location = l, httpUser = u, payload = p \<rparr>"
  have "exist r d l u = None" using assms(2) Add_fails [of r d l u p] by simp
  then have "distinct (map location (routersAt r d u @ [?v]))"
    using assms(1) by (auto simp: exist_None routersOk_def intro: descending_distinct)
  from descending_sortReverse [OF this] show ?thesis
    using assms(1) Add_at [OF assms(2)] by (auto simp: routersOk_def)
qed

lemma exist_Add:
  assumes "routersOk r" "Add r d l u p = Inr r'"
  shows "exist r' d' l' u' = (if (d', l', u') = (d, l, u)
    then Some \<lparr> domain = d, location = l, httpUser = u, payload = p \<rparr> else exist r d' l' u')"
proof (cases "(d', u') = (d, u)")
  case False
  then show ?thesis by (auto simp: exist_at Add_at [OF assms(2)])
next
  case True
  let ?v = "\<lparr> domain = d, location = l, httpUser = u, payload = p \<rparr>"
  have none: "exist r d l u = None" using assms(2) Add_fails [of r d l u p] by simp
  have set: "set (routersAt r' d u) = insert ?v (set (routersAt r d u))"
    by (simp add: Add_at [OF assms(2)])
  have "exist r' d l' u = Some w \<longleftrightarrow> (if l' = l then Some ?v else exist r d l' u) = Some w" for w
    using none unfolding exist_Some [OF routersOk_Add [OF assms]] set
    by (auto simp: exist_Some [OF assms(1)] exist_None)
  then have "exist r' d l' u = (if l' = l then Some ?v else exist r d l' u)"
    by (cases "exist r' d l' u") (metis not_Some_eq)+
  then show ?thesis using True by simp
qed

lemma exist_Del:
  assumes "routersOk r"
  shows "exist (Del r d l u) d' l' u' = (if (d', l', u') = (d, l, u) then None else exist r d' l' u')"
proof (cases "(d', u') = (d, u)")
  case False
  then show ?thesis by (auto simp: exist_at Del_at)
next
  case True
  have "exist (Del r d l u) d l' u = Some w \<longleftrightarrow> (if l' = l then None else exist r d l' u) = Some w" for w
    unfolding exist_Some [OF routersOk_Del [OF assms]] by (auto simp: Del_at exist_Some [OF assms])
  then have "exist (Del r d l u) d l' u = (if l' = l then None else exist r d l' u)"
    by (cases "exist (Del r d l u) d l' u") (metis not_Some_eq)+
  then show ?thesis using True by simp
qed

lemma bestOf_Some:
  assumes "routersOk r"
  shows "bestOf r d path u = Some (l, p) \<longleftrightarrow>
    routeOf r d l u = Some p \<and> hasPrefix path l \<and>
    (\<forall>l'. routeOf r d l' u \<noteq> None \<and> hasPrefix path l' \<longrightarrow> length l' \<le> length l)"
  unfolding bestOf_def routeOf_def
  by (auto simp: Get_Some [OF assms] exist_Some [OF assms] exist_None)

interpretation vr: route_table Add Del routeOf bestOf routersOk
proof unfold_locales
  show "isl (Add t d l u p) \<longleftrightarrow> routeOf t d l u \<noteq> None" for t d l u p
    by (simp add: Add_fails routeOf_def)
  show "routersOk t \<Longrightarrow> Add t d l u p = Inr t' \<Longrightarrow> routersOk t'" for t t' d l u p
    by (rule routersOk_Add)
  show "routersOk t \<Longrightarrow> Add t d l u p = Inr t' \<Longrightarrow>
      routeOf t' d' l' u' = (if (d', l', u') = (d, l, u) then Some p else routeOf t d' l' u')" for t t' d l u p d' l' u'
    by (simp add: routeOf_def exist_Add)
  show "routersOk t \<Longrightarrow> routersOk (Del t d l u)" for t d l u
    by (rule routersOk_Del)
  show "routersOk t \<Longrightarrow>
      routeOf (Del t d l u) d' l' u' = (if (d', l', u') = (d, l, u) then None else routeOf t d' l' u')" for t d l u d' l' u'
    by (simp add: routeOf_def exist_Del)
  show "routersOk t \<Longrightarrow> bestOf t d path u = Some (l, p) \<longleftrightarrow>
      routeOf t d l u = Some p \<and> hasPrefix path l \<and>
      (\<forall>l'. routeOf t d l' u \<noteq> None \<and> hasPrefix path l' \<longrightarrow> length l' \<le> length l)" for t d path u l p
    by (rule bestOf_Some)
  show "routersOk t \<Longrightarrow> bestOf t d path u = None \<longleftrightarrow> (\<forall>l. routeOf t d l u \<noteq> None \<longrightarrow> \<not> hasPrefix path l)" for t d path u
    by (auto simp: bestOf_def routeOf_def Get_at find_None_iff exist_None)
qed

section \<open>Histories\<close>

text \<open>
  The specification of the table is a map from domain, location and user to a payload; a failed
  registration changes nothing.
\<close>

datatype 'p route_op = RAdd string string string 'p | RDel string string string

fun routeApply :: "'p route_op \<Rightarrow> 'p routers \<Rightarrow> 'p routers" where
  "routeApply (RAdd d l u p) r = (case Add r d l u p of Inl e \<Rightarrow> r | Inr r' \<Rightarrow> r')"
| "routeApply (RDel d l u) r = Del r d l u"

fun specApply :: "'p route_op \<Rightarrow> (string \<times> string \<times> string \<rightharpoonup> 'p) \<Rightarrow> (string \<times> string \<times> string \<rightharpoonup> 'p)" where
  "specApply (RAdd d l u p) m = (if m (d, l, u) = None then m((d, l, u) \<mapsto> p) else m)"
| "specApply (RDel d l u) m = m((d, l, u) := None)"

definition routeRun :: "'p route_op list \<Rightarrow> 'p routers" where
  "routeRun ops = foldl (\<lambda>r e. routeApply e r) NewRouters ops"

definition specRun :: "'p route_op list \<Rightarrow> (string \<times> string \<times> string \<rightharpoonup> 'p)" where
  "specRun ops = foldl (\<lambda>m e. specApply e m) Map.empty ops"

lemma routeApply_ok: "routersOk r \<Longrightarrow> routersOk (routeApply e r)"
  by (cases e) (auto intro: routersOk_Add routersOk_Del split: sum.split)

lemma routeRun_ok: "routersOk (routeRun ops)"
  by (induction ops rule: rev_induct) (simp_all add: routeRun_def routeApply_ok)

lemma routeApply_spec:
  assumes "routersOk r" and "\<And>d l u. routeOf r d l u = m (d, l, u)"
  shows "routeOf (routeApply e r) d' l' u' = specApply e m (d', l', u')"
proof (cases e)
  case (RAdd d l u p)
  show ?thesis
  proof (cases "Add r d l u p")
    case (Inl x)
    then have "m (d, l, u) \<noteq> None" using vr.add_fails [OF assms(1), of d l u p] assms(2) by simp
    then show ?thesis using RAdd Inl assms(2) by simp
  next
    case (Inr r')
    then have "m (d, l, u) = None" using vr.add_fails [OF assms(1), of d l u p] assms(2) by simp
    then show ?thesis using RAdd Inr vr.add_route [OF assms(1) Inr] assms(2) by auto
  qed
next
  case (RDel d l u)
  then show ?thesis using vr.del_route [OF assms(1)] assms(2) by auto
qed

lemma routeRun_spec: "routeOf (routeRun ops) d l u = specRun ops (d, l, u)"
proof (induction ops arbitrary: d l u rule: rev_induct)
  case Nil
  then show ?case by (simp add: routeRun_def specRun_def routeOf_def exist_def NewRouters_def)
next
  case (snoc e ops)
  have "routeOf (routeApply e (routeRun ops)) d l u = specApply e (specRun ops) (d, l, u)"
    by (rule routeApply_spec [OF routeRun_ok snoc.IH])
  then show ?case by (simp add: routeRun_def specRun_def)
qed

section \<open>Properties\<close>

text \<open>
  C14: after any history of registrations and removals the table behaves as a plain map of routes: a
  lookup returns the payload registered with the longest location that is a prefix of the path, and
  returns nothing only if no registered location is a prefix of it.
\<close>
theorem routing_table_refines_map:
  "routeOf (routeRun ops) d l u = specRun ops (d, l, u) \<and>
   (bestOf (routeRun ops) d path u = Some (l, p) \<longleftrightarrow>
      specRun ops (d, l, u) = Some p \<and> hasPrefix path l \<and>
      (\<forall>l'. specRun ops (d, l', u) \<noteq> None \<and> hasPrefix path l' \<longrightarrow> length l' \<le> length l)) \<and>
   (bestOf (routeRun ops) d path u = None \<longleftrightarrow> (\<forall>l'. specRun ops (d, l', u) \<noteq> None \<longrightarrow> \<not> hasPrefix path l'))"
  using vr.best_some [OF routeRun_ok, of ops d path u l p] vr.best_none [OF routeRun_ok, of ops d path u]
  unfolding routeRun_spec by blast

theorem routing_table_refines_map_witness:
  "bestOf (routeRun [RAdd ''a'' ''/'' [] (1::nat), RAdd ''a'' ''/x'' [] 2, RAdd ''a'' ''/x/y'' [] 3, RDel ''a'' ''/x/y'' []])
     ''a'' ''/x/y/z'' [] = Some (''/x'', 2)"
proof -
  let ?ops = "[RAdd ''a'' ''/'' [] (1::nat), RAdd ''a'' ''/x'' [] 2, RAdd ''a'' ''/x/y'' [] 3, RDel ''a'' ''/x/y'' []]"
  have m: "specRun ?ops = [(''a'', ''/'', []) \<mapsto> 1, (''a'', ''/x'', []) \<mapsto> 2]"
    by (auto simp: specRun_def fun_eq_iff)
  have "\<forall>l'. specRun ?ops (''a'', l', []) \<noteq> None \<and> hasPrefix ''/x/y/z'' l' \<longrightarrow> length l' \<le> length ''/x''"
    unfolding m by auto
  moreover have "specRun ?ops (''a'', ''/x'', []) = Some 2" "hasPrefix ''/x/y/z'' ''/x''"
    unfolding m by (simp_all add: hasPrefix_def)
  ultimately show ?thesis
    using routing_table_refines_map [of ?ops "''a''" "''/x''" "[]" "''/x/y/z''" 2] by blast
qed

text \<open>
  A registration is refused exactly when the same domain, location and user are taken, and removing
  a route that was just registered restores every lookup: no registration can hide or lose the route of
  another proxy.
\<close>
lemma add_del_restores_lookups:
  assumes "Add (routeRun ops) d l u p = Inr r"
  shows "exist (routeRun ops) d l u = None \<and> bestOf (Del r d l u) d' path u' = bestOf (routeRun ops) d' path u' \<and>
    (if (d', u') = (d, u) then True else bestOf r d' path u' = bestOf (routeRun ops) d' path u')"
  using vr.add_del_best [OF routeRun_ok assms] vr.add_other_best [OF routeRun_ok assms]
    Add_fails [of "routeRun ops" d l u p] assms by auto

end
