(* ===== verification/VhostLookup.thy ===== *)
theory VhostLookup
  imports Routers "HOL-Library.Finite_Map"
begin

text \<open>
  How a request finds its proxy: the reverse proxy for http (\<^verbatim>\<open>pkg/util/vhost/http.go\<close>), the
  multiplexer for https and tcpmux (\<^verbatim>\<open>pkg/util/vhost/vhost.go\<close>) and the canonical form
  of a host (\<^verbatim>\<open>pkg/util/util/http.go\<close>). Both look for the full host name, then for the
  wildcard domains from the longest to the shortest, then for the domain \<open>*\<close>; for each of them first
  for a route of the user, then for one without user.
\<close>

section \<open>Canonical hosts\<close>

definition lastIndex :: "char \<Rightarrow> string \<Rightarrow> nat option" where
  "lastIndex c s = (if c \<in> set s then Some (length s - 1 - length (takeWhile (\<lambda>x. x \<noteq> c) (rev s))) else None)"

definition firstIndex :: "char \<Rightarrow> string \<Rightarrow> nat option" where
  "firstIndex c s = (if c \<in> set s then Some (length (takeWhile (\<lambda>x. x \<noteq> c) s)) else None)"

datatype addr_error = MissingPort | TooManyColons | MissingBracket | UnexpectedBracket

text \<open>\<open>net.SplitHostPort\<close>, the host.\<close>

definition splitHost :: "string \<Rightarrow> (addr_error, string) result" where
  "splitHost s =
     (case lastIndex CHR '':'' s of None \<Rightarrow> Inl MissingPort
      | Some i \<Rightarrow>
          if s ! 0 = CHR ''['' then
            (case firstIndex CHR '']'' s of None \<Rightarrow> Inl MissingBracket
             | Some e \<Rightarrow>
                 if e + 1 = length s then Inl MissingPort
                 else if e + 1 = i then
                   (if CHR ''['' \<in> set (drop 1 s) \<or> CHR '']'' \<in> set (drop (e + 1) s) then Inl UnexpectedBracket
                    else Inr (take (e - 1) (drop 1 s)))
                 else if s ! (e + 1) = CHR '':'' then Inl TooManyColons else Inl MissingPort)
          else if CHR '':'' \<in> set (take i s) then Inl TooManyColons
          else if CHR ''['' \<in> set s \<or> CHR '']'' \<in> set s then Inl UnexpectedBracket
          else Inr (take i s))"

definition hasPort :: "string \<Rightarrow> bool" where
  "hasPort host = (let colons = count_list host CHR '':'' in
     if colons = 0 then False else if colons = 1 then True
     else host ! 0 = CHR ''['' \<and> goContains host '']:'')"

definition CanonicalHost :: "string \<Rightarrow> (addr_error, string) result" where
  "CanonicalHost host0 =
     (let host1 = toLower host0;
          res = (if hasPort host1 then splitHost host1 else Inr host1) in
      case res of Inl e \<Rightarrow> Inl e
      | Inr host \<Rightarrow> Inr (if hasSuffix host ''.'' then take (length host - 1) host else host))"

text \<open>The callers ignore the error and go on with the empty host that comes with it.\<close>

definition hostOf :: "string \<Rightarrow> string" where
  "hostOf host = (case CanonicalHost host of Inl e \<Rightarrow> [] | Inr h \<Rightarrow> h)"

section \<open>The lookup of http\<close>

definition findRouter :: "'p routers \<Rightarrow> string \<Rightarrow> string \<Rightarrow> string \<Rightarrow> 'p router option" where
  "findRouter r inDomain inLocation inUser =
     (case Get r inDomain inLocation inUser of Some vr \<Rightarrow> Some vr
      | None \<Rightarrow> (case Get r inDomain inLocation [] of Some vr \<Rightarrow> Some vr | None \<Rightarrow> None))"

text \<open>The loop over the wildcard domains: the first label is replaced, then dropped.\<close>

function wildcardLoop :: "'p routers \<Rightarrow> string \<Rightarrow> string \<Rightarrow> string list \<Rightarrow> 'p router option" where
  "wildcardLoop r loc user split =
     (if length split < 3 then None
      else case findRouter r (goJoin ''.'' (split[0 := ''*''])) loc user of
        Some vr \<Rightarrow> Some vr
      | None \<Rightarrow> wildcardLoop r loc user (tl (split[0 := ''*''])))"
  by auto
termination by (relation "measure (\<lambda>(r, loc, user, split). length split)") auto

declare wildcardLoop.simps [simp del]

definition getVhost :: "'p routers \<Rightarrow> string \<Rightarrow> string \<Rightarrow> string \<Rightarrow> 'p router option" where
  "getVhost r dm loc user =
     (case findRouter r dm loc user of Some vr \<Rightarrow> Some vr
      | None \<Rightarrow> (case wildcardLoop r loc user (goSplit CHR ''.'' dm) of Some vr \<Rightarrow> Some vr
        | None \<Rightarrow> (case findRouter r ''*'' loc user of Some vr \<Rightarrow> Some vr | None \<Rightarrow> None)))"

text \<open>
  A route of the reverse proxy. A connection is made by a function: the one of a proxy, here its name,
  or the one of a group of proxies, here the number of the group object.
\<close>

datatype conn_fn = ProxyConn string | GroupConn nat

record route_config =
  rc_Domain :: string
  rc_Location :: string
  rc_RewriteHost :: string
  rc_Username :: string
  rc_Password :: string
  rc_Headers :: "(string, string) fmap option"
  rc_RouteByHTTPUser :: string
  rc_CreateConn :: "conn_fn option"

definition Register :: "route_config \<Rightarrow> route_config routers \<Rightarrow> (router_error, route_config routers) result" where
  "Register rc r = Add r (rc_Domain rc) (rc_Location rc) (rc_RouteByHTTPUser rc) rc"

definition UnRegister :: "route_config \<Rightarrow> route_config routers \<Rightarrow> route_config routers" where
  "UnRegister rc r = Del r (rc_Domain rc) (rc_Location rc) (rc_RouteByHTTPUser rc)"

definition GetRouteConfig :: "route_config routers \<Rightarrow> string \<Rightarrow> string \<Rightarrow> string \<Rightarrow> route_config option" where
  "GetRouteConfig r dm loc user = map_option payload (getVhost r dm loc user)"

definition GetRealHost :: "route_config routers \<Rightarrow> string \<Rightarrow> string \<Rightarrow> string \<Rightarrow> string" where
  "GetRealHost r dm loc user =
     (case getVhost r dm loc user of Some vr \<Rightarrow> rc_RewriteHost (payload vr) | None \<Rightarrow> [])"

definition GetHeaders :: "route_config routers \<Rightarrow> string \<Rightarrow> string \<Rightarrow> string \<Rightarrow> (string, string) fmap option" where
  "GetHeaders r dm loc user =
     (case getVhost r dm loc user of Some vr \<Rightarrow> rc_Headers (payload vr) | None \<Rightarrow> None)"

definition CreateConnection :: "route_config routers \<Rightarrow> string \<Rightarrow> string \<Rightarrow> string \<Rightarrow> conn_fn option" where
  "CreateConnection r dm loc user =
     (case getVhost r dm loc user of Some vr \<Rightarrow> rc_CreateConn (payload vr) | None \<Rightarrow> None)"

definition CheckAuth :: "route_config routers \<Rightarrow> string \<Rightarrow> string \<Rightarrow> string \<Rightarrow> string \<Rightarrow> string \<Rightarrow> bool" where
  "CheckAuth r dm loc routeUser user passwd =
     (case getVhost r dm loc routeUser of
        Some vr \<Rightarrow> let checkUser = rc_Username (payload vr); checkPasswd = rc_Password (payload vr) in
          \<not> ((checkUser \<noteq> [] \<or> checkPasswd \<noteq> []) \<and> (checkUser \<noteq> user \<or> checkPasswd \<noteq> passwd))
      | None \<Rightarrow> True)"

section \<open>A request\<close>

text \<open>
  What the reverse proxy reads of a request: its method, its host, the host of an absolute URL, the
  path, and the user and password of the two headers, decoded (\<open>None\<close>: absent or malformed).
\<close>

record request =
  rq_Connect :: bool
  rq_Host :: string
  rq_URLHost :: string
  rq_Path :: string
  rq_BasicAuth :: "(string \<times> string) option"
  rq_ProxyAuth :: "(string \<times> string) option"

definition authUser :: "(string \<times> string) option \<Rightarrow> string" where
  "authUser a = (case a of None \<Rightarrow> [] | Some (u, p) \<Rightarrow> u)"

definition authPasswd :: "(string \<times> string) option \<Rightarrow> string" where
  "authPasswd a = (case a of None \<Rightarrow> [] | Some (u, p) \<Rightarrow> p)"

definition injectUser :: "request \<Rightarrow> string" where
  "injectUser rq =
     (let user = (if rq_URLHost rq \<noteq> [] then authUser (rq_ProxyAuth rq) else []) in
      if user = [] then authUser (rq_BasicAuth rq) else user)"

datatype served = Unauthorized | Forwarded conn_fn | NoRoute

definition ServeHTTP :: "route_config routers \<Rightarrow> request \<Rightarrow> served" where
  "ServeHTTP r rq =
     (let dm = hostOf (rq_Host rq); loc = rq_Path rq; a = rq_BasicAuth rq in
      if \<not> CheckAuth r dm loc (authUser a) (authUser a) (authPasswd a) then Unauthorized
      else case CreateConnection r dm loc (injectUser rq) of None \<Rightarrow> NoRoute | Some conn \<Rightarrow> Forwarded conn)"

section \<open>The lookup of https and tcpmux\<close>

definition muxFindRouter :: "'l routers \<Rightarrow> string \<Rightarrow> string \<Rightarrow> string \<Rightarrow> 'l option" where
  "muxFindRouter r inName inPath hUser =
     (case Get r inName inPath hUser of Some vr \<Rightarrow> Some (payload vr)
      | None \<Rightarrow> (case Get r inName inPath [] of Some vr \<Rightarrow> Some (payload vr) | None \<Rightarrow> None))"

function muxLoop :: "'l routers \<Rightarrow> string \<Rightarrow> string \<Rightarrow> string list \<Rightarrow> 'l option" where
  "muxLoop r path user split =
     (if length split < 3 then None
      else case muxFindRouter r (goJoin ''.'' (split[0 := ''*''])) path user of
        Some l \<Rightarrow> Some l
      | None \<Rightarrow> muxLoop r path user (tl (split[0 := ''*''])))"
  by auto
termination by (relation "measure (\<lambda>(r, loc, user, split). length split)") auto

declare muxLoop.simps [simp del]

definition getListener :: "'l routers \<Rightarrow> string \<Rightarrow> string \<Rightarrow> string \<Rightarrow> 'l option" where
  "getListener r name path user =
     (case muxFindRouter r name path user of Some l \<Rightarrow> Some l
      | None \<Rightarrow> (case muxLoop r path user (goSplit CHR ''.'' name) of Some l \<Rightarrow> Some l
        | None \<Rightarrow> (case muxFindRouter r ''*'' path user of Some l \<Rightarrow> Some l | None \<Rightarrow> None)))"

record listener =
  l_name :: string
  l_location :: string
  l_routeByHTTPUser :: string
  l_userName :: string
  l_passWord :: string

definition Listen :: "route_config \<Rightarrow> listener routers \<Rightarrow> (router_error, listener \<times> listener routers) result" where
  "Listen cfg r =
     (let l = \<lparr> l_name = rc_Domain cfg, l_location = rc_Location cfg, l_routeByHTTPUser = rc_RouteByHTTPUser cfg,
                l_userName = rc_Username cfg, l_passWord = rc_Password cfg \<rparr> in
      case Add r (rc_Domain cfg) (rc_Location cfg) (rc_RouteByHTTPUser cfg) l of
        Inl e \<Rightarrow> Inl e | Inr r' \<Rightarrow> Inr (l, r'))"

definition CloseListener :: "listener \<Rightarrow> listener routers \<Rightarrow> listener routers" where
  "CloseListener l r = Del r (l_name l) (l_location l) (l_routeByHTTPUser l)"

text \<open>
  A connection handled by the multiplexer: what its first bytes say (or that they say nothing), whether
  the success and the authorization functions agree, and where it goes.
\<close>

datatype handled = Dropped | NotFound | NoAuth | Accepted listener

definition muxHandle ::
  "(string \<times> string \<times> string) option \<Rightarrow> (listener \<Rightarrow> bool) \<Rightarrow> (listener \<Rightarrow> bool) option \<Rightarrow> listener routers \<Rightarrow> handled" where
  "muxHandle info success auth r =
     (case info of None \<Rightarrow> Dropped
      | Some (host, path, user) \<Rightarrow>
          (case getListener r (toLower host) (toLower path) user of None \<Rightarrow> NotFound
           | Some l \<Rightarrow>
               if \<not> success l then Dropped
               else (case auth of
                   Some f \<Rightarrow> if l_userName l \<noteq> [] \<and> l_passWord l \<noteq> [] \<and> \<not> f l then NoAuth else Accepted l
                 | None \<Rightarrow> Accepted l)))"

section \<open>The order of the lookup\<close>

text \<open>
  The specification: the domains to try, in order, each with the user and then without, and the first
  of them that has a route.
\<close>

function wildcards :: "string list \<Rightarrow> string list" where
  "wildcards split = (if length split < 3 then [] else goJoin ''.'' (''*'' # tl split) # wildcards (tl split))"
  by auto
termination by (relation "measure length") auto

declare wildcards.simps [simp del]

definition candidates :: "string \<Rightarrow> string list" where
  "candidates dm = dm # wildcards (goSplit CHR ''.'' dm) @ [''*'']"

fun firstSome :: "('a \<Rightarrow> 'b option) \<Rightarrow> 'a list \<Rightarrow> 'b option" where
  "firstSome f [] = None"
| "firstSome f (x # xs) = (case f x of Some y \<Rightarrow> Some y | None \<Rightarrow> firstSome f xs)"

lemma firstSome_append:
  "firstSome f (xs @ ys) = (case firstSome f xs of Some y \<Rightarrow> Some y | None \<Rightarrow> firstSome f ys)"
  by (induction xs) (auto split: option.splits)

lemma firstSome_Some: "firstSome f xs = Some y \<Longrightarrow> \<exists>x \<in> set xs. f x = Some y"
  by (induction xs) (auto split: option.splits)

lemma firstSome_map_option: "firstSome (\<lambda>x. map_option g (f x)) xs = map_option g (firstSome f xs)"
  by (induction xs) (auto split: option.splits)

lemma wildcardLoop_first: "wildcardLoop r loc user split = firstSome (\<lambda>d. findRouter r d loc user) (wildcards split)"
proof (induction split rule: wildcards.induct)
  case (1 split)
  show ?case
  proof (cases "length split < 3")
    case True
    then show ?thesis by (simp add: wildcardLoop.simps wildcards.simps)
  next
    case False
    then obtain x xs where "split = x # xs" by (cases split) auto
    then show ?thesis
      using 1 [OF False] False by (subst wildcardLoop.simps, subst wildcards.simps) (simp split: option.split)
  qed
qed

lemma getVhost_first: "getVhost r dm loc user = firstSome (\<lambda>d. findRouter r d loc user) (candidates dm)"
  by (simp add: getVhost_def candidates_def wildcardLoop_first firstSome_append split: option.split)

lemma muxFindRouter_payload: "muxFindRouter r d path user = map_option payload (findRouter r d path user)"
  by (simp add: muxFindRouter_def findRouter_def split: option.split)

lemma muxLoop_first: "muxLoop r path user split = firstSome (\<lambda>d. muxFindRouter r d path user) (wildcards split)"
proof (induction split rule: wildcards.induct)
  case (1 split)
  show ?case
  proof (cases "length split < 3")
    case True
    then show ?thesis by (simp add: muxLoop.simps wildcards.simps)
  next
    case False
    then obtain x xs where "split = x # xs" by (cases split) auto
    then show ?thesis
      using 1 [OF False] False by (subst muxLoop.simps, subst wildcards.simps) (simp split: option.split)
  qed
qed

lemma getListener_first: "getListener r name path user = firstSome (\<lambda>d. muxFindRouter r d path user) (candidates name)"
  by (simp add: getListener_def candidates_def muxLoop_first firstSome_append split: option.split)

lemma findRouter_first: "findRouter r d loc user = firstSome (\<lambda>u. Get r d loc u) [user, []]"
  by (simp add: findRouter_def split: option.split)

lemma firstSome_product:
  "firstSome (\<lambda>d. firstSome (g d) us) ds = firstSome (\<lambda>(d, u). g d u) (List.product ds us)"
proof (induction ds)
  case (Cons d ds)
  have "firstSome (\<lambda>(d, u). g d u) (map (Pair d) us) = firstSome (g d) us"
    by (induction us) (auto split: option.splits)
  then show ?case using Cons by (simp add: firstSome_append split: option.split)
qed simp

lemma findRouter_domain: "routersOk r \<Longrightarrow> findRouter r d loc user = Some vr \<Longrightarrow> domain vr = d"
  using Get_fields by (fastforce simp: findRouter_def split: option.splits)

lemma getVhost_domain: "routersOk r \<Longrightarrow> getVhost r dm loc user = Some vr \<Longrightarrow> domain vr \<in> set (candidates dm)"
  unfolding getVhost_first by (auto dest!: firstSome_Some dest: findRouter_domain)

section \<open>Lower case\<close>

definition isUpper :: "char \<Rightarrow> bool" where
  "isUpper c \<longleftrightarrow> 65 \<le> (of_char c :: nat) \<and> of_char c \<le> (90 :: nat)"

lemma lowerChar_not_upper [simp]: "\<not> isUpper (lowerChar c)"
  by (auto simp: isUpper_def lowerChar_def)

lemma toLower_no_upper: "c \<in> set (toLower s) \<Longrightarrow> \<not> isUpper c"
  by (auto simp: toLower_def)

lemma splitHost_subset: "splitHost s = Inr h \<Longrightarrow> set h \<subseteq> set s"
proof -
  assume "splitHost s = Inr h"
  then have "(\<exists>n. h = take n (drop 1 s)) \<or> (\<exists>n. h = take n s)"
    by (auto simp: splitHost_def split: option.splits if_splits)
  then show ?thesis using set_take_subset set_drop_subset by (metis order_trans)
qed

lemma hostOf_subset: "set (hostOf host) \<subseteq> set (toLower host)"
proof (cases "CanonicalHost host")
  case (Inl e)
  then show ?thesis by (simp add: hostOf_def)
next
  case (Inr h)
  then obtain h1 where h1: "set h1 \<subseteq> set (toLower host)" "h = (if hasSuffix h1 ''.'' then take (length h1 - 1) h1 else h1)"
    using splitHost_subset by (fastforce simp: CanonicalHost_def Let_def split: if_splits sum.splits)
  then show ?thesis using Inr set_take_subset [of "length h1 - 1" h1] by (auto simp: hostOf_def)
qed

lemma goJoin_set: "set (goJoin sep xs) \<subseteq> set sep \<union> \<Union>(set ` set xs)"
  by (induction sep xs rule: goJoin.induct) auto

lemma goSplit_set: "x \<in> set (goSplit c s) \<Longrightarrow> set x \<subseteq> set s"
proof (induction s arbitrary: x)
  case (Cons y ys)
  then show ?case by (cases "goSplit c ys") (auto split: if_splits, blast+)
qed simp

lemma wildcards_set: "w \<in> set (wildcards split) \<Longrightarrow> set w \<subseteq> {CHR ''*'', CHR ''.''} \<union> \<Union>(set ` set split)"
proof (induction split rule: wildcards.induct)
  case (1 split)
  show ?case
  proof (cases "length split < 3")
    case True
    then show ?thesis using 1(2) by (simp add: wildcards.simps)
  next
    case False
    have tl: "set (tl split) \<subseteq> set split" by (cases split) auto
    have "w = goJoin ''.'' (''*'' # tl split) \<or> w \<in> set (wildcards (tl split))"
      using 1(2) False by (subst (asm) wildcards.simps) auto
    then show ?thesis
    proof
      assume "w = goJoin ''.'' (''*'' # tl split)"
      then show ?thesis using goJoin_set [of "''.''" "''*'' # tl split"] tl by auto
    next
      assume "w \<in> set (wildcards (tl split))"
      then show ?thesis using 1(1) [OF False] tl by blast
    qed
  qed
qed

lemma candidates_no_upper:
  assumes "d \<in> set (candidates dm)" and "\<forall>c \<in> set dm. \<not> isUpper c" and "c \<in> set d"
  shows "\<not> isUpper c"
proof -
  have "set d \<subseteq> set dm \<union> {CHR ''*'', CHR ''.''}"
    using assms(1) wildcards_set [of d "goSplit CHR ''.'' dm"] goSplit_set by (fastforce simp: candidates_def)
  moreover have "\<not> isUpper CHR ''*''" "\<not> isUpper CHR ''.''" by (simp_all add: isUpper_def)
  ultimately show ?thesis using assms(2,3) by auto
qed

section \<open>Properties\<close>


text \<open>
  C18: an ordinary request (one without an absolute URL) that reaches a proxy carries the user and the
  password of the route it was given to, if the route has any.
\<close>
theorem auth_enforced:
  assumes "rq_URLHost rq = []" and "ServeHTTP r rq = Forwarded conn"
  shows "\<exists>vr. getVhost r (hostOf (rq_Host rq)) (rq_Path rq) (authUser (rq_BasicAuth rq)) = Some vr \<and>
    rc_CreateConn (payload vr) = Some conn \<and>
    (rc_Username (payload vr) = [] \<and> rc_Password (payload vr) = [] \<or>
     authUser (rq_BasicAuth rq) = rc_Username (payload vr) \<and> authPasswd (rq_BasicAuth rq) = rc_Password (payload vr))"
proof -
  have "injectUser rq = authUser (rq_BasicAuth rq)" using assms(1) by (simp add: injectUser_def)
  then show ?thesis
    using assms(2) by (auto simp: ServeHTTP_def CheckAuth_def CreateConnection_def Let_def split: if_splits option.splits)
qed

definition aliceRoute :: route_config where
  "aliceRoute = \<lparr> rc_Domain = ''a.com'', rc_Location = ''/'', rc_RewriteHost = [], rc_Username = ''alice'',
     rc_Password = ''secret'', rc_Headers = None, rc_RouteByHTTPUser = ''alice'', rc_CreateConn = Some (ProxyConn ''proxy-of-alice'') \<rparr>"

definition aliceTable :: "route_config routers" where
  "aliceTable = (case Register aliceRoute NewRouters of Inl e \<Rightarrow> NewRouters | Inr r \<Rightarrow> r)"

theorem auth_enforced_witness:
  "\<exists>vr. getVhost aliceTable ''a.com'' ''/'' ''alice'' = Some vr \<and> rc_CreateConn (payload vr) = Some (ProxyConn ''proxy-of-alice'')"
proof -
  let ?rq = "\<lparr> rq_Connect = False, rq_Host = ''A.com:80'', rq_URLHost = [], rq_Path = ''/'',
    rq_BasicAuth = Some (''alice'', ''secret''), rq_ProxyAuth = None \<rparr>"
  have f: "ServeHTTP aliceTable ?rq = Forwarded (ProxyConn ''proxy-of-alice'')" and h: "hostOf ''A.com:80'' = ''a.com''"
    by code_simp+
  show ?thesis using auth_enforced [OF _ f] h by (auto simp: authUser_def)
qed

text \<open>
  A request with an absolute URL is not held to this: its password is checked for the route of the
  user in one header, but it is given to the route of the user in another one. Where a user has a route
  and there is none without user, a proxy request that names the user and gives any password, or none,
  reaches the proxy of the user, whatever password the route has.
\<close>
lemma proxy_request_skips_password:
  assumes "getVhost r (hostOf (rq_Host rq)) (rq_Path rq) [] = None"
    and "getVhost r (hostOf (rq_Host rq)) (rq_Path rq) user = Some vr"
    and "rc_CreateConn (payload vr) = Some conn"
    and "user \<noteq> []" and "rq_URLHost rq \<noteq> []" and "rq_BasicAuth rq = None" and "rq_ProxyAuth rq = Some (user, anything)"
  shows "ServeHTTP r rq = Forwarded conn"
  using assms by (simp add: ServeHTTP_def CheckAuth_def CreateConnection_def injectUser_def authUser_def Let_def)

text \<open>
  A route is only ever found under a domain without capital letters, because the host of a request
  is put into lower case and the domain of a route is not: a proxy whose custom domain has a capital
  letter is accepted and never reached.
\<close>
lemma capital_domain_unreachable:
  assumes "getVhost (routeRun ops) (hostOf host) loc user = Some vr" and "c \<in> set (domain vr)"
  shows "\<not> isUpper c"
proof (rule candidates_no_upper [OF getVhost_domain [OF routeRun_ok assms(1)] _ assms(2)])
  show "\<forall>c \<in> set (hostOf host). \<not> isUpper c"
    using hostOf_subset [of host] toLower_no_upper [of _ host] by blast
qed

end
