(* ===== verification/HttpProxies.thy ===== *)
theory HttpProxies
  imports VhostLookup ProxyConf "HOL-Library.Word" "HOL-Library.Multiset"
begin

text \<open>
  The http proxies of frps and their groups: \<^verbatim>\<open>server/proxy/http.go\<close> registers the domains
  and locations of a proxy as routes of the reverse proxy, directly or through its group
  (\<^verbatim>\<open>server/group/http.go\<close>), and takes them back when it is closed or cannot start. A group
  is one route whose connections go to its members in turn. Group objects are numbered as they are
  made; each operation of a group and each of the controller is a step under its lock.
\<close>

section \<open>Groups\<close>

record http_group =
  hg_group :: string
  hg_groupKey :: string
  hg_domain :: string
  hg_location :: string
  hg_routeByHTTPUser :: string
  hg_createFuncs :: "(string, conn_fn option) fmap"
  hg_pxyNames :: "string list"
  hg_index :: "64 word"

record http_ctl =
  hc_groups :: "string \<rightharpoonup> nat"
  hc_objs :: "nat \<rightharpoonup> http_group"
  hc_next :: nat
  hc_routes :: "route_config routers"

datatype http_error = HttpRoute router_error | ErrGroupParamsInvalid | ErrGroupAuthFailed | ErrProxyRepeated

definition NewHTTPGroupController :: "route_config routers \<Rightarrow> http_ctl" where
  "NewHTTPGroupController r = \<lparr> hc_groups = Map.empty, hc_objs = Map.empty, hc_next = 0, hc_routes = r \<rparr>"

definition NewHTTPGroup :: http_group where
  "NewHTTPGroup = \<lparr> hg_group = [], hg_groupKey = [], hg_domain = [], hg_location = [], hg_routeByHTTPUser = [],
     hg_createFuncs = fmempty, hg_pxyNames = [], hg_index = 0 \<rparr>"

text \<open>The lookup of \<open>Register\<close> under the lock of the controller, which makes a missing group.\<close>

definition httpLookup :: "string \<Rightarrow> http_ctl \<Rightarrow> nat \<times> http_ctl" where
  "httpLookup grp s =
     (case hc_groups s grp of
        Some i \<Rightarrow> (i, s)
      | None \<Rightarrow> let i = hc_next s in
          (i, s\<lparr> hc_groups := (hc_groups s)(grp \<mapsto> i), hc_objs := (hc_objs s)(i \<mapsto> NewHTTPGroup), hc_next := i + 1 \<rparr>))"

definition setGroup :: "nat \<Rightarrow> http_group \<Rightarrow> http_ctl \<Rightarrow> http_ctl" where
  "setGroup i g s = s\<lparr> hc_objs := (hc_objs s)(i \<mapsto> g) \<rparr>"

text \<open>Adding a proxy to the members of a group, the end of \<open>Register\<close>.\<close>

definition joinGroup :: "string \<Rightarrow> route_config \<Rightarrow> http_group \<Rightarrow> (http_error, http_group) result" where
  "joinGroup name rc g =
     (if fmlookup (hg_createFuncs g) name \<noteq> None then Inl ErrProxyRepeated
      else Inr (g\<lparr> hg_createFuncs := fmupd name (rc_CreateConn rc) (hg_createFuncs g), hg_pxyNames := hg_pxyNames g @ [name] \<rparr>))"

definition groupRegister ::
  "nat \<Rightarrow> string \<Rightarrow> string \<Rightarrow> string \<Rightarrow> route_config \<Rightarrow> http_ctl \<Rightarrow> http_error option \<times> http_ctl" where
  "groupRegister i name grp groupKey rc s =
     (let g = the (hc_objs s i) in
      if hg_createFuncs g = fmempty then
        (case Add (hc_routes s) (rc_Domain rc) (rc_Location rc) (rc_RouteByHTTPUser rc)
                (rc\<lparr> rc_CreateConn := Some (GroupConn i) \<rparr>) of
           Inl e \<Rightarrow> (Some (HttpRoute e), s)
         | Inr r \<Rightarrow>
             let g1 = g\<lparr> hg_group := grp, hg_groupKey := groupKey, hg_domain := rc_Domain rc,
                         hg_location := rc_Location rc, hg_routeByHTTPUser := rc_RouteByHTTPUser rc \<rparr>;
                 s1 = setGroup i g1 (s\<lparr> hc_routes := r \<rparr>) in
             (case joinGroup name rc g1 of Inl e \<Rightarrow> (Some e, s1) | Inr g2 \<Rightarrow> (None, setGroup i g2 s1)))
      else if hg_group g \<noteq> grp \<or> hg_domain g \<noteq> rc_Domain rc \<or> hg_location g \<noteq> rc_Location rc \<or>
              hg_routeByHTTPUser g \<noteq> rc_RouteByHTTPUser rc then (Some ErrGroupParamsInvalid, s)
      else if hg_groupKey g \<noteq> groupKey then (Some ErrGroupAuthFailed, s)
      else (case joinGroup name rc g of Inl e \<Rightarrow> (Some e, s) | Inr g2 \<Rightarrow> (None, setGroup i g2 s)))"

definition ctlRegister ::
  "string \<Rightarrow> string \<Rightarrow> string \<Rightarrow> route_config \<Rightarrow> http_ctl \<Rightarrow> http_error option \<times> http_ctl" where
  "ctlRegister name grp groupKey rc s =
     (let (i, s1) = httpLookup grp s in groupRegister i name grp groupKey rc s1)"

definition leaveGroup :: "string \<Rightarrow> http_group \<Rightarrow> http_group" where
  "leaveGroup name g = g\<lparr> hg_createFuncs := fmdrop name (hg_createFuncs g), hg_pxyNames := remove1 name (hg_pxyNames g) \<rparr>"

definition groupUnRegister :: "nat \<Rightarrow> string \<Rightarrow> http_ctl \<Rightarrow> bool \<times> http_ctl" where
  "groupUnRegister i name s =
     (let g = leaveGroup name (the (hc_objs s i)); s1 = setGroup i g s in
      if hg_createFuncs g = fmempty
      then (True, s1\<lparr> hc_routes := Del (hc_routes s1) (hg_domain g) (hg_location g) (hg_routeByHTTPUser g) \<rparr>)
      else (False, s1))"

definition ctlUnRegister :: "string \<Rightarrow> string \<Rightarrow> http_ctl \<Rightarrow> http_ctl" where
  "ctlUnRegister name grp s =
     (case hc_groups s grp of None \<Rightarrow> s
      | Some i \<Rightarrow> let (isEmpty, s1) = groupUnRegister i name s in
          if isEmpty then s1\<lparr> hc_groups := (hc_groups s1)(grp := None) \<rparr> else s1)"

text \<open>
  A connection to a group: the index is increased, and the member at the index modulo the number of
  members makes the connection. Go's remainder has the sign of the dividend, so an index that wrapped
  into the negative numbers is out of range.
\<close>

definition createConn :: "http_group \<Rightarrow> (go_panic, conn_fn option) result \<times> http_group" where
  "createConn g =
     (let n = hg_index g + 1; g' = g\<lparr> hg_index := n \<rparr>; k = length (hg_pxyNames g) in
      if k = 0 then (Inr None, g')
      else if sint n < 0 \<and> sint n mod int k \<noteq> 0 then (Inl IndexOutOfRange, g')
      else (Inr (case fmlookup (hg_createFuncs g) (hg_pxyNames g ! nat (sint n mod int k)) of None \<Rightarrow> None | Some f \<Rightarrow> f), g'))"

section \<open>Http proxies\<close>

definition CanonicalAddr :: "string \<Rightarrow> int \<Rightarrow> string" where
  "CanonicalAddr host p =
     (if p = 80 \<or> p = 443 then host
      else (if CHR '':'' \<in> set host then ''['' @ host @ '']'' else host) @ '':'' @ showInt p)"

text \<open>The domain and location pairs of a configuration, in the order of the loops.\<close>

definition httpLocations :: "http_opts \<Rightarrow> string list" where
  "httpLocations h = (if elems (Locations h) = [] then [[]] else elems (Locations h))"

definition httpPairs :: "server_conf \<Rightarrow> domain_conf \<Rightarrow> http_opts \<Rightarrow> (string \<times> string) list" where
  "httpPairs sc d h =
     [(dm, l). dm \<leftarrow> elems (CustomDomains d), dm \<noteq> [], l \<leftarrow> httpLocations h] @
     (if SubDomain d \<noteq> [] then [(SubDomain d @ ''.'' @ SubDomainHost sc, l). l \<leftarrow> httpLocations h] else [])"

definition httpRoute :: "string \<Rightarrow> http_opts \<Rightarrow> string \<times> string \<Rightarrow> route_config" where
  "httpRoute name h dl = \<lparr> rc_Domain = fst dl, rc_Location = snd dl, rc_RewriteHost = HostHeaderRewrite h,
     rc_Username = HTTPUser h, rc_Password = HTTPPwd h, rc_Headers = Headers h,
     rc_RouteByHTTPUser = RouteByHTTPUser h, rc_CreateConn = Some (ProxyConn name) \<rparr>"

definition registerOne :: "string \<Rightarrow> base_conf \<Rightarrow> route_config \<Rightarrow> http_ctl \<Rightarrow> http_error option \<times> http_ctl" where
  "registerOne name b rc s =
     (if Group b \<noteq> [] then ctlRegister name (Group b) (GroupKey b) rc s
      else case Register rc (hc_routes s) of
        Inl e \<Rightarrow> (Some (HttpRoute e), s)
      | Inr r \<Rightarrow> (None, s\<lparr> hc_routes := r \<rparr>))"

definition closeOne :: "string \<Rightarrow> base_conf \<Rightarrow> route_config \<Rightarrow> http_ctl \<Rightarrow> http_ctl" where
  "closeOne name b rc s =
     (if Group b \<noteq> [] then ctlUnRegister name (Group b) s else s\<lparr> hc_routes := UnRegister rc (hc_routes s) \<rparr>)"

text \<open>The loops of \<open>Run\<close>: the routes registered, in order, and the error that stopped them.\<close>

fun registerAll ::
  "string \<Rightarrow> base_conf \<Rightarrow> route_config list \<Rightarrow> route_config list \<Rightarrow> http_ctl \<Rightarrow> http_error option \<times> route_config list \<times> http_ctl"
where
  "registerAll name b [] regd s = (None, regd, s)"
| "registerAll name b (rc # rcs) regd s =
     (case registerOne name b rc s of
        (Some e, s') \<Rightarrow> (Some e, regd, s')
      | (None, s') \<Rightarrow> registerAll name b rcs (regd @ [rc]) s')"

text \<open>\<open>Close\<close> calls the close functions of the routes in the order of registration.\<close>

definition httpClose :: "string \<Rightarrow> base_conf \<Rightarrow> route_config list \<Rightarrow> http_ctl \<Rightarrow> http_ctl" where
  "httpClose name b regd s = foldl (\<lambda>s rc. closeOne name b rc s) s regd"

definition httpRun ::
  "server_conf \<Rightarrow> string \<Rightarrow> base_conf \<Rightarrow> domain_conf \<Rightarrow> http_opts \<Rightarrow> http_ctl
     \<Rightarrow> (http_error, string \<times> route_config list) result \<times> http_ctl" where
  "httpRun sc name b d h s =
     (case registerAll name b (map (httpRoute name h) (httpPairs sc d h)) [] s of
        (Some e, regd, s') \<Rightarrow> (Inl e, httpClose name b regd s')
      | (None, regd, s') \<Rightarrow>
          (Inr (goJoin '','' (map (\<lambda>(dm, l). CanonicalAddr dm (VhostHTTPPort sc)) (httpPairs sc d h)), regd), s'))"

lemmas http_group_defs [go_defs] =
  NewHTTPGroupController_def NewHTTPGroup_def httpLookup_def setGroup_def joinGroup_def groupRegister_def
  ctlRegister_def leaveGroup_def groupUnRegister_def ctlUnRegister_def createConn_def

lemmas http_proxy_defs [go_defs] = registerOne_def closeOne_def httpClose_def httpRun_def Register_def UnRegister_def

section \<open>Histories\<close>

text \<open>
  A registered proxy is its name, its common configuration and the routes it holds. A run that fails
  leaves the registered proxies as they are.
\<close>

type_synonym http_reg = "string \<times> base_conf \<times> route_config list"

inductive http_reach :: "http_ctl \<Rightarrow> http_reg list \<Rightarrow> bool" where
  start: "http_reach (NewHTTPGroupController NewRouters) []"
| run: "http_reach s regs \<Longrightarrow> httpRun sc name b d h s = (Inr (addr, regd), s') \<Longrightarrow>
    http_reach s' ((name, b, regd) # regs)"
| fail: "http_reach s regs \<Longrightarrow> httpRun sc name b d h s = (Inl e, s') \<Longrightarrow> http_reach s' regs"
| close: "http_reach s (xs @ (name, b, regd) # ys) \<Longrightarrow> http_reach (httpClose name b regd s) (xs @ ys)"
| conn: "http_reach s regs \<Longrightarrow> hc_objs s i = Some g \<Longrightarrow> createConn g = (res, g') \<Longrightarrow> http_reach (setGroup i g' s) regs"

section \<open>The invariant\<close>

definition rkey :: "route_config \<Rightarrow> string \<times> string \<times> string" where
  "rkey rc = (rc_Domain rc, rc_Location rc, rc_RouteByHTTPUser rc)"

definition gkey :: "http_group \<Rightarrow> string \<times> string \<times> string" where
  "gkey g = (hg_domain g, hg_location g, hg_routeByHTTPUser g)"

definition routesFun :: "http_ctl \<Rightarrow> string \<times> string \<times> string \<Rightarrow> route_config option" where
  "routesFun s k = routeOf (hc_routes s) (fst k) (fst (snd k)) (snd (snd k))"

definition ownRoutes :: "http_reg \<Rightarrow> (string \<times> route_config) list" where
  "ownRoutes r = (case r of (n, b, regd) \<Rightarrow> if Group b = [] then map (Pair n) regd else [])"

definition memberships :: "http_reg \<Rightarrow> (string \<times> string \<times> route_config) list" where
  "memberships r = (case r of (n, b, regd) \<Rightarrow> if Group b = [] then [] else map (\<lambda>rc. (Group b, n, rc)) regd)"

definition owned :: "http_reg list \<Rightarrow> (string \<times> route_config) list" where
  "owned regs = concat (map ownRoutes regs)"

definition members :: "http_reg list \<Rightarrow> (string \<times> string \<times> route_config) list" where
  "members regs = concat (map memberships regs)"

definition groupAt :: "http_ctl \<Rightarrow> string \<Rightarrow> nat \<Rightarrow> http_group \<Rightarrow> bool" where
  "groupAt s grp i g \<longleftrightarrow> hc_groups s grp = Some i \<and> hc_objs s i = Some g"

text \<open>The part of the invariant about the groups, for the members the registered proxies are.\<close>

definition groupsOk :: "http_ctl \<Rightarrow> (string \<times> string \<times> route_config) list \<Rightarrow> bool" where
  "groupsOk s ms \<longleftrightarrow>
     distinct (map (\<lambda>(grp, n, rc). (grp, n)) ms) \<and>
     (\<forall>grp n rc. (grp, n, rc) \<in> set ms \<longrightarrow> (\<exists>i g. groupAt s grp i g \<and> n \<in> set (hg_pxyNames g) \<and> rkey rc = gkey g)) \<and>
     (\<forall>grp i. hc_groups s grp = Some i \<longrightarrow> i < hc_next s \<and> (\<exists>g. hc_objs s i = Some g)) \<and>
     (\<forall>grp grp' i. hc_groups s grp = Some i \<and> hc_groups s grp' = Some i \<longrightarrow> grp = grp') \<and>
     (\<forall>grp i g. groupAt s grp i g \<longrightarrow> distinct (hg_pxyNames g) \<and> fmdom' (hg_createFuncs g) = set (hg_pxyNames g) \<and>
        (hg_pxyNames g \<noteq> [] \<longrightarrow> hg_group g = grp) \<and>
        (\<forall>n \<in> set (hg_pxyNames g). \<exists>rc. (grp, n, rc) \<in> set ms))"

text \<open>The groups that have members, with the route each of them holds.\<close>

definition actives :: "http_ctl \<Rightarrow> (nat \<times> string \<times> string \<times> string) set" where
  "actives s = {(i, k). \<exists>grp g. groupAt s grp i g \<and> hg_pxyNames g \<noteq> [] \<and> k = gkey g}"

text \<open>
  The part about the routes, for the routes the registered proxies own: every route belongs to a proxy
  or to a group, and every proxy and every group has its routes.
\<close>

definition routeInv ::
  "(string \<times> string \<times> string \<Rightarrow> route_config option) \<Rightarrow> (nat \<times> string \<times> string \<times> string) set
     \<Rightarrow> (string \<times> route_config) list \<Rightarrow> bool" where
  "routeInv R A os \<longleftrightarrow>
     distinct (map (rkey \<circ> snd) os) \<and>
     (\<forall>n rc. (n, rc) \<in> set os \<longrightarrow> rc_CreateConn rc = Some (ProxyConn n) \<and> R (rkey rc) = Some rc) \<and>
     (\<forall>i k. (i, k) \<in> A \<longrightarrow> (\<exists>rc. R k = Some rc \<and> rc_CreateConn rc = Some (GroupConn i))) \<and>
     (\<forall>k rc. R k = Some rc \<longrightarrow>
        (\<exists>n. (n, rc) \<in> set os \<and> rkey rc = k) \<or> (\<exists>i. (i, k) \<in> A \<and> rc_CreateConn rc = Some (GroupConn i)))"

definition httpInv :: "http_ctl \<Rightarrow> http_reg list \<Rightarrow> bool" where
  "httpInv s regs \<longleftrightarrow>
     groupsOk s (members regs) \<and> routersOk (hc_routes s) \<and> routeInv (routesFun s) (actives s) (owned regs)"

lemma own_simps [simp]:
  "owned [] = []" "owned ((n, b, regd) # regs) = (if Group b = [] then map (Pair n) regd @ owned regs else owned regs)"
  "members [] = []" "members ((n, b, regd) # regs) =
     (if Group b = [] then members regs else map (\<lambda>rc. (Group b, n, rc)) regd @ members regs)"
  by (simp_all add: owned_def members_def ownRoutes_def memberships_def)

lemma httpInv_start: "httpInv (NewHTTPGroupController NewRouters) []"
proof -
  have "routesFun (NewHTTPGroupController NewRouters) k = None" for k
    by (simp add: routesFun_def routeOf_def exist_def NewHTTPGroupController_def NewRouters_def)
  moreover have "routersOk (hc_routes (NewHTTPGroupController NewRouters))"
    by (simp add: NewHTTPGroupController_def)
  ultimately show ?thesis
    by (simp add: httpInv_def groupsOk_def routeInv_def actives_def groupAt_def NewHTTPGroupController_def)
qed

text \<open>The order of the registered proxies does not matter.\<close>

lemma distinct_map_front: "distinct (map f (A @ B @ C)) \<longleftrightarrow> distinct (map f (B @ A @ C))"
  by auto

lemma httpInv_front: "httpInv s (xs @ r # ys) \<longleftrightarrow> httpInv s (r # xs @ ys)"
proof -
  have m: "members (xs @ r # ys) = members xs @ memberships r @ members ys"
      "members (r # xs @ ys) = memberships r @ members xs @ members ys" and
    o': "owned (xs @ r # ys) = owned xs @ ownRoutes r @ owned ys"
      "owned (r # xs @ ys) = ownRoutes r @ owned xs @ owned ys"
    by (simp_all add: members_def owned_def)
  have s: "set (A @ B @ C) = set (B @ A @ C)" for A B C :: "'a list" by auto
  show ?thesis unfolding httpInv_def groupsOk_def routeInv_def m o'
    by (simp only: distinct_map_front [of _ "members xs"] distinct_map_front [of _ "owned xs"]
        s [of "members xs"] s [of "owned xs"])
qed

lemma httpInv_empty [simp]: "httpInv s ((n, b, []) # regs) \<longleftrightarrow> httpInv s regs"
  by (simp add: httpInv_def)

section \<open>Routes\<close>

lemma routesFun_Add:
  assumes "routersOk (hc_routes s)" and "Add (hc_routes s) d l u p = Inr r"
  shows "routesFun (s\<lparr> hc_routes := r \<rparr>) = (routesFun s)((d, l, u) \<mapsto> p)" "routersOk r" "routesFun s (d, l, u) = None"
proof -
  show "routesFun (s\<lparr> hc_routes := r \<rparr>) = (routesFun s)((d, l, u) \<mapsto> p)"
    using vr.add_route [OF assms] by (auto simp: routesFun_def fun_eq_iff)
  show "routersOk r" by (rule vr.add_invar [OF assms])
  show "routesFun s (d, l, u) = None"
    using vr.add_fails [OF assms(1), of d l u p] assms(2) by (simp add: routesFun_def)
qed

lemma routesFun_Del:
  assumes "routersOk (hc_routes s)"
  shows "routesFun (s\<lparr> hc_routes := Del (hc_routes s) d l u \<rparr>) = (routesFun s)((d, l, u) := None)"
    "routersOk (Del (hc_routes s) d l u)"
  using vr.del_route [OF assms] vr.del_invar [OF assms] by (auto simp: routesFun_def fun_eq_iff)

lemma routeInvD:
  assumes "routeInv R A os"
  shows "distinct (map (rkey \<circ> snd) os)"
    "\<And>n rc. (n, rc) \<in> set os \<Longrightarrow> rc_CreateConn rc = Some (ProxyConn n) \<and> R (rkey rc) = Some rc"
    "\<And>i k. (i, k) \<in> A \<Longrightarrow> \<exists>rc. R k = Some rc \<and> rc_CreateConn rc = Some (GroupConn i)"
    "\<And>k rc. R k = Some rc \<Longrightarrow> (\<exists>n. (n, rc) \<in> set os \<and> rkey rc = k) \<or> (\<exists>i. (i, k) \<in> A \<and> rc_CreateConn rc = Some (GroupConn i))"
  using assms unfolding routeInv_def by blast+

lemma routeInvI:
  assumes "distinct (map (rkey \<circ> snd) os)"
    and "\<And>n rc. (n, rc) \<in> set os \<Longrightarrow> rc_CreateConn rc = Some (ProxyConn n) \<and> R (rkey rc) = Some rc"
    and "\<And>i k. (i, k) \<in> A \<Longrightarrow> \<exists>rc. R k = Some rc \<and> rc_CreateConn rc = Some (GroupConn i)"
    and "\<And>k rc. R k = Some rc \<Longrightarrow> (\<exists>n. (n, rc) \<in> set os \<and> rkey rc = k) \<or> (\<exists>i. (i, k) \<in> A \<and> rc_CreateConn rc = Some (GroupConn i))"
  shows "routeInv R A os"
  using assms unfolding routeInv_def by blast

lemma routeInv_own:
  assumes "routeInv R A (xs @ ys)" and "R (rkey rc) = None" and "rc_CreateConn rc = Some (ProxyConn n)"
  shows "routeInv (R(rkey rc \<mapsto> rc)) A (xs @ (n, rc) # ys)"
proof -
  note D = routeInvD [OF assms(1)]
  have new: "rkey rc \<notin> (rkey \<circ> snd) ` set (xs @ ys)"
  proof
    assume "rkey rc \<in> (rkey \<circ> snd) ` set (xs @ ys)"
    then obtain p where "p \<in> set (xs @ ys)" "rkey rc = rkey (snd p)" by (elim imageE) simp
    then show False using D(2) [of "fst p" "snd p"] assms(2) by simp
  qed
  show ?thesis
  proof (rule routeInvI)
    show "distinct (map (rkey \<circ> snd) (xs @ (n, rc) # ys))" using D(1) new by auto
  next
    fix m rc' assume "(m, rc') \<in> set (xs @ (n, rc) # ys)"
    then consider "m = n" "rc' = rc" | "(m, rc') \<in> set (xs @ ys)" by auto
    then show "rc_CreateConn rc' = Some (ProxyConn m) \<and> (R(rkey rc \<mapsto> rc)) (rkey rc') = Some rc'"
      using D(2) [of m rc'] assms(2,3) by cases (simp, cases "rkey rc' = rkey rc", auto)
  next
    fix i k assume "(i, k) \<in> A"
    then show "\<exists>rc'. (R(rkey rc \<mapsto> rc)) k = Some rc' \<and> rc_CreateConn rc' = Some (GroupConn i)"
      using D(3) [of i k] assms(2) by (cases "k = rkey rc") auto
  next
    fix k rc' assume "(R(rkey rc \<mapsto> rc)) k = Some rc'"
    then show "(\<exists>m. (m, rc') \<in> set (xs @ (n, rc) # ys) \<and> rkey rc' = k) \<or> (\<exists>i. (i, k) \<in> A \<and> rc_CreateConn rc' = Some (GroupConn i))"
      using D(4) [of k rc'] by (cases "k = rkey rc") auto
  qed
qed

lemma routeInv_disown:
  assumes "routeInv R A ((n, rc) # os)"
  shows "routeInv (R(rkey rc := None)) A os"
proof -
  note D = routeInvD [OF assms]
  have "rkey rc \<notin> (rkey \<circ> snd) ` set os" using D(1) by simp
  then have other: "rkey rc' \<noteq> rkey rc" if "(m, rc') \<in> set os" for m rc'
    using imageI [OF that, of "rkey \<circ> snd"] by (metis comp_apply snd_conv)
  show ?thesis
  proof (rule routeInvI)
    show "distinct (map (rkey \<circ> snd) os)" using D(1) by simp
  next
    fix m rc' assume "(m, rc') \<in> set os"
    then show "rc_CreateConn rc' = Some (ProxyConn m) \<and> (R(rkey rc := None)) (rkey rc') = Some rc'"
      using D(2) [of m rc'] other by auto
  next
    fix i k assume "(i, k) \<in> A"
    then show "\<exists>rc'. (R(rkey rc := None)) k = Some rc' \<and> rc_CreateConn rc' = Some (GroupConn i)"
      using D(3) [of i k] D(2) [of n rc] by (cases "k = rkey rc") auto
  next
    fix k rc' assume "(R(rkey rc := None)) k = Some rc'"
    then show "(\<exists>m. (m, rc') \<in> set os \<and> rkey rc' = k) \<or> (\<exists>i. (i, k) \<in> A \<and> rc_CreateConn rc' = Some (GroupConn i))"
      using D(4) [of k rc'] by (cases "k = rkey rc") auto
  qed
qed

lemma routeInv_group:
  assumes "routeInv R A os" and "R k = None" and "rc_CreateConn rc = Some (GroupConn i)"
  shows "routeInv (R(k \<mapsto> rc)) (insert (i, k) A) os"
proof -
  note D = routeInvD [OF assms(1)]
  show ?thesis
  proof (rule routeInvI)
    show "distinct (map (rkey \<circ> snd) os)" by (rule D(1))
  next
    fix m rc' assume "(m, rc') \<in> set os"
    then show "rc_CreateConn rc' = Some (ProxyConn m) \<and> (R(k \<mapsto> rc)) (rkey rc') = Some rc'"
      using D(2) [of m rc'] assms(2) by (cases "rkey rc' = k") auto
  next
    fix j l assume "(j, l) \<in> insert (i, k) A"
    then consider "j = i" "l = k" | "(j, l) \<in> A" by auto
    then show "\<exists>rc'. (R(k \<mapsto> rc)) l = Some rc' \<and> rc_CreateConn rc' = Some (GroupConn j)"
      using D(3) [of j l] assms(2,3) by cases (simp, cases "l = k", auto)
  next
    fix l rc' assume "(R(k \<mapsto> rc)) l = Some rc'"
    then show "(\<exists>m. (m, rc') \<in> set os \<and> rkey rc' = l) \<or> (\<exists>j. (j, l) \<in> insert (i, k) A \<and> rc_CreateConn rc' = Some (GroupConn j))"
      using D(4) [of l rc'] assms(3) by (cases "l = k") auto
  qed
qed

lemma routeInv_ungroup:
  assumes "routeInv R A os" and "(i, k) \<in> A"
  shows "routeInv (R(k := None)) (A - {(i, k)}) os"
proof -
  note D = routeInvD [OF assms(1)]
  obtain rc where rc: "R k = Some rc" "rc_CreateConn rc = Some (GroupConn i)" using D(3) [OF assms(2)] by blast
  show ?thesis
  proof (rule routeInvI)
    show "distinct (map (rkey \<circ> snd) os)" by (rule D(1))
  next
    fix m rc' assume "(m, rc') \<in> set os"
    then show "rc_CreateConn rc' = Some (ProxyConn m) \<and> (R(k := None)) (rkey rc') = Some rc'"
      using D(2) [of m rc'] rc by (cases "rkey rc' = k") auto
  next
    fix j l assume "(j, l) \<in> A - {(i, k)}"
    then show "\<exists>rc'. (R(k := None)) l = Some rc' \<and> rc_CreateConn rc' = Some (GroupConn j)"
      using D(3) [of j l] rc by (cases "l = k") auto
  next
    fix l rc' assume "(R(k := None)) l = Some rc'"
    then show "(\<exists>m. (m, rc') \<in> set os \<and> rkey rc' = l) \<or> (\<exists>j. (j, l) \<in> A - {(i, k)} \<and> rc_CreateConn rc' = Some (GroupConn j))"
      using D(4) [of l rc'] by (cases "l = k") auto
  qed
qed

section \<open>Groups and their members\<close>

lemma groupsOkD:
  assumes "groupsOk s ms"
  shows "distinct (map (\<lambda>(grp, n, rc). (grp, n)) ms)"
    "\<And>grp n rc. (grp, n, rc) \<in> set ms \<Longrightarrow> \<exists>i g. groupAt s grp i g \<and> n \<in> set (hg_pxyNames g) \<and> rkey rc = gkey g"
    "\<And>grp i. hc_groups s grp = Some i \<Longrightarrow> i < hc_next s \<and> (\<exists>g. hc_objs s i = Some g)"
    "\<And>grp grp' i. hc_groups s grp = Some i \<Longrightarrow> hc_groups s grp' = Some i \<Longrightarrow> grp = grp'"
    "\<And>grp i g. groupAt s grp i g \<Longrightarrow> distinct (hg_pxyNames g) \<and> fmdom' (hg_createFuncs g) = set (hg_pxyNames g) \<and>
        (hg_pxyNames g \<noteq> [] \<longrightarrow> hg_group g = grp)"
    "\<And>grp i g n. groupAt s grp i g \<Longrightarrow> n \<in> set (hg_pxyNames g) \<Longrightarrow> \<exists>rc. (grp, n, rc) \<in> set ms"
  using assms unfolding groupsOk_def by blast+

lemma groupsOkI:
  assumes "distinct (map (\<lambda>(grp, n, rc). (grp, n)) ms)"
    and "\<And>grp n rc. (grp, n, rc) \<in> set ms \<Longrightarrow> \<exists>i g. groupAt s grp i g \<and> n \<in> set (hg_pxyNames g) \<and> rkey rc = gkey g"
    and "\<And>grp i. hc_groups s grp = Some i \<Longrightarrow> i < hc_next s \<and> (\<exists>g. hc_objs s i = Some g)"
    and "\<And>grp grp' i. hc_groups s grp = Some i \<Longrightarrow> hc_groups s grp' = Some i \<Longrightarrow> grp = grp'"
    and "\<And>grp i g. groupAt s grp i g \<Longrightarrow> distinct (hg_pxyNames g) \<and> fmdom' (hg_createFuncs g) = set (hg_pxyNames g) \<and>
        (hg_pxyNames g \<noteq> [] \<longrightarrow> hg_group g = grp)"
    and "\<And>grp i g n. groupAt s grp i g \<Longrightarrow> n \<in> set (hg_pxyNames g) \<Longrightarrow> \<exists>rc. (grp, n, rc) \<in> set ms"
  shows "groupsOk s ms"
  using assms unfolding groupsOk_def by blast

lemma groupAt_setGroup:
  "groupAt (setGroup i g2 s) grp j g' \<longleftrightarrow> hc_groups s grp = Some j \<and> (if j = i then g' = g2 else hc_objs s j = Some g')"
  by (auto simp: groupAt_def setGroup_def)

lemma groupAt_unique: "groupAt s grp i g \<Longrightarrow> groupAt s grp j g' \<Longrightarrow> j = i \<and> g' = g"
  by (simp add: groupAt_def)

lemma groupAt_routes [simp]: "groupAt (s\<lparr> hc_routes := r \<rparr>) = groupAt s"
  by (simp add: groupAt_def fun_eq_iff)

lemma groupsOk_routes [simp]: "groupsOk (s\<lparr> hc_routes := r \<rparr>) ms = groupsOk s ms"
  by (simp add: groupsOk_def)

lemma actives_routes [simp]: "actives (s\<lparr> hc_routes := r \<rparr>) = actives s"
  by (simp add: actives_def)

lemma actives_cong:
  assumes "\<And>grp j g. hg_pxyNames g \<noteq> [] \<Longrightarrow> groupAt s1 grp j g \<longleftrightarrow> groupAt s grp j g"
  shows "actives s1 = actives s"
proof -
  have "(\<exists>grp g. groupAt s1 grp i g \<and> hg_pxyNames g \<noteq> [] \<and> k = gkey g) \<longleftrightarrow>
      (\<exists>grp g. groupAt s grp i g \<and> hg_pxyNames g \<noteq> [] \<and> k = gkey g)" for i k
    using assms by blast
  then show ?thesis unfolding actives_def by (simp only:)
qed

lemma setGroup_fields [simp]:
  "hc_objs (setGroup i g s) = (hc_objs s)(i \<mapsto> g)" "hc_routes (setGroup i g s) = hc_routes s" "hc_groups (setGroup i g s) = hc_groups s" "hc_next (setGroup i g s) = hc_next s"
  "routesFun (setGroup i g s) = routesFun s" "setGroup i g2 (setGroup i g s) = setGroup i g2 s"
  by (simp_all add: setGroup_def routesFun_def fun_eq_iff)

lemma actives_setGroup:
  assumes "groupAt s grp i g"
  shows "actives (setGroup i g2 s) =
    (actives s - {(i, gkey g)}) \<union> (if hg_pxyNames g2 \<noteq> [] then {(i, gkey g2)} else {})"
proof -
  have at: "hc_objs s i = Some g" "hc_groups s grp = Some i" using assms by (simp_all add: groupAt_def)
  have "(j, k) \<in> actives (setGroup i g2 s) \<longleftrightarrow> (if j = i then hg_pxyNames g2 \<noteq> [] \<and> k = gkey g2 else (j, k) \<in> actives s)" for j k
    using at by (auto simp: actives_def groupAt_setGroup) (auto simp: groupAt_def)
  moreover have "(i, k) \<in> actives s \<Longrightarrow> k = gkey g" for k using at by (auto simp: actives_def groupAt_def)
  ultimately have "x \<in> actives (setGroup i g2 s) \<longleftrightarrow>
      x \<in> (actives s - {(i, gkey g)}) \<union> (if hg_pxyNames g2 \<noteq> [] then {(i, gkey g2)} else {})" for x
    by (cases x rule: prod.exhaust) (simp del: split_paired_All, metis)
  then show ?thesis by (rule set_eqI)
qed

text \<open>A proxy joins a group: the first one names it, the others have its route.\<close>

lemma groupsOk_join:
  assumes ok: "groupsOk s ms" and at: "groupAt s grp i g" and new: "n \<notin> set (hg_pxyNames g)"
    and g2: "hg_pxyNames g2 = hg_pxyNames g @ [n]" "hg_createFuncs g2 = fmupd n f (hg_createFuncs g)" "hg_group g2 = grp"
      "gkey g2 = rkey rc" "hg_pxyNames g \<noteq> [] \<Longrightarrow> gkey g = rkey rc"
  shows "groupsOk (setGroup i g2 s) ((grp, n, rc) # ms)"
proof -
  note D = groupsOkD [OF ok]
  have i: "hc_groups s grp = Some i" "hc_objs s i = Some g" using at by (simp_all add: groupAt_def)
  have mine: "groupAt (setGroup i g2 s) grp i g2" using i by (simp add: groupAt_setGroup)
  show ?thesis
  proof (rule groupsOkI)
    have "(grp, n, rc') \<notin> set ms" for rc' using D(2) [of grp n rc'] groupAt_unique [OF at] new by blast
    then show "distinct (map (\<lambda>(grp, n, rc). (grp, n)) ((grp, n, rc) # ms))" using D(1) by auto
  next
    fix grp' n' rc' assume "(grp', n', rc') \<in> set ((grp, n, rc) # ms)"
    then consider "grp' = grp" "n' = n" "rc' = rc" | "(grp', n', rc') \<in> set ms" by auto
    then show "\<exists>j g'. groupAt (setGroup i g2 s) grp' j g' \<and> n' \<in> set (hg_pxyNames g') \<and> rkey rc' = gkey g'"
    proof cases
      case 1
      have "n' \<in> set (hg_pxyNames g2) \<and> rkey rc' = gkey g2" using 1 g2(1,4) by simp
      then show ?thesis using mine 1(1) by blast
    next
      case 2
      then obtain j g' where j: "groupAt s grp' j g'" "n' \<in> set (hg_pxyNames g')" "rkey rc' = gkey g'" using D(2) by blast
      show ?thesis
      proof (cases "j = i")
        case True
        then have "grp' = grp" "g' = g" using j(1) i D(4) by (auto simp: groupAt_def)
        moreover from this have "hg_pxyNames g \<noteq> []" using j(2) by auto
        ultimately have "n' \<in> set (hg_pxyNames g2) \<and> rkey rc' = gkey g2" using j(2,3) g2(1,4,5) by simp
        then show ?thesis using mine \<open>grp' = grp\<close> by blast
      next
        case False
        then show ?thesis using j by (auto simp: groupAt_setGroup groupAt_def)
      qed
    qed
  next
    fix grp' j assume "hc_groups (setGroup i g2 s) grp' = Some j"
    then show "j < hc_next (setGroup i g2 s) \<and> (\<exists>g'. hc_objs (setGroup i g2 s) j = Some g')"
      using D(3) [of grp' j] by (auto simp: setGroup_def)
  next
    fix grp' grp'' j assume "hc_groups (setGroup i g2 s) grp' = Some j" "hc_groups (setGroup i g2 s) grp'' = Some j"
    then show "grp' = grp''" using D(4) [of grp' j grp''] by simp
  next
    fix grp' j g' assume a: "groupAt (setGroup i g2 s) grp' j g'"
    show "distinct (hg_pxyNames g') \<and> fmdom' (hg_createFuncs g') = set (hg_pxyNames g') \<and> (hg_pxyNames g' \<noteq> [] \<longrightarrow> hg_group g' = grp')"
    proof (cases "j = i")
      case True
      then have "g' = g2" "grp' = grp" using a i D(4) [of grp' i grp] by (auto simp: groupAt_setGroup)
      then show ?thesis using D(5) [OF at] new g2 by auto
    next
      case False
      then have "groupAt s grp' j g'" using a by (simp add: groupAt_setGroup groupAt_def)
      then show ?thesis by (rule D(5))
    qed
    fix n' assume n': "n' \<in> set (hg_pxyNames g')"
    show "\<exists>rc'. (grp', n', rc') \<in> set ((grp, n, rc) # ms)"
    proof (cases "j = i")
      case True
      then have "g' = g2" "grp' = grp" using a i D(4) [of grp' i grp] by (auto simp: groupAt_setGroup)
      then show ?thesis using D(6) [OF at, of n'] n' g2(1) by auto
    next
      case False
      then have "groupAt s grp' j g'" using a by (simp add: groupAt_setGroup groupAt_def)
      then show ?thesis using D(6) [of grp' j g' n'] n' by auto
    qed
  qed
qed

lemma groupsOk_leave:
  assumes ok: "groupsOk s ((grp, n, rc) # ms)" and at: "groupAt s grp i g"
  shows "groupsOk (setGroup i (leaveGroup n g) s) ms"
proof -
  note D = groupsOkD [OF ok]
  have i: "hc_groups s grp = Some i" "hc_objs s i = Some g" using at by (simp_all add: groupAt_def)
  have names: "hg_pxyNames (leaveGroup n g) = remove1 n (hg_pxyNames g)" "gkey (leaveGroup n g) = gkey g"
      "hg_group (leaveGroup n g) = hg_group g" "hg_createFuncs (leaveGroup n g) = fmdrop n (hg_createFuncs g)"
    by (simp_all add: leaveGroup_def gkey_def)
  have notn: "n' \<noteq> n" if "(grp, n', rc') \<in> set ms" for n' rc' using D(1) that by force
  have mine: "groupAt (setGroup i (leaveGroup n g) s) grp i (leaveGroup n g)" using i by (simp add: groupAt_setGroup)
  have old: "j = i \<Longrightarrow> g' = leaveGroup n g \<and> grp' = grp" "j \<noteq> i \<Longrightarrow> groupAt s grp' j g'"
    if "groupAt (setGroup i (leaveGroup n g) s) grp' j g'" for grp' j g'
    using that i D(4) [of grp' i grp] by (auto simp: groupAt_setGroup groupAt_def)
  have set: "set (remove1 n (hg_pxyNames g)) = set (hg_pxyNames g) - {n}" using D(5) [OF at] by simp
  show ?thesis
  proof (rule groupsOkI)
    show "distinct (map (\<lambda>(grp, n, rc). (grp, n)) ms)" using D(1) by simp
  next
    fix grp' n' rc' assume m: "(grp', n', rc') \<in> set ms"
    then obtain j g' where j: "groupAt s grp' j g'" "n' \<in> set (hg_pxyNames g')" "rkey rc' = gkey g'"
      using D(2) [of grp' n' rc'] by auto
    show "\<exists>j g'. groupAt (setGroup i (leaveGroup n g) s) grp' j g' \<and> n' \<in> set (hg_pxyNames g') \<and> rkey rc' = gkey g'"
    proof (cases "j = i")
      case True
      then have "grp' = grp" "g' = g" using j(1) i D(4) by (auto simp: groupAt_def)
      then have "n' \<in> set (hg_pxyNames (leaveGroup n g)) \<and> rkey rc' = gkey (leaveGroup n g)"
        using j(2,3) names set notn [of n' rc'] m by simp
      then show ?thesis using mine \<open>grp' = grp\<close> by blast
    next
      case False
      then show ?thesis using j by (auto simp: groupAt_setGroup groupAt_def)
    qed
  next
    fix grp' j assume "hc_groups (setGroup i (leaveGroup n g) s) grp' = Some j"
    then show "j < hc_next (setGroup i (leaveGroup n g) s) \<and> (\<exists>g'. hc_objs (setGroup i (leaveGroup n g) s) j = Some g')"
      using D(3) [of grp' j] by (auto simp: setGroup_def)
  next
    fix grp' grp'' j assume "hc_groups (setGroup i (leaveGroup n g) s) grp' = Some j"
      "hc_groups (setGroup i (leaveGroup n g) s) grp'' = Some j"
    then show "grp' = grp''" using D(4) [of grp' j grp''] by simp
  next
    fix grp' j g' assume a: "groupAt (setGroup i (leaveGroup n g) s) grp' j g'"
    show "distinct (hg_pxyNames g') \<and> fmdom' (hg_createFuncs g') = set (hg_pxyNames g') \<and> (hg_pxyNames g' \<noteq> [] \<longrightarrow> hg_group g' = grp')"
      using old [OF a] D(5) [OF at] D(5) [of grp' j g'] names set by (cases "j = i") auto
    fix n' assume n': "n' \<in> set (hg_pxyNames g')"
    show "\<exists>rc'. (grp', n', rc') \<in> set ms"
    proof (cases "j = i")
      case True
      then show ?thesis using old(1) [OF a] D(6) [OF at, of n'] n' names set by auto
    next
      case False
      then have "groupAt s grp' j g'" by (rule old(2) [OF a])
      moreover from this have "grp' \<noteq> grp" using False i by (auto simp: groupAt_def)
      ultimately show ?thesis using D(6) [of grp' j g' n'] n' by auto
    qed
  qed
qed

section \<open>Every operation keeps the invariant\<close>

definition coreInv :: "http_ctl \<Rightarrow> (string \<times> string \<times> route_config) list \<Rightarrow> (string \<times> route_config) list \<Rightarrow> bool" where
  "coreInv s ms os \<longleftrightarrow> groupsOk s ms \<and> routersOk (hc_routes s) \<and> routeInv (routesFun s) (actives s) os"

lemma httpInv_core: "httpInv s regs \<longleftrightarrow> coreInv s (members regs) (owned regs)"
  by (simp add: httpInv_def coreInv_def)

lemma gkey_new [simp]: "gkey (g\<lparr> hg_group := a, hg_groupKey := b, hg_domain := c, hg_location := d, hg_routeByHTTPUser := e \<rparr>) = (c, d, e)"
  by (simp add: gkey_def)

lemma joinGroup_Inr:
  assumes "joinGroup n rc g = Inr g2"
  shows "hg_pxyNames g2 = hg_pxyNames g @ [n]" "hg_createFuncs g2 = fmupd n (rc_CreateConn rc) (hg_createFuncs g)"
    "hg_group g2 = hg_group g" "gkey g2 = gkey g" "fmlookup (hg_createFuncs g) n = None"
  using assms by (auto simp: joinGroup_def gkey_def split: if_splits)

lemma lookup_core:
  assumes "coreInv s ms os" and "httpLookup grp s = (i, s1)"
  shows "coreInv s1 ms os" "\<exists>g. groupAt s1 grp i g"
proof -
  note ok = conjunct1 [OF assms(1) [unfolded coreInv_def]]
  note D = groupsOkD [OF ok]
  have "coreInv s1 ms os \<and> (\<exists>g. groupAt s1 grp i g)"
  proof (cases "hc_groups s grp")
    case (Some j)
    then show ?thesis using assms D(3) [OF Some] by (auto simp: httpLookup_def groupAt_def)
  next
    case None
    then have i: "i = hc_next s" and s1: "s1 = s\<lparr> hc_groups := (hc_groups s)(grp \<mapsto> i), hc_objs := (hc_objs s)(i \<mapsto> NewHTTPGroup), hc_next := i + 1 \<rparr>"
      using assms(2) by (auto simp: httpLookup_def Let_def)
    have below: "j < i" if "hc_groups s grp' = Some j" for grp' j using D(3) [OF that] i by simp
    have at: "groupAt s1 grp' j g' \<longleftrightarrow> (if grp' = grp then j = i \<and> g' = NewHTTPGroup else groupAt s grp' j g')" for grp' j g'
      using below [of grp' j] by (auto simp: s1 groupAt_def)
    have empty: "hg_pxyNames NewHTTPGroup = []" "hg_createFuncs NewHTTPGroup = fmempty" by (simp_all add: NewHTTPGroup_def)
    have other: "grp' \<noteq> grp" if "groupAt s grp' j g'" for grp' j g' using that None by (auto simp: groupAt_def)
    have "groupsOk s1 ms"
    proof (rule groupsOkI)
      show "distinct (map (\<lambda>(grp, n, rc). (grp, n)) ms)" by (rule D(1))
    next
      fix grp' n rc assume "(grp', n, rc) \<in> set ms"
      then obtain j g' where j: "groupAt s grp' j g'" "n \<in> set (hg_pxyNames g')" "rkey rc = gkey g'" using D(2) by blast
      then have "groupAt s1 grp' j g'" using other [OF j(1)] at by simp
      then show "\<exists>j g'. groupAt s1 grp' j g' \<and> n \<in> set (hg_pxyNames g') \<and> rkey rc = gkey g'"
        using j(2,3) by blast
    next
      fix grp' j assume "hc_groups s1 grp' = Some j"
      then show "j < hc_next s1 \<and> (\<exists>g'. hc_objs s1 j = Some g')"
        using D(3) [of grp' j] by (auto simp: s1 i split: if_splits)
    next
      fix grp' grp'' j assume "hc_groups s1 grp' = Some j" "hc_groups s1 grp'' = Some j"
      then show "grp' = grp''" using D(4) [of grp' j grp''] below by (fastforce simp: s1 split: if_splits)
    next
      fix grp' j g' assume a: "groupAt s1 grp' j g'"
      show "distinct (hg_pxyNames g') \<and> fmdom' (hg_createFuncs g') = set (hg_pxyNames g') \<and> (hg_pxyNames g' \<noteq> [] \<longrightarrow> hg_group g' = grp')"
        using a D(5) [of grp' j g'] by (auto simp: at empty split: if_splits)
      fix n assume "n \<in> set (hg_pxyNames g')"
      then show "\<exists>rc. (grp', n, rc) \<in> set ms" using a D(6) [of grp' j g' n] by (auto simp: at empty split: if_splits)
    qed
    moreover have "(grp' \<noteq> grp \<and> groupAt s grp' j g') \<longleftrightarrow> groupAt s grp' j g'" for grp' j g' using other by blast
    then have "actives s1 = actives s" using empty(1) by (intro actives_cong) (auto simp: at split: if_splits)
    moreover have "routesFun s1 = routesFun s" "hc_routes s1 = hc_routes s" by (simp_all add: s1 routesFun_def fun_eq_iff)
    ultimately show ?thesis using assms(1) at by (auto simp: coreInv_def)
  qed
  then show "coreInv s1 ms os" "\<exists>g. groupAt s1 grp i g" by simp_all
qed

lemma fmdom'_empty_iff: "fmdom' m = {} \<longleftrightarrow> m = fmempty"
proof
  assume "fmdom' m = {}"
  then have "fmlookup m x = None" for x by (simp add: fmdom'_notD)
  then show "m = fmempty" by (intro fmap_ext) simp
qed simp

lemma names_active:
  assumes "groupsOk s ms" and "groupAt s grp i g"
  shows "hg_createFuncs g = fmempty \<longleftrightarrow> hg_pxyNames g = []"
  using groupsOkD(5) [OF assms] fmdom'_empty_iff [of "hg_createFuncs g"] by simp

lemma actives_gkey:
  assumes "groupsOk s ms" "groupAt s grp i g" "hg_pxyNames g = []"
  shows "(i, k) \<notin> actives s"
  using assms groupsOkD(4) [OF assms(1)] by (auto simp: actives_def groupAt_def)

lemma first_join_core:
  assumes inv: "coreInv s ms os" and at: "groupAt s grp i g" and empty: "hg_pxyNames g = []"
    and add: "Add (hc_routes s) (rc_Domain rc) (rc_Location rc) (rc_RouteByHTTPUser rc) (rc\<lparr> rc_CreateConn := Some (GroupConn i) \<rparr>) = Inr r"
    and g2: "hg_pxyNames g2 = [n]" "hg_createFuncs g2 = fmupd n f (hg_createFuncs g)" "hg_group g2 = grp" "gkey g2 = rkey rc"
  shows "coreInv (setGroup i g2 (s\<lparr> hc_routes := r \<rparr>)) ((grp, n, rc) # ms) os"
proof -
  let ?s = "s\<lparr> hc_routes := r \<rparr>"
  have ok: "groupsOk s ms" "routersOk (hc_routes s)" "routeInv (routesFun s) (actives s) os" using inv by (simp_all add: coreInv_def)
  note R = routesFun_Add [OF ok(2) add]
  have "groupsOk (setGroup i g2 ?s) ((grp, n, rc) # ms)"
    by (rule groupsOk_join [of _ _ _ _ g]) (use ok(1) at g2 empty in auto)
  moreover have "actives (setGroup i g2 ?s) = insert (i, rkey rc) (actives s)"
    using actives_setGroup [of ?s grp i g g2] at g2 actives_gkey [OF ok(1) at empty] by auto
  moreover have "routeInv (routesFun ?s) (insert (i, rkey rc) (actives s)) os"
    using routeInv_group [OF ok(3), of "rkey rc" "rc\<lparr> rc_CreateConn := Some (GroupConn i) \<rparr>" i] R(1,3)
    by (simp add: rkey_def)
  ultimately show ?thesis using R(2) by (simp add: coreInv_def)
qed

lemma groupRegister_core:
  assumes inv: "coreInv s ms os" and at: "groupAt s grp i g" and reg: "groupRegister i n grp key rc s = (res, s')"
  shows "coreInv s' (if res = None then (grp, n, rc) # ms else ms) os"
proof -
  have ok: "groupsOk s ms" "routersOk (hc_routes s)" "routeInv (routesFun s) (actives s) os" using inv by (simp_all add: coreInv_def)
  note D = groupsOkD [OF ok(1)]
  have g: "the (hc_objs s i) = g" using at by (simp add: groupAt_def)
  show ?thesis
  proof (cases "hg_createFuncs g = fmempty")
    case True
    then have empty: "hg_pxyNames g = []" using names_active [OF ok(1) at] by simp
    let ?g1 = "g\<lparr> hg_group := grp, hg_groupKey := key, hg_domain := rc_Domain rc, hg_location := rc_Location rc,
      hg_routeByHTTPUser := rc_RouteByHTTPUser rc \<rparr>"
    obtain g2 where g2: "joinGroup n rc ?g1 = Inr g2" using True by (simp add: joinGroup_def)
    note J = joinGroup_Inr [OF g2]
    show ?thesis
    proof (cases "Add (hc_routes s) (rc_Domain rc) (rc_Location rc) (rc_RouteByHTTPUser rc) (rc\<lparr> rc_CreateConn := Some (GroupConn i) \<rparr>)")
      case (Inl e)
      then have "res = Some (HttpRoute e)" "s' = s" using reg True by (auto simp: groupRegister_def g)
      then show ?thesis using inv by simp
    next
      case (Inr r)
      have "coreInv (setGroup i g2 (s\<lparr> hc_routes := r \<rparr>)) ((grp, n, rc) # ms) os"
        by (rule first_join_core [OF inv at empty Inr]) (use J empty in \<open>simp_all add: rkey_def\<close>)
      then show ?thesis using reg True Inr g2 by (auto simp: groupRegister_def g Let_def)
    qed
  next
    case False
    then have names: "hg_pxyNames g \<noteq> []" using names_active [OF ok(1) at] by simp
    show ?thesis
    proof (cases "res = None")
      case no: False
      then have "s' = s" using reg False by (auto simp: groupRegister_def g split: if_splits sum.splits)
      then show ?thesis using inv no by (simp only: if_False)
    next
      case yes: True
      then have key: "gkey g = rkey rc" and "\<exists>g2. joinGroup n rc g = Inr g2 \<and> s' = setGroup i g2 s"
        using reg False by (auto simp: groupRegister_def g gkey_def rkey_def split: if_splits sum.splits)
      then obtain g2 where j: "joinGroup n rc g = Inr g2" "s' = setGroup i g2 s" by blast
      note J = joinGroup_Inr [OF j(1)]
      have "n \<notin> set (hg_pxyNames g)" using fmdom'_notI [OF J(5)] D(5) [OF at] by simp
      then have "groupsOk s' ((grp, n, rc) # ms)"
        unfolding j(2) by (rule groupsOk_join [OF ok(1) at _ J(1,2)]) (use J key D(5) [OF at] names in auto)
      moreover have "(i, gkey g) \<in> actives s" using at names by (auto simp: actives_def)
      then have "actives s' = actives s"
        unfolding j(2) using actives_setGroup [OF at, of g2] J names by auto
      ultimately show ?thesis using yes ok(2,3) j(2) by (simp add: coreInv_def)
    qed
  qed
qed

lemma ctlRegister_core:
  assumes "coreInv s ms os" and "ctlRegister n grp key rc s = (res, s')"
  shows "coreInv s' (if res = None then (grp, n, rc) # ms else ms) os"
proof -
  obtain i s1 where l: "httpLookup grp s = (i, s1)" by fastforce
  obtain g where "groupAt s1 grp i g" using lookup_core(2) [OF assms(1) l] by blast
  then show ?thesis
    using groupRegister_core [OF lookup_core(1) [OF assms(1) l]] assms(2) l by (simp add: ctlRegister_def)
qed

text \<open>A member leaves; the last one takes the route of the group with it, and the group is dropped.\<close>

lemma leave_fields [simp]:
  "hg_pxyNames (leaveGroup n g) = remove1 n (hg_pxyNames g)" "gkey (leaveGroup n g) = gkey g"
  "(hg_domain (leaveGroup n g), hg_location (leaveGroup n g), hg_routeByHTTPUser (leaveGroup n g)) = gkey g"
  by (simp_all add: leaveGroup_def gkey_def)

lemma drop_group:
  assumes ok: "groupsOk s ms" and at: "groupAt s grp i g" and empty: "hg_pxyNames g = []"
  shows "groupsOk (s\<lparr> hc_groups := (hc_groups s)(grp := None) \<rparr>) ms"
    and "actives (s\<lparr> hc_groups := (hc_groups s)(grp := None) \<rparr>) = actives s"
proof -
  let ?s = "s\<lparr> hc_groups := (hc_groups s)(grp := None) \<rparr>"
  note D = groupsOkD [OF ok]
  have at': "groupAt ?s grp' j g' \<longleftrightarrow> grp' \<noteq> grp \<and> groupAt s grp' j g'" for grp' j g' by (auto simp: groupAt_def)
  have nomem: "(grp, n, rc) \<notin> set ms" for n rc using D(2) [of grp n rc] groupAt_unique [OF at] empty by auto
  show "groupsOk ?s ms"
  proof (rule groupsOkI)
    show "distinct (map (\<lambda>(grp, n, rc). (grp, n)) ms)" by (rule D(1))
  next
    fix grp' n rc assume m: "(grp', n, rc) \<in> set ms"
    then have "grp' \<noteq> grp" using nomem by auto
    then show "\<exists>j g'. groupAt ?s grp' j g' \<and> n \<in> set (hg_pxyNames g') \<and> rkey rc = gkey g'"
      using D(2) [OF m] at' by simp
  next
    fix grp' j assume "hc_groups ?s grp' = Some j"
    then show "j < hc_next ?s \<and> (\<exists>g'. hc_objs ?s j = Some g')" using D(3) [of grp' j] by (auto split: if_splits)
  next
    fix grp' grp'' j assume "hc_groups ?s grp' = Some j" "hc_groups ?s grp'' = Some j"
    then show "grp' = grp''" using D(4) [of grp' j grp''] by (auto split: if_splits)
  next
    fix grp' j g' assume "groupAt ?s grp' j g'"
    then show "distinct (hg_pxyNames g') \<and> fmdom' (hg_createFuncs g') = set (hg_pxyNames g') \<and> (hg_pxyNames g' \<noteq> [] \<longrightarrow> hg_group g' = grp')"
      using D(5) [of grp' j g'] at' by simp
  next
    fix grp' j g' n assume "groupAt ?s grp' j g'" "n \<in> set (hg_pxyNames g')"
    then show "\<exists>rc. (grp', n, rc) \<in> set ms" using D(6) [of grp' j g' n] at' by simp
  qed
  have "g' = g" if "groupAt s grp j g'" for j g' using groupAt_unique [OF at that] by simp
  then show "actives ?s = actives s" using empty by (intro actives_cong) (auto simp: at')
qed

lemma groupUnRegister_core:
  assumes inv: "coreInv s ((grp, n, rc) # ms) os" and at: "groupAt s grp i g" and un: "groupUnRegister i n s = (emptied, s')"
  shows "coreInv s' ms os" "\<exists>g'. groupAt s' grp i g' \<and> (emptied \<longrightarrow> hg_pxyNames g' = [])"
proof -
  have ok: "groupsOk s ((grp, n, rc) # ms)" "routersOk (hc_routes s)" "routeInv (routesFun s) (actives s) os"
    using inv by (simp_all add: coreInv_def)
  note D = groupsOkD [OF ok(1)]
  have g: "the (hc_objs s i) = g" using at by (simp add: groupAt_def)
  let ?g = "leaveGroup n g" and ?s = "setGroup i (leaveGroup n g) s"
  have n: "n \<in> set (hg_pxyNames g)" using D(2) [of grp n rc] groupAt_unique [OF at] by auto
  then have act: "(i, gkey g) \<in> actives s" using at by (force simp: actives_def)
  have ok': "groupsOk ?s ms" by (rule groupsOk_leave [OF ok(1) at])
  have at': "groupAt ?s grp i ?g" using at by (simp add: groupAt_def)
  have empty: "hg_createFuncs ?g = fmempty \<longleftrightarrow> hg_pxyNames ?g = []" by (rule names_active [OF ok' at'])
  have acts: "actives ?s = (actives s - {(i, gkey g)}) \<union> (if hg_pxyNames ?g \<noteq> [] then {(i, gkey g)} else {})"
    using actives_setGroup [OF at, of ?g] by simp
  show "coreInv s' ms os"
  proof (cases "hg_pxyNames ?g = []")
    case True
    then have "s' = ?s\<lparr> hc_routes := Del (hc_routes ?s) (hg_domain ?g) (hg_location ?g) (hg_routeByHTTPUser ?g) \<rparr>"
      using un empty by (simp add: groupUnRegister_def g Let_def)
    moreover have "routersOk (hc_routes ?s)" using ok(2) by simp
    note R = routesFun_Del [OF this, of "hg_domain ?g" "hg_location ?g" "hg_routeByHTTPUser ?g"]
    ultimately show ?thesis
      using ok' R acts True routeInv_ungroup [OF ok(3) act] by (simp add: coreInv_def)
  next
    case False
    then have "s' = ?s" using un empty by (simp add: groupUnRegister_def g Let_def)
    moreover have "actives ?s = actives s" using acts False act by auto
    ultimately show ?thesis using ok' ok(2,3) by (simp add: coreInv_def)
  qed
  show "\<exists>g'. groupAt s' grp i g' \<and> (emptied \<longrightarrow> hg_pxyNames g' = [])"
    using un empty at' by (auto simp: groupUnRegister_def g Let_def split: if_splits intro!: exI [of _ ?g])
qed

lemma ctlUnRegister_core:
  assumes "coreInv s ((grp, n, rc) # ms) os"
  shows "coreInv (ctlUnRegister n grp s) ms os"
proof -
  have ok: "groupsOk s ((grp, n, rc) # ms)" using assms by (simp add: coreInv_def)
  obtain i g where at: "groupAt s grp i g" using groupsOkD(2) [OF ok, of grp n rc] by auto
  obtain emptied s1 where un: "groupUnRegister i n s = (emptied, s1)" by fastforce
  note U = groupUnRegister_core [OF assms at un]
  obtain g' where g': "groupAt s1 grp i g'" "emptied \<Longrightarrow> hg_pxyNames g' = []" using U(2) by blast
  have "coreInv (s1\<lparr> hc_groups := (hc_groups s1)(grp := None) \<rparr>) ms os" if emptied
  proof -
    have "groupsOk s1 ms" using U(1) by (simp add: coreInv_def)
    note G = drop_group [OF this g'(1) g'(2) [OF that]]
    have "routesFun (s1\<lparr> hc_groups := (hc_groups s1)(grp := None) \<rparr>) = routesFun s1" by (simp add: routesFun_def fun_eq_iff)
    then show ?thesis using U(1) G by (simp add: coreInv_def)
  qed
  then show ?thesis using at un U(1) by (simp add: ctlUnRegister_def groupAt_def)
qed

lemma coreInv_middle: "coreInv s (x # A @ B) os \<longleftrightarrow> coreInv s (A @ x # B) os"
proof -
  have s: "set (x # A @ B) = set (A @ x # B)" by auto
  have d: "distinct (map (\<lambda>(grp, n, rc). (grp, n)) (x # A @ B)) \<longleftrightarrow> distinct (map (\<lambda>(grp, n, rc). (grp, n)) (A @ x # B))"
    by auto
  show ?thesis unfolding coreInv_def groupsOk_def s d ..
qed

lemma registerOne_core:
  assumes inv: "httpInv s ((n, b, regd) # regs)" and conn: "rc_CreateConn rc = Some (ProxyConn n)"
    and reg: "registerOne n b rc s = (res, s')"
  shows "httpInv s' ((n, b, if res = None then regd @ [rc] else regd) # regs)"
proof (cases "Group b = []")
  case False
  then have "ctlRegister n (Group b) (GroupKey b) rc s = (res, s')" using reg by (simp add: registerOne_def)
  from ctlRegister_core [OF _ this] inv show ?thesis
    using False coreInv_middle [of s' "(Group b, n, rc)" "map (\<lambda>rc. (Group b, n, rc)) regd" "members regs" "owned regs"]
    by (cases res) (simp_all add: httpInv_core)
next
  case True
  have ok: "groupsOk s (members regs)" "routersOk (hc_routes s)"
      "routeInv (routesFun s) (actives s) (map (Pair n) regd @ owned regs)"
    using inv True by (simp_all add: httpInv_def)
  show ?thesis
  proof (cases "Register rc (hc_routes s)")
    case (Inl e)
    then show ?thesis using reg inv True by (auto simp: registerOne_def)
  next
    case (Inr r)
    then have "Add (hc_routes s) (rc_Domain rc) (rc_Location rc) (rc_RouteByHTTPUser rc) rc = Inr r"
      by (simp add: Register_def)
    note R = routesFun_Add [OF ok(2) this]
    have "routeInv (routesFun (s\<lparr> hc_routes := r \<rparr>)) (actives s) (map (Pair n) regd @ (n, rc) # owned regs)"
      using routeInv_own [OF ok(3) _ conn] R(1,3) by (simp add: rkey_def)
    then show ?thesis
      using reg Inr True ok(1) R(2) by (auto simp: registerOne_def httpInv_def)
  qed
qed

lemma closeOne_core:
  assumes inv: "httpInv s ((n, b, rc # regd) # regs)"
  shows "httpInv (closeOne n b rc s) ((n, b, regd) # regs)"
proof (cases "Group b = []")
  case False
  then show ?thesis
    using inv ctlUnRegister_core [of s "Group b" n rc "map (\<lambda>rc. (Group b, n, rc)) regd @ members regs" "owned regs"]
    by (simp add: httpInv_core closeOne_def)
next
  case True
  then have ok: "groupsOk s (members regs)" "routersOk (hc_routes s)"
      "routeInv (routesFun s) (actives s) ((n, rc) # map (Pair n) regd @ owned regs)"
    using inv by (simp_all add: httpInv_def)
  note R = routesFun_Del [OF ok(2), of "rc_Domain rc" "rc_Location rc" "rc_RouteByHTTPUser rc"]
  show ?thesis
    using True ok(1) R routeInv_disown [OF ok(3)]
    by (simp add: closeOne_def UnRegister_def httpInv_def rkey_def)
qed

lemma registerAll_core:
  assumes "httpInv s ((n, b, regd) # regs)" and "\<forall>rc \<in> set rcs. rc_CreateConn rc = Some (ProxyConn n)"
    and "registerAll n b rcs regd s = (res, regd', s')"
  shows "httpInv s' ((n, b, regd') # regs)" and "res = None \<Longrightarrow> regd' = regd @ rcs"
proof -
  have all: "httpInv s' ((n, b, regd') # regs) \<and> (res = None \<longrightarrow> regd' = regd @ rcs)"
    using assms
  proof (induction rcs arbitrary: regd s)
    case (Cons rc rcs)
    obtain r1 s1 where one: "registerOne n b rc s = (r1, s1)" by fastforce
    note inv = registerOne_core [OF Cons.prems(1) _ one]
    show ?case
    proof (cases r1)
      case None
      then show ?thesis using Cons.IH [of s1 "regd @ [rc]"] Cons.prems inv one by simp
    next
      case (Some e)
      then have "res = Some e" "regd' = regd" "s' = s1" using Cons.prems(3) one by auto
      then show ?thesis using inv Cons.prems(2) Some by simp
    qed
  qed simp
  show "httpInv s' ((n, b, regd') # regs)" "res = None \<Longrightarrow> regd' = regd @ rcs" using all by simp_all
qed

lemma httpClose_core:
  "httpInv s ((n, b, regd) # regs) \<Longrightarrow> httpInv (httpClose n b regd s) regs"
  by (induction regd arbitrary: s) (simp_all add: httpClose_def closeOne_core)

lemma httpRun_core:
  assumes "httpInv s regs" and "httpRun sc n b d h s = (res, s')"
  shows "case res of Inl e \<Rightarrow> httpInv s' regs
    | Inr (addr, regd) \<Rightarrow> httpInv s' ((n, b, regd) # regs) \<and> regd = map (httpRoute n h) (httpPairs sc d h)"
proof -
  let ?rcs = "map (httpRoute n h) (httpPairs sc d h)"
  obtain r regd s1 where all: "registerAll n b ?rcs [] s = (r, regd, s1)" by (metis prod_cases3)
  have inv: "httpInv s ((n, b, []) # regs)" using assms(1) by simp
  have conn: "\<forall>rc \<in> set ?rcs. rc_CreateConn rc = Some (ProxyConn n)" by (simp add: httpRoute_def)
  note A = registerAll_core [OF inv conn all]
  show ?thesis
    using assms(2) all A httpClose_core [OF A(1)] by (cases r) (auto simp: httpRun_def)
qed

lemma createConn_core:
  assumes inv: "coreInv s ms os" and g: "hc_objs s i = Some g"
    and same: "hg_pxyNames g' = hg_pxyNames g" "hg_createFuncs g' = hg_createFuncs g" "hg_group g' = hg_group g" "gkey g' = gkey g"
  shows "coreInv (setGroup i g' s) ms os"
proof -
  note ok = inv [unfolded coreInv_def]
  note D = groupsOkD [OF conjunct1 [OF ok]]
  have at: "groupAt (setGroup i g' s) grp j x \<longleftrightarrow> (if j = i then groupAt s grp j g \<and> x = g' else groupAt s grp j x)" for grp j x
    using g by (auto simp: groupAt_setGroup groupAt_def)
  have "groupsOk (setGroup i g' s) ms"
  proof (rule groupsOkI)
    show "distinct (map (\<lambda>(grp, n, rc). (grp, n)) ms)" by (rule D(1))
  next
    fix grp n rc assume "(grp, n, rc) \<in> set ms"
    then obtain j x where j: "groupAt s grp j x" "n \<in> set (hg_pxyNames x)" "rkey rc = gkey x" using D(2) by blast
    have "j = i \<Longrightarrow> x = g" using j(1) g by (simp add: groupAt_def)
    then have "groupAt (setGroup i g' s) grp j (if j = i then g' else x)"
      "n \<in> set (hg_pxyNames (if j = i then g' else x)) \<and> rkey rc = gkey (if j = i then g' else x)"
      using j same at by auto
    then show "\<exists>j x. groupAt (setGroup i g' s) grp j x \<and> n \<in> set (hg_pxyNames x) \<and> rkey rc = gkey x" by blast
  next
    fix grp j assume "hc_groups (setGroup i g' s) grp = Some j"
    then show "j < hc_next (setGroup i g' s) \<and> (\<exists>x. hc_objs (setGroup i g' s) j = Some x)" using D(3) [of grp j] by auto
  next
    fix grp grp' j assume "hc_groups (setGroup i g' s) grp = Some j" "hc_groups (setGroup i g' s) grp' = Some j"
    then show "grp = grp'" using D(4) [of grp j grp'] by simp
  next
    fix grp j x assume "groupAt (setGroup i g' s) grp j x"
    then show "distinct (hg_pxyNames x) \<and> fmdom' (hg_createFuncs x) = set (hg_pxyNames x) \<and> (hg_pxyNames x \<noteq> [] \<longrightarrow> hg_group x = grp)"
      using D(5) [of grp j g] D(5) [of grp j x] same by (auto simp: at split: if_splits)
  next
    fix grp j x n assume "groupAt (setGroup i g' s) grp j x" "n \<in> set (hg_pxyNames x)"
    then show "\<exists>rc. (grp, n, rc) \<in> set ms"
      using D(6) [of grp j g n] D(6) [of grp j x n] same by (auto simp: at split: if_splits)
  qed
  moreover have "actives (setGroup i g' s) = actives s"
  proof -
    have "(\<exists>grp x. groupAt (setGroup i g' s) grp j x \<and> hg_pxyNames x \<noteq> [] \<and> k = gkey x) \<longleftrightarrow>
        (\<exists>grp x. groupAt s grp j x \<and> hg_pxyNames x \<noteq> [] \<and> k = gkey x)" for j k
    proof (cases "j = i")
      case True
      then have u: "x = g" if "groupAt s grp j x" for grp x using that g by (simp add: groupAt_def)
      have "(\<exists>grp x. groupAt (setGroup i g' s) grp j x \<and> hg_pxyNames x \<noteq> [] \<and> k = gkey x) \<longleftrightarrow>
          (\<exists>grp. groupAt s grp j g) \<and> hg_pxyNames g \<noteq> [] \<and> k = gkey g" using True same by (simp add: at)
      then show ?thesis using u by metis
    qed (simp add: at)
    then show ?thesis unfolding actives_def by (simp only:)
  qed
  ultimately show ?thesis using ok by (simp add: coreInv_def)
qed

lemma createConn_same:
  assumes "createConn g = (res, g')"
  shows "hg_pxyNames g' = hg_pxyNames g" "hg_createFuncs g' = hg_createFuncs g" "hg_group g' = hg_group g" "gkey g' = gkey g"
  using assms by (auto simp: createConn_def gkey_def Let_def split: if_splits)

lemma http_reach_inv: "http_reach s regs \<Longrightarrow> httpInv s regs"
proof (induction rule: http_reach.induct)
  case start
  then show ?case by (rule httpInv_start)
next
  case (run s regs sc name b d h addr regd s')
  then show ?case using httpRun_core [of s regs sc name b d h] by fastforce
next
  case (fail s regs sc name b d h e s')
  then show ?case using httpRun_core [of s regs sc name b d h] by fastforce
next
  case (close s xs name b regd ys)
  then show ?case by (simp add: httpInv_front httpClose_core)
next
  case (conn s regs i g res g')
  then show ?case unfolding httpInv_core by (intro createConn_core [OF _ _ createConn_same]) auto
qed

section \<open>The connections that members make\<close>

definition funcsOk :: "http_ctl \<Rightarrow> bool" where
  "funcsOk s \<longleftrightarrow> (\<forall>i g n v. hc_objs s i = Some g \<and> fmlookup (hg_createFuncs g) n = Some v \<longrightarrow> v = Some (ProxyConn n)) \<and>
     (\<forall>grp i. hc_groups s grp = Some i \<longrightarrow> hc_objs s i \<noteq> None)"

lemma funcsOkD:
  assumes "funcsOk s"
  shows "hc_objs s i = Some g \<Longrightarrow> fmlookup (hg_createFuncs g) n = Some v \<Longrightarrow> v = Some (ProxyConn n)"
    and "hc_groups s grp = Some i \<Longrightarrow> \<exists>g. hc_objs s i = Some g"
  using assms unfolding funcsOk_def by blast+

lemma funcsOk_setGroup:
  assumes "funcsOk s" and "\<And>n v. fmlookup (hg_createFuncs g) n = Some v \<Longrightarrow> v = Some (ProxyConn n)"
  shows "funcsOk (setGroup i g s)"
  using assms unfolding funcsOk_def setGroup_def by auto

lemma funcsOk_routes [simp]: "funcsOk (s\<lparr> hc_routes := r \<rparr>) = funcsOk s"
  by (simp add: funcsOk_def)

lemma funcsOk_drop: "funcsOk s \<Longrightarrow> funcsOk (s\<lparr> hc_groups := (hc_groups s)(grp := None) \<rparr>)"
  by (auto simp: funcsOk_def)

lemma funcsOk_lookup:
  assumes "funcsOk s" and "httpLookup grp s = (i, s1)"
  shows "funcsOk s1" and "\<exists>g. hc_objs s1 i = Some g"
proof -
  have new: "funcsOk (s\<lparr> hc_groups := (hc_groups s)(grp \<mapsto> j), hc_objs := (hc_objs s)(j \<mapsto> NewHTTPGroup), hc_next := j + 1 \<rparr>)" for j
    using assms(1) unfolding funcsOk_def by (simp add: NewHTTPGroup_def)
  show "funcsOk s1" using assms new by (auto simp: httpLookup_def Let_def split: option.splits)
  show "\<exists>g. hc_objs s1 i = Some g"
    using assms funcsOkD(2) [OF assms(1)] by (auto simp: httpLookup_def Let_def split: option.splits)
qed

lemma funcsOk_join:
  assumes "joinGroup n rc g = Inr g2" and "\<And>m v. fmlookup (hg_createFuncs g) m = Some v \<Longrightarrow> v = Some (ProxyConn m)"
    and "rc_CreateConn rc = Some (ProxyConn n)" and "fmlookup (hg_createFuncs g2) m = Some v"
  shows "v = Some (ProxyConn m)"
  using assms joinGroup_Inr(2) [OF assms(1)] by (auto split: if_splits)

lemma funcsOk_register:
  assumes "funcsOk s" and "hc_objs s i = Some g" and "rc_CreateConn rc = Some (ProxyConn n)"
  shows "funcsOk (snd (groupRegister i n grp key rc s))"
proof -
  have g: "the (hc_objs s i) = g" using assms(2) by simp
  let ?g1 = "g\<lparr> hg_group := grp, hg_groupKey := key, hg_domain := rc_Domain rc, hg_location := rc_Location rc,
      hg_routeByHTTPUser := rc_RouteByHTTPUser rc \<rparr>"
  have 1: "funcsOk (setGroup i ?g1 (s\<lparr> hc_routes := r \<rparr>))" for r
    by (rule funcsOk_setGroup) (use assms(1) funcsOkD(1) [OF assms(1,2)] in auto)
  have 2: "funcsOk (setGroup i g2 t)" if "joinGroup n rc ?g1 = Inr g2" "funcsOk t" for g2 t
    by (rule funcsOk_setGroup [OF that(2) funcsOk_join [OF that(1) _ assms(3)]]) (use funcsOkD(1) [OF assms(1,2)] in auto)
  have 3: "funcsOk (setGroup i g2 s)" if "joinGroup n rc g = Inr g2" for g2
    by (rule funcsOk_setGroup [OF assms(1) funcsOk_join [OF that _ assms(3)]]) (use funcsOkD(1) [OF assms(1,2)] in auto)
  show ?thesis using assms(1) 1 2 3 by (simp add: groupRegister_def g Let_def split: sum.split)
qed

lemma funcsOk_registerOne:
  assumes "funcsOk s" and "rc_CreateConn rc = Some (ProxyConn n)"
  shows "funcsOk (snd (registerOne n b rc s))"
proof (cases "Group b = []")
  case True
  then show ?thesis using assms(1) by (simp add: registerOne_def split: sum.split)
next
  case False
  obtain i s1 where L: "httpLookup (Group b) s = (i, s1)" by fastforce
  note F = funcsOk_lookup [OF assms(1) L]
  obtain g where "hc_objs s1 i = Some g" using F(2) by blast
  then have "funcsOk (snd (groupRegister i n (Group b) (GroupKey b) rc s1))"
    by (rule funcsOk_register [OF F(1) _ assms(2)])
  then show ?thesis using False L by (simp add: registerOne_def ctlRegister_def)
qed

lemma funcsOk_unregister:
  assumes "funcsOk s" and "hc_objs s i = Some g"
  shows "funcsOk (snd (groupUnRegister i n s))"
proof -
  have "funcsOk (setGroup i (leaveGroup n g) s)"
    by (rule funcsOk_setGroup [OF assms(1)]) (use funcsOkD(1) [OF assms] in \<open>auto simp: leaveGroup_def split: if_splits\<close>)
  then show ?thesis using assms(2) by (simp add: groupUnRegister_def Let_def)
qed

lemma funcsOk_closeOne:
  assumes "funcsOk s"
  shows "funcsOk (closeOne n b rc s)"
proof (cases "hc_groups s (Group b)")
  case (Some i)
  obtain g where "hc_objs s i = Some g" using funcsOkD(2) [OF assms Some] by blast
  note U = funcsOk_unregister [OF assms this, of n]
  obtain e s1 where "groupUnRegister i n s = (e, s1)" by fastforce
  then show ?thesis
    using assms U funcsOk_drop [of s1 "Group b"] Some by (simp add: closeOne_def ctlUnRegister_def)
qed (use assms in \<open>simp add: closeOne_def ctlUnRegister_def\<close>)

lemma funcsOk_registerAll:
  "funcsOk s \<Longrightarrow> \<forall>rc \<in> set rcs. rc_CreateConn rc = Some (ProxyConn n) \<Longrightarrow> funcsOk (snd (snd (registerAll n b rcs regd s)))"
proof (induction rcs arbitrary: regd s)
  case (Cons rc rcs)
  obtain r s1 where one: "registerOne n b rc s = (r, s1)" by fastforce
  then have "funcsOk s1" using funcsOk_registerOne [OF Cons.prems(1), of rc n b] Cons.prems(2) by simp
  then show ?case using Cons.IH Cons.prems(2) one by (cases r) simp_all
qed simp

lemma funcsOk_close: "funcsOk s \<Longrightarrow> funcsOk (httpClose n b regd s)"
  by (induction regd arbitrary: s) (simp_all add: httpClose_def funcsOk_closeOne)

lemma funcsOk_run: "funcsOk s \<Longrightarrow> funcsOk (snd (httpRun sc n b d h s))"
proof -
  assume s: "funcsOk s"
  let ?rcs = "map (httpRoute n h) (httpPairs sc d h)"
  obtain r regd s1 where all: "registerAll n b ?rcs [] s = (r, regd, s1)" by (metis prod_cases3)
  have "funcsOk s1" using funcsOk_registerAll [OF s, of ?rcs n b "[]"] all by (simp add: httpRoute_def)
  then show ?thesis using all funcsOk_close [of s1] by (cases r) (simp_all add: httpRun_def)
qed

lemma http_reach_funcs: "http_reach s regs \<Longrightarrow> funcsOk s"
proof (induction rule: http_reach.induct)
  case start
  then show ?case by (simp add: funcsOk_def NewHTTPGroupController_def)
next
  case (run s regs sc name b d h addr regd s')
  then show ?case using funcsOk_run [of s sc name b d h] by simp
next
  case (fail s regs sc name b d h e s')
  then show ?case using funcsOk_run [of s sc name b d h] by simp
next
  case (close s xs name b regd ys)
  then show ?case by (simp add: funcsOk_close)
next
  case (conn s regs i g res g')
  show ?case
    by (rule funcsOk_setGroup) (use conn funcsOkD(1) [OF conn.IH conn.hyps(2)] createConn_same [OF conn.hyps(3)] in auto)
qed

section \<open>Connections of a group\<close>

fun connRun :: "nat \<Rightarrow> http_group \<Rightarrow> (go_panic, conn_fn option) result list" where
  "connRun 0 g = []"
| "connRun (Suc k) g = (case createConn g of (r, g') \<Rightarrow> r # connRun k g')"

definition connOf :: "http_group \<Rightarrow> string \<Rightarrow> (go_panic, conn_fn option) result" where
  "connOf g n = Inr (case fmlookup (hg_createFuncs g) n of None \<Rightarrow> None | Some f \<Rightarrow> f)"

lemma createConn_next:
  assumes "hg_pxyNames g \<noteq> []" and "uint (hg_index g) + 1 < 2 ^ 63"
  shows "createConn g = (connOf g (hg_pxyNames g ! nat ((uint (hg_index g) + 1) mod int (length (hg_pxyNames g)))),
      g\<lparr> hg_index := hg_index g + 1 \<rparr>)"
    and "uint (hg_index g + 1) = uint (hg_index g) + 1"
proof -
  show u: "uint (hg_index g + 1) = uint (hg_index g) + 1"
    using assms(2) uint_ge_0 [of "hg_index g"] by (simp add: uint_word_ariths)
  have nonneg: "\<not> uint (hg_index g) + 1 < 0" using uint_ge_0 [of "hg_index g"] by linarith
  have "sint (hg_index g + 1) = uint (hg_index g) + 1"
    unfolding sint_uint u using assms(2) uint_ge_0 [of "hg_index g"] by (simp add: signed_take_bit_int_eq_self)
  then show "createConn g = (connOf g (hg_pxyNames g ! nat ((uint (hg_index g) + 1) mod int (length (hg_pxyNames g)))),
      g\<lparr> hg_index := hg_index g + 1 \<rparr>)"
    using assms(1) nonneg by (simp add: createConn_def connOf_def Let_def del: uint_ge_0)
qed

lemma connRun_spec:
  assumes "hg_pxyNames g \<noteq> []" and "uint (hg_index g) + int m < 2 ^ 63"
  shows "connRun m g = map (\<lambda>i. connOf g (hg_pxyNames g ! nat ((uint (hg_index g) + 1 + int i) mod int (length (hg_pxyNames g))))) [0..<m]"
  using assms
proof (induction m arbitrary: g)
  case (Suc m)
  let ?g = "g\<lparr> hg_index := hg_index g + 1 \<rparr>"
  have small: "uint (hg_index g) + 1 < 2 ^ 63" using Suc.prems(2) by simp
  note C = createConn_next [OF Suc.prems(1) small]
  have "connRun m ?g = map (\<lambda>i. connOf ?g (hg_pxyNames ?g ! nat ((uint (hg_index ?g) + 1 + int i) mod int (length (hg_pxyNames ?g))))) [0..<m]"
    by (rule Suc.IH) (use Suc.prems C(2) in auto)
  moreover have "connOf ?g = connOf g" by (simp add: connOf_def fun_eq_iff)
  ultimately have "connRun (Suc m) g = connOf g (hg_pxyNames g ! nat ((uint (hg_index g) + 1) mod int (length (hg_pxyNames g)))) #
      map (\<lambda>i. connOf g (hg_pxyNames g ! nat ((uint (hg_index g) + 1 + int (Suc i)) mod int (length (hg_pxyNames g))))) [0..<m]"
    using C by (simp add: add.assoc)
  then show ?case by (simp add: map_upt_Suc del: upt_Suc)
qed simp

lemma connRun_rotate:
  assumes "hg_pxyNames g \<noteq> []" and "uint (hg_index g) + int (length (hg_pxyNames g)) < 2 ^ 63"
  shows "connRun (length (hg_pxyNames g)) g = map (connOf g) (rotate (nat (uint (hg_index g)) + 1) (hg_pxyNames g))"
proof (rule nth_equalityI)
  let ?names = "hg_pxyNames g"
  show "length (connRun (length ?names) g) = length (map (connOf g) (rotate (nat (uint (hg_index g)) + 1) ?names))"
    by (simp add: connRun_spec [OF assms])
  fix i assume "i < length (connRun (length ?names) g)"
  then have i: "i < length ?names" by (simp add: connRun_spec [OF assms])
  have "nat ((uint (hg_index g) + 1 + int i) mod int (length ?names)) = (nat (uint (hg_index g)) + 1 + i) mod length ?names"
    using uint_ge_0 [of "hg_index g"] by (simp add: nat_mod_distrib nat_add_distrib)
  moreover have "rotate (nat (uint (hg_index g)) + 1) ?names ! i = ?names ! ((nat (uint (hg_index g)) + 1 + i) mod length ?names)"
    by (rule nth_rotate [OF i])
  ultimately show "connRun (length ?names) g ! i = map (connOf g) (rotate (nat (uint (hg_index g)) + 1) ?names) ! i"
    using i by (simp add: connRun_spec [OF assms] del: rotate_Suc)
qed

text \<open>A permutation of the members, so each of them gets one connection.\<close>

lemma mset_rotate_eq: "mset (rotate n xs) = mset xs"
  by (metis append_take_drop_id mset_append rotate_drop_take union_commute)

section \<open>Properties of http proxies\<close>

lemma set_owned: "(n, rc) \<in> set (owned regs) \<longleftrightarrow> (\<exists>b regd. (n, b, regd) \<in> set regs \<and> Group b = [] \<and> rc \<in> set regd)"
proof (induction regs)
  case (Cons r regs)
  then show ?case by (cases r) (auto simp: Cons)
qed simp

lemma set_members:
  "(grp, n, rc) \<in> set (members regs) \<longleftrightarrow> (\<exists>b regd. (n, b, regd) \<in> set regs \<and> Group b \<noteq> [] \<and> grp = Group b \<and> rc \<in> set regd)"
proof (induction regs)
  case (Cons r regs)
  then show ?case by (cases r) (auto simp: Cons)
qed simp

lemma httpInvD:
  assumes "httpInv s regs"
  shows "groupsOk s (members regs)" "routersOk (hc_routes s)" "routeInv (routesFun s) (actives s) (owned regs)"
  using assms by (simp_all add: httpInv_def)

text \<open>A proxy of a group is a member of the object of the group, whose route is the one it asked for.\<close>

lemma member_route:
  assumes "httpInv s regs" "(n, b, regd) \<in> set regs" "rc \<in> set regd" "Group b \<noteq> []"
  shows "\<exists>i g rc'. hc_groups s (Group b) = Some i \<and> hc_objs s i = Some g \<and> n \<in> set (hg_pxyNames g) \<and>
    routesFun s (rkey rc) = Some rc' \<and> rc_CreateConn rc' = Some (GroupConn i)"
proof -
  note D = httpInvD [OF assms(1)]
  have "(Group b, n, rc) \<in> set (members regs)" using assms(2-4) unfolding set_members by blast
  then obtain i g where g: "groupAt s (Group b) i g" "n \<in> set (hg_pxyNames g)" "rkey rc = gkey g"
    using groupsOkD(2) [OF D(1)] by blast
  moreover from g(2) have "hg_pxyNames g \<noteq> []" by auto
  ultimately have "(i, rkey rc) \<in> actives s" unfolding actives_def by blast
  then show ?thesis using routeInvD(3) [OF D(3)] g unfolding groupAt_def by blast
qed

lemma active_member:
  assumes "httpInv s regs" "(i, k) \<in> actives s"
  shows "\<exists>n b regd rc'. (n, b, regd) \<in> set regs \<and> Group b \<noteq> [] \<and> rc' \<in> set regd \<and> hc_groups s (Group b) = Some i \<and> rkey rc' = k"
proof -
  note D = httpInvD(1) [OF assms(1)]
  obtain grp g where g: "groupAt s grp i g" "hg_pxyNames g \<noteq> []" "k = gkey g" using assms(2) unfolding actives_def by blast
  let ?n = "hd (hg_pxyNames g)"
  have "?n \<in> set (hg_pxyNames g)" using g(2) by simp
  then obtain rc where rc: "(grp, ?n, rc) \<in> set (members regs)" using groupsOkD(6) [OF D g(1)] by blast
  obtain i' g' where g': "groupAt s grp i' g'" "rkey rc = gkey g'" using groupsOkD(2) [OF D rc] by blast
  then have "i' = i" "g' = g" using groupAt_unique [OF g(1)] by auto
  then show ?thesis using rc g g' unfolding set_members groupAt_def by metis
qed

text \<open>
  C25: the routing table holds exactly the routes of the registered proxies. A proxy with no group has
  each of its routes as it registered them; a proxy of a group is a member of the group, and the route it
  asked for makes its connections through that group. Every route in the table is one of these two
  kinds, so none is left over from a proxy that was closed or that failed to start, after any sequence of
  starts, failed starts, closes and connections.
\<close>

theorem http_routes_exact:
  assumes "http_reach s regs"
  shows "(\<forall>n b regd rc. (n, b, regd) \<in> set regs \<and> rc \<in> set regd \<longrightarrow>
      (if Group b = []
       then routeOf (hc_routes s) (rc_Domain rc) (rc_Location rc) (rc_RouteByHTTPUser rc) = Some rc
       else \<exists>i g rc'. hc_groups s (Group b) = Some i \<and> hc_objs s i = Some g \<and> n \<in> set (hg_pxyNames g) \<and>
         routeOf (hc_routes s) (rc_Domain rc) (rc_Location rc) (rc_RouteByHTTPUser rc) = Some rc' \<and>
         rc_CreateConn rc' = Some (GroupConn i))) \<and>
    (\<forall>d l u rc. routeOf (hc_routes s) d l u = Some rc \<longrightarrow>
      (\<exists>n b regd rc'. (n, b, regd) \<in> set regs \<and> rc' \<in> set regd \<and>
        rc_Domain rc' = d \<and> rc_Location rc' = l \<and> rc_RouteByHTTPUser rc' = u \<and>
        (if Group b = [] then rc' = rc
         else \<exists>i. hc_groups s (Group b) = Some i \<and> rc_CreateConn rc = Some (GroupConn i))))"
proof (intro conjI allI impI, goal_cases)
  have I: "httpInv s regs" by (rule http_reach_inv [OF assms])
  note D = httpInvD [OF I]
  {
    case (1 n b regd rc)
    show ?case
    proof (cases "Group b = []")
      case True
      then have "(n, rc) \<in> set (owned regs)" using 1 unfolding set_owned by blast
      then show ?thesis using routeInvD(2) [OF D(3)] True by (simp add: routesFun_def rkey_def)
    next
      case False
      then show ?thesis using member_route [OF I, of n b regd rc] 1 by (simp add: routesFun_def rkey_def)
    qed
  next
    case (2 d l u rc)
    then have "routesFun s (d, l, u) = Some rc" by (simp add: routesFun_def)
    then consider (own) n where "(n, rc) \<in> set (owned regs)" "rkey rc = (d, l, u)"
      | (grouped) i where "(i, (d, l, u)) \<in> actives s" "rc_CreateConn rc = Some (GroupConn i)"
      using routeInvD(4) [OF D(3)] by blast
    then show ?case
    proof cases
      case own
      then show ?thesis unfolding set_owned rkey_def by fastforce
    next
      case grouped
      obtain n b regd rc' where x: "(n, b, regd) \<in> set regs" "Group b \<noteq> []" "rc' \<in> set regd"
          "hc_groups s (Group b) = Some i" "rkey rc' = (d, l, u)"
        using active_member [OF I grouped(1)] by blast
      then show ?thesis using grouped(2)
        by (intro exI [of _ n] exI [of _ b] exI [of _ regd] exI [of _ rc']) (simp add: rkey_def)
    qed
  }
qed

text \<open>A proxy of its own, two of one group, and one that cannot have the route of the first.\<close>

definition sampleGroupConf :: "string \<Rightarrow> base_conf" where
  "sampleGroupConf g = (defaultBaseProxyConf ''http'')\<lparr> ProxyName := ''web'', Group := g \<rparr>"

definition sampleStep :: "string \<Rightarrow> string \<Rightarrow> string \<Rightarrow> http_ctl
    \<Rightarrow> (http_error, string \<times> route_config list) result \<times> http_ctl" where
  "sampleStep n grp d s =
     httpRun sampleServer n (sampleGroupConf grp) \<lparr> CustomDomains = Some [d], SubDomain = [] \<rparr> zeroHttp s"

definition sampleHttpCtl :: http_ctl where
  "sampleHttpCtl = snd (sampleStep ''d'' [] ''a.com'' (snd (sampleStep ''c'' ''g'' ''b.com'' (snd (sampleStep ''b'' ''g'' ''b.com''
     (snd (sampleStep ''a'' [] ''a.com'' (NewHTTPGroupController NewRouters))))))))"

definition sampleRoute :: "string \<Rightarrow> string \<Rightarrow> route_config" where
  "sampleRoute n d = httpRoute n zeroHttp (d, [])"

lemma sampleHttpCtl_reach:
  "http_reach sampleHttpCtl [(''c'', sampleGroupConf ''g'', [sampleRoute ''c'' ''b.com'']),
     (''b'', sampleGroupConf ''g'', [sampleRoute ''b'' ''b.com'']), (''a'', sampleGroupConf [], [sampleRoute ''a'' ''a.com''])]"
proof -
  let ?s0 = "NewHTTPGroupController NewRouters"
  let ?s1 = "snd (sampleStep ''a'' [] ''a.com'' ?s0)"
  let ?s2 = "snd (sampleStep ''b'' ''g'' ''b.com'' ?s1)"
  let ?s3 = "snd (sampleStep ''c'' ''g'' ''b.com'' ?s2)"
  have "fst (sampleStep ''a'' [] ''a.com'' ?s0) = Inr (''a.com'', [sampleRoute ''a'' ''a.com''])" by code_simp
  then have 1: "sampleStep ''a'' [] ''a.com'' ?s0 = (Inr (''a.com'', [sampleRoute ''a'' ''a.com'']), ?s1)"
    by (metis prod.collapse)
  have "fst (sampleStep ''b'' ''g'' ''b.com'' ?s1) = Inr (''b.com'', [sampleRoute ''b'' ''b.com''])" by code_simp
  then have 2: "sampleStep ''b'' ''g'' ''b.com'' ?s1 = (Inr (''b.com'', [sampleRoute ''b'' ''b.com'']), ?s2)"
    by (metis prod.collapse)
  have "fst (sampleStep ''c'' ''g'' ''b.com'' ?s2) = Inr (''b.com'', [sampleRoute ''c'' ''b.com''])" by code_simp
  then have 3: "sampleStep ''c'' ''g'' ''b.com'' ?s2 = (Inr (''b.com'', [sampleRoute ''c'' ''b.com'']), ?s3)"
    by (metis prod.collapse)
  have "fst (sampleStep ''d'' [] ''a.com'' ?s3) = Inl (HttpRoute ErrRouterConfigConflict)" by code_simp
  then have 4: "sampleStep ''d'' [] ''a.com'' ?s3 = (Inl (HttpRoute ErrRouterConfigConflict), sampleHttpCtl)"
    unfolding sampleHttpCtl_def by (metis prod.collapse)
  note steps = 1 2 3 4
  show ?thesis
    by (rule http_reach.fail [OF http_reach.run [OF http_reach.run [OF http_reach.run [OF http_reach.start]]]])
      (rule steps [unfolded sampleStep_def])+
qed

theorem http_routes_exact_witness:
  "routeOf (hc_routes sampleHttpCtl) ''a.com'' [] [] = Some (sampleRoute ''a'' ''a.com'') \<and>
   map_option rc_CreateConn (routeOf (hc_routes sampleHttpCtl) ''b.com'' [] []) = Some (Some (GroupConn 0)) \<and>
   routeOf (hc_routes sampleHttpCtl) ''c.com'' [] [] = None"
proof -
  note T = http_routes_exact [OF sampleHttpCtl_reach]
  have f: "Group (sampleGroupConf x) = x" "rc_Domain (sampleRoute n d) = d" "rc_Location (sampleRoute n d) = []"
      "rc_RouteByHTTPUser (sampleRoute n d) = []" for x n d
    by (simp_all add: sampleGroupConf_def sampleRoute_def httpRoute_def zeroHttp_def)
  have g: "hc_groups sampleHttpCtl ''g'' = Some 0" by code_simp
  have "routeOf (hc_routes sampleHttpCtl) ''c.com'' [] [] \<noteq> Some rc" for rc
    using conjunct2 [OF T, rule_format, of "''c.com''" "[]" "[]" rc] by (auto simp: f)
  then have "routeOf (hc_routes sampleHttpCtl) ''c.com'' [] [] = None" by (metis option.exhaust)
  moreover have "map_option rc_CreateConn (routeOf (hc_routes sampleHttpCtl) ''b.com'' [] []) = Some (Some (GroupConn 0))"
    using conjunct1 [OF T, rule_format, of "''b''" "sampleGroupConf ''g''" "[sampleRoute ''b'' ''b.com'']" "sampleRoute ''b'' ''b.com''"]
    by (auto simp: f g)
  ultimately show ?thesis
    using conjunct1 [OF T, rule_format, of "''a''" "sampleGroupConf []" "[sampleRoute ''a'' ''a.com'']" "sampleRoute ''a'' ''a.com''"]
    by (simp add: f)
qed

text \<open>
  C28: connections to a group of http proxies are shared out evenly: as many consecutive connections as the
  group has members reach every member exactly once, whatever the history of the group, as long as the
  64-bit index stays in the lower half of its range.
\<close>

theorem http_group_round_robin:
  assumes "http_reach s regs" and "hc_groups s grp = Some i" and "hc_objs s i = Some g"
    and "hg_pxyNames g \<noteq> []" and "uint (hg_index g) + int (length (hg_pxyNames g)) < 2 ^ 63"
  shows "mset (connRun (length (hg_pxyNames g)) g) = image_mset (\<lambda>n. Inr (Some (ProxyConn n))) (mset (hg_pxyNames g))"
proof -
  have "groupAt s grp i g" using assms(2,3) by (simp add: groupAt_def)
  then have members: "fmdom' (hg_createFuncs g) = set (hg_pxyNames g)"
    using groupsOkD(5) [OF httpInvD(1) [OF http_reach_inv [OF assms(1)]]] by blast
  have "connOf g n = Inr (Some (ProxyConn n))" if "n \<in> set (hg_pxyNames g)" for n
  proof -
    have "n \<in> fmdom' (hg_createFuncs g)" using that members by simp
    then obtain v where v: "fmlookup (hg_createFuncs g) n = Some v" unfolding fmlookup_dom'_iff by blast
    then show ?thesis using funcsOkD(1) [OF http_reach_funcs [OF assms(1)] assms(3) v] by (simp add: connOf_def)
  qed
  then have "image_mset (connOf g) (mset (hg_pxyNames g)) = image_mset (\<lambda>n. Inr (Some (ProxyConn n))) (mset (hg_pxyNames g))"
    by (intro image_mset_cong) simp
  then show ?thesis unfolding connRun_rotate [OF assms(4,5)] mset_map mset_rotate_eq .
qed

theorem http_group_round_robin_witness:
  "mset (connRun 2 (the (hc_objs sampleHttpCtl 0))) = {# Inr (Some (ProxyConn ''b'')), Inr (Some (ProxyConn ''c'')) #}"
proof -
  let ?g = "the (hc_objs sampleHttpCtl 0)"
  have n: "hg_pxyNames ?g = [''b'', ''c'']" by code_simp
  have o: "hc_objs sampleHttpCtl 0 = Some ?g" by code_simp
  have u: "hg_index ?g = 0" by code_simp
  have c: "hc_groups sampleHttpCtl ''g'' = Some 0" by code_simp
  show ?thesis using http_group_round_robin [OF sampleHttpCtl_reach c o] by (simp add: n u numeral_2_eq_2)
qed

text \<open>
  The group is looked up under the lock of the controller and joined under its own, so a proxy that
  starts while the last member of its group stops joins an object the controller has dropped. It is told
  that it started; when it stops its route stays, and the next proxy of the group cannot start.
\<close>

lemma http_group_orphan:
  "let s1 = snd (ctlRegister a grp key rc (NewHTTPGroupController NewRouters));
       (i, s2) = httpLookup grp s1;
       s3 = ctlUnRegister a grp s2;
       (e, s4) = groupRegister i b grp key rc s3;
       s5 = ctlUnRegister b grp s4
   in e = None \<and> hc_groups s4 grp = None \<and>
      routeOf (hc_routes s5) (rc_Domain rc) (rc_Location rc) (rc_RouteByHTTPUser rc) = Some (rc\<lparr> rc_CreateConn := Some (GroupConn i) \<rparr>) \<and>
      fst (ctlRegister c grp key rc s5) = Some (HttpRoute ErrRouterConfigConflict)"
proof -
  have "sortReverse [v] = [v]" for v :: "route_config router" by (simp add: sortReverse_def)
  moreover have "fmdrop a (fmupd a f fmempty) = fmempty" for f :: "conn_fn option" by (intro fmap_ext) simp
  ultimately show ?thesis
    by (simp add: http_group_defs NewRouters_def Let_def Add_def Del_def routeOf_def exist_def)
qed

end
