(* ===== verification/DashProxy.thy ===== *)
theory DashProxy
  imports JsValue
begin

text \<open>
  The table rows of the dashboards: the classes of \<^verbatim>\<open>web/frps/src/utils/proxy.js\<close>,
  which turn one entry of \<^verbatim>\<open>/api/proxy/:type\<close> into a row, and the class of
  \<^verbatim>\<open>web/frpc/src/utils/status.js\<close>. A class is a record, a subclass a record
  extension; a constructor fails with a \<open>TypeError\<close> when its argument has no properties.
\<close>

section \<open>The base class\<close>

record base_proxy =
  pname :: jsval
  encryption :: jsval
  compression :: jsval
  conns :: jsval
  traffic_in :: jsval
  traffic_out :: jsval
  last_start_time :: jsval
  last_close_time :: jsval
  pstatus :: jsval

text \<open>
  The first property access of the constructor is on \<open>proxyStats\<close> itself and fails when it is
  \<open>undefined\<close> or \<open>null\<close>; the accesses to \<open>conf\<close> are guarded.
\<close>

definition BaseProxy :: "jsval \<Rightarrow> (js_error, base_proxy) result" where
  "BaseProxy st =
     (if nullish st then Inl TypeError
      else let conf = jsField st ''conf'' in Inr
        \<lparr> pname = jsField st ''name'',
          encryption = (if \<not> nullish conf then jsField conf ''use_encryption'' else JStr []),
          compression = (if \<not> nullish conf then jsField conf ''use_compression'' else JStr []),
          conns = jsField st ''cur_conns'',
          traffic_in = jsField st ''today_traffic_in'',
          traffic_out = jsField st ''today_traffic_out'',
          last_start_time = jsField st ''last_start_time'',
          last_close_time = jsField st ''last_close_time'',
          pstatus = jsField st ''status'' \<rparr>)"

section \<open>The subclasses\<close>

record port_proxy = base_proxy +
  ptype :: string
  addr :: jsval
  port :: jsval

record http_proxy = base_proxy +
  htype :: string
  hport :: jsval
  custom_domains :: jsval
  host_header_rewrite :: jsval
  locations :: jsval
  subdomain :: jsval

record https_proxy = base_proxy +
  stype :: string
  sport :: jsval
  scustom_domains :: jsval
  ssubdomain :: jsval

record stream_proxy = base_proxy +
  xtype :: string

definition TcpProxy :: "jsval \<Rightarrow> (js_error, port_proxy) result" where
  "TcpProxy st = (case BaseProxy st of
       Inl e \<Rightarrow> Inl e
     | Inr b \<Rightarrow> let conf = jsField st ''conf'' in Inr (base_proxy.extend b
         (port_proxy.fields ''tcp''
           (if \<not> nullish conf then jsAdd (JStr '':'') (jsField conf ''remote_port'') else JStr [])
           (if \<not> nullish conf then jsField conf ''remote_port'' else JStr []))))"

definition UdpProxy :: "jsval \<Rightarrow> (js_error, port_proxy) result" where
  "UdpProxy st = (case BaseProxy st of
       Inl e \<Rightarrow> Inl e
     | Inr b \<Rightarrow> let conf = jsField st ''conf'' in Inr (base_proxy.extend b
         (port_proxy.fields ''udp''
           (if \<not> nullish conf then jsAdd (JStr '':'') (jsField conf ''remote_port'') else JStr [])
           (if \<not> nullish conf then jsField conf ''remote_port'' else JStr []))))"

text \<open>The sub-domain shown: \<open>conf.subdomain + "." + subdomain_host\<close>, or nothing.\<close>

definition fullSubdomain :: "jsval \<Rightarrow> jsval \<Rightarrow> jsval" where
  "fullSubdomain conf subdomain_host =
     (if nullish conf then JStr []
      else if \<not> eqEmpty (jsField conf ''subdomain'')
      then jsAdd (jsAdd (jsField conf ''subdomain'') (JStr ''.'')) subdomain_host
      else JStr [])"

definition HttpProxy :: "jsval \<Rightarrow> jsval \<Rightarrow> jsval \<Rightarrow> (js_error, http_proxy) result" where
  "HttpProxy st vport subdomain_host = (case BaseProxy st of
       Inl e \<Rightarrow> Inl e
     | Inr b \<Rightarrow> let conf = jsField st ''conf'' in Inr (base_proxy.extend b
         (http_proxy.fields ''http'' vport
           (if \<not> nullish conf then jsField conf ''custom_domains'' else JStr [])
           (if \<not> nullish conf then jsField conf ''host_header_rewrite'' else JStr [])
           (if \<not> nullish conf then jsField conf ''locations'' else JStr [])
           (fullSubdomain conf subdomain_host))))"

definition HttpsProxy :: "jsval \<Rightarrow> jsval \<Rightarrow> jsval \<Rightarrow> (js_error, https_proxy) result" where
  "HttpsProxy st vport subdomain_host = (case BaseProxy st of
       Inl e \<Rightarrow> Inl e
     | Inr b \<Rightarrow> let conf = jsField st ''conf'' in Inr (base_proxy.extend b
         (https_proxy.fields ''https'' vport
           (if \<not> nullish conf then jsField conf ''custom_domains'' else JStr [])
           (fullSubdomain conf subdomain_host))))"

definition StcpProxy :: "jsval \<Rightarrow> (js_error, stream_proxy) result" where
  "StcpProxy st = (case BaseProxy st of
       Inl e \<Rightarrow> Inl e | Inr b \<Rightarrow> Inr (base_proxy.extend b (stream_proxy.fields ''stcp'')))"

definition SudpProxy :: "jsval \<Rightarrow> (js_error, stream_proxy) result" where
  "SudpProxy st = (case BaseProxy st of
       Inl e \<Rightarrow> Inl e | Inr b \<Rightarrow> Inr (base_proxy.extend b (stream_proxy.fields ''sudp'')))"

section \<open>The status row of frpc\<close>

record proxy_status =
  st_name :: jsval
  st_type :: jsval
  st_status :: jsval
  st_err :: jsval
  st_local_addr :: jsval
  st_plugin :: jsval
  st_remote_addr :: jsval

definition ProxyStatus :: "jsval \<Rightarrow> (js_error, proxy_status) result" where
  "ProxyStatus s =
     (if nullish s then Inl TypeError
      else Inr \<lparr> st_name = jsField s ''name'', st_type = jsField s ''type'',
                 st_status = jsField s ''status'', st_err = jsField s ''err'',
                 st_local_addr = jsField s ''local_addr'', st_plugin = jsField s ''plugin'',
                 st_remote_addr = jsField s ''remote_addr'' \<rparr>)"

lemmas dash_row_defs [go_defs] =
  BaseProxy_def TcpProxy_def UdpProxy_def fullSubdomain_def HttpProxy_def HttpsProxy_def
  StcpProxy_def SudpProxy_def ProxyStatus_def

lemmas dash_record_defs = base_proxy.defs port_proxy.defs http_proxy.defs https_proxy.defs stream_proxy.defs

section \<open>Lemmas\<close>

text \<open>Every constructor succeeds on anything that has properties.\<close>

lemma constructors_ok:
  assumes "\<not> nullish st"
  shows "\<exists>r. TcpProxy st = Inr r" "\<exists>r. UdpProxy st = Inr r" "\<exists>r. HttpProxy st p h = Inr r"
    "\<exists>r. HttpsProxy st p h = Inr r" "\<exists>r. StcpProxy st = Inr r" "\<exists>r. SudpProxy st = Inr r"
  using assms by (simp_all add: dash_row_defs Let_def)

lemma constructors_null:
  assumes "nullish st"
  shows "TcpProxy st = Inl TypeError" "UdpProxy st = Inl TypeError" "HttpProxy st p h = Inl TypeError"
    "HttpsProxy st p h = Inl TypeError" "StcpProxy st = Inl TypeError" "SudpProxy st = Inl TypeError"
  using assms by (simp_all add: dash_row_defs)

end
