(* ===== verification/VueViews.thy ===== *)
theory VueViews
  imports DashProxy
begin

text \<open>
  What the pages of both dashboards share: messages, requests and their replies, and the description
  of a table. A page is a record with the data of its component; its methods are functions on it. A
  request is recorded when it is sent, and the reply is an argument of the function that stands for the
  callbacks of the promise. A promise that is rejected with no handler, or whose handler throws, counts
  as unhandled: nothing of it is visible on the page.
\<close>

section \<open>Messages, requests, replies\<close>

record message =
  showClose :: bool
  messageText :: string
  messageType :: string

text \<open>
  What \<open>fetch(url)\<close> followed by \<open>res.json()\<close> gives: the parsed body whatever the status of the
  response, or a rejection (no response, or a body that is not JSON) with an error text.
\<close>

datatype reply = Json jsval | Rejected string

text \<open>
  \<open>this.$message(m)\<close>: the property exists only if the entry file of the application puts it on the
  prototype; without it the call throws.
\<close>

definition callMessage :: "string list \<Rightarrow> message \<Rightarrow> message list \<Rightarrow> (js_error, message list) result" where
  "callMessage prototype msg shown =
     (if ''$message'' \<in> set prototype then Inr (shown @ [msg]) else Inl TypeError)"

section \<open>Tables\<close>

record column =
  c_label :: string
  c_prop :: string
  c_formatter :: "string option"
  c_sortable :: bool

text \<open>
  The cell of a column is the field of the row, or what its formatter makes of the row; the formatters
  of the dashboard print a number of bytes with a function of a library.
\<close>

definition formatTrafficIn :: "(jsval \<Rightarrow> string) \<Rightarrow> jsval \<Rightarrow> jsval" where
  "formatTrafficIn fileSize row = JStr (fileSize (jsField row ''traffic_in''))"

definition formatTrafficOut :: "(jsval \<Rightarrow> string) \<Rightarrow> jsval \<Rightarrow> jsval" where
  "formatTrafficOut fileSize row = JStr (fileSize (jsField row ''traffic_out''))"

definition cellOf :: "(jsval \<Rightarrow> string) \<Rightarrow> jsval \<Rightarrow> column \<Rightarrow> jsval" where
  "cellOf fileSize row c = (case c_formatter c of
       None \<Rightarrow> jsField row (c_prop c)
     | Some f \<Rightarrow> if f = ''formatTrafficIn'' then formatTrafficIn fileSize row
                 else if f = ''formatTrafficOut'' then formatTrafficOut fileSize row else JUndef)"

definition tableCells :: "(jsval \<Rightarrow> string) \<Rightarrow> column list \<Rightarrow> jsval \<Rightarrow> (string \<times> jsval) list" where
  "tableCells fileSize cols row = map (\<lambda>c. (c_label c, cellOf fileSize row c)) cols"

definition formItems :: "(string \<times> string) list \<Rightarrow> jsval \<Rightarrow> (string \<times> jsval) list" where
  "formItems items row = map (\<lambda>(label, field). (label, jsField row field)) items"

text \<open>The tag of the status column: green for \<open>'online'\<close>, red for everything else.\<close>

definition statusTag :: "jsval \<Rightarrow> string \<times> jsval" where
  "statusTag row = (if jsField row ''status'' = JStr ''online'' then ''success'' else ''danger'', jsField row ''status'')"

lemmas view_defs [go_defs] =
  callMessage_def formatTrafficIn_def formatTrafficOut_def cellOf_def tableCells_def formItems_def statusTag_def

section \<open>A page that lists what one request returns\<close>

record 'p table_view =
  proxies :: "'p list"
  requests :: "string list"
  pending :: nat
  unhandled :: nat

definition tableData :: "'p table_view" where
  "tableData = \<lparr> proxies = [], requests = [], pending = 0, unhandled = 0 \<rparr>"

definition tableFetch :: "string \<Rightarrow> 'p table_view \<Rightarrow> 'p table_view" where
  "tableFetch url v = v\<lparr> requests := requests v @ [url], pending := pending v + 1 \<rparr>"

text \<open>
  The loop of the callback: the rows are emptied first, then one row is made from each entry of
  \<open>json.proxies\<close>; an exception of the loop leaves the rows made so far.
\<close>

definition rowsOf :: "(jsval \<Rightarrow> (js_error, 'p) result) \<Rightarrow> jsval \<Rightarrow> 'p list \<times> js_error option" where
  "rowsOf mk json =
     (case jsGet json ''proxies'' of Inl e \<Rightarrow> ([], Some e)
      | Inr ps \<Rightarrow> (case jsIter ps of Inl e \<Rightarrow> ([], Some e) | Inr xs \<Rightarrow> pushAll mk xs []))"

definition tableReply :: "(jsval \<Rightarrow> (js_error, 'p) result) \<Rightarrow> reply \<Rightarrow> 'p table_view \<Rightarrow> 'p table_view" where
  "tableReply mk r v =
     (case r of
        Rejected e \<Rightarrow> v\<lparr> pending := pending v - 1, unhandled := unhandled v + 1 \<rparr>
      | Json json \<Rightarrow>
          (let (rows, err) = rowsOf mk json in
           v\<lparr> proxies := rows, pending := pending v - 1,
              unhandled := (if err = None then unhandled v else unhandled v + 1) \<rparr>))"

lemma rowsOf_ok:
  assumes "jsField json ''proxies'' = JArr xs" and "list_all (\<lambda>x. \<exists>p. mk x = Inr p) xs"
  shows "rowsOf mk json = (map (projr \<circ> mk) xs, None)"
proof -
  have "\<not> nullish json" using assms(1) by (cases json) auto
  then show ?thesis using assms by (simp add: rowsOf_def jsGet_def pushAll_ok)
qed

section \<open>A page of virtual hosts\<close>

text \<open>
  The two pages of virtual hosts first ask for the server's port and sub-domain host, and for the list
  only if the port is set; the port and the host are read again when the list arrives.
\<close>

record 'p vhost_view =
  vproxies :: "'p list"
  vport :: jsval
  vhost :: jsval
  infoPending :: nat
  listPending :: nat
  vrequests :: "string list"
  vunhandled :: nat

definition vhostData :: "'p vhost_view" where
  "vhostData = \<lparr> vproxies = [], vport = JStr [], vhost = JStr [], infoPending = 0, listPending = 0,
     vrequests = [], vunhandled = 0 \<rparr>"

definition vhostFetch :: "'p vhost_view \<Rightarrow> 'p vhost_view" where
  "vhostFetch v = v\<lparr> infoPending := infoPending v + 1, vrequests := vrequests v @ [''../api/serverinfo''] \<rparr>"

definition vhostInfo :: "string \<Rightarrow> string \<Rightarrow> reply \<Rightarrow> 'p vhost_view \<Rightarrow> 'p vhost_view" where
  "vhostInfo portField listUrl r v =
     (case r of
        Rejected e \<Rightarrow> v\<lparr> infoPending := infoPending v - 1, vunhandled := vunhandled v + 1 \<rparr>
      | Json json \<Rightarrow>
          if nullish json then v\<lparr> infoPending := infoPending v - 1, vunhandled := vunhandled v + 1 \<rparr>
          else let v' = v\<lparr> infoPending := infoPending v - 1, vport := jsField json portField,
                           vhost := jsField json ''subdomain_host'' \<rparr> in
            if nullish (vport v') \<or> eqZero (vport v') then v'
            else v'\<lparr> listPending := listPending v' + 1, vrequests := vrequests v' @ [listUrl] \<rparr>)"

definition vhostList ::
  "(jsval \<Rightarrow> jsval \<Rightarrow> jsval \<Rightarrow> (js_error, 'p) result) \<Rightarrow> reply \<Rightarrow> 'p vhost_view \<Rightarrow> 'p vhost_view" where
  "vhostList mk r v =
     (case r of
        Rejected e \<Rightarrow> v\<lparr> listPending := listPending v - 1, vunhandled := vunhandled v + 1 \<rparr>
      | Json json \<Rightarrow>
          (let (rows, err) = rowsOf (\<lambda>st. mk st (vport v) (vhost v)) json in
           v\<lparr> vproxies := rows, listPending := listPending v - 1,
              vunhandled := (if err = None then vunhandled v else vunhandled v + 1) \<rparr>))"

lemmas table_defs [go_defs] =
  tableData_def tableFetch_def tableReply_def vhostData_def vhostFetch_def vhostInfo_def vhostList_def

text \<open>
  The steps of such a page: the route changes (or the page is created), or a reply arrives; replies may
  arrive in any order. \<open>ok\<close> says which information the server may send.
\<close>

inductive vhost_step ::
  "(jsval \<Rightarrow> jsval \<Rightarrow> jsval \<Rightarrow> (js_error, 'p) result) \<Rightarrow> string \<Rightarrow> string \<Rightarrow> (jsval \<Rightarrow> bool) \<Rightarrow>
     'p vhost_view \<Rightarrow> 'p vhost_view \<Rightarrow> bool"
  for mk portField listUrl ok where
  fetch: "vhost_step mk portField listUrl ok v (vhostFetch v)"
| info: "infoPending v > 0 \<Longrightarrow> (\<And>j. r = Json j \<Longrightarrow> ok j) \<Longrightarrow>
    vhost_step mk portField listUrl ok v (vhostInfo portField listUrl r v)"
| list: "listPending v > 0 \<Longrightarrow> vhost_step mk portField listUrl ok v (vhostList mk r v)"

inductive vhost_reach ::
  "(jsval \<Rightarrow> jsval \<Rightarrow> jsval \<Rightarrow> (js_error, 'p) result) \<Rightarrow> string \<Rightarrow> string \<Rightarrow> (jsval \<Rightarrow> bool) \<Rightarrow>
     'p vhost_view \<Rightarrow> bool"
  for mk portField listUrl ok where
  start: "vhost_reach mk portField listUrl ok vhostData"
| step: "vhost_reach mk portField listUrl ok v \<Longrightarrow> vhost_step mk portField listUrl ok v w \<Longrightarrow>
    vhost_reach mk portField listUrl ok w"

inductive_cases vhost_stepE: "vhost_step mk portField listUrl ok v w"

definition serves :: "string \<Rightarrow> jsval \<Rightarrow> jsval \<Rightarrow> jsval \<Rightarrow> bool" where
  "serves portField p h json \<longleftrightarrow>
     \<not> nullish json \<and> jsField json portField = p \<and> jsField json ''subdomain_host'' = h"

definition vhostInv ::
  "(jsval \<Rightarrow> jsval \<Rightarrow> jsval \<Rightarrow> (js_error, 'p) result) \<Rightarrow> string \<Rightarrow> jsval \<Rightarrow> jsval \<Rightarrow> 'p vhost_view \<Rightarrow> bool"
where
  "vhostInv mk listUrl p h v \<longleftrightarrow>
     (listPending v > 0 \<or> vproxies v \<noteq> [] \<or> listUrl \<in> set (vrequests v) \<longrightarrow>
        vport v = p \<and> vhost v = h \<and> \<not> nullish p \<and> \<not> eqZero p) \<and>
     (\<forall>x \<in> set (vproxies v). \<exists>st. mk st p h = Inr x)"

lemma pushAll_origin:
  "pushAll mk xs acc = (rows, err) \<Longrightarrow> x \<in> set rows \<Longrightarrow> x \<in> set acc \<or> (\<exists>st. mk st = Inr x)"
proof (induction xs arbitrary: acc)
  case (Cons a xs)
  show ?case
  proof (cases "mk a")
    case (Inl e)
    then show ?thesis using Cons.prems by simp
  next
    case (Inr q)
    then show ?thesis using Cons.IH [of "acc @ [q]"] Cons.prems by auto
  qed
qed simp

lemma rowsOf_origin: "rowsOf mk json = (rows, err) \<Longrightarrow> x \<in> set rows \<Longrightarrow> \<exists>st. mk st = Inr x"
  using pushAll_origin [of mk _ "[]"] by (fastforce simp: rowsOf_def split: sum.splits)

lemma vhost_step_inv:
  assumes "vhost_step mk portField listUrl (serves portField p h) v w" and "vhostInv mk listUrl p h v"
    and "listUrl \<noteq> ''../api/serverinfo''"
  shows "vhostInv mk listUrl p h w"
  using assms(1)
proof cases
  case fetch
  then show ?thesis using assms(2,3) by (auto simp: vhostFetch_def vhostInv_def)
next
  case (info r)
  show ?thesis
  proof (cases r)
    case (Rejected e)
    then show ?thesis using info(1) assms(2) by (auto simp: vhostInfo_def vhostInv_def)
  next
    case (Json j)
    then have "serves portField p h j" using info(3) by simp
    then show ?thesis using info(1) assms(2) Json
      by (auto simp: vhostInfo_def vhostInv_def serves_def Let_def)
  qed
next
  case (list r)
  show ?thesis
  proof (cases r)
    case (Rejected e)
    then show ?thesis using list assms(2) by (auto simp: vhostList_def vhostInv_def)
  next
    case (Json j)
    obtain rows err where rows: "rowsOf (\<lambda>st. mk st (vport v) (vhost v)) j = (rows, err)" by fastforce
    have "vport v = p" "vhost v = h" using assms(2) list(2) by (auto simp: vhostInv_def)
    then show ?thesis
      using list assms(2) Json rows rowsOf_origin [OF rows] by (auto simp: vhostList_def vhostInv_def)
  qed
qed

lemma vhost_reach_inv:
  assumes "vhost_reach mk portField listUrl (serves portField p h) v" and "listUrl \<noteq> ''../api/serverinfo''"
  shows "vhostInv mk listUrl p h v"
  using assms(1)
proof induction
  case start
  then show ?case by (simp add: vhostInv_def vhostData_def)
next
  case (step v w)
  then show ?case using vhost_step_inv [OF _ _ assms(2)] by blast
qed

end
