(* ===== verification/JsDate.thy ===== *)
theory JsDate
  imports JsValue
begin

text \<open>
  The dates of JavaScript that the traffic chart uses. A \<open>Date\<close> is represented by its local calendar
  day, the number of days since 1 January 1970: \<open>getFullYear\<close>, \<open>getMonth\<close> and \<open>getDate\<close> read
  only that, and \<open>new Date(year, month, date)\<close>, the midnight that starts a day, is that day (where a
  zone has no such midnight the language takes the next instant of the day). The definitions are those
  of the language standard: a day of the month out of range carries into the next or the last month.
\<close>

section \<open>Years and months\<close>

definition isLeap :: "int \<Rightarrow> bool" where
  "isLeap y \<longleftrightarrow> y mod 4 = 0 \<and> (y mod 100 \<noteq> 0 \<or> y mod 400 = 0)"

definition dayFromYear :: "int \<Rightarrow> int" where
  "dayFromYear y =
     365 * (y - 1970) + (y - 1969) div 4 - (y - 1901) div 100 + (y - 1601) div 400"

definition daysInYear :: "int \<Rightarrow> int" where
  "daysInYear y = (if isLeap y then 366 else 365)"

definition monthStarts :: "bool \<Rightarrow> int list" where
  "monthStarts leap = (if leap then [0, 31, 60, 91, 121, 152, 182, 213, 244, 274, 305, 335]
                       else [0, 31, 59, 90, 120, 151, 181, 212, 243, 273, 304, 334])"

lemma div_succ:
  assumes "0 < m" shows "(x + 1) div m = x div m + (if m dvd x + 1 then 1 else (0::int))"
proof (cases "m dvd x + 1")
  case True
  then obtain k where k: "x + 1 = m * k" by auto
  have "x = m * (k - 1) + (m - 1)" using k by (simp add: algebra_simps)
  then have "x div m = k - 1" using assms by (simp add: div_pos_pos_trivial)
  then show ?thesis using k assms by simp
next
  case False
  have "x mod m + 1 \<noteq> m" using False by (metis dvd_add_right_iff dvd_refl mult_div_mod_eq add.assoc dvd_triv_left)
  moreover have "x mod m < m" "0 \<le> x mod m" using assms by auto
  ultimately have "(x mod m + 1) div m = 0" by (simp add: div_pos_pos_trivial)
  moreover have "(x + 1) div m = x div m + (x mod m + 1) div m"
    using assms div_mult_self4 [of m "x div m" "x mod m + 1"] by (simp add: add.commute add.left_commute)
  ultimately show ?thesis using False by simp
qed

lemma dvd_shift: "(m::int) dvd k \<Longrightarrow> m dvd y - k \<longleftrightarrow> m dvd y"
  by (metis dvd_diff_right_iff dvd_diff_commute)

lemma div_shift_succ:
  "0 < m \<Longrightarrow> m dvd k \<Longrightarrow> k' = k + 1 \<Longrightarrow> (y - k) div m = (y - k') div m + (if m dvd y then 1 else (0::int))"
  using div_succ [of m "y - k'"] by (simp add: dvd_shift)

lemma leap_sum:
  "(c \<longrightarrow> b) \<Longrightarrow> (b \<longrightarrow> a) \<Longrightarrow> (if a \<and> (\<not> b \<or> c) then 366 else 365) =
     365 + (if a then 1 else 0) - (if b then 1 else 0) + (if c then 1 else (0::int))"
  by (cases a; cases b; cases c) simp_all

lemma dayFromYear_step: "dayFromYear (y + 1) = dayFromYear y + daysInYear y"
proof -
  have a: "(y - 1968) div 4 = (y - 1969) div 4 + (if 4 dvd y then 1 else 0)"
    by (rule div_shift_succ) simp_all
  have b: "(y - 1900) div 100 = (y - 1901) div 100 + (if 100 dvd y then 1 else 0)"
    by (rule div_shift_succ) simp_all
  have c: "(y - 1600) div 400 = (y - 1601) div 400 + (if 400 dvd y then 1 else 0)"
    by (rule div_shift_succ [OF _ dvdI [of _ _ 4]]) simp_all
  have imp: "400 dvd y \<longrightarrow> 100 dvd y" "100 dvd y \<longrightarrow> 4 dvd y"
    using dvd_trans [of 100 400 y] dvd_trans [of 4 100 y] by simp_all
  have leap: "isLeap y \<longleftrightarrow> 4 dvd y \<and> (\<not> 100 dvd y \<or> 400 dvd y)"
    by (simp add: isLeap_def dvd_eq_mod_eq_0)
  have "dayFromYear (y + 1) = 365 * (y - 1970) + 365 + (y - 1968) div 4 - (y - 1900) div 100 + (y - 1600) div 400"
    by (simp add: dayFromYear_def)
  moreover have "daysInYear y = 365 + (if 4 dvd y then 1 else 0) - (if 100 dvd y then 1 else 0) + (if 400 dvd y then 1 else 0)"
    unfolding daysInYear_def leap by (rule leap_sum [OF imp])
  ultimately show ?thesis
    unfolding a b c dayFromYear_def [of y] by linarith
qed

text \<open>The year of a day: the last year that starts on or before it, searched from a year before it.\<close>

function yearFrom :: "int \<Rightarrow> int \<Rightarrow> int" where
  "yearFrom n y = (if dayFromYear (y + 1) \<le> n then yearFrom n (y + 1) else y)"
  by auto
termination
  by (relation "measure (\<lambda>(n, y). nat (n + 1 - dayFromYear y))")
     (auto simp: dayFromYear_step daysInYear_def split: if_splits)

declare yearFrom.simps [simp del]

definition getFullYear :: "int \<Rightarrow> int" where
  "getFullYear n = yearFrom n (1968 + min (n div 365) (n div 366))"

definition dayWithinYear :: "int \<Rightarrow> int" where
  "dayWithinYear n = n - dayFromYear (getFullYear n)"

definition getMonth :: "int \<Rightarrow> int" where
  "getMonth n = int (length (filter (\<lambda>s. s \<le> dayWithinYear n) (monthStarts (isLeap (getFullYear n))))) - 1"

definition getDate :: "int \<Rightarrow> int" where
  "getDate n = dayWithinYear n - monthStarts (isLeap (getFullYear n)) ! nat (getMonth n) + 1"

definition newDate :: "int \<Rightarrow> int \<Rightarrow> int \<Rightarrow> int" where
  "newDate year month date =
     (let ym = year + month div 12; mn = month mod 12 in
      dayFromYear ym + monthStarts (isLeap ym) ! nat mn + date - 1)"

section \<open>A day is determined by its year, month and date\<close>

lemma yearFrom_bounds:
  "dayFromYear y \<le> n \<Longrightarrow> dayFromYear (yearFrom n y) \<le> n \<and> n < dayFromYear (yearFrom n y + 1)"
proof (induction n y rule: yearFrom.induct)
  case (1 n y)
  then show ?case
    by (cases "dayFromYear (y + 1) \<le> n") (simp_all add: yearFrom.simps [of n y])
qed

lemma search_start: "dayFromYear (1968 + min (n div 365) (n div 366)) \<le> n"
proof -
  define k where "k = min (n div 365) (n div 366)"
  have b: "k \<le> n div 365" "k \<le> n div 366" by (simp_all add: k_def)
  have "365 * (n div 365) \<le> n" "366 * (n div 366) \<le> n"
    using div_mult_mod_eq [of n 365] pos_mod_sign [of 365 n] div_mult_mod_eq [of n 366] pos_mod_sign [of 366 n]
    by linarith+
  then have k1: "365 * k \<le> n" and k2: "366 * k \<le> n" using b by linarith+
  define x y z where "x = (k - 1) div 4" and "y = (k + 67) div 100" and "z = (k + 367) div 400"
  have x: "4 * x \<le> k - 1"
    using div_mult_mod_eq [of "k - 1" 4] pos_mod_sign [of 4 "k - 1"] unfolding x_def by linarith
  have y: "k - 32 \<le> 100 * y"
    using div_mult_mod_eq [of "k + 67" 100] pos_mod_bound [of 100 "k + 67"] unfolding y_def by linarith
  have z: "400 * z \<le> k + 367"
    using div_mult_mod_eq [of "k + 367" 400] pos_mod_sign [of 400 "k + 367"] unfolding z_def by linarith
  have d: "dayFromYear (1968 + k) = 365 * k - 730 + x - y + z"
    by (simp add: dayFromYear_def x_def y_def z_def add.commute)
  have "dayFromYear (1968 + k) \<le> n"
  proof (cases "0 \<le> k")
    case True
    then have "x - y + z \<le> k" using x y z by linarith
    then show ?thesis using d k2 by linarith
  next
    case False
    then have "x - y + z \<le> 0" using x y z by linarith
    then show ?thesis using d k1 by linarith
  qed
  then show ?thesis by (simp add: k_def)
qed

lemma getFullYear_bounds:
  "dayFromYear (getFullYear n) \<le> n" "n < dayFromYear (getFullYear n) + daysInYear (getFullYear n)"
  using yearFrom_bounds [OF search_start, of n] by (simp_all add: getFullYear_def dayFromYear_step)

lemma dayWithinYear_bounds: "0 \<le> dayWithinYear n" "dayWithinYear n < daysInYear (getFullYear n)"
  using getFullYear_bounds [of n] by (simp_all add: dayWithinYear_def)

lemma getMonth_bounds: "0 \<le> getMonth n" "getMonth n \<le> 11"
  using dayWithinYear_bounds [of n] by (simp_all add: getMonth_def monthStarts_def)

lemma newDate_get: "newDate (getFullYear n) (getMonth n) (getDate n + k) = n + k"
  using getMonth_bounds [of n] by (simp add: newDate_def getDate_def dayWithinYear_def)

lemma civil_inj:
  assumes "getFullYear m = getFullYear n" "getMonth m = getMonth n" "getDate m = getDate n"
  shows "m = n"
  using newDate_get [of m 0] newDate_get [of n 0] assms by simp

end
