(* ===== verification/DashChart.thy ===== *)
theory DashChart
  imports JsDate
begin

text \<open>
  The three charts of the frps dashboard, \<^verbatim>\<open>web/frps/src/utils/chart.js\<close>. A chart is drawn by
  a sequence of calls on an object of the echarts library, which is the log the functions return,
  with the exception that ended the drawing early, if any; \<open>echarts.init\<close> throws when the page has no
  element with the identifier, which is a parameter. The option objects are values of the language.
  \<open>Humanize.fileSize\<close>, from a library, is a parameter of the formatters.
\<close>

section \<open>Calls on the chart object\<close>

datatype chart_call =
    ChartInit string string jsval
  | ShowLoading
  | SetOption jsval
  | HideLoading

type_synonym drawing = "chart_call list \<times> js_error option"

text \<open>The style of the pie charts and their common series, without the data.\<close>

definition pieStyle :: jsval where
  "pieStyle = JObj [(''emphasis'', JObj [(''shadowBlur'', JNum 10), (''shadowOffsetX'', JNum 0),
     (''shadowColor'', JStr ''rgba(0, 0, 0, 0.5)'')])]"

definition pieSeries :: "jsval list \<Rightarrow> jsval" where
  "pieSeries data = JObj [(''type'', JStr ''pie''), (''radius'', JStr ''55%''),
     (''center'', JArr [JStr ''50%'', JStr ''60%'']), (''data'', JArr data), (''itemStyle'', pieStyle)]"

definition pieOption :: "string \<Rightarrow> string \<Rightarrow> string \<Rightarrow> jsval list \<Rightarrow> jsval" where
  "pieOption text subtext formatter data =
     JObj [(''title'', JObj [(''text'', JStr text), (''subtext'', JStr subtext), (''x'', JStr ''center'')]),
           (''tooltip'', JObj [(''trigger'', JStr ''item''), (''formatter'', JFun formatter)]),
           (''series'', JArr [pieSeries data])]"

definition pieSlice :: "jsval \<Rightarrow> string \<Rightarrow> jsval" where
  "pieSlice v label = JObj [(''value'', v), (''name'', JStr label)]"

section \<open>Network traffic of the day\<close>

definition trafficTooltip :: "(jsval \<Rightarrow> string) \<Rightarrow> jsval \<Rightarrow> (js_error, jsval) result" where
  "trafficTooltip fileSize v =
     (case jsGet v ''data'' of Inl e \<Rightarrow> Inl e
      | Inr d \<Rightarrow> (case jsGet d ''value'' of Inl e \<Rightarrow> Inl e
        | Inr b \<Rightarrow> Inr (JStr (fileSize b @ '' ('' @ toStr (jsField v ''percent'') @ ''%)''))))"

definition DrawTrafficChart :: "(string \<Rightarrow> bool) \<Rightarrow> string \<Rightarrow> jsval \<Rightarrow> jsval \<Rightarrow> drawing" where
  "DrawTrafficChart element elementId trafficIn trafficOut =
     (if \<not> element elementId then ([], Some TypeError)
      else ([ChartInit elementId ''macarons'' JUndef, ShowLoading,
             SetOption (pieOption ''Network Traffic'' ''today'' ''trafficTooltip''
               [pieSlice trafficIn ''Traffic In'', pieSlice trafficOut ''Traffic Out'']),
             HideLoading], None))"

section \<open>Number of proxies by type\<close>

definition proxyTooltip :: "jsval \<Rightarrow> (js_error, jsval) result" where
  "proxyTooltip v = (case jsGet v ''data'' of Inl e \<Rightarrow> Inl e | Inr d \<Rightarrow> jsGet d ''value'')"

text \<open>One \<open>if\<close> of the drawing: a slice for a type whose count is neither \<open>null\<close> nor zero.\<close>

definition countSlice :: "jsval \<Rightarrow> string \<times> string \<Rightarrow> jsval list" where
  "countSlice tc kl =
     (let c = jsField tc (fst kl) in if \<not> nullish c \<and> \<not> eqZero c then [pieSlice c (snd kl)] else [])"

definition chartTypes :: "(string \<times> string) list" where
  "chartTypes = [(''tcp'', ''TCP''), (''udp'', ''UDP''), (''http'', ''HTTP''), (''https'', ''HTTPS''),
     (''stcp'', ''STCP''), (''sudp'', ''SUDP''), (''xtcp'', ''XTCP'')]"

definition DrawProxyChart :: "(string \<Rightarrow> bool) \<Rightarrow> string \<Rightarrow> jsval \<Rightarrow> drawing" where
  "DrawProxyChart element elementId serverInfo =
     (if \<not> element elementId then ([], Some TypeError)
      else let started = [ChartInit elementId ''macarons'' JUndef, ShowLoading] in
        case jsGet serverInfo ''proxy_type_count'' of
          Inl e \<Rightarrow> (started, Some e)
        | Inr tc \<Rightarrow>
            if nullish tc then (started, Some TypeError)
            else (started @ [SetOption (pieOption ''Proxies'' ''now'' ''proxyTooltip''
                     (concat (map (countSlice tc) chartTypes))), HideLoading], None))"

section \<open>Traffic of one proxy over seven days\<close>

definition jsReverse :: "jsval \<Rightarrow> (js_error, jsval) result" where
  "jsReverse v = (case v of JArr xs \<Rightarrow> Inr (JArr (rev xs)) | _ \<Rightarrow> Inl TypeError)"

definition dateLabel :: "int \<Rightarrow> jsval" where
  "dateLabel n = JStr (showInt (getFullYear n) @ ''-'' @ showInt (getMonth n + 1) @ ''-'' @ showInt (getDate n))"

fun pushDates :: "nat \<Rightarrow> int \<Rightarrow> jsval list \<Rightarrow> jsval list" where
  "pushDates 0 now dates = dates"
| "pushDates (Suc i) now dates =
     pushDates i (newDate (getFullYear now) (getMonth now) (getDate now + 1)) (dates @ [dateLabel now])"

definition weekDates :: "int \<Rightarrow> jsval list" where
  "weekDates today = pushDates 7 (newDate (getFullYear today) (getMonth today) (getDate today - 6)) []"

definition axisLabel :: "(jsval \<Rightarrow> string) \<Rightarrow> jsval \<Rightarrow> jsval" where
  "axisLabel fileSize v = JStr (fileSize v)"

definition barLine :: "(jsval \<Rightarrow> string) \<Rightarrow> jsval \<Rightarrow> string" where
  "barLine fileSize v =
     ''<span style=\"display:inline-block;margin-right:5px;border-radius:10px;width:9px;height:9px;background-color:'' @
     toStr (jsField v ''color'') @ ''\"></span>'' @
     toStr (jsField v ''seriesName'') @ '': '' @ fileSize (jsField v ''value'') @ ''<br/>''"

definition barTooltip :: "(jsval \<Rightarrow> string) \<Rightarrow> jsval list \<Rightarrow> (js_error, jsval) result" where
  "barTooltip fileSize data =
     (if list_ex nullish data then Inl TypeError
      else Inr (JStr ((case data of [] \<Rightarrow> [] | d # _ \<Rightarrow> toStr (jsField d ''name'') @ ''<br/>'') @
        concat (map (barLine fileSize) data))))"

definition barSeries :: "string \<Rightarrow> jsval \<Rightarrow> jsval" where
  "barSeries name data = JObj [(''name'', JStr name), (''type'', JStr ''bar''), (''data'', data)]"

definition barOption :: "jsval list \<Rightarrow> jsval \<Rightarrow> jsval \<Rightarrow> jsval" where
  "barOption dates trafficInArr trafficOutArr =
     JObj [(''tooltip'', JObj [(''trigger'', JStr ''axis''), (''axisPointer'', JObj [(''type'', JStr ''shadow'')]),
              (''formatter'', JFun ''barTooltip'')]),
           (''legend'', JObj [(''data'', JArr [JStr ''Traffic In'', JStr ''Traffic Out''])]),
           (''grid'', JObj [(''left'', JStr ''3%''), (''right'', JStr ''4%''), (''bottom'', JStr ''3%''),
              (''containLabel'', JBool True)]),
           (''xAxis'', JArr [JObj [(''type'', JStr ''category''), (''data'', JArr dates)]]),
           (''yAxis'', JArr [JObj [(''type'', JStr ''value''),
              (''axisLabel'', JObj [(''formatter'', JFun ''axisLabel'')])]]),
           (''series'', JArr [barSeries ''Traffic In'' trafficInArr, barSeries ''Traffic Out'' trafficOutArr])]"

definition chartParams :: jsval where
  "chartParams = JObj [(''width'', JStr ''600px''), (''height'', JStr ''400px'')]"

definition DrawProxyTrafficChart :: "(string \<Rightarrow> bool) \<Rightarrow> int \<Rightarrow> string \<Rightarrow> jsval \<Rightarrow> jsval \<Rightarrow> drawing" where
  "DrawProxyTrafficChart element today elementId trafficInArr trafficOutArr =
     (if \<not> element elementId then ([], Some TypeError)
      else let started = [ChartInit elementId ''macarons'' chartParams, ShowLoading] in
        case jsReverse trafficInArr of Inl e \<Rightarrow> (started, Some e)
        | Inr ins \<Rightarrow> (case jsReverse trafficOutArr of Inl e \<Rightarrow> (started, Some e)
          | Inr outs \<Rightarrow> (started @ [SetOption (barOption (weekDates today) ins outs), HideLoading], None)))"

lemmas chart_defs [go_defs] =
  trafficTooltip_def DrawTrafficChart_def proxyTooltip_def countSlice_def DrawProxyChart_def
  jsReverse_def weekDates_def DrawProxyTrafficChart_def jsGet_def

section \<open>What is on the screen\<close>

text \<open>The option last set, whether the loading animation is over, and parts of an option.\<close>

definition shownOption :: "drawing \<Rightarrow> jsval option" where
  "shownOption d = foldl (\<lambda>o' c. case c of SetOption v \<Rightarrow> Some v | _ \<Rightarrow> o') None (fst d)"

definition stillLoading :: "drawing \<Rightarrow> bool" where
  "stillLoading d = foldl (\<lambda>l c. case c of ShowLoading \<Rightarrow> True | HideLoading \<Rightarrow> False | _ \<Rightarrow> l) False (fst d)"

definition pieData :: "jsval \<Rightarrow> jsval list" where
  "pieData opt = (case jsField opt ''series'' of JArr (s # _) \<Rightarrow>
     (case jsField s ''data'' of JArr ds \<Rightarrow> ds | _ \<Rightarrow> []) | _ \<Rightarrow> [])"

definition barsUnder :: "jsval \<Rightarrow> nat \<Rightarrow> (jsval \<times> jsval \<times> jsval) option" where
  "barsUnder opt k = (case (jsField opt ''xAxis'', jsField opt ''series'') of
     (JArr [x], JArr [i, u]) \<Rightarrow>
       (case (jsField x ''data'', jsField i ''data'', jsField u ''data'') of
          (JArr ls, JArr ins, JArr outs) \<Rightarrow>
            if k < length ls \<and> k < length ins \<and> k < length outs then Some (ls ! k, ins ! k, outs ! k) else None
        | _ \<Rightarrow> None)
   | _ \<Rightarrow> None)"

lemma pieData_pieOption [simp]: "pieData (pieOption t s f ds) = ds"
  by (simp add: pieData_def pieOption_def pieSeries_def)

lemma pushDates_days: "pushDates i n dates = dates @ map (\<lambda>k. dateLabel (n + int k)) [0..<i]"
proof (induction i arbitrary: n dates)
  case (Suc i)
  have "map (\<lambda>k. dateLabel (n + int k)) [0..<Suc i] =
      dateLabel n # map (\<lambda>k. dateLabel (n + 1 + int k)) [0..<i]"
    by (simp add: map_upt_Suc add.assoc del: upt_Suc)
  then show ?case using Suc.IH [of "n + 1"] by (simp add: newDate_get del: upt_Suc)
qed simp

lemma weekDates_days: "weekDates today = map (\<lambda>k. dateLabel (today - 6 + int k)) [0..<7]"
  using newDate_get [of today "- 6"] by (simp add: weekDates_def pushDates_days)

lemma barsUnder_barOption:
  "k < length ls \<Longrightarrow> k < length ins \<Longrightarrow> k < length outs \<Longrightarrow>
     barsUnder (barOption ls (JArr ins) (JArr outs)) k = Some (ls ! k, ins ! k, outs ! k)"
  by (simp add: barsUnder_def barOption_def barSeries_def)

text \<open>Different days have different labels.\<close>

lemma append_cons_split:
  "c \<notin> set xs \<Longrightarrow> c \<notin> set ys \<Longrightarrow> xs @ c # a = ys @ c # b \<longleftrightarrow> xs = ys \<and> a = b"
proof (induction xs arbitrary: ys)
  case Nil
  then show ?case by (cases ys) auto
next
  case (Cons x xs)
  then show ?case by (cases ys) auto
qed

lemma showInt_no_minus: "0 \<le> i \<Longrightarrow> CHR ''-'' \<notin> set (showInt i)"
  by (simp add: showInt_def showNat_no_minus)

lemma yearFrom_ge: "y \<le> yearFrom n y"
proof (induction n y rule: yearFrom.induct)
  case (1 n y)
  then show ?case by (cases "dayFromYear (y + 1) \<le> n") (simp_all add: yearFrom.simps [of n y])
qed

lemma getFullYear_ge: "0 \<le> n \<Longrightarrow> 0 \<le> getFullYear n"
  using yearFrom_ge [of "1968 + min (n div 365) (n div 366)" n]
    pos_imp_zdiv_nonneg_iff [of 365 n] pos_imp_zdiv_nonneg_iff [of 366 n]
  by (simp add: getFullYear_def min_def split: if_splits)

lemma dateLabel_inj: "0 \<le> m \<Longrightarrow> 0 \<le> n \<Longrightarrow> dateLabel m = dateLabel n \<longleftrightarrow> m = n"
  using civil_inj [of m n] getFullYear_ge [of m] getFullYear_ge [of n] getMonth_bounds [of m] getMonth_bounds [of n]
  by (auto simp: dateLabel_def append_cons_split showInt_no_minus)

text \<open>The bars of the chart when both directions have seven counts.\<close>

lemma chart_bars:
  assumes "element elementId" and "length ins = 7" and "length outs = 7" and "k < 7"
  shows "\<exists>opt. snd (DrawProxyTrafficChart element today elementId (JArr ins) (JArr outs)) = None \<and>
    shownOption (DrawProxyTrafficChart element today elementId (JArr ins) (JArr outs)) = Some opt \<and>
    barsUnder opt k = Some (dateLabel (today - int (6 - k)), ins ! (6 - k), outs ! (6 - k)) \<and>
    barsUnder opt 7 = None"
proof -
  let ?d = "weekDates today"
  have day: "?d ! k = dateLabel (today - int (6 - k))"
    using assms(4) by (simp add: weekDates_days of_nat_diff algebra_simps del: upt_Suc)
  have "shownOption (DrawProxyTrafficChart element today elementId (JArr ins) (JArr outs)) =
      Some (barOption ?d (JArr (rev ins)) (JArr (rev outs)))"
    using assms(1) by (simp add: DrawProxyTrafficChart_def jsReverse_def shownOption_def)
  moreover have "snd (DrawProxyTrafficChart element today elementId (JArr ins) (JArr outs)) = None"
    using assms(1) by (simp add: DrawProxyTrafficChart_def jsReverse_def)
  moreover have "length ?d = 7" by (simp add: weekDates_days)
  then have "barsUnder (barOption ?d (JArr (rev ins)) (JArr (rev outs))) k =
      Some (dateLabel (today - int (6 - k)), ins ! (6 - k), outs ! (6 - k))"
    using assms(2-4) day by (subst barsUnder_barOption) (auto simp: rev_nth)
  moreover have "barsUnder (barOption ?d (JArr (rev ins)) (JArr (rev outs))) 7 = None"
    using assms(2) \<open>length ?d = 7\<close> by (simp add: barsUnder_def barOption_def barSeries_def)
  ultimately show ?thesis by auto
qed

section \<open>Properties\<close>

text \<open>
  The pie chart of the proxies shows exactly the known types whose count is not zero, each with the
  count the server sent, in the order of the code; and it leaves the loading state whenever it set its
  data. Without a type count object it ends in an exception and stays in the loading state.
\<close>
lemma proxy_chart_slices:
  assumes "element elementId" and "jsField info ''proxy_type_count'' = tc" and "\<not> nullish info"
  shows "if nullish tc
    then shownOption (DrawProxyChart element elementId info) = None \<and>
      stillLoading (DrawProxyChart element elementId info) \<and>
      snd (DrawProxyChart element elementId info) = Some TypeError
    else map_option pieData (shownOption (DrawProxyChart element elementId info)) =
        Some [pieSlice (jsField tc k) l. (k, l) \<leftarrow> chartTypes,
               \<not> nullish (jsField tc k) \<and> \<not> eqZero (jsField tc k)] \<and>
      \<not> stillLoading (DrawProxyChart element elementId info) \<and>
      snd (DrawProxyChart element elementId info) = None"
proof -
  have "concat (map (countSlice tc) ts) = [pieSlice (jsField tc k) l. (k, l) \<leftarrow> ts,
      \<not> nullish (jsField tc k) \<and> \<not> eqZero (jsField tc k)]" for ts
    by (induction ts) (auto simp: countSlice_def Let_def)
  then show ?thesis
    using assms by (simp add: DrawProxyChart_def jsGet_def shownOption_def stillLoading_def)
qed

text \<open>
  Given the seven counts of each direction, newest first, as the traffic interface returns them,
  the bars drawn under position k of the axis are the counts of the day k - 6 days from today, and the
  label there is the date of that day: today is last, and the seven labels are seven consecutive days.
\<close>
lemma traffic_chart_days:
  assumes "element elementId" and "length ins = 7" and "length outs = 7" and "k < 7"
  shows "\<exists>opt. shownOption (DrawProxyTrafficChart element today elementId (JArr ins) (JArr outs)) = Some opt \<and>
    barsUnder opt k = Some (dateLabel (today - int (6 - k)), ins ! (6 - k), outs ! (6 - k)) \<and>
    barsUnder opt 7 = None"
  using chart_bars [of element elementId ins outs k today] assms by blast

end
