(* ===== verification/DashViews.thy ===== *)
theory DashViews
  imports VueViews DashChart
begin

text \<open>
  The pages of the frps dashboard, \<^verbatim>\<open>web/frps/src\<close>: the application
  (\<^verbatim>\<open>main.js\<close>, \<^verbatim>\<open>App.vue\<close>, \<^verbatim>\<open>router/index.js\<close>), the overview, the six lists of
  proxies and the traffic chart of a proxy. The rows are those of DashProxy, turned into objects to be
  shown; the drawings are those of DashChart.
\<close>

section \<open>The application\<close>

definition frpsComponents :: "string list" where
  "frpsComponents = [''Button'', ''Form'', ''FormItem'', ''Row'', ''Col'', ''Table'', ''TableColumn'',
     ''Popover'', ''Menu'', ''Submenu'', ''MenuItem'', ''Tag'']"

text \<open>The entry file puts nothing on the prototype of the components.\<close>

definition frpsPrototype :: "string list" where
  "frpsPrototype = []"

definition frpsMenu :: "(string \<times> string) list" where
  "frpsMenu = [(''/'', ''Overview''), (''/proxies/tcp'', ''TCP''), (''/proxies/udp'', ''UDP''),
     (''/proxies/http'', ''HTTP''), (''/proxies/https'', ''HTTPS''), (''/proxies/stcp'', ''STCP''),
     (''/proxies/sudp'', ''SUDP''), ([], ''Help'')]"

definition handleSelect :: "string \<Rightarrow> string option" where
  "handleSelect key = (if key = [] then Some ''https://github.com/fatedier/frp'' else None)"

datatype frps_page = Overview | ProxiesTcp | ProxiesUdp | ProxiesHttp | ProxiesHttps | ProxiesStcp | ProxiesSudp

definition frpsRoutes :: "(string \<times> frps_page) list" where
  "frpsRoutes = [(''/'', Overview), (''/proxies/tcp'', ProxiesTcp), (''/proxies/udp'', ProxiesUdp),
     (''/proxies/http'', ProxiesHttp), (''/proxies/https'', ProxiesHttps), (''/proxies/stcp'', ProxiesStcp),
     (''/proxies/sudp'', ProxiesSudp)]"

section \<open>The overview\<close>

record overview =
  version :: jsval
  bind_port :: jsval
  bind_udp_port :: jsval
  vhost_http_port :: jsval
  vhost_https_port :: jsval
  subdomain_host :: jsval
  max_pool_count :: jsval
  max_ports_per_client :: jsval
  heart_beat_timeout :: jsval
  client_counts :: jsval
  cur_conns :: jsval
  proxy_counts :: jsval
  ov_requests :: "string list"
  drawings :: "drawing list"
  ov_messages :: "message list"
  ov_unhandled :: nat

definition overviewData :: overview where
  "overviewData = \<lparr> version = JStr [], bind_port = JStr [], bind_udp_port = JStr [], vhost_http_port = JStr [],
     vhost_https_port = JStr [], subdomain_host = JStr [], max_pool_count = JStr [],
     max_ports_per_client = JStr [], heart_beat_timeout = JStr [], client_counts = JStr [],
     cur_conns = JStr [], proxy_counts = JStr [], ov_requests = [], drawings = [], ov_messages = [],
     ov_unhandled = 0 \<rparr>"

definition overviewForm :: "overview \<Rightarrow> (string \<times> jsval) list" where
  "overviewForm v = [(''Version'', version v), (''BindPort'', bind_port v), (''BindUdpPort'', bind_udp_port v),
     (''Http Port'', vhost_http_port v), (''Https Port'', vhost_https_port v),
     (''Subdomain Host'', subdomain_host v), (''Max PoolCount'', max_pool_count v),
     (''Max Ports Per Client'', max_ports_per_client v), (''HeartBeat Timeout'', heart_beat_timeout v),
     (''Client Counts'', client_counts v), (''Current Connections'', cur_conns v),
     (''Proxy Counts'', proxy_counts v)]"

definition overviewFetch :: "overview \<Rightarrow> overview" where
  "overviewFetch v = v\<lparr> ov_requests := ov_requests v @ [''../api/serverinfo''] \<rparr>"

definition orText :: "string \<Rightarrow> jsval \<Rightarrow> jsval" where
  "orText text v = (if eqZero v then JStr text else v)"

text \<open>The sum of the counts: \<open>+=\<close> for each known type whose count is not \<open>null\<close>.\<close>

definition countTypes :: "string list" where
  "countTypes = [''tcp'', ''udp'', ''http'', ''https'', ''stcp'', ''sudp'', ''xtcp'']"

definition sumCounts :: "jsval \<Rightarrow> jsval" where
  "sumCounts tc = (if nullish tc then JNum 0 else
     foldl (\<lambda>acc t. if nullish (jsField tc t) then acc else jsAdd acc (jsField tc t)) (JNum 0) countTypes)"

definition overviewShow :: "jsval \<Rightarrow> overview \<Rightarrow> overview" where
  "overviewShow json v = v\<lparr>
     version := jsField json ''version'',
     bind_port := jsField json ''bind_port'',
     bind_udp_port := orText ''disable'' (jsField json ''bind_udp_port''),
     vhost_http_port := orText ''disable'' (jsField json ''vhost_http_port''),
     vhost_https_port := orText ''disable'' (jsField json ''vhost_https_port''),
     subdomain_host := jsField json ''subdomain_host'',
     max_pool_count := jsField json ''max_pool_count'',
     max_ports_per_client := orText ''no limit'' (jsField json ''max_ports_per_client''),
     heart_beat_timeout := jsField json ''heart_beat_timeout'',
     client_counts := jsField json ''client_counts'',
     cur_conns := jsField json ''cur_conns'',
     proxy_counts := sumCounts (jsField json ''proxy_type_count'') \<rparr>"

text \<open>The handler of a failure, which calls a method that the application has to provide.\<close>

definition overviewFailed :: "overview \<Rightarrow> overview" where
  "overviewFailed v =
     (case callMessage frpsPrototype \<lparr> showClose = True, messageText = ''Get server info from frps failed!'',
        messageType = ''warning'' \<rparr> (ov_messages v) of
        Inl e \<Rightarrow> v\<lparr> ov_unhandled := ov_unhandled v + 1 \<rparr>
      | Inr ms \<Rightarrow> v\<lparr> ov_messages := ms \<rparr>)"

definition overviewReply :: "(string \<Rightarrow> bool) \<Rightarrow> reply \<Rightarrow> overview \<Rightarrow> overview" where
  "overviewReply element r v =
     (case r of
        Rejected e \<Rightarrow> overviewFailed v
      | Json json \<Rightarrow>
          if nullish json then overviewFailed v
          else let v1 = overviewShow json v;
                   d1 = DrawTrafficChart element ''traffic'' (jsField json ''total_traffic_in'')
                          (jsField json ''total_traffic_out'');
                   v2 = v1\<lparr> drawings := drawings v1 @ [d1] \<rparr> in
            if snd d1 \<noteq> None then overviewFailed v2
            else let d2 = DrawProxyChart element ''proxies'' json;
                     v3 = v2\<lparr> drawings := drawings v2 @ [d2] \<rparr> in
              if snd d2 \<noteq> None then overviewFailed v3 else v3)"

section \<open>The traffic chart of a proxy\<close>

record traffic_view =
  proxy_name :: jsval
  tr_requests :: "string list"
  tr_drawings :: "drawing list"
  tr_messages :: "message list"
  tr_unhandled :: nat

definition trafficFetch :: "traffic_view \<Rightarrow> traffic_view" where
  "trafficFetch v = v\<lparr> tr_requests := tr_requests v @ [''../api/traffic/'' @ toStr (proxy_name v)] \<rparr>"

definition trafficFailed :: "string \<Rightarrow> traffic_view \<Rightarrow> traffic_view" where
  "trafficFailed err v =
     (case callMessage frpsPrototype \<lparr> showClose = True,
        messageText = ''Get server info from frps failed!'' @ err, messageType = ''warning'' \<rparr> (tr_messages v) of
        Inl e \<Rightarrow> v\<lparr> tr_unhandled := tr_unhandled v + 1 \<rparr>
      | Inr ms \<Rightarrow> v\<lparr> tr_messages := ms \<rparr>)"

definition trafficReply :: "(string \<Rightarrow> bool) \<Rightarrow> int \<Rightarrow> reply \<Rightarrow> traffic_view \<Rightarrow> traffic_view" where
  "trafficReply element today r v =
     (case r of
        Rejected e \<Rightarrow> trafficFailed e v
      | Json json \<Rightarrow>
          if nullish json then trafficFailed ''TypeError'' v
          else let d = DrawProxyTrafficChart element today (toStr (proxy_name v))
                         (jsField json ''traffic_in'') (jsField json ''traffic_out'');
                   v' = v\<lparr> tr_drawings := tr_drawings v @ [d] \<rparr> in
            if snd d \<noteq> None then trafficFailed ''TypeError'' v' else v')"

lemmas page_defs [go_defs] =
  overviewData_def overviewForm_def overviewFetch_def orText_def overviewShow_def overviewFailed_def
  overviewReply_def trafficFetch_def trafficFailed_def trafficReply_def

section \<open>Rows as objects\<close>

definition baseFields :: "'a base_proxy_scheme \<Rightarrow> (string \<times> jsval) list" where
  "baseFields b = [(''name'', pname b), (''encryption'', encryption b), (''compression'', compression b),
     (''conns'', conns b), (''traffic_in'', traffic_in b), (''traffic_out'', traffic_out b),
     (''last_start_time'', last_start_time b), (''last_close_time'', last_close_time b), (''status'', pstatus b)]"

definition portRow :: "port_proxy \<Rightarrow> jsval" where
  "portRow b = JObj (baseFields b @ [(''type'', JStr (ptype b)), (''addr'', addr b), (''port'', port b)])"

definition httpRow :: "http_proxy \<Rightarrow> jsval" where
  "httpRow b = JObj (baseFields b @ [(''type'', JStr (htype b)), (''port'', hport b),
     (''custom_domains'', custom_domains b), (''host_header_rewrite'', host_header_rewrite b),
     (''locations'', locations b), (''subdomain'', subdomain b)])"

definition httpsRow :: "https_proxy \<Rightarrow> jsval" where
  "httpsRow b = JObj (baseFields b @ [(''type'', JStr (stype b)), (''port'', sport b),
     (''custom_domains'', scustom_domains b), (''subdomain'', ssubdomain b)])"

definition streamRow :: "stream_proxy \<Rightarrow> jsval" where
  "streamRow b = JObj (baseFields b @ [(''type'', JStr (xtype b))])"

section \<open>The lists of proxies\<close>

text \<open>The columns of the tables, and the form shown when a row is expanded.\<close>

definition plainColumn :: "string \<Rightarrow> string \<Rightarrow> column" where
  "plainColumn label prp = \<lparr> c_label = label, c_prop = prp, c_formatter = None, c_sortable = True \<rparr>"

definition trafficColumns :: "column list" where
  "trafficColumns =
     [\<lparr> c_label = ''Traffic In'', c_prop = ''traffic_in'', c_formatter = Some ''formatTrafficIn'', c_sortable = True \<rparr>,
      \<lparr> c_label = ''Traffic Out'', c_prop = ''traffic_out'', c_formatter = Some ''formatTrafficOut'', c_sortable = True \<rparr>]"

definition portColumns :: "column list" where
  "portColumns = [plainColumn ''Name'' ''name'', plainColumn ''Port'' ''port'', plainColumn ''Connections'' ''conns'']
     @ trafficColumns @ [plainColumn ''status'' ''status'']"

definition streamColumns :: "column list" where
  "streamColumns = [plainColumn ''Name'' ''name'', plainColumn ''Connections'' ''conns'']
     @ trafficColumns @ [plainColumn ''status'' ''status'']"

definition tcpColumns :: "column list" where "tcpColumns = portColumns"
definition udpColumns :: "column list" where "udpColumns = portColumns"
definition httpColumns :: "column list" where "httpColumns = portColumns"
definition httpsColumns :: "column list" where "httpsColumns = portColumns"
definition stcpColumns :: "column list" where "stcpColumns = streamColumns"
definition sudpColumns :: "column list" where "sudpColumns = streamColumns"

definition lastItems :: "(string \<times> string) list" where
  "lastItems = [(''Encryption'', ''encryption''), (''Compression'', ''compression''),
     (''Last Start'', ''last_start_time''), (''Last Close'', ''last_close_time'')]"

definition tcpForm :: "(string \<times> string) list" where
  "tcpForm = [(''Name'', ''name''), (''Type'', ''type''), (''Addr'', ''addr'')] @ lastItems"

definition udpForm :: "(string \<times> string) list" where
  "udpForm = [(''Name'', ''name''), (''Type'', ''type''), (''Addr'', ''addr'')] @ lastItems"

definition httpForm :: "(string \<times> string) list" where
  "httpForm = [(''Name'', ''name''), (''Type'', ''type''), (''Domains'', ''custom_domains''),
     (''SubDomain'', ''subdomain''), (''locations'', ''locations''), (''HostRewrite'', ''host_header_rewrite'')] @ lastItems"

definition httpsForm :: "(string \<times> string) list" where
  "httpsForm = [(''Name'', ''name''), (''Type'', ''type''), (''Domains'', ''custom_domains''),
     (''SubDomain'', ''subdomain'')] @ lastItems"

definition stcpForm :: "(string \<times> string) list" where
  "stcpForm = [(''Name'', ''name''), (''Type'', ''type'')] @ lastItems"

definition sudpForm :: "(string \<times> string) list" where
  "sudpForm = [(''Name'', ''name''), (''Type'', ''type'')] @ lastItems"

text \<open>The requests of the pages and what they do with the replies.\<close>

definition tcpFetch :: "port_proxy table_view \<Rightarrow> port_proxy table_view" where
  "tcpFetch = tableFetch ''../api/proxy/tcp''"
definition tcpReply :: "reply \<Rightarrow> port_proxy table_view \<Rightarrow> port_proxy table_view" where
  "tcpReply = tableReply TcpProxy"
definition udpFetch :: "port_proxy table_view \<Rightarrow> port_proxy table_view" where
  "udpFetch = tableFetch ''../api/proxy/udp''"
definition udpReply :: "reply \<Rightarrow> port_proxy table_view \<Rightarrow> port_proxy table_view" where
  "udpReply = tableReply UdpProxy"
definition stcpFetch :: "stream_proxy table_view \<Rightarrow> stream_proxy table_view" where
  "stcpFetch = tableFetch ''../api/proxy/stcp''"
definition stcpReply :: "reply \<Rightarrow> stream_proxy table_view \<Rightarrow> stream_proxy table_view" where
  "stcpReply = tableReply StcpProxy"
definition sudpFetch :: "stream_proxy table_view \<Rightarrow> stream_proxy table_view" where
  "sudpFetch = tableFetch ''../api/proxy/sudp''"
definition sudpReply :: "reply \<Rightarrow> stream_proxy table_view \<Rightarrow> stream_proxy table_view" where
  "sudpReply = tableReply SudpProxy"

definition httpFetch :: "http_proxy vhost_view \<Rightarrow> http_proxy vhost_view" where
  "httpFetch = vhostFetch"
definition httpInfo :: "reply \<Rightarrow> http_proxy vhost_view \<Rightarrow> http_proxy vhost_view" where
  "httpInfo = vhostInfo ''vhost_http_port'' ''../api/proxy/http''"
definition httpList :: "reply \<Rightarrow> http_proxy vhost_view \<Rightarrow> http_proxy vhost_view" where
  "httpList = vhostList HttpProxy"
definition httpsFetch :: "https_proxy vhost_view \<Rightarrow> https_proxy vhost_view" where
  "httpsFetch = vhostFetch"
definition httpsInfo :: "reply \<Rightarrow> https_proxy vhost_view \<Rightarrow> https_proxy vhost_view" where
  "httpsInfo = vhostInfo ''vhost_https_port'' ''../api/proxy/https''"
definition httpsList :: "reply \<Rightarrow> https_proxy vhost_view \<Rightarrow> https_proxy vhost_view" where
  "httpsList = vhostList HttpsProxy"

text \<open>The first request of a page, and the type of the rows of a list.\<close>

definition pageRequest :: "frps_page \<Rightarrow> string" where
  "pageRequest p = last (case p of
       Overview \<Rightarrow> ov_requests (overviewFetch overviewData)
     | ProxiesTcp \<Rightarrow> requests (tcpFetch tableData)
     | ProxiesUdp \<Rightarrow> requests (udpFetch tableData)
     | ProxiesHttp \<Rightarrow> vrequests (httpFetch vhostData)
     | ProxiesHttps \<Rightarrow> vrequests (httpsFetch vhostData)
     | ProxiesStcp \<Rightarrow> requests (stcpFetch tableData)
     | ProxiesSudp \<Rightarrow> requests (sudpFetch tableData))"

lemmas column_defs =
  plainColumn_def trafficColumns_def portColumns_def streamColumns_def tcpColumns_def udpColumns_def
  httpColumns_def httpsColumns_def stcpColumns_def sudpColumns_def
lemmas form_defs =
  lastItems_def tcpForm_def udpForm_def httpForm_def httpsForm_def stcpForm_def sudpForm_def
lemmas row_defs = baseFields_def portRow_def httpRow_def httpsRow_def streamRow_def

section \<open>Lemmas\<close>

text \<open>A count as the server sends it, and what the slices of a pie add up to.\<close>

definition countOf :: "jsval \<Rightarrow> int" where
  "countOf v = (case v of JNum n \<Rightarrow> n | _ \<Rightarrow> 0)"

definition countOrAbsent :: "jsval \<Rightarrow> bool" where
  "countOrAbsent v \<longleftrightarrow> (case v of JNum n \<Rightarrow> True | JUndef \<Rightarrow> True | _ \<Rightarrow> False)"

definition sliceSum :: "jsval list \<Rightarrow> int" where
  "sliceSum ds = sum_list (map (\<lambda>d. countOf (jsField d ''value'')) ds)"

lemma countOrAbsentE:
  assumes "countOrAbsent v" obtains "v = JUndef" | n where "v = JNum n"
  using assms by (cases v) (auto simp: countOrAbsent_def)

lemma sum_fold:
  assumes "list_all (\<lambda>t. countOrAbsent (jsField tc t)) ts"
  shows "foldl (\<lambda>acc t. if nullish (jsField tc t) then acc else jsAdd acc (jsField tc t)) (JNum n) ts =
    JNum (n + sum_list (map (\<lambda>t. countOf (jsField tc t)) ts))"
  using assms
proof (induction ts arbitrary: n)
  case (Cons t ts)
  then have "countOrAbsent (jsField tc t)" by simp
  then show ?case using Cons by (cases rule: countOrAbsentE) (auto simp: countOf_def add.assoc)
qed simp

lemma sumCounts_sum:
  "\<not> nullish tc \<Longrightarrow> list_all (\<lambda>t. countOrAbsent (jsField tc t)) countTypes \<Longrightarrow>
     sumCounts tc = JNum (sum_list (map (\<lambda>t. countOf (jsField tc t)) countTypes))"
  using sum_fold [of tc countTypes 0] by (simp add: sumCounts_def)

lemma sliceSum_slices:
  "list_all (\<lambda>kl. countOrAbsent (jsField tc (fst kl))) ts \<Longrightarrow>
     sliceSum (concat (map (countSlice tc) ts)) = sum_list (map (\<lambda>kl. countOf (jsField tc (fst kl))) ts)"
proof (induction ts)
  case (Cons kl ts)
  then have "countOrAbsent (jsField tc (fst kl))" by simp
  then show ?case using Cons
    by (cases rule: countOrAbsentE) (auto simp: countSlice_def sliceSum_def pieSlice_def countOf_def Let_def)
qed (simp add: sliceSum_def)

lemma chart_and_sum_types: "map fst chartTypes = countTypes"
  by (simp add: chartTypes_def countTypes_def)

lemma overviewReply_ok:
  assumes "element ''traffic''" "element ''proxies''" "\<not> nullish info" "\<not> nullish (jsField info ''proxy_type_count'')"
  shows "overviewReply element (Json info) v =
    (overviewShow info v)\<lparr> drawings := drawings v @
      [DrawTrafficChart element ''traffic'' (jsField info ''total_traffic_in'') (jsField info ''total_traffic_out''),
       DrawProxyChart element ''proxies'' info] \<rparr>"
  using assms by (simp add: overviewReply_def DrawTrafficChart_def DrawProxyChart_def jsGet_def overviewShow_def Let_def)

lemma portRow_cells:
  assumes "\<not> nullish st" and "\<not> nullish (jsField st ''conf'')"
  shows "tableCells fs tcpColumns (portRow (projr (TcpProxy st))) =
     [(''Name'', jsField st ''name''), (''Port'', jsField (jsField st ''conf'') ''remote_port''),
      (''Connections'', jsField st ''cur_conns''), (''Traffic In'', JStr (fs (jsField st ''today_traffic_in''))),
      (''Traffic Out'', JStr (fs (jsField st ''today_traffic_out''))), (''status'', jsField st ''status'')]"
  using assms
  by (simp add: dash_row_defs dash_record_defs Let_def tableCells_def column_defs row_defs cellOf_def
      formatTrafficIn_def formatTrafficOut_def)

text \<open>What the overview shows of the counts in a reply.\<close>

lemma overview_shows_counts:
  assumes "element ''traffic''" and "element ''proxies''"
    and "jsField info ''proxy_type_count'' = tc" and "\<not> nullish tc"
    and "list_all (\<lambda>t. countOrAbsent (jsField tc t)) countTypes"
  shows "proxy_counts (overviewReply element (Json info) v) =
      JNum (sum_list (map (\<lambda>t. countOf (jsField tc t)) countTypes)) \<and>
    map_option (sliceSum \<circ> pieData) (shownOption (last (drawings (overviewReply element (Json info) v)))) =
      Some (sum_list (map (\<lambda>t. countOf (jsField tc t)) countTypes)) \<and>
    ov_unhandled (overviewReply element (Json info) v) = ov_unhandled v"
proof -
  have info: "\<not> nullish info" using assms(3,4) by (cases info) auto
  have types: "list_all (\<lambda>kl. countOrAbsent (jsField tc (fst kl))) chartTypes"
    using assms(5) unfolding chart_and_sum_types [symmetric] by (simp add: list_all_iff)
  have "shownOption (DrawProxyChart element ''proxies'' info) =
      Some (pieOption ''Proxies'' ''now'' ''proxyTooltip'' (concat (map (countSlice tc) chartTypes)))"
    using assms(2-4) info by (simp add: DrawProxyChart_def jsGet_def shownOption_def)
  moreover have "sliceSum (concat (map (countSlice tc) chartTypes)) = sum_list (map (\<lambda>t. countOf (jsField tc t)) countTypes)"
    using sliceSum_slices [OF types] unfolding chart_and_sum_types [symmetric] by (simp add: comp_def)
  ultimately show ?thesis
    using overviewReply_ok [OF assms(1,2) info] sumCounts_sum [OF assms(4,5)] assms(3,4)
    by (simp add: overviewShow_def)
qed

text \<open>
  A failure of the server is never reported to the user of the dashboard: the handlers call a method
  that the entry file does not install, and throw.
\<close>

lemma frps_failures_unreported:
  "ov_messages (overviewReply element (Rejected e) v) = ov_messages v"
  "ov_unhandled (overviewReply element (Rejected e) v) = ov_unhandled v + 1"
  "tr_messages (trafficReply element today (Rejected e) w) = tr_messages w"
  "tr_unhandled (trafficReply element today (Rejected e) w) = tr_unhandled w + 1"
  by (simp_all add: overviewReply_def overviewFailed_def trafficReply_def trafficFailed_def
      callMessage_def frpsPrototype_def)

text \<open>The count of the proxies of type \<open>tcpmux\<close> is neither in the sum nor in the chart.\<close>

lemma tcpmux_not_counted:
  "sumCounts (JObj [(''tcpmux'', JNum 3)]) = JNum 0"
  "concat (map (countSlice (JObj [(''tcpmux'', JNum 3)])) chartTypes) = []"
  by (simp_all add: sumCounts_def countTypes_def chartTypes_def countSlice_def)

text \<open>The URL of the traffic request of a proxy is its name as it is, which may end the path early.\<close>

lemma traffic_url_unescaped:
  "tr_requests (trafficFetch \<lparr> proxy_name = JStr ''a#b'', tr_requests = [], tr_drawings = [], tr_messages = [],
     tr_unhandled = 0 \<rparr>) = [''../api/traffic/a#b'']"
  by (simp add: trafficFetch_def)

section \<open>Properties\<close>

text \<open>
  When the list of the TCP proxies arrives, the table shows one row for each entry, in order, with
  the entry's name, the remote port of its configuration, its connections, its traffic of the day in
  readable form and its status; nothing of the old rows is left and nothing fails.
\<close>
lemma tcp_page_shows_list:
  assumes "jsField json ''proxies'' = JArr sts"
    and "list_all (\<lambda>st. \<not> nullish st \<and> \<not> nullish (jsField st ''conf'')) sts"
  shows "map (tableCells fs tcpColumns \<circ> portRow) (proxies (tcpReply (Json json) v)) =
      map (\<lambda>st. [(''Name'', jsField st ''name''), (''Port'', jsField (jsField st ''conf'') ''remote_port''),
        (''Connections'', jsField st ''cur_conns''), (''Traffic In'', JStr (fs (jsField st ''today_traffic_in''))),
        (''Traffic Out'', JStr (fs (jsField st ''today_traffic_out''))), (''status'', jsField st ''status'')]) sts \<and>
    unhandled (tcpReply (Json json) v) = unhandled v"
proof -
  have "rowsOf TcpProxy json = (map (projr \<circ> TcpProxy) sts, None)"
    using assms by (intro rowsOf_ok) (auto simp: list_all_iff intro: constructors_ok)
  then show ?thesis
    using assms(2) by (auto simp: tcpReply_def tableReply_def list_all_iff portRow_cells)
qed

text \<open>
  C27: on the pages of virtual hosts, in whatever order the replies arrive, every row carries the port
  and the sub-domain host that the server announced, and no list is requested or shown while the server
  has no such port.
\<close>
theorem vhost_page_rows:
  assumes "vhost_reach HttpProxy ''vhost_http_port'' ''../api/proxy/http'' (serves ''vhost_http_port'' p h) v"
    and "vhost_reach HttpsProxy ''vhost_https_port'' ''../api/proxy/https'' (serves ''vhost_https_port'' q h) w"
  shows "list_all (\<lambda>r. hport r = p \<and> (\<exists>st. HttpProxy st p h = Inr r)) (vproxies v) \<and>
    list_all (\<lambda>r. sport r = q \<and> (\<exists>st. HttpsProxy st q h = Inr r)) (vproxies w) \<and>
    (eqZero p \<longrightarrow> vproxies v = [] \<and> ''../api/proxy/http'' \<notin> set (vrequests v)) \<and>
    (eqZero q \<longrightarrow> vproxies w = [] \<and> ''../api/proxy/https'' \<notin> set (vrequests w))"
proof -
  have v: "vhostInv HttpProxy ''../api/proxy/http'' p h v" by (rule vhost_reach_inv [OF assms(1)]) simp
  have w: "vhostInv HttpsProxy ''../api/proxy/https'' q h w" by (rule vhost_reach_inv [OF assms(2)]) simp
  have "HttpProxy st p h = Inr r \<Longrightarrow> hport r = p" for st r
    by (auto simp: HttpProxy_def http_proxy.defs base_proxy.defs Let_def split: sum.splits if_splits)
  moreover have "HttpsProxy st q h = Inr r \<Longrightarrow> sport r = q" for st r
    by (auto simp: HttpsProxy_def https_proxy.defs base_proxy.defs Let_def split: sum.splits if_splits)
  ultimately show ?thesis
    using v w by (fastforce simp: vhostInv_def list_all_iff)
qed

definition sampleInfo :: jsval where
  "sampleInfo = JObj [(''vhost_http_port'', JNum 80), (''vhost_https_port'', JNum 0), (''subdomain_host'', JStr ''frp.org'')]"

definition sampleHttpPage :: "http_proxy vhost_view" where
  "sampleHttpPage = httpList (Json (JObj [(''proxies'', JArr [JObj [(''name'', JStr ''web'')]])]))
     (httpInfo (Json sampleInfo) (httpFetch vhostData))"

definition sampleHttpsPage :: "https_proxy vhost_view" where
  "sampleHttpsPage = httpsInfo (Json sampleInfo) (httpsFetch vhostData)"

theorem vhost_page_rows_witness:
  "map hport (vproxies sampleHttpPage) = [JNum 80] \<and> vproxies sampleHttpsPage = [] \<and>
   ''../api/proxy/https'' \<notin> set (vrequests sampleHttpsPage)"
proof -
  have s: "serves ''vhost_http_port'' (JNum 80) (JStr ''frp.org'') sampleInfo"
      "serves ''vhost_https_port'' (JNum 0) (JStr ''frp.org'') sampleInfo"
    by (simp_all add: serves_def sampleInfo_def)
  have a: "vhost_reach HttpProxy ''vhost_http_port'' ''../api/proxy/http''
      (serves ''vhost_http_port'' (JNum 80) (JStr ''frp.org'')) sampleHttpPage"
    unfolding sampleHttpPage_def httpList_def httpInfo_def httpFetch_def
    using s(1) by (intro vhost_reach.step [OF _ vhost_step.list] vhost_reach.step [OF _ vhost_step.info]
        vhost_reach.step [OF _ vhost_step.fetch] vhost_reach.start)
      (auto simp: vhostInfo_def vhostFetch_def vhostData_def sampleInfo_def Let_def)
  have b: "vhost_reach HttpsProxy ''vhost_https_port'' ''../api/proxy/https''
      (serves ''vhost_https_port'' (JNum 0) (JStr ''frp.org'')) sampleHttpsPage"
    unfolding sampleHttpsPage_def httpsInfo_def httpsFetch_def
    using s(2) by (intro vhost_reach.step [OF _ vhost_step.info]
        vhost_reach.step [OF _ vhost_step.fetch] vhost_reach.start)
      (auto simp: vhostFetch_def vhostData_def)
  have "length (vproxies sampleHttpPage) = 1"
    by (simp add: sampleHttpPage_def httpList_def httpInfo_def httpFetch_def vhostFetch_def vhostInfo_def vhostData_def
        vhostList_def sampleInfo_def rowsOf_def jsGet_def dash_row_defs Let_def)
  then show ?thesis
    using vhost_page_rows [OF a b] by (cases "vproxies sampleHttpPage") auto
qed

text \<open>
  Every entry of the menu but the link to the documentation is the path of a route, and the page of
  the route requests the server's interface for just that type of proxies (the overview and the pages of
  virtual hosts start with the server's own information).
\<close>
lemma menu_reaches_pages:
  "list_all (\<lambda>(index, label). if index = [] then handleSelect index \<noteq> None
      else handleSelect index = None \<and> (case map_of frpsRoutes index of None \<Rightarrow> False
        | Some p \<Rightarrow> pageRequest p =
            (if p \<in> {Overview, ProxiesHttp, ProxiesHttps} then ''../api/serverinfo'' else ''../api'' @ (''/proxy'' @ drop 8 index)))) frpsMenu \<and>
   distinct (map fst frpsRoutes) \<and> map fst frpsRoutes = filter (\<lambda>i. i \<noteq> []) (map fst frpsMenu) \<and>
   last (vrequests (httpInfo (Json sampleInfo) (httpFetch vhostData))) = ''../api/proxy/http''"
  by (simp add: frpsMenu_def frpsRoutes_def handleSelect_def pageRequest_def overviewFetch_def overviewData_def
      tcpFetch_def udpFetch_def stcpFetch_def sudpFetch_def httpFetch_def httpsFetch_def tableFetch_def
      tableData_def vhostFetch_def vhostData_def httpInfo_def vhostInfo_def sampleInfo_def)

end
