(* ===== verification/Counters.thy ===== *)
theory Counters
  imports Interfaces "HOL-Library.Word"
begin

text \<open>
  The counters of \<^verbatim>\<open>pkg/util/metric\<close>: the 32-bit \<open>StandardCounter\<close>
  (\<^verbatim>\<open>counter.go\<close>) and the per-day \<open>StandardDateCounter\<close>
  (\<^verbatim>\<open>date_counter.go\<close>), which keeps a 64-bit count for each of the last
  \<open>reserveDays\<close> days and shifts them when a call finds that days have passed.

  The clock is an instant in nanoseconds. The local midnight that \<^verbatim>\<open>time.Date(y, m, d, 0,
  0, 0, 0, loc)\<close> gives for the date of an instant depends on the time zone and is a parameter.
\<close>

section \<open>StandardCounter\<close>

record std_counter =
  sc_count :: "32 word"

definition NewCounter :: std_counter where "NewCounter = \<lparr> sc_count = 0 \<rparr>"
definition Count :: "std_counter \<Rightarrow> int" where "Count c = sint (sc_count c)"
definition Inc :: "32 word \<Rightarrow> std_counter \<Rightarrow> std_counter" where
  "Inc n c = c\<lparr> sc_count := sc_count c + n \<rparr>"
definition Dec :: "32 word \<Rightarrow> std_counter \<Rightarrow> std_counter" where
  "Dec n c = c\<lparr> sc_count := sc_count c + (- n) \<rparr>"
definition Snapshot :: "std_counter \<Rightarrow> std_counter" where "Snapshot c = \<lparr> sc_count = sc_count c \<rparr>"
definition Clear :: "std_counter \<Rightarrow> std_counter" where "Clear c = c\<lparr> sc_count := 0 \<rparr>"

lemma Inc_Dec [simp]: "Dec n (Inc n c) = c" "Inc n (Dec n c) = c"
  by (simp_all add: Inc_def Dec_def)

lemma Inc_Inc [simp]: "Inc m (Inc n c) = Inc (m + n) c"
  by (simp add: Inc_def ac_simps)

section \<open>StandardDateCounter\<close>

record date_counter =
  reserveDays :: int
  counts :: "64 word list"
  lastUpdateDate :: int

definition dayNs :: int where "dayNs = 24 * 3600 * 1000000000"

definition newStandardDateCounter :: "(int \<Rightarrow> int) \<Rightarrow> int \<Rightarrow> int \<Rightarrow> date_counter" where
  "newStandardDateCounter midnight now reserve =
     \<lparr> reserveDays = reserve, counts = replicate (nat reserve) 0, lastUpdateDate = midnight now \<rparr>"

definition NewDateCounter :: "(int \<Rightarrow> int) \<Rightarrow> int \<Rightarrow> int \<Rightarrow> date_counter" where
  "NewDateCounter midnight now reserve =
     newStandardDateCounter midnight now (if reserve \<le> 0 then 1 else reserve)"

text \<open>
  \<open>rotate\<close>: the days between two midnights are the hours between them divided by 24, truncated;
  the date of the last update is set on every path (a deferred assignment).
\<close>

definition rotate :: "(int \<Rightarrow> int) \<Rightarrow> int \<Rightarrow> date_counter \<Rightarrow> date_counter" where
  "rotate midnight now0 c =
     (let now = midnight now0; days = goQuot (now - lastUpdateDate c) dayNs in
      if days \<le> 0 then c\<lparr> lastUpdateDate := now \<rparr>
      else if days \<ge> reserveDays c
      then c\<lparr> counts := replicate (nat (reserveDays c)) 0, lastUpdateDate := now \<rparr>
      else c\<lparr> counts := map (\<lambda>i. if i < nat days then 0 else counts c ! (i - nat days))
                            [0..<nat (reserveDays c)],
              lastUpdateDate := now \<rparr>)"

definition TodayCount :: "(int \<Rightarrow> int) \<Rightarrow> int \<Rightarrow> date_counter \<Rightarrow> 64 word \<times> date_counter" where
  "TodayCount midnight now c = (let c' = rotate midnight now c in (counts c' ! 0, c'))"

definition GetLastDaysCount ::
  "(int \<Rightarrow> int) \<Rightarrow> int \<Rightarrow> int \<Rightarrow> date_counter \<Rightarrow> (go_panic, 64 word list) result \<times> date_counter"
where
  "GetLastDaysCount midnight now lastdays0 c =
     (let lastdays = (if lastdays0 > reserveDays c then reserveDays c else lastdays0) in
      if lastdays < 0 then (Inl NegativeLength, c)
      else let c' = rotate midnight now c in
        (Inr (map (\<lambda>i. counts c' ! i) [0..<nat lastdays]), c'))"

definition IncDate :: "(int \<Rightarrow> int) \<Rightarrow> int \<Rightarrow> 64 word \<Rightarrow> date_counter \<Rightarrow> date_counter" where
  "IncDate midnight now count c =
     (let c' = rotate midnight now c in c'\<lparr> counts := (counts c')[0 := counts c' ! 0 + count] \<rparr>)"

definition DecDate :: "(int \<Rightarrow> int) \<Rightarrow> int \<Rightarrow> 64 word \<Rightarrow> date_counter \<Rightarrow> date_counter" where
  "DecDate midnight now count c =
     (let c' = rotate midnight now c in c'\<lparr> counts := (counts c')[0 := counts c' ! 0 - count] \<rparr>)"

definition SnapshotDate :: "(int \<Rightarrow> int) \<Rightarrow> int \<Rightarrow> date_counter \<Rightarrow> date_counter" where
  "SnapshotDate midnight now c =
     (newStandardDateCounter midnight now (reserveDays c))
       \<lparr> counts := map (\<lambda>i. counts c ! i) [0..<nat (reserveDays c)] \<rparr>"

definition ClearDate :: "date_counter \<Rightarrow> date_counter" where
  "ClearDate c = c\<lparr> counts := map (\<lambda>i. 0) [0..<nat (reserveDays c)] \<rparr>"

lemmas date_defs [go_defs] =
  newStandardDateCounter_def NewDateCounter_def rotate_def TodayCount_def GetLastDaysCount_def
  IncDate_def DecDate_def SnapshotDate_def ClearDate_def

section \<open>What a counter stands for\<close>

text \<open>
  The abstract counter is a history: a total for every day. \<open>represents\<close> says that a counter
  last updated on day \<open>D\<close> holds the totals of the days \<open>D\<close>, \<open>D - 1\<close>, and so on, and
  that nothing is recorded after \<open>D\<close>. The laws of the calendar that make this work, midnights 24
  hours apart, are the assumptions of a locale.
\<close>

definition represents :: "int \<Rightarrow> date_counter \<Rightarrow> (int \<Rightarrow> 64 word) \<Rightarrow> int \<Rightarrow> bool" where
  "represents base c h D \<longleftrightarrow>
     lastUpdateDate c = D * dayNs + base \<and> 0 < reserveDays c \<and> length (counts c) = nat (reserveDays c) \<and>
     (\<forall>i < nat (reserveDays c). counts c ! i = h (D - int i)) \<and> (\<forall>d > D. h d = 0)"

lemma dayNs_pos [simp]: "0 < dayNs"
  by (simp add: dayNs_def)

locale even_days =
  fixes midnight :: "int \<Rightarrow> int" and day :: "int \<Rightarrow> int" and base :: int
  assumes midnight_day: "midnight t = day t * dayNs + base"
begin

lemma represents_new:
  "0 < reserve \<Longrightarrow> represents base (newStandardDateCounter midnight now reserve) (\<lambda>_. 0) (day now)"
  by (simp add: represents_def newStandardDateCounter_def midnight_day)

lemma days_between:
  "represents base c h D \<Longrightarrow> goQuot (midnight now - lastUpdateDate c) dayNs = day now - D"
proof -
  assume "represents base c h D"
  then have "midnight now - lastUpdateDate c = (day now - D) * dayNs"
    by (simp add: represents_def midnight_day algebra_simps)
  then show ?thesis by simp
qed

lemma represents_rotate:
  assumes r: "represents base c h D" and later: "D \<le> day now"
  shows "represents base (rotate midnight now c) h (day now)" and "reserveDays (rotate midnight now c) = reserveDays c"
proof -
  note days = days_between [OF r, of now]
  have h: "h d = 0" if "d > D" for d using r that by (simp add: represents_def)
  have c: "counts c ! i = h (D - int i)" if "int i < reserveDays c" for i
    using r that by (simp add: represents_def)
  have pos: "0 < reserveDays c" using r by (simp add: represents_def)
  show "represents base (rotate midnight now c) h (day now)"
  proof (cases "day now = D")
    case True
    then show ?thesis using r days by (simp add: represents_def rotate_def Let_def midnight_day)
  next
    case False
    with later have k: "0 < day now - D" by simp
    have "counts c ! (i - nat (day now - D)) = h (day now - int i)"
      if "\<not> i < nat (day now - D)" "int i < reserveDays c" for i
      using that k c [of "i - nat (day now - D)"] by (simp add: of_nat_diff)
    then show ?thesis
      using k pos h days by (auto simp: represents_def rotate_def Let_def midnight_day)
  qed
  show "reserveDays (rotate midnight now c) = reserveDays c"
    by (simp add: rotate_def Let_def)
qed

lemma represents_IncDate:
  assumes "represents base c h D" and "D \<le> day now"
  shows "represents base (IncDate midnight now n c) (h(day now := h (day now) + n)) (day now)"
proof -
  note r = represents_rotate [OF assms]
  have "0 < length (counts (rotate midnight now c))" using r(1) by (simp add: represents_def)
  then show ?thesis
    using r(1) by (auto simp: represents_def IncDate_def Let_def nth_list_update)
qed

lemma DecDate_IncDate: "DecDate midnight now n c = IncDate midnight now (- n) c"
  by (simp add: DecDate_def IncDate_def)

lemma GetLastDaysCount_spec:
  assumes "represents base c h D" and "D \<le> day now" and "0 \<le> n"
  shows "fst (GetLastDaysCount midnight now n c) =
     Inr (map (\<lambda>i. h (day now - int i)) [0..<nat (min n (reserveDays c))])"
proof -
  note r = represents_rotate [OF assms(1,2)]
  have "counts (rotate midnight now c) ! i = h (day now - int i)" if "i < nat (min n (reserveDays c))" for i
    using r that by (simp add: represents_def)
  then show ?thesis
    using assms(3) r by (auto simp: GetLastDaysCount_def Let_def represents_def min_def)
qed

lemma TodayCount_spec:
  assumes "represents base c h D" and "D \<le> day now"
  shows "fst (TodayCount midnight now c) = h (day now)"
  using represents_rotate [OF assms] by (simp add: represents_def TodayCount_def Let_def)

end

section \<open>Zones with a fixed offset\<close>

text \<open>In a zone with a fixed offset from UTC every day has 24 hours.\<close>

definition fixedMidnight :: "int \<Rightarrow> int \<Rightarrow> int" where
  "fixedMidnight off t = t - (t + off) mod dayNs"

definition fixedDay :: "int \<Rightarrow> int \<Rightarrow> int" where
  "fixedDay off t = (t + off) div dayNs"

interpretation fixed: even_days "fixedMidnight off" "fixedDay off" "- off" for off
proof
  fix t
  show "fixedMidnight off t = fixedDay off t * dayNs + - off"
    unfolding fixedMidnight_def fixedDay_def using div_mult_mod_eq [of "t + off" dayNs] by linarith
qed

section \<open>Runs\<close>

text \<open>A history of a date counter: traffic added or taken back at an instant.\<close>

datatype date_event = DInc int "64 word" | DDec int "64 word"

fun eventTime :: "date_event \<Rightarrow> int" where
  "eventTime (DInc t n) = t"
| "eventTime (DDec t n) = t"

fun eventAmount :: "date_event \<Rightarrow> 64 word" where
  "eventAmount (DInc t n) = n"
| "eventAmount (DDec t n) = - n"

fun dateApply :: "(int \<Rightarrow> int) \<Rightarrow> date_event \<Rightarrow> date_counter \<Rightarrow> date_counter" where
  "dateApply midnight (DInc t n) c = IncDate midnight t n c"
| "dateApply midnight (DDec t n) c = DecDate midnight t n c"

fun dateRun :: "(int \<Rightarrow> int) \<Rightarrow> date_event list \<Rightarrow> date_counter \<Rightarrow> date_counter" where
  "dateRun midnight [] c = c"
| "dateRun midnight (e # es) c = dateRun midnight es (dateApply midnight e c)"

definition dayTotal :: "(int \<Rightarrow> int) \<Rightarrow> date_event list \<Rightarrow> int \<Rightarrow> 64 word" where
  "dayTotal day es d = sum_list (map eventAmount (filter (\<lambda>e. day (eventTime e) = d) es))"

lemma dayTotal_Nil [simp]: "dayTotal day [] d = 0"
  by (simp add: dayTotal_def)

lemma dayTotal_snoc:
  "dayTotal day (es @ [e]) = (dayTotal day es)
     (day (eventTime e) := dayTotal day es (day (eventTime e)) + eventAmount e)"
  by (auto simp: dayTotal_def fun_eq_iff)

context even_days
begin

lemma dateRun_append: "dateRun midnight (xs @ ys) c = dateRun midnight ys (dateRun midnight xs c)"
  by (induction xs arbitrary: c) auto

lemma represents_dateApply:
  assumes "represents base c h D" and "D \<le> day (eventTime e)"
  shows "represents base (dateApply midnight e c)
    (h(day (eventTime e) := h (day (eventTime e)) + eventAmount e)) (day (eventTime e))"
proof (cases e)
  case (DInc t n)
  then show ?thesis using represents_IncDate [of c h D t n] assms by simp
next
  case (DDec t n)
  then show ?thesis using represents_IncDate [of c h D t "- n"] assms by (simp add: DecDate_IncDate)
qed

lemma dateApply_reserveDays [simp]: "reserveDays (dateApply midnight e c) = reserveDays c"
  by (cases e) (simp_all add: date_defs Let_def)

lemma dateRun_reserveDays [simp]: "reserveDays (dateRun midnight es c) = reserveDays c"
  by (induction es arbitrary: c) auto

lemma represents_dateRun:
  assumes "represents base c (\<lambda>_. 0) D" and "sorted (D # map (day \<circ> eventTime) es)"
  shows "represents base (dateRun midnight es c) (dayTotal day es)
    (last (D # map (day \<circ> eventTime) es))"
  using assms(2)
proof (induction es rule: rev_induct)
  case Nil
  then show ?case using assms(1) by (simp add: fun_eq_iff [symmetric] ext)
next
  case (snoc e es)
  let ?D = "last (D # map (day \<circ> eventTime) es)"
  have sorted: "sorted ((D # map (day \<circ> eventTime) es) @ [day (eventTime e)])"
    using snoc.prems by (simp add: comp_def)
  then have IH: "represents base (dateRun midnight es c) (dayTotal day es) ?D"
    by (intro snoc.IH) (simp only: sorted_append)
  have "?D \<le> day (eventTime e)"
    using sorted last_in_set [of "D # map (day \<circ> eventTime) es"] by (auto simp only: sorted_append set_simps)
  from represents_dateApply [OF IH this] show ?case
    by (simp add: dateRun_append dayTotal_snoc fun_upd_def)
qed

lemma history:
  assumes "0 < reserve" and "0 \<le> n"
    and "sorted (day t0 # map (day \<circ> eventTime) es @ [day t])"
  shows "fst (GetLastDaysCount midnight t n (dateRun midnight es (newStandardDateCounter midnight t0 reserve)))
    = Inr (map (\<lambda>i. dayTotal day es (day t - int i)) [0..<nat (min n reserve)])"
proof -
  let ?c = "newStandardDateCounter midnight t0 reserve"
  have r: "represents base (dateRun midnight es ?c) (dayTotal day es) (last (day t0 # map (day \<circ> eventTime) es))"
    using assms by (intro represents_dateRun represents_new) (auto simp: sorted_append)
  have "last (day t0 # map (day \<circ> eventTime) es) \<le> day t"
    using assms(3) last_in_set [of "day t0 # map (day \<circ> eventTime) es"] by (auto simp: sorted_append)
  from GetLastDaysCount_spec [OF r this assms(2)] show ?thesis
    by (simp add: newStandardDateCounter_def)
qed

end

section \<open>Properties\<close>

text \<open>
  C17: in a zone with a fixed offset, and with a clock that does not go back a day, the counts of the
  last days after any sequence of Inc and Dec are the true totals: entry i is the sum of what was
  counted on the day i days ago (modulo 2 to the 64), for every day still reserved; nothing is
  attributed to a wrong day, however many days pass between two calls.
\<close>
theorem date_counter_history:
  assumes "0 < reserve" and "0 \<le> n"
    and "sorted (fixedDay off t0 # map (fixedDay off \<circ> eventTime) es @ [fixedDay off t])"
  shows "fst (GetLastDaysCount (fixedMidnight off) t n
      (dateRun (fixedMidnight off) es (NewDateCounter (fixedMidnight off) t0 reserve)))
    = Inr (map (\<lambda>i. dayTotal (fixedDay off) es (fixedDay off t - int i)) [0..<nat (min n reserve)])"
  using fixed.history [OF assms] assms(1) by (simp add: NewDateCounter_def)

theorem date_counter_history_witness:
  "fst (GetLastDaysCount (fixedMidnight 0) (4 * dayNs) 3
      (dateRun (fixedMidnight 0) [DInc 5 10, DInc dayNs 7, DDec (dayNs + 9) 2, DInc (3 * dayNs) 1]
        (NewDateCounter (fixedMidnight 0) 0 7))) = Inr [0, 1, 0]"
proof -
  have "fst (GetLastDaysCount (fixedMidnight 0) (4 * dayNs) 3
      (dateRun (fixedMidnight 0) [DInc 5 10, DInc dayNs 7, DDec (dayNs + 9) 2, DInc (3 * dayNs) 1]
        (NewDateCounter (fixedMidnight 0) 0 7)))
    = Inr (map (\<lambda>i. dayTotal (fixedDay 0) [DInc 5 10, DInc dayNs 7, DDec (dayNs + 9) 2, DInc (3 * dayNs) 1]
        (fixedDay 0 (4 * dayNs) - int i)) [0..<nat (min 3 7)])"
    by (rule date_counter_history) (simp_all add: fixedDay_def dayNs_def)
  then show ?thesis
    by (simp add: dayTotal_def fixedDay_def dayNs_def upt_conv_Cons)
qed

text \<open>
  In a zone with daylight saving time a day can have 23 hours. The hours between its midnights divided
  by 24 truncate to no day at all: the counter does not rotate, and what was counted on the short day
  is reported as the count of the next day.
\<close>

lemma short_day_not_rotated:
  assumes "0 < reserve" and "midnight t1 < midnight t2" and "midnight t2 < midnight t1 + dayNs"
  shows "fst (TodayCount midnight t2 (IncDate midnight t1 n (NewDateCounter midnight t1 reserve))) = n"
proof -
  have "goQuot (midnight t2 - midnight t1) dayNs = 0"
    using assms(2,3) by (simp add: goQuot_nonneg)
  then show ?thesis using assms(1) by (simp add: date_defs Let_def)
qed

text \<open>
  A snapshot taken on a later day copies the counts without rotating them but is dated today: it
  reports the count of an earlier day as today's.
\<close>

lemma snapshot_not_rotated:
  assumes "0 < reserve"
  shows "fst (TodayCount midnight t2 (SnapshotDate midnight t2 (IncDate midnight t1 n (NewDateCounter midnight t1 reserve)))) = n"
  using assms by (simp add: date_defs Let_def)

end
