(* ===== verification/MemMetrics.thy ===== *)
theory MemMetrics
  imports Counters
begin

text \<open>
  The in-memory statistics of frps, \<^verbatim>\<open>pkg/metrics/mem\<close>: \<open>types.go\<close> gives the
  data, \<open>server.go\<close> the operations that the control, the proxies and the dashboard call. Every
  access to the maps is under one mutex, so a history is a sequence of calls. The clock, the local
  midnight of an instant, the rendering of an instant and the order of a range over a map are
  parameters; Go's zero time is \<open>None\<close>.
\<close>

section \<open>Data\<close>

definition ReserveDays :: int where "ReserveDays = 7"

record proxy_statistics =
  ps_Name :: string
  ps_ProxyType :: string
  ps_TrafficIn :: date_counter
  ps_TrafficOut :: date_counter
  ps_CurConns :: std_counter
  ps_LastStartTime :: "int option"
  ps_LastCloseTime :: "int option"

record server_statistics =
  ss_TotalTrafficIn :: date_counter
  ss_TotalTrafficOut :: date_counter
  ss_CurConns :: std_counter
  ss_ClientCounts :: std_counter
  ss_ProxyTypeCounts :: "string \<rightharpoonup> std_counter"
  ss_ProxyStatistics :: "string \<rightharpoonup> proxy_statistics"

record server_stats =
  sv_TotalTrafficIn :: "64 word"
  sv_TotalTrafficOut :: "64 word"
  sv_CurConns :: int
  sv_ClientCounts :: int
  sv_ProxyTypeCounts :: "string \<rightharpoonup> int"

record proxy_stats =
  px_Name :: string
  px_Type :: string
  px_TodayTrafficIn :: "64 word"
  px_TodayTrafficOut :: "64 word"
  px_LastStartTime :: string
  px_LastCloseTime :: string
  px_CurConns :: int

record proxy_traffic_info =
  pt_Name :: string
  pt_TrafficIn :: "64 word list"
  pt_TrafficOut :: "64 word list"

section \<open>Updates\<close>

definition newServerMetrics :: "(int \<Rightarrow> int) \<Rightarrow> int \<Rightarrow> server_statistics" where
  "newServerMetrics midnight now =
     \<lparr> ss_TotalTrafficIn = NewDateCounter midnight now ReserveDays,
       ss_TotalTrafficOut = NewDateCounter midnight now ReserveDays,
       ss_CurConns = NewCounter, ss_ClientCounts = NewCounter,
       ss_ProxyTypeCounts = Map.empty, ss_ProxyStatistics = Map.empty \<rparr>"

definition useless :: "int \<Rightarrow> proxy_statistics \<Rightarrow> bool" where
  "useless now d =
     (case ps_LastCloseTime d of
        None \<Rightarrow> False
      | Some closed \<Rightarrow>
          (case ps_LastStartTime d of None \<Rightarrow> True | Some started \<Rightarrow> started < closed) \<and>
          now - closed > 7 * dayNs)"

definition clearUselessInfo :: "int \<Rightarrow> server_statistics \<Rightarrow> server_statistics" where
  "clearUselessInfo now s =
     s\<lparr> ss_ProxyStatistics := (\<lambda>n. case ss_ProxyStatistics s n of
           None \<Rightarrow> None | Some d \<Rightarrow> if useless now d then None else Some d) \<rparr>"

definition NewClient :: "server_statistics \<Rightarrow> server_statistics" where
  "NewClient s = s\<lparr> ss_ClientCounts := Inc 1 (ss_ClientCounts s) \<rparr>"

definition CloseClient :: "server_statistics \<Rightarrow> server_statistics" where
  "CloseClient s = s\<lparr> ss_ClientCounts := Dec 1 (ss_ClientCounts s) \<rparr>"

definition NewProxy :: "(int \<Rightarrow> int) \<Rightarrow> int \<Rightarrow> string \<Rightarrow> string \<Rightarrow> server_statistics \<Rightarrow> server_statistics" where
  "NewProxy midnight now name ty s =
     (let counter = (case ss_ProxyTypeCounts s ty of None \<Rightarrow> NewCounter | Some c \<Rightarrow> c);
          fresh = \<lparr> ps_Name = name, ps_ProxyType = ty,
                    ps_TrafficIn = NewDateCounter midnight now ReserveDays,
                    ps_TrafficOut = NewDateCounter midnight now ReserveDays,
                    ps_CurConns = NewCounter, ps_LastStartTime = None, ps_LastCloseTime = None \<rparr>;
          stats = (case ss_ProxyStatistics s name of
                     None \<Rightarrow> fresh
                   | Some d \<Rightarrow> if ps_ProxyType d = ty then d else fresh)
      in s\<lparr> ss_ProxyTypeCounts := (ss_ProxyTypeCounts s)(ty \<mapsto> Inc 1 counter),
            ss_ProxyStatistics := (ss_ProxyStatistics s)(name \<mapsto> stats\<lparr> ps_LastStartTime := Some now \<rparr>) \<rparr>)"

definition updStats :: "string \<Rightarrow> (proxy_statistics \<Rightarrow> proxy_statistics) \<Rightarrow> server_statistics \<Rightarrow> server_statistics" where
  "updStats name f s =
     (case ss_ProxyStatistics s name of
        None \<Rightarrow> s
      | Some d \<Rightarrow> s\<lparr> ss_ProxyStatistics := (ss_ProxyStatistics s)(name \<mapsto> f d) \<rparr>)"

definition CloseProxy :: "int \<Rightarrow> string \<Rightarrow> string \<Rightarrow> server_statistics \<Rightarrow> server_statistics" where
  "CloseProxy now name ty s =
     updStats name (\<lambda>d. d\<lparr> ps_LastCloseTime := Some now \<rparr>)
       (case ss_ProxyTypeCounts s ty of
          None \<Rightarrow> s
        | Some c \<Rightarrow> s\<lparr> ss_ProxyTypeCounts := (ss_ProxyTypeCounts s)(ty \<mapsto> Dec 1 c) \<rparr>)"

definition OpenConnection :: "string \<Rightarrow> string \<Rightarrow> server_statistics \<Rightarrow> server_statistics" where
  "OpenConnection name ty s =
     updStats name (\<lambda>d. d\<lparr> ps_CurConns := Inc 1 (ps_CurConns d) \<rparr>)
       (s\<lparr> ss_CurConns := Inc 1 (ss_CurConns s) \<rparr>)"

definition CloseConnection :: "string \<Rightarrow> string \<Rightarrow> server_statistics \<Rightarrow> server_statistics" where
  "CloseConnection name ty s =
     updStats name (\<lambda>d. d\<lparr> ps_CurConns := Dec 1 (ps_CurConns d) \<rparr>)
       (s\<lparr> ss_CurConns := Dec 1 (ss_CurConns s) \<rparr>)"

definition AddTrafficIn ::
  "(int \<Rightarrow> int) \<Rightarrow> int \<Rightarrow> string \<Rightarrow> string \<Rightarrow> 64 word \<Rightarrow> server_statistics \<Rightarrow> server_statistics" where
  "AddTrafficIn midnight now name ty n s =
     updStats name (\<lambda>d. d\<lparr> ps_TrafficIn := IncDate midnight now n (ps_TrafficIn d) \<rparr>)
       (s\<lparr> ss_TotalTrafficIn := IncDate midnight now n (ss_TotalTrafficIn s) \<rparr>)"

definition AddTrafficOut ::
  "(int \<Rightarrow> int) \<Rightarrow> int \<Rightarrow> string \<Rightarrow> string \<Rightarrow> 64 word \<Rightarrow> server_statistics \<Rightarrow> server_statistics" where
  "AddTrafficOut midnight now name ty n s =
     updStats name (\<lambda>d. d\<lparr> ps_TrafficOut := IncDate midnight now n (ps_TrafficOut d) \<rparr>)
       (s\<lparr> ss_TotalTrafficOut := IncDate midnight now n (ss_TotalTrafficOut s) \<rparr>)"

section \<open>Queries\<close>

text \<open>Reading the count of today rotates the counters it reads.\<close>

definition GetServer :: "(int \<Rightarrow> int) \<Rightarrow> int \<Rightarrow> server_statistics \<Rightarrow> server_stats \<times> server_statistics" where
  "GetServer midnight now s =
     (let (tin, cin) = TodayCount midnight now (ss_TotalTrafficIn s);
          (tout, cout) = TodayCount midnight now (ss_TotalTrafficOut s) in
      (\<lparr> sv_TotalTrafficIn = tin, sv_TotalTrafficOut = tout, sv_CurConns = Count (ss_CurConns s),
         sv_ClientCounts = Count (ss_ClientCounts s),
         sv_ProxyTypeCounts = (\<lambda>k. map_option Count (ss_ProxyTypeCounts s k)) \<rparr>,
       s\<lparr> ss_TotalTrafficIn := cin, ss_TotalTrafficOut := cout \<rparr>))"

definition proxyStatsOf ::
  "(int \<Rightarrow> int) \<Rightarrow> (int \<Rightarrow> string) \<Rightarrow> int \<Rightarrow> string \<Rightarrow> proxy_statistics \<Rightarrow> proxy_stats \<times> proxy_statistics" where
  "proxyStatsOf midnight format now name d =
     (let (tin, cin) = TodayCount midnight now (ps_TrafficIn d);
          (tout, cout) = TodayCount midnight now (ps_TrafficOut d);
          show = (\<lambda>t. case t of None \<Rightarrow> [] | Some i \<Rightarrow> format i) in
      (\<lparr> px_Name = name, px_Type = ps_ProxyType d, px_TodayTrafficIn = tin, px_TodayTrafficOut = tout,
         px_LastStartTime = show (ps_LastStartTime d), px_LastCloseTime = show (ps_LastCloseTime d),
         px_CurConns = Count (ps_CurConns d) \<rparr>,
       d\<lparr> ps_TrafficIn := cin, ps_TrafficOut := cout \<rparr>))"

text \<open>\<open>names\<close> is the order in which the range visits the keys of \<open>ProxyStatistics\<close>.\<close>

fun GetProxiesByType ::
  "(int \<Rightarrow> int) \<Rightarrow> (int \<Rightarrow> string) \<Rightarrow> int \<Rightarrow> string \<Rightarrow> string list \<Rightarrow> server_statistics
     \<Rightarrow> proxy_stats list \<times> server_statistics"
where
  "GetProxiesByType midnight format now ty [] s = ([], s)"
| "GetProxiesByType midnight format now ty (n # ns) s =
     (case ss_ProxyStatistics s n of
        None \<Rightarrow> GetProxiesByType midnight format now ty ns s
      | Some d \<Rightarrow>
          if ps_ProxyType d \<noteq> ty then GetProxiesByType midnight format now ty ns s
          else let (p, d') = proxyStatsOf midnight format now n d;
                   (ps, s') = GetProxiesByType midnight format now ty ns (updStats n (\<lambda>_. d') s)
               in (p # ps, s'))"

definition GetProxiesByTypeAndName ::
  "(int \<Rightarrow> int) \<Rightarrow> (int \<Rightarrow> string) \<Rightarrow> int \<Rightarrow> string \<Rightarrow> string \<Rightarrow> server_statistics
     \<Rightarrow> proxy_stats option \<times> server_statistics"
where
  "GetProxiesByTypeAndName midnight format now ty name s =
     (case ss_ProxyStatistics s name of
        None \<Rightarrow> (None, s)
      | Some d \<Rightarrow>
          if ps_ProxyType d \<noteq> ty then (None, s)
          else let (p, d') = proxyStatsOf midnight format now name d
               in (Some p, updStats name (\<lambda>_. d') s))"

definition GetProxyTraffic ::
  "(int \<Rightarrow> int) \<Rightarrow> int \<Rightarrow> string \<Rightarrow> server_statistics
     \<Rightarrow> (go_panic, proxy_traffic_info option) result \<times> server_statistics"
where
  "GetProxyTraffic midnight now name s =
     (case ss_ProxyStatistics s name of
        None \<Rightarrow> (Inr None, s)
      | Some d \<Rightarrow>
          (case GetLastDaysCount midnight now ReserveDays (ps_TrafficIn d) of
             (Inl e, _) \<Rightarrow> (Inl e, s)
           | (Inr tin, cin) \<Rightarrow>
               (case GetLastDaysCount midnight now ReserveDays (ps_TrafficOut d) of
                  (Inl e, _) \<Rightarrow> (Inl e, updStats name (\<lambda>_. d\<lparr> ps_TrafficIn := cin \<rparr>) s)
                | (Inr tout, cout) \<Rightarrow>
                    (Inr (Some \<lparr> pt_Name = name, pt_TrafficIn = tin, pt_TrafficOut = tout \<rparr>),
                     updStats name (\<lambda>_. d\<lparr> ps_TrafficIn := cin, ps_TrafficOut := cout \<rparr>) s))))"

lemmas mem_defs [go_defs] =
  newServerMetrics_def useless_def clearUselessInfo_def NewClient_def CloseClient_def NewProxy_def
  updStats_def CloseProxy_def OpenConnection_def CloseConnection_def AddTrafficIn_def
  AddTrafficOut_def GetServer_def proxyStatsOf_def GetProxiesByTypeAndName_def GetProxyTraffic_def

section \<open>Histories\<close>

datatype mem_event =
    MNewClient | MCloseClient
  | MNewProxy int string string
  | MCloseProxy int string string
  | MOpen string string
  | MClose string string
  | MIn int string string "64 word"
  | MOut int string string "64 word"
  | MClear int
  | MGetServer int
  | MGetByType int string "string list"
  | MGetByName int string string
  | MGetTraffic int string

fun memApply :: "(int \<Rightarrow> int) \<Rightarrow> (int \<Rightarrow> string) \<Rightarrow> mem_event \<Rightarrow> server_statistics \<Rightarrow> server_statistics" where
  "memApply midnight fmt MNewClient s = NewClient s"
| "memApply midnight fmt MCloseClient s = CloseClient s"
| "memApply midnight fmt (MNewProxy now name ty) s = NewProxy midnight now name ty s"
| "memApply midnight fmt (MCloseProxy now name ty) s = CloseProxy now name ty s"
| "memApply midnight fmt (MOpen name ty) s = OpenConnection name ty s"
| "memApply midnight fmt (MClose name ty) s = CloseConnection name ty s"
| "memApply midnight fmt (MIn now name ty n) s = AddTrafficIn midnight now name ty n s"
| "memApply midnight fmt (MOut now name ty n) s = AddTrafficOut midnight now name ty n s"
| "memApply midnight fmt (MClear now) s = clearUselessInfo now s"
| "memApply midnight fmt (MGetServer now) s = snd (GetServer midnight now s)"
| "memApply midnight fmt (MGetByType now ty ns) s = snd (GetProxiesByType midnight fmt now ty ns s)"
| "memApply midnight fmt (MGetByName now ty n) s = snd (GetProxiesByTypeAndName midnight fmt now ty n s)"
| "memApply midnight fmt (MGetTraffic now n) s = snd (GetProxyTraffic midnight now n s)"

fun memRun :: "(int \<Rightarrow> int) \<Rightarrow> (int \<Rightarrow> string) \<Rightarrow> mem_event list \<Rightarrow> server_statistics \<Rightarrow> server_statistics" where
  "memRun midnight fmt [] s = s"
| "memRun midnight fmt (e # es) s = memRun midnight fmt es (memApply midnight fmt e s)"

lemma memRun_append: "memRun m f (xs @ ys) s = memRun m f ys (memRun m f xs s)"
  by (induction xs arbitrary: s) auto

section \<open>Counting proxies by type\<close>

fun isOpenOf :: "string \<Rightarrow> mem_event \<Rightarrow> bool" where
  "isOpenOf ty (MNewProxy now name t) = (t = ty)"
| "isOpenOf ty _ = False"

fun isCloseOf :: "string \<Rightarrow> mem_event \<Rightarrow> bool" where
  "isCloseOf ty (MCloseProxy now name t) = (t = ty)"
| "isCloseOf ty _ = False"

definition opened :: "string \<Rightarrow> mem_event list \<Rightarrow> nat" where
  "opened ty es = length (filter (isOpenOf ty) es)"

definition closed :: "string \<Rightarrow> mem_event list \<Rightarrow> nat" where
  "closed ty es = length (filter (isCloseOf ty) es)"

text \<open>No more proxies of the type are closed than were opened before.\<close>

definition balanced :: "string \<Rightarrow> mem_event list \<Rightarrow> bool" where
  "balanced ty es \<longleftrightarrow> (\<forall>k \<le> length es. closed ty (take k es) \<le> opened ty (take k es))"

lemma balanced_snoc:
  "balanced ty (es @ [e]) \<longleftrightarrow> balanced ty es \<and> closed ty (es @ [e]) \<le> opened ty (es @ [e])"
  by (auto simp: balanced_def le_Suc_eq all_conj_distrib imp_conjL)

lemma balancedD: "balanced ty es \<Longrightarrow> closed ty es \<le> opened ty es"
  by (auto simp: balanced_def)

lemma updStats_types [simp]: "ss_ProxyTypeCounts (updStats n f s) = ss_ProxyTypeCounts s"
  by (simp add: updStats_def split: option.split)

lemma GetProxiesByType_types [simp]:
  "ss_ProxyTypeCounts (snd (GetProxiesByType m f now ty ns s)) = ss_ProxyTypeCounts s"
  by (induction ns arbitrary: s) (auto split: option.split prod.split simp: Let_def, (metis snd_conv updStats_types)+)

lemma GetProxyTraffic_types [simp]:
  "ss_ProxyTypeCounts (snd (GetProxyTraffic m now n s)) = ss_ProxyTypeCounts s"
  by (auto simp: GetProxyTraffic_def split: option.split prod.split sum.split)

text \<open>What one call does to the counter of a type.\<close>

lemma memApply_types:
  "ss_ProxyTypeCounts (memApply m f e s) ty =
     (if isOpenOf ty e then Some (Inc 1 (case ss_ProxyTypeCounts s ty of None \<Rightarrow> NewCounter | Some c \<Rightarrow> c))
      else if isCloseOf ty e then map_option (Dec 1) (ss_ProxyTypeCounts s ty)
      else ss_ProxyTypeCounts s ty)"
  by (cases e)
     (auto simp: NewClient_def CloseClient_def NewProxy_def CloseProxy_def OpenConnection_def
       CloseConnection_def AddTrafficIn_def AddTrafficOut_def clearUselessInfo_def GetServer_def
       GetProxiesByTypeAndName_def Let_def split: option.split prod.split)

lemma type_counter_run:
  assumes "balanced ty es"
  shows "ss_ProxyTypeCounts (memRun m f es (newServerMetrics m t0)) ty =
    (if opened ty es = 0 then None
     else Some \<lparr> sc_count = of_nat (opened ty es - closed ty es) \<rparr>)"
  using assms
proof (induction es rule: rev_induct)
  case Nil
  then show ?case by (simp add: opened_def newServerMetrics_def)
next
  case (snoc e es)
  note prem = snoc.prems [unfolded balanced_snoc]
  note IH = snoc.IH [OF conjunct1 [OF prem]]
  have bal: "closed ty es \<le> opened ty es" "closed ty (es @ [e]) \<le> opened ty (es @ [e])"
    using balancedD prem by blast+
  have open_e: "opened ty (es @ [e]) = opened ty es + (if isOpenOf ty e then 1 else 0)"
    and close_e: "closed ty (es @ [e]) = closed ty es + (if isCloseOf ty e then 1 else 0)"
    by (simp_all add: opened_def closed_def)
  have "\<not> (isOpenOf ty e \<and> isCloseOf ty e)" by (cases e) auto
  then show ?case
    using IH bal unfolding memRun_append memRun.simps memApply_types open_e close_e
    by (auto simp: Inc_def Dec_def NewCounter_def of_nat_diff Suc_diff_le split: if_splits)
qed

lemma Count_of_nat: "n < 2 ^ 31 \<Longrightarrow> Count \<lparr> sc_count = of_nat n \<rparr> = int n"
  by (simp add: Count_def signed_of_nat signed_take_bit_int_eq_self)

text \<open>The counter of the clients.\<close>

definition joined :: "mem_event list \<Rightarrow> nat" where
  "joined es = length (filter (\<lambda>e. e = MNewClient) es)"

definition left :: "mem_event list \<Rightarrow> nat" where
  "left es = length (filter (\<lambda>e. e = MCloseClient) es)"

lemma updStats_clients [simp]: "ss_ClientCounts (updStats n f s) = ss_ClientCounts s"
  by (simp add: updStats_def split: option.split)

lemma GetProxiesByType_clients [simp]:
  "ss_ClientCounts (snd (GetProxiesByType m f now ty ns s)) = ss_ClientCounts s"
  by (induction ns arbitrary: s) (auto split: option.split prod.split simp: Let_def, (metis snd_conv updStats_clients)+)

lemma memApply_clients:
  "ss_ClientCounts (memApply m f e s) =
     (case e of MNewClient \<Rightarrow> Inc 1 (ss_ClientCounts s) | MCloseClient \<Rightarrow> Dec 1 (ss_ClientCounts s) | _ \<Rightarrow> ss_ClientCounts s)"
  by (cases e)
     (auto simp: NewClient_def CloseClient_def NewProxy_def CloseProxy_def OpenConnection_def
       CloseConnection_def AddTrafficIn_def AddTrafficOut_def clearUselessInfo_def GetServer_def
       GetProxiesByTypeAndName_def GetProxyTraffic_def Let_def split: option.split prod.split sum.split)

lemma client_counter_run:
  "ss_ClientCounts (memRun m f es (newServerMetrics m t0)) = \<lparr> sc_count = of_nat (joined es) - of_nat (left es) \<rparr>"
proof (induction es rule: rev_induct)
  case Nil
  show ?case by (simp add: joined_def left_def newServerMetrics_def NewCounter_def)
next
  case (snoc e es)
  then show ?case
    unfolding memRun_append memRun.simps memApply_clients by (cases e) (simp_all add: joined_def left_def Inc_def Dec_def)
qed

section \<open>The traffic of one proxy\<close>

text \<open>
  What one call does to the incoming traffic counter of a proxy: traffic is added, a query rotates the
  counter (it adds nothing at the time of the query), everything else leaves it alone. \<open>keeps\<close>
  excludes the calls that replace or drop the statistics of the proxy: registering the name with
  another type, and the worker that clears the statistics of proxies closed for seven days.
\<close>

fun inEffect :: "string \<Rightarrow> string \<Rightarrow> mem_event \<Rightarrow> date_event list" where
  "inEffect name ty (MIn now n t b) = (if n = name then [DInc now b] else [])"
| "inEffect name ty (MGetByType now t ns) = (if t = ty \<and> name \<in> set ns then [DInc now 0] else [])"
| "inEffect name ty (MGetByName now t n) = (if t = ty \<and> n = name then [DInc now 0] else [])"
| "inEffect name ty (MGetTraffic now n) = (if n = name then [DInc now 0] else [])"
| "inEffect name ty _ = []"

fun keeps :: "string \<Rightarrow> string \<Rightarrow> mem_event \<Rightarrow> bool" where
  "keeps name ty (MNewProxy now n t) = (n = name \<longrightarrow> t = ty)"
| "keeps name ty (MClear now) = False"
| "keeps name ty (MGetByType now t ns) = distinct ns"
| "keeps name ty _ = True"

definition hasIn :: "string \<Rightarrow> string \<Rightarrow> date_counter \<Rightarrow> server_statistics \<Rightarrow> bool" where
  "hasIn name ty c s \<longleftrightarrow> (\<exists>d. ss_ProxyStatistics s name = Some d \<and> ps_ProxyType d = ty \<and> ps_TrafficIn d = c)"

lemma IncDate_zero: "IncDate m now 0 c = rotate m now c"
  by (simp add: IncDate_def Let_def)

lemma updStats_hasIn:
  assumes "hasIn name ty c s"
  shows "n \<noteq> name \<Longrightarrow> hasIn name ty c (updStats n f s)"
    and "(\<And>d. ps_TrafficIn (f d) = ps_TrafficIn d \<and> ps_ProxyType (f d) = ps_ProxyType d) \<Longrightarrow> hasIn name ty c (updStats n f s)"
  using assms by (auto simp: hasIn_def updStats_def split: option.split)

lemma hasIn_fields [simp]:
  "hasIn name ty c (s\<lparr>ss_CurConns := x\<rparr>) = hasIn name ty c s"
  "hasIn name ty c (s\<lparr>ss_ClientCounts := x\<rparr>) = hasIn name ty c s"
  "hasIn name ty c (s\<lparr>ss_ProxyTypeCounts := y\<rparr>) = hasIn name ty c s"
  "hasIn name ty c (s\<lparr>ss_TotalTrafficIn := z\<rparr>) = hasIn name ty c s"
  "hasIn name ty c (s\<lparr>ss_TotalTrafficOut := z\<rparr>) = hasIn name ty c s"
  by (simp_all add: hasIn_def)

lemma proxyStatsOf_in:
  "ps_TrafficIn (snd (proxyStatsOf m f now n d)) = rotate m now (ps_TrafficIn d)"
  "ps_ProxyType (snd (proxyStatsOf m f now n d)) = ps_ProxyType d"
  by (simp_all add: proxyStatsOf_def TodayCount_def Let_def)

lemma GetProxiesByType_hasIn:
  assumes "distinct ns" and "hasIn name ty c s"
  shows "hasIn name ty (if t = ty \<and> name \<in> set ns then rotate m now c else c)
    (snd (GetProxiesByType m f now t ns s))"
  using assms
proof (induction ns arbitrary: s c)
  case Nil
  then show ?case by simp
next
  case (Cons n ns)
  show ?case
  proof (cases "n = name")
    case True
    obtain d where d: "ss_ProxyStatistics s name = Some d" "ps_ProxyType d = ty" "ps_TrafficIn d = c"
      using Cons.prems(2) by (auto simp: hasIn_def)
    show ?thesis
    proof (cases "t = ty")
      case False
      then show ?thesis using Cons.IH [of c s] Cons.prems True d by simp
    next
      case ty: True
      let ?s = "updStats n (\<lambda>_. snd (proxyStatsOf m f now n d)) s"
      have "hasIn name ty (rotate m now c) ?s"
        using True d by (simp add: hasIn_def updStats_def proxyStatsOf_in)
      from Cons.IH [OF _ this] show ?thesis
        using Cons.prems True d ty by (simp add: Let_def case_prod_beta)
    qed
  next
    case False
    show ?thesis
    proof (cases "ss_ProxyStatistics s n")
      case None
      then show ?thesis using Cons.IH [of c s] Cons.prems False by simp
    next
      case (Some d)
      have upd: "hasIn name ty c (updStats n (\<lambda>_. snd (proxyStatsOf m f now n d)) s)"
        by (rule updStats_hasIn(1) [OF Cons.prems(2) False])
      show ?thesis
        using Cons.IH [of c s] Cons.IH [OF _ upd] Cons.prems Some False
        by (auto simp: Let_def case_prod_beta)
    qed
  qed
qed

lemma GetLastDaysCount_snd:
  "0 \<le> reserveDays c \<Longrightarrow> snd (GetLastDaysCount m now ReserveDays c) = rotate m now c
     \<and> isl (fst (GetLastDaysCount m now ReserveDays c)) = False"
  by (simp add: GetLastDaysCount_def ReserveDays_def Let_def)

lemma GetProxyTraffic_hasIn:
  assumes "hasIn name ty c s" and "0 \<le> reserveDays c"
  shows "hasIn name ty (if n = name then rotate m now c else c) (snd (GetProxyTraffic m now n s))"
proof (cases "n = name")
  case True
  obtain d where d: "ss_ProxyStatistics s name = Some d" "ps_ProxyType d = ty" "ps_TrafficIn d = c"
    using assms(1) by (auto simp: hasIn_def)
  show ?thesis
    using d True GetLastDaysCount_snd [OF assms(2), of m now]
    by (auto simp: GetProxyTraffic_def hasIn_def updStats_def split: prod.split sum.split)
next
  case False
  then show ?thesis
    using updStats_hasIn(1) [OF assms(1) False] assms(1)
    by (auto simp: GetProxyTraffic_def split: option.split prod.split sum.split)
qed

lemma memApply_hasIn:
  assumes "hasIn name ty c s" and "keeps name ty e" and "0 \<le> reserveDays c"
  shows "hasIn name ty (dateRun m (inEffect name ty e) c) (memApply m f e s)"
proof (cases e)
  case (MNewProxy now n t)
  then show ?thesis using assms by (auto simp: NewProxy_def hasIn_def Let_def split: option.split)
next
  case (MIn now n t b)
  show ?thesis
  proof (cases "n = name")
    case True
    then show ?thesis
      using MIn assms(1) by (auto simp: AddTrafficIn_def hasIn_def updStats_def)
  qed (use MIn assms(1) in \<open>simp add: AddTrafficIn_def updStats_hasIn\<close>)
next
  case (MGetByType now t ns)
  then show ?thesis using GetProxiesByType_hasIn [OF _ assms(1), of ns t m now f] assms(2)
    by (auto simp: IncDate_zero split: if_splits)
next
  case (MGetByName now t n)
  then show ?thesis
    using assms(1) by (auto simp: GetProxiesByTypeAndName_def hasIn_def updStats_def IncDate_zero
        proxyStatsOf_in split: option.split prod.split) (metis proxyStatsOf_in snd_conv)+
next
  case (MGetTraffic now n)
  then show ?thesis using GetProxyTraffic_hasIn [OF assms(1,3), of n m now]
    by (auto simp: IncDate_zero split: if_splits)
qed (use assms in \<open>auto simp: NewClient_def CloseClient_def CloseProxy_def OpenConnection_def
        CloseConnection_def AddTrafficOut_def GetServer_def split: prod.split option.split
        intro!: updStats_hasIn(2)\<close>)

lemma dateRun_reserve: "reserveDays (dateRun m es c) = reserveDays c"
proof (induction es arbitrary: c)
  case (Cons e es)
  then show ?case by (cases e) (simp_all add: date_defs Let_def)
qed simp

lemma dateRun_concat: "dateRun m (xs @ ys) c = dateRun m ys (dateRun m xs c)"
  by (induction xs arbitrary: c) auto

definition inHistory :: "string \<Rightarrow> string \<Rightarrow> mem_event list \<Rightarrow> date_event list" where
  "inHistory name ty es = concat (map (inEffect name ty) es)"

lemma memRun_hasIn:
  "hasIn name ty c s \<Longrightarrow> list_all (keeps name ty) es \<Longrightarrow> 0 \<le> reserveDays c \<Longrightarrow>
     hasIn name ty (dateRun m (inHistory name ty es) c) (memRun m f es s)"
  by (induction es arbitrary: c s)
     (auto simp: inHistory_def dateRun_concat dateRun_reserve dest: memApply_hasIn [of _ _ _ _ _ m f])

text \<open>Every counter of a proxy keeps the seven days it was made with, so no query panics.\<close>

definition statsOk :: "proxy_statistics \<Rightarrow> bool" where
  "statsOk d \<longleftrightarrow> reserveDays (ps_TrafficIn d) = ReserveDays \<and> reserveDays (ps_TrafficOut d) = ReserveDays"

definition reserveOk :: "server_statistics \<Rightarrow> bool" where
  "reserveOk s \<longleftrightarrow> (\<forall>n d. ss_ProxyStatistics s n = Some d \<longrightarrow> statsOk d)"

lemma reserveOk_fields [simp]:
  "reserveOk (s\<lparr>ss_CurConns := x\<rparr>) = reserveOk s"
  "reserveOk (s\<lparr>ss_ClientCounts := x\<rparr>) = reserveOk s"
  "reserveOk (s\<lparr>ss_ProxyTypeCounts := y\<rparr>) = reserveOk s"
  "reserveOk (s\<lparr>ss_TotalTrafficIn := z\<rparr>) = reserveOk s"
  "reserveOk (s\<lparr>ss_TotalTrafficOut := z\<rparr>) = reserveOk s"
  by (simp_all add: reserveOk_def)

lemma updStats_reserveOk:
  assumes "reserveOk s" and "\<And>d. ss_ProxyStatistics s n = Some d \<Longrightarrow> statsOk d \<Longrightarrow> statsOk (f d)"
  shows "reserveOk (updStats n f s)"
  using assms unfolding reserveOk_def updStats_def by (auto split: option.split)

lemma IncDate_reserve [simp]: "reserveDays (IncDate m now n c) = reserveDays c"
  and rotate_reserve [simp]: "reserveDays (rotate m now c) = reserveDays c"
  by (simp_all add: IncDate_def rotate_def Let_def)

lemma proxyStatsOf_ok: "statsOk d \<Longrightarrow> statsOk (snd (proxyStatsOf m f now n d))"
  by (simp add: statsOk_def proxyStatsOf_def TodayCount_def Let_def)

lemma GetProxiesByType_reserveOk:
  "reserveOk s \<Longrightarrow> reserveOk (snd (GetProxiesByType m f now t ns s))"
proof (induction ns arbitrary: s)
  case (Cons n ns)
  have "reserveOk (updStats n (\<lambda>_. snd (proxyStatsOf m f now n d)) s)"
    if "ss_ProxyStatistics s n = Some d" for d
    using that Cons.prems by (intro updStats_reserveOk) (auto intro: proxyStatsOf_ok)
  then show ?case
    using Cons by (auto simp: Let_def case_prod_beta split: option.split)
qed simp

lemma GetProxyTraffic_reserveOk:
  assumes "reserveOk s" shows "reserveOk (snd (GetProxyTraffic m now n s))"
proof (cases "ss_ProxyStatistics s n")
  case None
  then show ?thesis using assms by (simp add: GetProxyTraffic_def)
next
  case (Some d)
  then have "statsOk d" using assms by (auto simp: reserveOk_def)
  then show ?thesis
    using Some assms by (auto simp: GetProxyTraffic_def GetLastDaysCount_def statsOk_def ReserveDays_def Let_def
        intro!: updStats_reserveOk)
qed

lemma memApply_reserveOk [go_inv]:
  assumes "reserveOk s" shows "reserveOk (memApply m f e s)"
proof (cases e)
  case (MNewProxy now n t)
  then show ?thesis
    using assms by (auto simp: NewProxy_def reserveOk_def statsOk_def Let_def NewDateCounter_def
        newStandardDateCounter_def ReserveDays_def split: option.split)
next
  case (MClear now)
  then show ?thesis
    using assms by (auto simp: clearUselessInfo_def reserveOk_def split: option.splits if_splits)
next
  case (MGetByName now t n)
  then show ?thesis
    using assms by (auto simp: GetProxiesByTypeAndName_def case_prod_beta split: option.split
        intro!: updStats_reserveOk proxyStatsOf_ok)
next
  case (MGetByType now t ns)
  then show ?thesis using GetProxiesByType_reserveOk [OF assms] by simp
next
  case (MGetTraffic now n)
  then show ?thesis using GetProxyTraffic_reserveOk [OF assms] by simp
qed (use assms in \<open>auto simp: NewClient_def CloseClient_def CloseProxy_def OpenConnection_def statsOk_def
        CloseConnection_def AddTrafficIn_def AddTrafficOut_def GetServer_def case_prod_beta
        split: option.split intro!: updStats_reserveOk\<close>)

lemma memRun_reserveOk: "reserveOk s \<Longrightarrow> reserveOk (memRun m f es s)"
  by (induction es arbitrary: s) (auto intro: memApply_reserveOk)

lemma reserveOk_new [simp]: "reserveOk (newServerMetrics m t)"
  by (simp add: reserveOk_def newServerMetrics_def)

text \<open>
  Closing a connection of a proxy whose name was registered again with another type while the
  connection was open takes one from a counter that never saw it: the gauge of the new proxy becomes
  negative.
\<close>

lemma connection_gauge_negative:
  "map_option (Count \<circ> ps_CurConns) (ss_ProxyStatistics (memRun id (\<lambda>_. [])
      [MNewProxy 1 ''a'' ''tcp'', MOpen ''a'' ''tcp'', MCloseProxy 2 ''a'' ''tcp'', MNewProxy 3 ''a'' ''udp'',
       MClose ''a'' ''tcp''] (newServerMetrics id 0)) ''a'') = Some (- 1)"
  by (simp add: mem_defs Let_def NewCounter_def Inc_def Dec_def Count_def)

text \<open>What the interface returns about the numbers of proxies.\<close>

lemma type_counts_served:
  assumes "balanced ty es" and "opened ty es - closed ty es < 2 ^ 31"
  shows "sv_ProxyTypeCounts (fst (GetServer m now (memRun m f es (newServerMetrics m t0)))) ty =
    (if opened ty es = 0 then None else Some (int (opened ty es) - int (closed ty es)))"
proof -
  have le: "closed ty es \<le> opened ty es" by (rule balancedD [OF assms(1)])
  then have "Count \<lparr> sc_count = of_nat (opened ty es - closed ty es) \<rparr> = int (opened ty es) - int (closed ty es)"
    using assms(2) by (subst Count_of_nat) auto
  then show ?thesis
    using type_counter_run [OF assms(1), of m f t0]
    by (auto simp: GetServer_def simp del: of_nat_diff split: prod.split)
qed

lemma client_count_served:
  assumes "left es \<le> joined es" and "joined es - left es < 2 ^ 31"
  shows "sv_ClientCounts (fst (GetServer m now (memRun m f es (newServerMetrics m t0)))) = int (joined es - left es)"
  using assms Count_of_nat [of "joined es - left es"]
  by (simp add: GetServer_def client_counter_run of_nat_diff split: prod.split)

lemma GetProxiesByType_type:
  "list_all (\<lambda>ps. px_Type ps = ty) (fst (GetProxiesByType m f now ty ns s))"
  by (induction ns arbitrary: s) (auto simp: proxyStatsOf_def Let_def case_prod_beta split: option.split)

text \<open>What the interface returns about the traffic of a proxy.\<close>

lemma proxy_traffic_totals:
  assumes s: "s = memRun (fixedMidnight off) f es0 (newServerMetrics (fixedMidnight off) t00)"
    and new: "\<forall>d. ss_ProxyStatistics s name = Some d \<longrightarrow> ps_ProxyType d \<noteq> ty"
    and keep: "list_all (keeps name ty) es"
    and chrono: "sorted (fixedDay off t0 # map (fixedDay off \<circ> eventTime) (inHistory name ty es) @ [fixedDay off t])"
  shows "\<exists>info. fst (GetProxyTraffic (fixedMidnight off) t name
        (memRun (fixedMidnight off) f (MNewProxy t0 name ty # es) s)) = Inr (Some info) \<and>
      pt_TrafficIn info = map (\<lambda>i. dayTotal (fixedDay off) (inHistory name ty es) (fixedDay off t - int i)) [0..<7] \<and>
      length (pt_TrafficOut info) = 7 \<and> pt_Name info = name"
proof -
  let ?m = "fixedMidnight off" and ?c = "newStandardDateCounter (fixedMidnight off) t0 7"
  let ?s = "memRun ?m f (MNewProxy t0 name ty # es) s"
  have "hasIn name ty ?c (memApply ?m f (MNewProxy t0 name ty) s)"
    using new by (auto simp: hasIn_def NewProxy_def Let_def NewDateCounter_def ReserveDays_def split: option.split)
  from memRun_hasIn [OF this keep, of ?m f]
  have has: "hasIn name ty (dateRun ?m (inHistory name ty es) ?c) ?s"
    by (simp add: newStandardDateCounter_def)
  then obtain d where d: "ss_ProxyStatistics ?s name = Some d"
      "ps_TrafficIn d = dateRun ?m (inHistory name ty es) ?c"
    by (auto simp: hasIn_def)
  have "reserveOk ?s" unfolding s by (intro memRun_reserveOk reserveOk_new)
  then have "reserveDays (ps_TrafficOut d) = 7" using d(1) by (auto simp: reserveOk_def statsOk_def ReserveDays_def)
  then have out: "\<exists>x. fst (GetLastDaysCount ?m t ReserveDays (ps_TrafficOut d)) = Inr x \<and> length x = 7"
    by (simp add: GetLastDaysCount_def ReserveDays_def Let_def)
  have "fst (GetLastDaysCount ?m t ReserveDays (ps_TrafficIn d)) =
      Inr (map (\<lambda>i. dayTotal (fixedDay off) (inHistory name ty es) (fixedDay off t - int i)) [0..<7])"
    using fixed.history [of 7 ReserveDays off t0, OF _ _ chrono] by (simp add: d(2) ReserveDays_def)
  then show ?thesis
    using d(1) out by (auto simp: GetProxyTraffic_def case_prod_beta split: sum.split)
qed

end
