(* ===== verification/DashboardApi.thy ===== *)
theory DashboardApi
  imports MemMetrics ProxyConf JsValue "HOL-Library.Char_ord" "HOL-Library.List_Lexorder"
begin

text \<open>
  The interface of the frps dashboard, \<^verbatim>\<open>server/dashboard_api.go\<close>: the server's own
  information, the proxies of a type, one proxy, and the traffic of a proxy, as the JSON the pages
  receive. The configuration of an online proxy is marshalled and read back into a structure chosen by
  the type of the proxy, which is what decides the fields that leave the server.
\<close>

section \<open>Configurations as JSON\<close>

definition mapJson :: "go_map \<Rightarrow> jsval" where
  "mapJson m = (case m of None \<Rightarrow> JNull | Some f \<Rightarrow> JObj (map (\<lambda>(k, v). (k, JStr v)) (sorted_list_of_fmap f)))"

definition sliceJson :: "go_slice \<Rightarrow> jsval" where
  "sliceJson s = (case s of None \<Rightarrow> JNull | Some xs \<Rightarrow> JArr (map JStr xs))"

definition baseJson :: "base_conf \<Rightarrow> (string \<times> jsval) list" where
  "baseJson b =
     [(''name'', JStr (ProxyName b)), (''type'', JStr (ProxyType b)),
      (''use_encryption'', JBool (UseEncryption b)), (''use_compression'', JBool (UseCompression b)),
      (''group'', JStr (Group b)), (''group_key'', JStr (GroupKey b)),
      (''proxy_protocol_version'', JStr (ProxyProtocolVersion b)),
      (''bandwidth_limit'', JStr (bw_s (BandwidthLimit b))), (''metas'', mapJson (Metas b)),
      (''local_ip'', JStr (LocalIP (localSvr b))), (''local_port'', JNum (LocalPort (localSvr b))),
      (''plugin'', JStr (Plugin (localSvr b))), (''PluginParams'', mapJson (PluginParams (localSvr b))),
      (''health_check_type'', JStr (HealthCheckType (healthCheck b))),
      (''health_check_timeout_s'', JNum (HealthCheckTimeoutS (healthCheck b))),
      (''health_check_max_failed'', JNum (HealthCheckMaxFailed (healthCheck b))),
      (''health_check_interval_s'', JNum (HealthCheckIntervalS (healthCheck b))),
      (''health_check_url'', JStr (HealthCheckURL (healthCheck b))),
      (''HealthCheckAddr'', JStr (HealthCheckAddr (healthCheck b)))]"

definition domainJson :: "domain_conf \<Rightarrow> (string \<times> jsval) list" where
  "domainJson d = [(''custom_domains'', sliceJson (CustomDomains d)), (''subdomain'', JStr (SubDomain d))]"

definition roleJson :: "string \<Rightarrow> string \<Rightarrow> (string \<times> jsval) list" where
  "roleJson r k = [(''role'', JStr r), (''sk'', JStr k)]"

fun confFields :: "proxy_conf \<Rightarrow> (string \<times> jsval) list" where
  "confFields (TCPProxyConf b p) = baseJson b @ [(''remote_port'', JNum p)]"
| "confFields (TCPMuxProxyConf b d u m) = baseJson b @ domainJson d @
     [(''route_by_http_user'', JStr u), (''Multiplexer'', JStr m)]"
| "confFields (UDPProxyConf b p) = baseJson b @ [(''remote_port'', JNum p)]"
| "confFields (HTTPProxyConf b d h) = baseJson b @ domainJson d @
     [(''locations'', sliceJson (Locations h)), (''http_user'', JStr (HTTPUser h)), (''http_pwd'', JStr (HTTPPwd h)),
      (''host_header_rewrite'', JStr (HostHeaderRewrite h)), (''headers'', mapJson (Headers h)),
      (''route_by_http_user'', JStr (RouteByHTTPUser h))]"
| "confFields (HTTPSProxyConf b d) = baseJson b @ domainJson d"
| "confFields (STCPProxyConf b r k) = baseJson b @ roleJson r k"
| "confFields (XTCPProxyConf b r k) = baseJson b @ roleJson r k"
| "confFields (SUDPProxyConf b r k) = baseJson b @ roleJson r k"

section \<open>What leaves the server\<close>

text \<open>The fields of the output structures, with the zero values they are created with.\<close>

definition baseOut :: "(string \<times> jsval) list" where
  "baseOut = baseJson ((defaultBaseProxyConf [])\<lparr> localSvr := \<lparr> LocalIP = [], LocalPort = 0, Plugin = [], PluginParams = None \<rparr> \<rparr>)"

definition domainOut :: "(string \<times> jsval) list" where
  "domainOut = domainJson zeroDomain"

definition getConfByType :: "string \<Rightarrow> (string \<times> jsval) list option" where
  "getConfByType ty =
     (if ty = ''tcp'' then Some (baseOut @ [(''remote_port'', JNum 0)])
      else if ty = ''tcpmux'' then Some (baseOut @ domainOut @ [(''multiplexer'', JStr [])])
      else if ty = ''udp'' then Some (baseOut @ [(''remote_port'', JNum 0)])
      else if ty = ''http'' then Some (baseOut @ domainOut @ [(''locations'', JNull), (''host_header_rewrite'', JStr [])])
      else if ty = ''https'' then Some (baseOut @ domainOut)
      else if ty = ''stcp'' then Some baseOut
      else if ty = ''xtcp'' then Some baseOut
      else None)"

text \<open>
  \<open>json.Unmarshal\<close> into a structure fills the fields whose name is a key of the object, without regard
  to case, and ignores the other keys; into no structure (nil) it keeps the whole object.
\<close>

definition unmarshalInto :: "(string \<times> jsval) list \<Rightarrow> (string \<times> jsval) list option \<Rightarrow> jsval" where
  "unmarshalInto content target =
     (case target of
        None \<Rightarrow> JObj content
      | Some fs \<Rightarrow> JObj (map (\<lambda>(k, z). (k,
          case find (\<lambda>(k', v). toLower k' = toLower k) content of None \<Rightarrow> z | Some (k', v) \<Rightarrow> v)) fs))"

definition outConf :: "string \<Rightarrow> proxy_conf \<Rightarrow> jsval" where
  "outConf ty c = unmarshalInto (confFields c) (getConfByType ty)"

definition confAndStatus :: "(string \<rightharpoonup> proxy_conf) \<Rightarrow> proxy_stats \<Rightarrow> jsval \<times> string" where
  "confAndStatus byName ps =
     (case byName (px_Name ps) of
        Some c \<Rightarrow> (outConf (px_Type ps) c, ''online'')
      | None \<Rightarrow> (JNull, ''offline''))"

definition statsJson :: "(string \<rightharpoonup> proxy_conf) \<Rightarrow> proxy_stats \<Rightarrow> jsval" where
  "statsJson byName ps = (let (conf, status) = confAndStatus byName ps in
     JObj [(''name'', JStr (px_Name ps)), (''conf'', conf),
       (''today_traffic_in'', JNum (sint (px_TodayTrafficIn ps))),
       (''today_traffic_out'', JNum (sint (px_TodayTrafficOut ps))),
       (''cur_conns'', JNum (px_CurConns ps)), (''last_start_time'', JStr (px_LastStartTime ps)),
       (''last_close_time'', JStr (px_LastCloseTime ps)), (''status'', JStr status)])"

section \<open>The handlers\<close>

type_synonym api_reply = "int \<times> jsval"

definition APIProxyByType :: "(string \<rightharpoonup> proxy_conf) \<Rightarrow> proxy_stats list \<Rightarrow> api_reply" where
  "APIProxyByType byName stats = (200, JObj [(''proxies'', JArr (map (statsJson byName) stats))])"

definition APIProxyByTypeAndName :: "(string \<rightharpoonup> proxy_conf) \<Rightarrow> proxy_stats option \<Rightarrow> api_reply" where
  "APIProxyByTypeAndName byName stats =
     (case stats of None \<Rightarrow> (404, JStr ''no proxy info found'') | Some ps \<Rightarrow> (200, statsJson byName ps))"

definition trafficJson :: "proxy_traffic_info \<Rightarrow> jsval" where
  "trafficJson info = JObj [(''name'', JStr (pt_Name info)),
     (''traffic_in'', JArr (map (\<lambda>n. JNum (sint n)) (pt_TrafficIn info))),
     (''traffic_out'', JArr (map (\<lambda>n. JNum (sint n)) (pt_TrafficOut info)))]"

definition APIProxyTraffic :: "proxy_traffic_info option \<Rightarrow> api_reply" where
  "APIProxyTraffic info =
     (case info of None \<Rightarrow> (404, JStr ''no proxy info found'') | Some i \<Rightarrow> (200, trafficJson i))"

text \<open>\<open>types\<close> are the keys of the map of the counts.\<close>

definition APIServerInfo :: "string \<Rightarrow> server_conf \<Rightarrow> string list \<Rightarrow> server_stats \<Rightarrow> api_reply" where
  "APIServerInfo ver cfg types st = (200, JObj
     [(''version'', JStr ver), (''bind_port'', JNum (BindPort cfg)), (''bind_udp_port'', JNum (BindUDPPort cfg)),
      (''vhost_http_port'', JNum (VhostHTTPPort cfg)), (''vhost_https_port'', JNum (VhostHTTPSPort cfg)),
      (''kcp_bind_port'', JNum (KCPBindPort cfg)), (''subdomain_host'', JStr (SubDomainHost cfg)),
      (''max_pool_count'', JNum (MaxPoolCount cfg)), (''max_ports_per_client'', JNum (MaxPortsPerClient cfg)),
      (''heart_beat_timeout'', JNum (HeartbeatTimeout cfg)),
      (''total_traffic_in'', JNum (sint (sv_TotalTrafficIn st))),
      (''total_traffic_out'', JNum (sint (sv_TotalTrafficOut st))),
      (''cur_conns'', JNum (sv_CurConns st)), (''client_counts'', JNum (sv_ClientCounts st)),
      (''proxy_type_count'', JObj (List.map_filter (\<lambda>t. map_option (\<lambda>n. (t, JNum n)) (sv_ProxyTypeCounts st t)) types))])"

lemmas api_defs [go_defs] =
  outConf_def confAndStatus_def statsJson_def APIProxyByType_def APIProxyByTypeAndName_def trafficJson_def
  APIProxyTraffic_def APIServerInfo_def

section \<open>Lemmas\<close>

definition outTypes :: "string list" where
  "outTypes = [''tcp'', ''tcpmux'', ''udp'', ''http'', ''https'', ''stcp'', ''xtcp'']"

definition secretFields :: "string list" where
  "secretFields = [''sk'', ''role'', ''http_user'', ''http_pwd'', ''headers'']"

definition secretFree :: "string \<Rightarrow> bool" where
  "secretFree ty = (case getConfByType ty of None \<Rightarrow> False
     | Some fs \<Rightarrow> list_all (\<lambda>k. k \<notin> set (map fst fs)) secretFields)"

lemma out_types_secret_free: "list_all secretFree outTypes"
  by code_simp

lemma out_no_secret:
  assumes "ty \<in> set outTypes" and "k \<in> set secretFields"
  shows "\<exists>fs. getConfByType ty = Some fs \<and> k \<notin> fst ` set fs"
proof -
  have "secretFree ty" using out_types_secret_free assms(1) by (simp add: list_all_iff)
  then show ?thesis using assms(2) by (auto simp: secretFree_def list_all_iff split: option.splits)
qed

lemma map_of_mapped: "map_of (map (\<lambda>(k, z). (k, f k z)) fs) k = map_option (f k) (map_of fs k)"
  by (induction fs) auto

lemma jsField_unmarshal:
  "jsField (unmarshalInto content (Some fs)) k =
     (case map_of fs k of None \<Rightarrow> JUndef
      | Some z \<Rightarrow> (case find (\<lambda>(k', v). toLower k' = toLower k) content of None \<Rightarrow> z | Some (k', v) \<Rightarrow> v))"
  by (simp add: unmarshalInto_def map_of_mapped split: option.split)

lemma jsField_unmarshal_absent: "k \<notin> fst ` set fs \<Longrightarrow> jsField (unmarshalInto content (Some fs)) k = JUndef"
  by (simp add: jsField_unmarshal map_of_eq_None_iff [THEN iffD2])

definition baseNames :: "string list" where
  "baseNames = [''name'', ''type'', ''use_encryption'', ''use_compression'', ''group'', ''group_key'',
     ''proxy_protocol_version'', ''bandwidth_limit'', ''metas'', ''local_ip'', ''local_port'', ''plugin'',
     ''PluginParams'', ''health_check_type'', ''health_check_timeout_s'', ''health_check_max_failed'',
     ''health_check_interval_s'', ''health_check_url'', ''HealthCheckAddr'']"

lemma baseJson_names: "map fst (baseJson b) = baseNames"
  by (simp add: baseJson_def baseNames_def)

lemma find_skip: "list_all (\<lambda>k'. toLower k' \<noteq> toLower k) (map fst xs) \<Longrightarrow>
    find (\<lambda>(k', v). toLower k' = toLower k) (xs @ ys) = find (\<lambda>(k', v). toLower k' = toLower k) ys"
  by (induction xs) auto

lemma map_of_skip: "k \<notin> set (map fst xs) \<Longrightarrow> map_of (xs @ ys) k = map_of ys k"
  by (induction xs) auto

lemma remote_port_new: "list_all (\<lambda>k'. toLower k' \<noteq> toLower ''remote_port'') baseNames" "''remote_port'' \<notin> set baseNames"
  by code_simp+

lemma remote_port_out:
  "jsField (outConf ''tcp'' (TCPProxyConf b p)) ''remote_port'' = JNum p"
  "jsField (outConf ''udp'' (UDPProxyConf b p)) ''remote_port'' = JNum p"
proof -
  have f: "find (\<lambda>(k', v). toLower k' = toLower ''remote_port'') (baseJson b @ [(''remote_port'', JNum p)]) =
      Some (''remote_port'', JNum p)"
    by (subst find_skip) (simp_all add: baseJson_names remote_port_new)
  have m: "map_of (baseOut @ [(''remote_port'', JNum 0)]) ''remote_port'' = Some (JNum 0)"
    unfolding baseOut_def by (subst map_of_skip) (simp_all add: baseJson_names remote_port_new)
  have "jsField (unmarshalInto (baseJson b @ [(''remote_port'', JNum p)]) (Some (baseOut @ [(''remote_port'', JNum 0)])))
      ''remote_port'' = JNum p"
    unfolding jsField_unmarshal m f by simp
  then show "jsField (outConf ''tcp'' (TCPProxyConf b p)) ''remote_port'' = JNum p"
    "jsField (outConf ''udp'' (UDPProxyConf b p)) ''remote_port'' = JNum p"
    unfolding outConf_def getConfByType_def by simp_all
qed

lemma map_filter_of:
  "map_of (List.map_filter (\<lambda>t. map_option (\<lambda>n. (t, g n)) (m t)) ts) t =
     (if t \<in> set ts then map_option g (m t) else None)"
  by (induction ts) (auto simp: List.map_filter_def split: option.splits)

section \<open>Properties\<close>

text \<open>
  The configuration of an online proxy that the dashboard shows has no secret key, role, http user,
  http password or header, whatever its configuration is, for every type but sudp; a sudp proxy is
  served its whole configuration, with its secret key.
\<close>
lemma online_conf_secrets:
  assumes "byName (px_Name ps) = Some c"
  shows "(if px_Type ps \<in> set outTypes
      then list_all (\<lambda>k. jsField (jsField (statsJson byName ps) ''conf'') k = JUndef) secretFields
      else jsField (statsJson byName ps) ''conf'' = JObj (confFields c)) \<and>
    (c = SUDPProxyConf b r k \<and> px_Type ps = ''sudp'' \<longrightarrow>
      jsField (jsField (statsJson byName ps) ''conf'') ''sk'' = JStr k)"
proof -
  have conf: "jsField (statsJson byName ps) ''conf'' = outConf (px_Type ps) c"
    using assms by (simp add: statsJson_def confAndStatus_def)
  have none: "getConfByType ty = None" if "ty \<notin> set outTypes" for ty
    using that by (auto simp: getConfByType_def outTypes_def)
  have "jsField (outConf ty c) x = JUndef" if "ty \<in> set outTypes" "x \<in> set secretFields" for ty x
    using out_no_secret [OF that] jsField_unmarshal_absent by (auto simp: outConf_def)
  moreover have "outConf ty c = JObj (confFields c)" if "ty \<notin> set outTypes" for ty
    using none [OF that] by (simp add: outConf_def unmarshalInto_def)
  moreover have "''sudp'' \<notin> set outTypes" by (simp add: outTypes_def)
  ultimately show ?thesis
    unfolding conf by (auto simp: list_all_iff baseJson_def roleJson_def)
qed

end
