(* ===== verification/Templates.thy ===== *)
theory Templates
  imports VueViews GoStrings
begin

text \<open>
  Single-file components of Vue: the template as a tree, the names its script gives it, what it renders
  in a scope, and what in it refers to nothing. A template is translated node by node from a
  \<^verbatim>\<open>.vue\<close> file; the elements of the user interface library are names of tags.
\<close>

section \<open>Templates\<close>

text \<open>
  The expressions of attributes and of \<open>{{ }}\<close>: a path of properties that starts at a name, a strict
  comparison with a text, a number, and an object of texts.
\<close>

datatype vexpr = Path string "string list" | StrictEq vexpr string | Number int | Texts "(string \<times> string) list"

datatype vattr =
    Attr string string
  | Flag string
  | Bind string vexpr
  | On string string
  | Ref string
  | UseRef string string
  | Model string
  | SlotScope string
  | VIf vexpr
  | VElse

datatype vnode = El string "vattr list" "vnode list" | Words string | Show vexpr

section \<open>Rendering\<close>

type_synonym scope = "(string \<times> jsval) list"

fun evalExpr :: "scope \<Rightarrow> vexpr \<Rightarrow> jsval" where
  "evalExpr sc (Path x fs) = foldl jsField (case map_of sc x of None \<Rightarrow> JUndef | Some v \<Rightarrow> v) fs"
| "evalExpr sc (StrictEq e s) = JBool (evalExpr sc e = JStr s)"
| "evalExpr sc (Number n) = JNum n"
| "evalExpr sc (Texts ts) = JObj (map (\<lambda>(k, s). (k, JStr s)) ts)"

fun attrValue :: "scope \<Rightarrow> vattr \<Rightarrow> (string \<times> jsval) list" where
  "attrValue sc (Attr a s) = [(a, JStr s)]"
| "attrValue sc (Bind a e) = [(a, evalExpr sc e)]"
| "attrValue sc (Flag a) = [(a, JStr [])]"
| "attrValue sc _ = []"

datatype shown = Shown string "(string \<times> jsval) list" "shown list" | Value jsval | Literal string

definition condOf :: "vnode \<Rightarrow> vexpr option" where
  "condOf n = (case n of El t as ns \<Rightarrow> (case [e. VIf e \<leftarrow> as] of [] \<Rightarrow> None | e # es \<Rightarrow> Some e) | _ \<Rightarrow> None)"

definition isElse :: "vnode \<Rightarrow> bool" where
  "isElse n = (case n of El t as ns \<Rightarrow> VElse \<in> set as | _ \<Rightarrow> False)"

text \<open>A node with \<open>v-else\<close> is rendered when the condition of the node before it does not hold.\<close>

fun render :: "scope \<Rightarrow> vnode \<Rightarrow> shown" and renders :: "scope \<Rightarrow> bool \<Rightarrow> vnode list \<Rightarrow> shown list" where
  "render sc (El t as ns) = Shown t (concat (map (attrValue sc) as)) (renders sc False ns)"
| "render sc (Words s) = Literal s"
| "render sc (Show e) = Value (evalExpr sc e)"
| "renders sc skip [] = []"
| "renders sc skip (n # ns) =
     (if skip \<and> isElse n then renders sc False ns
      else case condOf n of
        None \<Rightarrow> render sc n # renders sc False ns
      | Some e \<Rightarrow> if evalExpr sc e = JBool True then render sc n # renders sc True ns else renders sc False ns)"

text \<open>The values of a rendered tree, in the order of the page.\<close>

fun shownValues :: "shown \<Rightarrow> jsval list" where
  "shownValues (Shown t as ns) = concat (map shownValues ns)"
| "shownValues (Value v) = [v]"
| "shownValues (Literal s) = []"

section \<open>Components\<close>

text \<open>
  What the script of a component declares: its imports, the initial data, the properties it is given,
  the methods called when it is created and when the route changes, its methods, the methods of the
  prototype it calls on \<open>this\<close>, and its local components.
\<close>

record component =
  co_imports :: "string list"
  co_data :: "(string \<times> jsval) list"
  co_props :: "string list"
  co_created :: "string list"
  co_watch :: "(string \<times> string) list"
  co_methods :: "string list"
  co_inherited :: "string list"
  co_components :: "(string \<times> string) list"

text \<open>
  What the entry file gives every component: the elements it registers and its prototype; and how it
  mounts the application: its other imports with their modules, the element, the template and the
  components of the root.
\<close>

record vue_app =
  app_imports :: "string list"
  app_modules :: "(string \<times> string) list"
  app_uses :: "string list"
  app_prototype :: "string list"
  app_locale :: string
  app_tip :: bool
  app_el :: string
  app_router :: string
  app_template :: vnode
  app_components :: "string list"

text \<open>The file of the router: its imports, its plug-ins, and a path, a name and a component for each route.\<close>

record vue_router =
  ro_modules :: "(string \<times> string) list"
  ro_uses :: "string list"
  ro_routes :: "(string \<times> string \<times> string) list"

text \<open>
  The library names the tags of its elements: the name of the element with a prefix, in lower case with
  hyphens. The model takes the tags as a parameter, and \<open>elementTags\<close> states this of the elements
  that the applications use.
\<close>

fun hyphenate :: "string \<Rightarrow> string" where
  "hyphenate [] = []"
| "hyphenate (c # cs) = (if lowerChar c \<noteq> c then CHR ''-'' # lowerChar c # hyphenate cs else c # hyphenate cs)"

definition elTag :: "string \<Rightarrow> string" where
  "elTag name = ''el'' @ hyphenate name"

definition elementTags :: "(string \<Rightarrow> string) \<Rightarrow> bool" where
  "elementTags tag \<longleftrightarrow> (\<forall>n \<in> set [''Button'', ''Form'', ''FormItem'', ''Row'', ''Col'', ''Table'', ''TableColumn'',
     ''Popover'', ''Menu'', ''Submenu'', ''MenuItem'', ''Tag'', ''Input'']. tag n = elTag n)"

section \<open>References to nothing\<close>

datatype problem =
    UnknownTag string
  | UnknownName string
  | UnknownRef string
  | UnknownMethod string
  | NotImported string
  | NotOnPrototype string

fun exprNames :: "vexpr \<Rightarrow> string list" where
  "exprNames (Path x fs) = [x]"
| "exprNames (StrictEq e s) = exprNames e"
| "exprNames _ = []"

fun attrNames :: "vattr \<Rightarrow> string list" where
  "attrNames (Bind a e) = exprNames e"
| "attrNames (On ev f) = [f]"
| "attrNames (Model x) = [x]"
| "attrNames (VIf e) = exprNames e"
| "attrNames _ = []"

definition scopeNames :: "vattr list \<Rightarrow> string list" where
  "scopeNames as = [x. SlotScope x \<leftarrow> as]"

fun refsOf :: "vnode \<Rightarrow> string list" where
  "refsOf (El t as ns) = [r. Ref r \<leftarrow> as] @ concat (map refsOf ns)"
| "refsOf (Words s) = []"
| "refsOf (Show e) = []"

definition unknown :: "string list \<Rightarrow> string list \<Rightarrow> problem list" where
  "unknown names used = map UnknownName (filter (\<lambda>x. x \<notin> set names) used)"

fun check :: "string list \<Rightarrow> string list \<Rightarrow> string list \<Rightarrow> vnode \<Rightarrow> problem list" where
  "check tags refs names (El t as ns) =
     (if t \<in> set tags then [] else [UnknownTag t]) @
     unknown (scopeNames as @ names) (concat (map attrNames as)) @
     [UnknownRef r. UseRef d r \<leftarrow> as, r \<notin> set refs] @
     concat (map (check tags refs (scopeNames as @ names)) ns)"
| "check tags refs names (Words s) = []"
| "check tags refs names (Show e) = unknown names (exprNames e)"

text \<open>The tags of HTML that the templates use, and those of Vue and of its router.\<close>

definition nativeTags :: "string list" where
  "nativeTags = [''div'', ''span'', ''header'', ''section'', ''footer'', ''a'', ''template'', ''router-view'']"

definition problems :: "(string \<Rightarrow> string) \<Rightarrow> vue_app \<Rightarrow> component \<Rightarrow> vnode \<Rightarrow> problem list" where
  "problems tag app c t =
     check (nativeTags @ map tag (app_uses app) @ map fst (co_components c)) (refsOf t)
       (map fst (co_data c) @ co_props c @ co_methods c) t @
     [UnknownMethod f. f \<leftarrow> co_created c @ map snd (co_watch c), f \<notin> set (co_methods c)] @
     [NotImported x. x \<leftarrow> map snd (co_components c), x \<notin> set (co_imports c)] @
     [NotImported x. x \<leftarrow> app_uses app, x \<notin> set (app_imports app)] @
     [NotOnPrototype f. f \<leftarrow> co_inherited c, f \<notin> set (app_prototype app)]"

text \<open>The same of the root of an application, and of its router.\<close>

definition rootProblems :: "vue_app \<Rightarrow> problem list" where
  "rootProblems app =
     check (app_components app) [] [] (app_template app) @
     [NotImported x. x \<leftarrow> app_locale app # app_router app # app_components app, x \<notin> fst ` set (app_modules app)]"

definition routerProblems :: "vue_router \<Rightarrow> problem list" where
  "routerProblems r =
     [NotImported x. x \<leftarrow> ro_uses r @ map (snd \<circ> snd) (ro_routes r), x \<notin> fst ` set (ro_modules r)]"

text \<open>The frame that both applications have around their pages, and an item of the menu.\<close>

definition menuItem :: "string \<times> string \<Rightarrow> vnode" where
  "menuItem e = El ''el-menu-item'' [Attr ''index'' (fst e)] [Words (snd e)]"

definition appFrame :: "string \<Rightarrow> vnode list \<Rightarrow> vnode" where
  "appFrame brand items =
     El ''div'' [Attr ''id'' ''app'']
       [El ''header'' [Attr ''class'' ''grid-content header-color'']
          [El ''el-row'' [] [El ''a'' [Attr ''class'' ''brand'', Attr ''href'' ''#''] [Words brand]]],
        El ''section'' []
          [El ''el-row'' []
             [El ''el-col'' [Attr ''id'' ''side-nav'', Bind ''xs'' (Number 24), Bind ''md'' (Number 4)]
                [El ''el-menu'' [Attr ''default-active'' ''1'', Attr ''mode'' ''vertical'', Attr ''theme'' ''light'',
                   Attr ''router'' ''false'', On ''select'' ''handleSelect''] items],
              El ''el-col'' [Bind ''xs'' (Number 24), Bind ''md'' (Number 20)]
                [El ''div'' [Attr ''id'' ''content''] [El ''router-view'' [] []]]]],
        El ''footer'' [] []]"

section \<open>Lemmas\<close>

lemma problems_elTag:
  assumes "elementTags tag" and "set (app_uses app) \<subseteq> set [''Button'', ''Form'', ''FormItem'', ''Row'', ''Col'', ''Table'',
     ''TableColumn'', ''Popover'', ''Menu'', ''Submenu'', ''MenuItem'', ''Tag'', ''Input'']"
  shows "problems tag app c t = problems elTag app c t"
proof -
  have "map tag (app_uses app) = map elTag (app_uses app)"
    using assms unfolding elementTags_def by (intro map_cong refl) blast
  then show ?thesis by (simp only: problems_def)
qed

text \<open>The properties a template reads of a name, as far as they are one step below it.\<close>

fun exprReads :: "string \<Rightarrow> vexpr \<Rightarrow> string list list" where
  "exprReads x (Path y fs) = (if x = y then [fs] else [])"
| "exprReads x (StrictEq e s) = exprReads x e"
| "exprReads x _ = []"

fun attrReads :: "string \<Rightarrow> vattr \<Rightarrow> string list list" where
  "attrReads x (Bind a e) = exprReads x e"
| "attrReads x (VIf e) = exprReads x e"
| "attrReads x _ = []"

fun nodeReads :: "string \<Rightarrow> vnode \<Rightarrow> string list list" where
  "nodeReads x (El t as ns) = concat (map (attrReads x) as) @ concat (map (nodeReads x) ns)"
| "nodeReads x (Words s) = []"
| "nodeReads x (Show e) = exprReads x e"

end
