(* ===== verification/FrpsPages.thy ===== *)
theory FrpsPages
  imports Templates DashViews
begin

text \<open>
  The templates and scripts of the frps dashboard, \<^verbatim>\<open>web/frps/src\<close>: the application
  (\<^verbatim>\<open>main.js\<close>, \<^verbatim>\<open>App.vue\<close>), the overview, the six lists of proxies and the
  traffic chart, each as the tree of its template and the declarations of its script. The bodies of the
  methods are the definitions of DashViews.
\<close>

section \<open>The application\<close>

definition frpsApp :: vue_app where
  "frpsApp = \<lparr> app_imports = [''Button'', ''Form'', ''FormItem'', ''Row'', ''Col'', ''Table'', ''TableColumn'',
       ''Popover'', ''Menu'', ''Submenu'', ''MenuItem'', ''Tag''],
     app_modules = [(''Vue'', ''vue''), (''lang'', ''element-ui/lib/locale/lang/en''), (''locale'', ''element-ui/lib/locale''),
       ([], ''element-ui/lib/theme-chalk/index.css''), ([], ''./utils/less/custom.less''), (''App'', ''./App.vue''),
       (''router'', ''./router''), ([], ''whatwg-fetch'')],
     app_uses = frpsComponents, app_prototype = frpsPrototype, app_locale = ''lang'', app_tip = False, app_el = ''#app'',
     app_router = ''router'', app_template = El ''App'' [] [], app_components = [''App''] \<rparr>"

text \<open>The router; its routes are those of the pages, by the names of their components.\<close>

definition frpsRouter :: vue_router where
  "frpsRouter = \<lparr> ro_modules = [(''Vue'', ''vue''), (''Router'', ''vue-router''), (''Overview'', ''../components/Overview.vue''),
       (''ProxiesTcp'', ''../components/ProxiesTcp.vue''), (''ProxiesUdp'', ''../components/ProxiesUdp.vue''),
       (''ProxiesHttp'', ''../components/ProxiesHttp.vue''), (''ProxiesHttps'', ''../components/ProxiesHttps.vue''),
       (''ProxiesStcp'', ''../components/ProxiesStcp.vue''), (''ProxiesSudp'', ''../components/ProxiesSudp.vue'')],
     ro_uses = [''Router''],
     ro_routes = [(''/'', ''Overview'', ''Overview''), (''/proxies/tcp'', ''ProxiesTcp'', ''ProxiesTcp''),
       (''/proxies/udp'', ''ProxiesUdp'', ''ProxiesUdp''), (''/proxies/http'', ''ProxiesHttp'', ''ProxiesHttp''),
       (''/proxies/https'', ''ProxiesHttps'', ''ProxiesHttps''), (''/proxies/stcp'', ''ProxiesStcp'', ''ProxiesStcp''),
       (''/proxies/sudp'', ''ProxiesSudp'', ''ProxiesSudp'')] \<rparr>"

definition frpsTemplate :: vnode where
  "frpsTemplate = appFrame ''frp''
     [menuItem (''/'', ''Overview''),
      El ''el-submenu'' [Attr ''index'' ''/proxies'']
        (El ''template'' [Attr ''slot'' ''title''] [Words ''Proxies''] #
         map menuItem [(''/proxies/tcp'', ''TCP''), (''/proxies/udp'', ''UDP''), (''/proxies/http'', ''HTTP''),
           (''/proxies/https'', ''HTTPS''), (''/proxies/stcp'', ''STCP''), (''/proxies/sudp'', ''SUDP'')]),
      menuItem ([], ''Help'')]"

definition appScript :: component where
  "appScript = \<lparr> co_imports = [], co_data = [], co_props = [], co_created = [], co_watch = [],
     co_methods = [''handleSelect''], co_inherited = [], co_components = [] \<rparr>"

section \<open>The overview\<close>

definition spanItem :: "string \<Rightarrow> vexpr \<Rightarrow> vnode" where
  "spanItem label e = El ''el-form-item'' [Attr ''label'' label] [El ''span'' [] [Show e]]"

definition overviewTemplate :: vnode where
  "overviewTemplate =
     El ''div'' []
       [El ''el-row'' []
          [El ''el-col'' [Bind ''md'' (Number 12)]
             [El ''div'' [Attr ''class'' ''source'']
                [El ''el-form'' [Attr ''label-position'' ''left'', Attr ''class'' ''server_info'']
                   [spanItem ''Version'' (Path ''version'' []), spanItem ''BindPort'' (Path ''bind_port'' []),
                    spanItem ''BindUdpPort'' (Path ''bind_udp_port'' []),
                    spanItem ''Http Port'' (Path ''vhost_http_port'' []),
                    spanItem ''Https Port'' (Path ''vhost_https_port'' []),
                    spanItem ''Subdomain Host'' (Path ''subdomain_host'' []),
                    spanItem ''Max PoolCount'' (Path ''max_pool_count'' []),
                    spanItem ''Max Ports Per Client'' (Path ''max_ports_per_client'' []),
                    spanItem ''HeartBeat Timeout'' (Path ''heart_beat_timeout'' []),
                    spanItem ''Client Counts'' (Path ''client_counts'' []),
                    spanItem ''Current Connections'' (Path ''cur_conns'' []),
                    spanItem ''Proxy Counts'' (Path ''proxy_counts'' [])]]],
           El ''el-col'' [Bind ''md'' (Number 12)]
             [El ''div'' [Attr ''id'' ''traffic'', Attr ''style'' ''width: 400px;height:250px;margin-bottom: 30px;''] [],
              El ''div'' [Attr ''id'' ''proxies'', Attr ''style'' ''width: 400px;height:250px;''] []]]]"

definition overviewScript :: component where
  "overviewScript = \<lparr> co_imports = [''DrawTrafficChart'', ''DrawProxyChart''],
     co_data = [(''version'', JStr []), (''bind_port'', JStr []), (''bind_udp_port'', JStr []),
       (''vhost_http_port'', JStr []), (''vhost_https_port'', JStr []), (''subdomain_host'', JStr []),
       (''max_pool_count'', JStr []), (''max_ports_per_client'', JStr []), (''heart_beat_timeout'', JStr []),
       (''client_counts'', JStr []), (''cur_conns'', JStr []), (''proxy_counts'', JStr [])],
     co_props = [], co_created = [''fetchData''], co_watch = [(''$route'', ''fetchData'')],
     co_methods = [''fetchData''], co_inherited = [''$message''], co_components = [] \<rparr>"

section \<open>The lists of proxies\<close>

text \<open>The six pages have the same frame: a table, with a column that expands to the details of a row.\<close>

definition rowPath :: "string \<Rightarrow> string \<Rightarrow> vexpr" where
  "rowPath scp f = Path scp [''row'', f]"

definition detailForm :: "(string \<times> string) list \<Rightarrow> vnode" where
  "detailForm items =
     El ''el-form'' [Attr ''label-position'' ''left'', Flag ''inline'', Attr ''class'' ''demo-table-expand'']
       (map (\<lambda>(label, f). spanItem label (rowPath ''props'' f)) items)"

definition popover :: vnode where
  "popover =
     El ''el-popover'' [Ref ''popover4'', Attr ''placement'' ''right'', Attr ''width'' ''600'',
       Attr ''style'' ''margin-left:0px'', Attr ''trigger'' ''click'']
       [El ''my-traffic-chart'' [Bind ''proxy_name'' (rowPath ''props'' ''name'')] []]"

text \<open>The button of the details, with what two of the pages have on it besides.\<close>

definition detailButton :: "vattr list \<Rightarrow> vattr list \<Rightarrow> vnode" where
  "detailButton named clicked =
     El ''el-button'' ([UseRef ''popover'' ''popover4'', Attr ''type'' ''primary'', Attr ''size'' ''small'',
       Attr ''icon'' ''view''] @ named @ [Attr ''style'' ''margin-bottom:10px''] @ clicked) [Words ''Traffic Statistics'']"

definition expandColumn :: "vnode \<Rightarrow> (string \<times> string) list \<Rightarrow> vnode" where
  "expandColumn button items =
     El ''el-table-column'' [Attr ''type'' ''expand'']
       [El ''template'' [SlotScope ''props''] [popover, button, detailForm items]]"

definition columnNode :: "column \<Rightarrow> vnode list \<Rightarrow> vnode" where
  "columnNode c kids =
     El ''el-table-column''
       ([Attr ''label'' (c_label c), Attr ''prop'' (c_prop c)] @
        (case c_formatter c of None \<Rightarrow> [] | Some f \<Rightarrow> [Bind ''formatter'' (Path f [])]) @
        (if c_sortable c then [Flag ''sortable''] else [])) kids"

definition tagNodes :: "vnode list" where
  "tagNodes =
     [El ''el-tag'' [Attr ''type'' ''success'', VIf (StrictEq (rowPath ''scope'' ''status'') ''online'')]
        [Show (rowPath ''scope'' ''status'')],
      El ''el-tag'' [Attr ''type'' ''danger'', VElse] [Show (rowPath ''scope'' ''status'')]]"

text \<open>The last column shows a tag instead of the text of its field.\<close>

definition columnNodes :: "column list \<Rightarrow> vnode list" where
  "columnNodes cols =
     map (\<lambda>c. columnNode c []) (butlast cols) @ [columnNode (last cols) [El ''template'' [SlotScope ''scope''] tagNodes]]"

definition listTemplate :: "vnode \<Rightarrow> (string \<times> string) list \<Rightarrow> column list \<Rightarrow> vnode" where
  "listTemplate button items cols =
     El ''div'' []
       [El ''el-table'' [Bind ''data'' (Path ''proxies'' []),
          Bind ''default-sort'' (Texts [(''prop'', ''name''), (''order'', ''ascending'')]), Attr ''style'' ''width: 100%'']
          (expandColumn button items # columnNodes cols)]"

definition plainButton :: vnode where "plainButton = detailButton [] []"

definition clickButton :: vnode where
  "clickButton = detailButton [Bind ''name'' (rowPath ''props'' ''name'')] [On ''click'' ''fetchData2'']"

definition tcpTemplate :: vnode where "tcpTemplate = listTemplate clickButton tcpForm tcpColumns"
definition udpTemplate :: vnode where "udpTemplate = listTemplate plainButton udpForm udpColumns"
definition httpTemplate :: vnode where "httpTemplate = listTemplate plainButton httpForm httpColumns"
definition httpsTemplate :: vnode where "httpsTemplate = listTemplate plainButton httpsForm httpsColumns"
definition stcpTemplate :: vnode where "stcpTemplate = listTemplate clickButton stcpForm stcpColumns"
definition sudpTemplate :: vnode where "sudpTemplate = listTemplate clickButton sudpForm sudpColumns"

definition listScript :: "string \<Rightarrow> (string \<times> jsval) list \<Rightarrow> component" where
  "listScript row vars = \<lparr> co_imports = [''Humanize'', ''Traffic'', row], co_data = (''proxies'', JArr []) # vars,
     co_props = [], co_created = [''fetchData''], co_watch = [(''$route'', ''fetchData'')],
     co_methods = [''formatTrafficIn'', ''formatTrafficOut'', ''fetchData''], co_inherited = [],
     co_components = [(''my-traffic-chart'', ''Traffic'')] \<rparr>"

definition tcpScript :: component where "tcpScript = listScript ''TcpProxy'' []"
definition udpScript :: component where "udpScript = listScript ''UdpProxy'' []"
definition httpScript :: component where
  "httpScript = listScript ''HttpProxy'' [(''vhost_http_port'', JStr []), (''subdomain_host'', JStr [])]"
definition httpsScript :: component where
  "httpsScript = listScript ''HttpsProxy'' [(''vhost_https_port'', JStr []), (''subdomain_host'', JStr [])]"
definition stcpScript :: component where "stcpScript = listScript ''StcpProxy'' []"
definition sudpScript :: component where "sudpScript = listScript ''SudpProxy'' []"

section \<open>The traffic chart\<close>

definition trafficTemplate :: vnode where
  "trafficTemplate = El ''div'' [Bind ''id'' (Path ''proxy_name'' []), Attr ''style'' ''width: 600px;height:400px;''] []"

definition trafficScript :: component where
  "trafficScript = \<lparr> co_imports = [''DrawProxyTrafficChart''], co_data = [], co_props = [''proxy_name''],
     co_created = [''fetchData''], co_watch = [], co_methods = [''fetchData''], co_inherited = [''$message''],
     co_components = [] \<rparr>"

section \<open>What the pages refer to\<close>

definition pageProblems :: "(string \<Rightarrow> string) \<Rightarrow> frps_page \<Rightarrow> problem list" where
  "pageProblems tag p = (case p of
       Overview \<Rightarrow> problems tag frpsApp overviewScript overviewTemplate
     | ProxiesTcp \<Rightarrow> problems tag frpsApp tcpScript tcpTemplate
     | ProxiesUdp \<Rightarrow> problems tag frpsApp udpScript udpTemplate
     | ProxiesHttp \<Rightarrow> problems tag frpsApp httpScript httpTemplate
     | ProxiesHttps \<Rightarrow> problems tag frpsApp httpsScript httpsTemplate
     | ProxiesStcp \<Rightarrow> problems tag frpsApp stcpScript stcpTemplate
     | ProxiesSudp \<Rightarrow> problems tag frpsApp sudpScript sudpTemplate)"

definition trafficProblems :: "(string \<Rightarrow> string) \<Rightarrow> problem list" where
  "trafficProblems tag = problems tag frpsApp trafficScript trafficTemplate"

text \<open>The fields of a row that a list page reads: in its two scopes, and as the columns of the table.\<close>

fun columnProps :: "vnode \<Rightarrow> string list" where
  "columnProps (El t as ns) = [p. t = ''el-table-column'', Attr a p \<leftarrow> as, a = ''prop''] @ concat (map columnProps ns)"
| "columnProps (Words s) = []"
| "columnProps (Show e) = []"

definition fieldsRead :: "vnode \<Rightarrow> string list" where
  "fieldsRead t = concat (map (\<lambda>fs. case fs of [r, f] \<Rightarrow> if r = ''row'' then [f] else [] | _ \<Rightarrow> [])
     (nodeReads ''props'' t @ nodeReads ''scope'' t)) @ columnProps t"

fun fieldNames :: "jsval \<Rightarrow> string list" where
  "fieldNames (JObj fs) = map fst fs"
| "fieldNames v = []"

section \<open>Lemmas\<close>

text \<open>The details of a row, its cells and its tag, as the tables of DashViews have them.\<close>

lemma evalExpr_row [simp]: "evalExpr ((scp, JObj [(''row'', row)]) # sc) (rowPath scp f) = jsField row f"
  by (simp add: rowPath_def)

lemma spanItem_render [simp]: "condOf (spanItem l e) = None" "isElse (spanItem l e) = False"
    "shownValues (render sc (spanItem l e)) = [evalExpr sc e]"
  by (simp_all add: spanItem_def condOf_def isElse_def)

lemma details_rendered:
  "shownValues (render ((''props'', JObj [(''row'', row)]) # sc) (detailForm items)) = map snd (formItems items row)"
proof -
  let ?sc = "(''props'', JObj [(''row'', row)]) # sc"
  have "concat (map shownValues (renders ?sc False (map (\<lambda>(label, f). spanItem label (rowPath ''props'' f)) items))) =
      map (\<lambda>x. jsField row (snd x)) items"
    by (induction items) (auto simp: case_prod_beta)
  then show ?thesis by (simp add: detailForm_def formItems_def case_prod_beta comp_def)
qed

lemma tag_rendered:
  "renders ((''scope'', JObj [(''row'', row)]) # sc) False tagNodes =
     [Shown ''el-tag'' [(''type'', JStr (fst (statusTag row)))] [Value (snd (statusTag row))]]"
  by (auto simp: tagNodes_def condOf_def isElse_def statusTag_def rowPath_def)

definition overviewScope :: "overview \<Rightarrow> scope" where
  "overviewScope v = [(''version'', version v), (''bind_port'', bind_port v), (''bind_udp_port'', bind_udp_port v),
     (''vhost_http_port'', vhost_http_port v), (''vhost_https_port'', vhost_https_port v),
     (''subdomain_host'', subdomain_host v), (''max_pool_count'', max_pool_count v),
     (''max_ports_per_client'', max_ports_per_client v), (''heart_beat_timeout'', heart_beat_timeout v),
     (''client_counts'', client_counts v), (''cur_conns'', cur_conns v), (''proxy_counts'', proxy_counts v)]"

lemma overview_rendered:
  "shownValues (render (overviewScope v) overviewTemplate) = map snd (overviewForm v)"
  by (simp add: overviewTemplate_def overviewForm_def overviewScope_def condOf_def isElse_def)
    (simp add: condOf_def isElse_def spanItem_def)

lemma overview_scope_initial: "overviewScope overviewData = co_data overviewScript"
  by (simp add: overviewScope_def overviewData_def overviewScript_def)

text \<open>The check of a list page, for any table of tags and names that has what the pages share.\<close>

lemmas template_defs =
  listTemplate_def expandColumn_def popover_def detailButton_def detailForm_def spanItem_def rowPath_def
  columnNodes_def columnNode_def tagNodes_def plainButton_def clickButton_def

lemma list_check:
  assumes "set [''div'', ''span'', ''template'', ''my-traffic-chart'', ''el-table'', ''el-table-column'', ''el-popover'',
      ''el-button'', ''el-form'', ''el-form-item'', ''el-tag''] \<subseteq> set tags"
    and "set [''proxies'', ''formatTrafficIn'', ''formatTrafficOut''] \<subseteq> set names"
  shows "check tags [''popover4''] names (listTemplate plainButton items portColumns) = []"
    and "check tags [''popover4''] names (listTemplate clickButton items portColumns) = unknown (''props'' # names) [''fetchData2'']"
    and "check tags [''popover4''] names (listTemplate clickButton items streamColumns) = unknown (''props'' # names) [''fetchData2'']"
  using assms
  by (simp_all add: template_defs column_defs scopeNames_def unknown_def comp_def case_prod_beta filter_empty_conv)

lemma list_refs:
  "refsOf (listTemplate plainButton items cols) = [''popover4'']" "refsOf (listTemplate clickButton items cols) = [''popover4'']"
  by (auto simp: template_defs comp_def case_prod_beta)

lemma list_problems:
  "problems elTag frpsApp (listScript row vars) (listTemplate plainButton items portColumns) = []"
  "problems elTag frpsApp (listScript row vars) (listTemplate clickButton items portColumns) =
     unknown (map fst vars) [''fetchData2'']"
  "problems elTag frpsApp (listScript row vars) (listTemplate clickButton items streamColumns) =
     unknown (map fst vars) [''fetchData2'']"
proof -
  let ?tags = "nativeTags @ map elTag frpsComponents @ [''my-traffic-chart'']"
  have tags: "set [''div'', ''span'', ''template'', ''my-traffic-chart'', ''el-table'', ''el-table-column'', ''el-popover'',
      ''el-button'', ''el-form'', ''el-form-item'', ''el-tag''] \<subseteq> set ?tags" by code_simp
  have app: "app_uses frpsApp = frpsComponents" by (simp add: frpsApp_def)
  have imported: "[NotImported x. x \<leftarrow> frpsComponents, x \<notin> set (app_imports frpsApp)] = []" by code_simp
  note simps = problems_def listScript_def list_refs app imported unknown_def
  note C = list_check [OF tags]
  show "problems elTag frpsApp (listScript row vars) (listTemplate plainButton items portColumns) = []"
    "problems elTag frpsApp (listScript row vars) (listTemplate clickButton items portColumns) = unknown (map fst vars) [''fetchData2'']"
    "problems elTag frpsApp (listScript row vars) (listTemplate clickButton items streamColumns) = unknown (map fst vars) [''fetchData2'']"
    by (simp_all add: simps C)
qed

lemma fields_of_remdups: "remdups (fieldsRead t) = fs \<Longrightarrow> set (fieldsRead t) = set fs"
  by (metis set_remdups)

lemma fields_read:
  "\<forall>t \<in> {tcpTemplate, udpTemplate}. remdups (fieldsRead t) =
     [''type'', ''addr'', ''encryption'', ''compression'', ''last_start_time'', ''last_close_time'',
      ''name'', ''port'', ''conns'', ''traffic_in'', ''traffic_out'', ''status'']"
  "remdups (fieldsRead httpTemplate) = [''type'', ''custom_domains'', ''subdomain'', ''locations'',
     ''host_header_rewrite'', ''encryption'', ''compression'', ''last_start_time'', ''last_close_time'',
     ''name'', ''port'', ''conns'', ''traffic_in'', ''traffic_out'', ''status'']"
  "remdups (fieldsRead httpsTemplate) = [''type'', ''custom_domains'', ''subdomain'', ''encryption'',
     ''compression'', ''last_start_time'', ''last_close_time'', ''name'', ''port'', ''conns'', ''traffic_in'',
     ''traffic_out'', ''status'']"
  "\<forall>t \<in> {stcpTemplate, sudpTemplate}. remdups (fieldsRead t) =
     [''type'', ''encryption'', ''compression'', ''last_start_time'', ''last_close_time'',
      ''name'', ''conns'', ''traffic_in'', ''traffic_out'', ''status'']"
  by code_simp+

lemma fieldNames_rows:
  "fieldNames (portRow b) = [''name'', ''encryption'', ''compression'', ''conns'', ''traffic_in'', ''traffic_out'',
     ''last_start_time'', ''last_close_time'', ''status'', ''type'', ''addr'', ''port'']"
  "fieldNames (httpRow h) = [''name'', ''encryption'', ''compression'', ''conns'', ''traffic_in'', ''traffic_out'',
     ''last_start_time'', ''last_close_time'', ''status'', ''type'', ''port'', ''custom_domains'',
     ''host_header_rewrite'', ''locations'', ''subdomain'']"
  "fieldNames (httpsRow hs) = [''name'', ''encryption'', ''compression'', ''conns'', ''traffic_in'', ''traffic_out'',
     ''last_start_time'', ''last_close_time'', ''status'', ''type'', ''port'', ''custom_domains'', ''subdomain'']"
  "fieldNames (streamRow st) = [''name'', ''encryption'', ''compression'', ''conns'', ''traffic_in'', ''traffic_out'',
     ''last_start_time'', ''last_close_time'', ''status'', ''type'']"
  by (simp_all add: row_defs)

section \<open>Properties\<close>



text \<open>
  A list page shows of a row exactly what the tables of its page say: the expanded details are the
  labelled fields of the row in order, the status is a tag that is green for a proxy that is online and red
  otherwise, every field that a template reads is a field of the rows of its page, and the overview
  shows its twelve values in order.
\<close>

lemma frps_templates_show:
  "shownValues (render ((''props'', JObj [(''row'', row)]) # sc) (detailForm items)) = map snd (formItems items row) \<and>
   renders ((''scope'', JObj [(''row'', row)]) # sc) False tagNodes =
     [Shown ''el-tag'' [(''type'', JStr (fst (statusTag row)))] [Value (snd (statusTag row))]] \<and>
   shownValues (render (overviewScope v) overviewTemplate) = map snd (overviewForm v) \<and>
   set (fieldsRead tcpTemplate @ fieldsRead udpTemplate) \<subseteq> set (fieldNames (portRow b)) \<and>
   set (fieldsRead httpTemplate) \<subseteq> set (fieldNames (httpRow h)) \<and>
   set (fieldsRead httpsTemplate) \<subseteq> set (fieldNames (httpsRow hs)) \<and>
   set (fieldsRead stcpTemplate @ fieldsRead sudpTemplate) \<subseteq> set (fieldNames (streamRow st))"
  by (intro conjI details_rendered tag_rendered overview_rendered)
    (use fields_read in \<open>simp_all add: fields_of_remdups fieldNames_rows\<close>)

text \<open>The root of the application mounts, and every route of the router has its component.\<close>

fun pageComponent :: "frps_page \<Rightarrow> string" where
  "pageComponent Overview = ''Overview''"
| "pageComponent ProxiesTcp = ''ProxiesTcp''"
| "pageComponent ProxiesUdp = ''ProxiesUdp''"
| "pageComponent ProxiesHttp = ''ProxiesHttp''"
| "pageComponent ProxiesHttps = ''ProxiesHttps''"
| "pageComponent ProxiesStcp = ''ProxiesStcp''"
| "pageComponent ProxiesSudp = ''ProxiesSudp''"

lemma frps_root_resolves:
  "rootProblems frpsApp = []" "routerProblems frpsRouter = []"
  "map (\<lambda>(p, n, c). (p, c)) (ro_routes frpsRouter) = map (map_prod id pageComponent) frpsRoutes"
  by code_simp+

end
