(* ===== verification/AdminViews.thy ===== *)
theory AdminViews
  imports VueViews AdminApi
begin

text \<open>
  The pages of the frpc administration interface, \<^verbatim>\<open>web/frpc/src\<close>: the status of the proxies
  (\<^verbatim>\<open>Overview.vue\<close>) and the editor of the configuration (\<^verbatim>\<open>Configure.vue\<close>), whose
  upload is a chain of a confirmation, a PUT and a reload. The events of the editor (a click, an edit, a
  reply) may come in any order in which they can occur.
\<close>

section \<open>The application\<close>

definition frpcPrototype :: "string list" where
  "frpcPrototype = [''$msgbox'', ''$confirm'', ''$message'']"

definition frpcMenu :: "(string \<times> string) list" where
  "frpcMenu = [(''/'', ''Overview''), (''/configure'', ''Configure''), ([], ''Help'')]"

definition frpcHandleSelect :: "string \<Rightarrow> string option" where
  "frpcHandleSelect key = (if key = [] then Some ''https://github.com/fatedier/frp'' else None)"

definition frpcRoutes :: "(string \<times> string) list" where
  "frpcRoutes = [(''/'', ''Overview''), (''/configure'', ''Configure'')]"

section \<open>The status page\<close>

record status_view =
  sv_rows :: "jsval list"
  sv_requests :: "string list"
  sv_messages :: "message list"

definition statusData :: status_view where
  "statusData = \<lparr> sv_rows = [], sv_requests = [], sv_messages = [] \<rparr>"

definition statusColumns :: "(string \<times> string) list" where
  "statusColumns = [(''name'', ''name''), (''type'', ''type''), (''local address'', ''local_addr''),
     (''plugin'', ''plugin''), (''remote address'', ''remote_addr''), (''status'', ''status''), (''info'', ''err'')]"

definition statusFetch :: "status_view \<Rightarrow> status_view" where
  "statusFetch v = v\<lparr> sv_requests := sv_requests v @ [''/api/status''] \<rparr>"

definition statusLoops :: "string list" where
  "statusLoops = [''tcp'', ''udp'', ''http'', ''https'', ''stcp'', ''sudp'', ''xtcp'']"

fun pushTypes :: "jsval \<Rightarrow> string list \<Rightarrow> jsval list \<Rightarrow> jsval list \<times> js_error option" where
  "pushTypes json [] rows = (rows, None)"
| "pushTypes json (t # ts) rows =
     (case jsGet json t of Inl e \<Rightarrow> (rows, Some e)
      | Inr l \<Rightarrow> (case jsIter l of Inl e \<Rightarrow> (rows, Some e) | Inr ss \<Rightarrow> pushTypes json ts (rows @ ss)))"

definition statusFailed :: "status_view \<Rightarrow> status_view" where
  "statusFailed v =
     (case callMessage frpcPrototype \<lparr> showClose = True, messageText = ''Get status info from frpc failed!'',
        messageType = ''warning'' \<rparr> (sv_messages v) of
        Inl e \<Rightarrow> v | Inr ms \<Rightarrow> v\<lparr> sv_messages := ms \<rparr>)"

definition statusReply :: "reply \<Rightarrow> status_view \<Rightarrow> status_view" where
  "statusReply r v =
     (case r of
        Rejected e \<Rightarrow> statusFailed v
      | Json json \<Rightarrow>
          (let (rows, err) = pushTypes json statusLoops [] in
           if err = None then v\<lparr> sv_rows := rows \<rparr> else statusFailed (v\<lparr> sv_rows := rows \<rparr>)))"

section \<open>The editor of the configuration\<close>

datatype http_request = HGet string | HPut string string

record configure =
  textarea :: string
  cfg_requests :: "http_request list"
  cfg_messages :: "message list"
  getPending :: nat
  confirmPending :: nat
  putPending :: nat
  reloadPending :: nat

definition cfgData :: configure where
  "cfgData = \<lparr> textarea = [], cfg_requests = [], cfg_messages = [], getPending = 0, confirmPending = 0,
     putPending = 0, reloadPending = 0 \<rparr>"

definition say :: "bool \<Rightarrow> string \<Rightarrow> string \<Rightarrow> configure \<Rightarrow> configure" where
  "say close ty t v =
     (case callMessage frpcPrototype \<lparr> showClose = close, messageText = t, messageType = ty \<rparr> (cfg_messages v) of
        Inl e \<Rightarrow> v | Inr ms \<Rightarrow> v\<lparr> cfg_messages := ms \<rparr>)"

definition cfgFetch :: "configure \<Rightarrow> configure" where
  "cfgFetch v = v\<lparr> cfg_requests := cfg_requests v @ [HGet ''/api/config''], getPending := getPending v + 1 \<rparr>"

definition cfgText :: "string option \<Rightarrow> configure \<Rightarrow> configure" where
  "cfgText r v0 = (let v = v0\<lparr> getPending := getPending v0 - 1 \<rparr> in
     case r of Some text \<Rightarrow> v\<lparr> textarea := text \<rparr>
     | None \<Rightarrow> say True ''warning'' ''Get configure content from frpc failed!'' v)"

definition uploadConfig :: "configure \<Rightarrow> configure" where
  "uploadConfig v = v\<lparr> confirmPending := confirmPending v + 1 \<rparr>"

definition uploadConfirmed :: "configure \<Rightarrow> configure" where
  "uploadConfirmed v0 = (let v = v0\<lparr> confirmPending := confirmPending v0 - 1 \<rparr> in
     if textarea v = [] then say False ''warning'' ''Configure content can not be empty!'' v
     else v\<lparr> cfg_requests := cfg_requests v @ [HPut ''/api/config'' (textarea v)], putPending := putPending v + 1 \<rparr>)"

definition uploadCanceled :: "configure \<Rightarrow> configure" where
  "uploadCanceled v0 = say False ''info'' ''Canceled'' (v0\<lparr> confirmPending := confirmPending v0 - 1 \<rparr>)"

text \<open>The replies: \<open>Some status\<close> for a response of whatever status, \<open>None\<close> for no response.\<close>

definition putReply :: "int option \<Rightarrow> configure \<Rightarrow> configure" where
  "putReply r v0 = (let v = v0\<lparr> putPending := putPending v0 - 1 \<rparr> in
     case r of Some status \<Rightarrow>
       v\<lparr> cfg_requests := cfg_requests v @ [HGet ''/api/reload''], reloadPending := reloadPending v + 1 \<rparr>
     | None \<Rightarrow> say True ''warning'' ''Put config to frpc and hot reload failed!'' v)"

definition reloadReply :: "string \<Rightarrow> int option \<Rightarrow> configure \<Rightarrow> configure" where
  "reloadReply err r v0 = (let v = v0\<lparr> reloadPending := reloadPending v0 - 1 \<rparr> in
     case r of Some status \<Rightarrow> say False ''success'' ''Success'' v
     | None \<Rightarrow> say True ''warning'' (''Reload frpc configure file error, '' @ err) v)"

datatype cfg_event =
    Fetch
  | TextArrives "string option"
  | Edit string
  | Upload
  | Yes
  | No
  | PutReply "int option"
  | ReloadReply string "int option"

fun enabled :: "cfg_event \<Rightarrow> configure \<Rightarrow> bool" where
  "enabled (TextArrives r) v = (0 < getPending v)"
| "enabled Yes v = (0 < confirmPending v)"
| "enabled No v = (0 < confirmPending v)"
| "enabled (PutReply r) v = (0 < putPending v)"
| "enabled (ReloadReply err r) v = (0 < reloadPending v)"
| "enabled _ v = True"

fun cfgApply :: "cfg_event \<Rightarrow> configure \<Rightarrow> configure" where
  "cfgApply Fetch v = cfgFetch v"
| "cfgApply (TextArrives r) v = cfgText r v"
| "cfgApply (Edit s) v = v\<lparr> textarea := s \<rparr>"
| "cfgApply Upload v = uploadConfig v"
| "cfgApply Yes v = uploadConfirmed v"
| "cfgApply No v = uploadCanceled v"
| "cfgApply (PutReply r) v = putReply r v"
| "cfgApply (ReloadReply err r) v = reloadReply err r v"

inductive cfg_trace :: "cfg_event list \<Rightarrow> configure \<Rightarrow> bool" where
  start: "cfg_trace [] cfgData"
| event: "cfg_trace es v \<Longrightarrow> enabled e v \<Longrightarrow> cfg_trace (es @ [e]) (cfgApply e v)"

lemmas editor_defs [go_defs] =
  say_def cfgFetch_def cfgText_def uploadConfig_def uploadConfirmed_def uploadCanceled_def putReply_def
  reloadReply_def callMessage_def frpcPrototype_def Let_def

section \<open>Counting\<close>

fun isPut :: "http_request \<Rightarrow> bool" where
  "isPut (HPut u b) = True" | "isPut (HGet u) = False"

fun emptyPut :: "http_request \<Rightarrow> bool" where
  "emptyPut (HPut u b) = (b = [])" | "emptyPut (HGet u) = False"

definition isReload :: "http_request \<Rightarrow> bool" where
  "isReload r \<longleftrightarrow> r = HGet ''/api/reload''"

definition isSuccess :: "message \<Rightarrow> bool" where
  "isSuccess m \<longleftrightarrow> messageType m = ''success''"

definition howMany :: "('a \<Rightarrow> bool) \<Rightarrow> 'a list \<Rightarrow> nat" where
  "howMany p xs = length (filter p xs)"

lemma howMany_simps [simp]: "howMany p [] = 0" "howMany p (xs @ ys) = howMany p xs + howMany p ys"
  "howMany p [x] = (if p x then 1 else 0)"
  by (simp_all add: howMany_def)

lemma isReload_simps [simp]: "isReload (HGet ''/api/reload'')" "\<not> isReload (HGet ''/api/config'')" "\<not> isReload (HPut u b)"
  by (simp_all add: isReload_def)

definition uploadInv :: "cfg_event list \<Rightarrow> configure \<Rightarrow> bool" where
  "uploadInv es v \<longleftrightarrow>
     howMany emptyPut (cfg_requests v) = 0 \<and>
     howMany isSuccess (cfg_messages v) + reloadPending v \<le> howMany isReload (cfg_requests v) \<and>
     howMany isReload (cfg_requests v) + putPending v \<le> howMany isPut (cfg_requests v) \<and>
     howMany isPut (cfg_requests v) \<le> howMany (\<lambda>e. e = Yes) es \<and>
     howMany (\<lambda>e. e = Yes \<or> e = No) es + confirmPending v = howMany (\<lambda>e. e = Upload) es"

lemma uploadInv_trace:
  assumes "cfg_trace es v" shows "uploadInv es v"
  using assms
proof induction
  case start
  then show ?case by (simp add: uploadInv_def cfgData_def)
next
  case (event es v e)
  then show ?case
    by (cases e) (auto simp: uploadInv_def editor_defs isSuccess_def split: option.splits)
qed

lemma pushTypes_map:
  assumes "list_all (\<lambda>t. jsField json t = JArr (f t)) ts" and "\<not> nullish json"
  shows "pushTypes json ts rows = (rows @ concat (map f ts), None)"
  using assms(1)
proof (induction ts arbitrary: rows)
  case (Cons t ts)
  then show ?case using assms(2) by (simp add: jsGet_def)
qed simp

lemma statusResp_fields:
  "t \<in> set statusTypes \<Longrightarrow>
     jsField (statusRespJson (apiStatus serverAddr ps)) t = JArr (map statusJson (ofType serverAddr ps t))"
  by (auto simp: statusTypes_def statusRespJson_def apiStatus_def)

section \<open>Properties\<close>

text \<open>
  Whatever the user does and in whatever order replies arrive, an empty configuration is never sent,
  every upload was confirmed, every reload follows an upload that was answered, and every message of
  success follows a reload: the counts never exceed one another.
\<close>
lemma upload_order:
  assumes "cfg_trace es v"
  shows "howMany emptyPut (cfg_requests v) = 0 \<and>
    howMany isSuccess (cfg_messages v) \<le> howMany isReload (cfg_requests v) \<and>
    howMany isReload (cfg_requests v) \<le> howMany isPut (cfg_requests v) \<and>
    howMany isPut (cfg_requests v) \<le> howMany (\<lambda>e. e = Yes) es \<and>
    howMany (\<lambda>e. e = Yes) es \<le> howMany (\<lambda>e. e = Upload) es"
proof -
  have "howMany (\<lambda>e. e = Yes) es \<le> howMany (\<lambda>e. e = Yes \<or> e = No) es"
    by (induction es rule: rev_induct) auto
  then show ?thesis using uploadInv_trace [OF assms] by (simp add: uploadInv_def)
qed

definition sampleUpload :: configure where
  "sampleUpload = cfgApply (PutReply (Some 200)) (cfgApply Yes (cfgApply Upload (cfgApply (Edit ''[common]'') cfgData)))"

text \<open>
  The editor reports success for an upload whatever the server answered: the status of the response
  to the upload and to the reload is never looked at, so a rejected configuration looks accepted.
\<close>
lemma upload_status_ignored:
  "textarea v \<noteq> [] \<Longrightarrow>
   cfg_messages (foldl (\<lambda>w e. cfgApply e w) v [Upload, Yes, PutReply (Some putStatus), ReloadReply err (Some reloadStatus)]) =
     cfg_messages v @ [\<lparr> showClose = False, messageText = ''Success'', messageType = ''success'' \<rparr>]"
  by (simp add: editor_defs)

text \<open>
  The status page shows exactly the entries of the client's status interface, one row for every
  proxy of the seven types, and no failure.
\<close>
lemma status_page_shows_all:
  "mset (sv_rows (statusReply (Json (statusRespJson (apiStatus serverAddr ps))) v)) =
     mset (map (\<lambda>st. statusJson (NewProxyStatusResp st serverAddr)) (filter (\<lambda>st. ws_Type st \<in> set statusTypes) ps)) \<and>
   sv_messages (statusReply (Json (statusRespJson (apiStatus serverAddr ps))) v) = sv_messages v"
proof -
  let ?f = "\<lambda>t. map statusJson (ofType serverAddr ps t)" and ?json = "statusRespJson (apiStatus serverAddr ps)"
  have "pushTypes ?json statusLoops [] = ([] @ concat (map ?f statusLoops), None)"
  proof (rule pushTypes_map)
    show "list_all (\<lambda>t. jsField ?json t = JArr (?f t)) statusLoops"
      using statusResp_fields by (auto simp: list_all_iff statusLoops_def statusTypes_def)
    show "\<not> nullish ?json" by (simp add: statusRespJson_def)
  qed
  then have rows: "sv_rows (statusReply (Json ?json) v) = concat (map ?f statusLoops)"
    and ms: "sv_messages (statusReply (Json ?json) v) = sv_messages v"
    by (simp_all add: statusReply_def)
  have "mset (concat (map ?f statusLoops)) = mset (map statusJson (concat (map snd (apiStatus serverAddr ps))))"
    by (simp add: statusLoops_def statusTypes_def apiStatus_def)
  also have "\<dots> = image_mset statusJson (mset (concat (map snd (apiStatus serverAddr ps))))"
    by simp
  finally show ?thesis using rows ms all_status [of serverAddr ps] by (simp add: comp_def image_mset.compositionality)
qed

end
