(* ===== verification/FrpcPages.thy ===== *)
theory FrpcPages
  imports Templates AdminViews
begin

text \<open>
  The templates and scripts of the frpc administration interface, \<^verbatim>\<open>web/frpc/src\<close>: the
  application, the status of the proxies and the editor of the configuration. The bodies of the methods
  are the definitions of AdminViews.
\<close>

section \<open>The application\<close>

definition frpcApp :: vue_app where
  "frpcApp = \<lparr> app_imports = [''Button'', ''Form'', ''FormItem'', ''Row'', ''Col'', ''Table'', ''TableColumn'',
       ''Menu'', ''MenuItem'', ''MessageBox'', ''Message'', ''Input''],
     app_modules = [(''Vue'', ''vue''), (''lang'', ''element-ui/lib/locale/lang/en''), (''locale'', ''element-ui/lib/locale''),
       ([], ''element-ui/lib/theme-chalk/index.css''), ([], ''./utils/less/custom.less''), (''App'', ''./App.vue''),
       (''router'', ''./router''), ([], ''whatwg-fetch'')],
     app_uses = [''Button'', ''Form'', ''FormItem'', ''Row'', ''Col'', ''Table'', ''TableColumn'', ''Menu'', ''MenuItem'', ''Input''],
     app_prototype = frpcPrototype, app_locale = ''lang'', app_tip = False, app_el = ''#app'', app_router = ''router'',
     app_template = El ''App'' [] [], app_components = [''App''] \<rparr>"

definition frpcRouter :: vue_router where
  "frpcRouter = \<lparr> ro_modules = [(''Vue'', ''vue''), (''Router'', ''vue-router''), (''Overview'', ''../components/Overview.vue''),
       (''Configure'', ''../components/Configure.vue'')],
     ro_uses = [''Router''], ro_routes = [(''/'', ''Overview'', ''Overview''), (''/configure'', ''Configure'', ''Configure'')] \<rparr>"

definition frpcTemplate :: vnode where
  "frpcTemplate = appFrame ''frp client'' (map menuItem frpcMenu)"

definition frpcAppScript :: component where
  "frpcAppScript = \<lparr> co_imports = [], co_data = [], co_props = [], co_created = [], co_watch = [],
     co_methods = [''handleSelect''], co_inherited = [], co_components = [] \<rparr>"

section \<open>The status page\<close>

definition statusTemplate :: vnode where
  "statusTemplate =
     El ''div'' []
       [El ''el-row'' []
          [El ''el-col'' [Bind ''md'' (Number 24)]
             [El ''div'' []
                [El ''el-table'' [Bind ''data'' (Path ''status'' []), Flag ''stripe'', Attr ''style'' ''width: 100%'',
                   Bind ''default-sort'' (Texts [(''prop'', ''type''), (''order'', ''ascending'')])]
                   [El ''el-table-column'' [Attr ''prop'' ''name'', Attr ''label'' ''name''] [],
                    El ''el-table-column'' [Attr ''prop'' ''type'', Attr ''label'' ''type'', Attr ''width'' ''150''] [],
                    El ''el-table-column'' [Attr ''prop'' ''local_addr'', Attr ''label'' ''local address'', Attr ''width'' ''200''] [],
                    El ''el-table-column'' [Attr ''prop'' ''plugin'', Attr ''label'' ''plugin'', Attr ''width'' ''200''] [],
                    El ''el-table-column'' [Attr ''prop'' ''remote_addr'', Attr ''label'' ''remote address''] [],
                    El ''el-table-column'' [Attr ''prop'' ''status'', Attr ''label'' ''status'', Attr ''width'' ''150''] [],
                    El ''el-table-column'' [Attr ''prop'' ''err'', Attr ''label'' ''info''] []]]]]]"

definition statusScript :: component where
  "statusScript = \<lparr> co_imports = [], co_data = [(''status'', JArr [])], co_props = [], co_created = [''fetchData''],
     co_watch = [(''$route'', ''fetchData'')], co_methods = [''fetchData''], co_inherited = [''$message''], co_components = [] \<rparr>"

section \<open>The editor\<close>

definition configureTemplate :: vnode where
  "configureTemplate =
     El ''div'' []
       [El ''el-row'' [Attr ''id'' ''head'']
          [El ''el-button'' [Attr ''type'' ''primary'', On ''click'' ''fetchData''] [Words ''Refresh''],
           El ''el-button'' [Attr ''type'' ''primary'', On ''click'' ''uploadConfig''] [Words ''Upload'']],
        El ''el-input'' [Attr ''type'' ''textarea'', Flag ''autosize'', Model ''textarea'',
          Attr ''placeholder'' ''frpc configrue file, can not be empty...''] []]"

definition configureScript :: component where
  "configureScript = \<lparr> co_imports = [], co_data = [(''textarea'', JStr [])], co_props = [], co_created = [''fetchData''],
     co_watch = [(''$route'', ''fetchData'')], co_methods = [''fetchData'', ''uploadConfig''],
     co_inherited = [''$message'', ''$confirm''], co_components = [] \<rparr>"

section \<open>Lemmas\<close>

text \<open>The columns of the template are those of the status page, in order.\<close>

fun columnsOf :: "vnode \<Rightarrow> (string \<times> string) list" where
  "columnsOf (El t as ns) =
     [(l, p). t = ''el-table-column'', Attr a p \<leftarrow> as, a = ''prop'', Attr b l \<leftarrow> as, b = ''label''] @ concat (map columnsOf ns)"
| "columnsOf (Words s) = []"
| "columnsOf (Show e) = []"

lemma status_columns_of: "columnsOf statusTemplate = statusColumns"
  by code_simp

text \<open>Nothing in the templates of the administration interface is unknown.\<close>

lemma frpc_templates_resolve:
  assumes "elementTags tag"
  shows "problems tag frpcApp frpcAppScript frpcTemplate = []" "problems tag frpcApp statusScript statusTemplate = []"
    "problems tag frpcApp configureScript configureTemplate = []"
proof -
  have tags: "problems tag frpcApp c t = problems elTag frpcApp c t" for c t
    by (rule problems_elTag [OF assms]) (simp add: frpcApp_def)
  show "problems tag frpcApp frpcAppScript frpcTemplate = []" "problems tag frpcApp statusScript statusTemplate = []"
    "problems tag frpcApp configureScript configureTemplate = []"
    unfolding tags by code_simp+
qed

text \<open>The root of the application mounts, and every route of the router has its component, for the path of the menu.\<close>

lemma frpc_root_resolves:
  "rootProblems frpcApp = []" "routerProblems frpcRouter = []"
  "map (\<lambda>(p, n, c). (p, c)) (ro_routes frpcRouter) = frpcRoutes"
  by code_simp+

end
