(* ===== verification/Webpack.thy ===== *)
theory Webpack
  imports GoStrings
begin

text \<open>
  How the two interfaces are built and served in development: \<^verbatim>\<open>web/frps/webpack.config.js\<close> and
  \<^verbatim>\<open>web/frpc/webpack.config.js\<close>, which are the same text. A configuration is data; what is computed
  from it is which rules apply to a file and where the server of webpack forwards a request.
\<close>

section \<open>Configurations\<close>

text \<open>
  The regular expressions of the rules: a text at the end; one of several endings, which a question mark
  and more may follow; a text anywhere.
\<close>

datatype file_test = EndsWith string | EndsInOneOf "string list" | Mentions string

record loader_rule =
  lr_test :: file_test
  lr_use :: "(string \<times> (string \<times> string list) list) list"
  lr_exclude :: "file_test option"

datatype webpack_plugin =
    CommonsChunk "string list"
  | HtmlPage string string
  | NormalModuleReplacement string string
  | DefineConst string string
  | Uglify bool bool bool
  | VueLoaderPlugin

record dev_proxy =
  dp_context :: string
  dp_target :: string
  dp_changeOrigin :: bool
  dp_pathRewrite :: "(string \<times> string) list"

record webpack_config =
  wc_entry :: "(string \<times> string) list"
  wc_path :: string
  wc_filename :: string
  wc_chunkFilename :: string
  wc_publicPath :: string
  wc_extensions :: "string list"
  wc_alias :: "(string \<times> string) list"
  wc_rules :: "loader_rule list"
  wc_plugins :: "webpack_plugin list"
  wc_host :: string
  wc_port :: int
  wc_proxy :: dev_proxy
  wc_fallback :: "string option"

text \<open>The loaders of a rule have their options; a loader without options is \<open>plain\<close>.\<close>

definition plain :: "string \<Rightarrow> string \<times> (string \<times> string list) list" where
  "plain l = (l, [])"

text \<open>\<open>src\<close> is the absolute path of the directory of the sources.\<close>

definition loaderRules :: "string \<Rightarrow> loader_rule list" where
  "loaderRules src =
     [\<lparr> lr_test = EndsWith ''.vue'', lr_use = [plain ''vue-loader''], lr_exclude = None \<rparr>,
      \<lparr> lr_test = EndsWith ''.js'', lr_use = [plain ''babel-loader''], lr_exclude = Some (Mentions ''node_modules'') \<rparr>,
      \<lparr> lr_test = EndsWith ''.html'',
        lr_use = [(''html-loader'', [(''root'', [src]), (''attrs'', [''img:src'', ''link:href''])])], lr_exclude = None \<rparr>,
      \<lparr> lr_test = EndsWith ''.less'',
        lr_use = map plain [''style-loader'', ''css-loader'', ''postcss-loader'', ''less-loader''], lr_exclude = None \<rparr>,
      \<lparr> lr_test = EndsWith ''.css'', lr_use = map plain [''style-loader'', ''css-loader'', ''postcss-loader''],
        lr_exclude = None \<rparr>,
      \<lparr> lr_test = EndsWith ''favicon.png'', lr_use = [(''file-loader'', [(''name'', [''[name].[ext]?[hash]''])])],
        lr_exclude = None \<rparr>,
      \<lparr> lr_test = EndsInOneOf [''.png'', ''.jpg'', ''.jpeg'', ''.gif'', ''.eot'', ''.ttf'', ''.woff'', ''.woff2'', ''.svg'', ''.svgz''],
        lr_use = [(''url-loader'', [(''limit'', [''10000''])])], lr_exclude = Some (EndsWith ''favicon.png'') \<rparr>]"

definition publicPath :: string where "publicPath = []"

definition devProxy :: dev_proxy where
  "devProxy = \<lparr> dp_context = ''/api/'', dp_target = ''http://127.0.0.1:8080'', dp_changeOrigin = True,
     dp_pathRewrite = [(''^/api'', [])] \<rparr>"

text \<open>
  What \<open>url.parse\<close> of node says is the path name of a path without query and fragment: of the empty text
  it is null.
\<close>

definition urlPathname :: "string \<Rightarrow> string option" where
  "urlPathname u = (if u = [] then None else Some u)"

text \<open>\<open>dir\<close> is the directory of the file, \<open>dev\<close> the option of the dev script.\<close>

definition webpackConfig :: "string \<Rightarrow> bool \<Rightarrow> webpack_config" where
  "webpackConfig dir dev = \<lparr>
     wc_entry = [(''vendor'', ''./src/main'')],
     wc_path = dir @ ''/dist'',
     wc_filename = (if dev then ''[name].js'' else ''[name].js?[chunkhash]''),
     wc_chunkFilename = ''[id].js?[chunkhash]'',
     wc_publicPath = (if dev then ''/assets/'' else publicPath),
     wc_extensions = [''.js'', ''.vue'', ''.json''],
     wc_alias = [(''vue$'', ''vue/dist/vue.esm.js''), (''@'', dir @ ''/src'')],
     wc_rules = loaderRules (dir @ ''/src''),
     wc_plugins = [CommonsChunk [''vendor'', ''manifest''], HtmlPage ''src/assets/favicon.ico'' ''src/index.html'',
       NormalModuleReplacement ''element-ui/lib/locale/lang/zh-CN'' ''element-ui/lib/locale/lang/en'',
       DefineConst ''process.env.NODE_ENV'' ''production'', Uglify False False False, VueLoaderPlugin],
     wc_host = ''127.0.0.1'', wc_port = 8010, wc_proxy = devProxy,
     wc_fallback = urlPathname (if dev then ''/assets/'' else publicPath) \<rparr>"

definition frpcWebpackConfig :: "string \<Rightarrow> bool \<Rightarrow> webpack_config" where
  "frpcWebpackConfig = webpackConfig"

section \<open>Rules of a file\<close>

fun testFile :: "file_test \<Rightarrow> string \<Rightarrow> bool" where
  "testFile (EndsWith e) f = hasSuffix f e"
| "testFile (EndsInOneOf es) f =
     (\<exists>e \<in> set es. hasSuffix f e \<or>
        (\<exists>i \<in> set [0..<length f - 1]. f ! i = CHR ''?'' \<and> hasSuffix (take i f) e \<and> CHR 0x0A \<notin> set (drop (Suc i) f)))"
| "testFile (Mentions s) f = goContains f s"

definition ruleApplies :: "string \<Rightarrow> loader_rule \<Rightarrow> bool" where
  "ruleApplies f r \<longleftrightarrow> testFile (lr_test r) f \<and> (case lr_exclude r of None \<Rightarrow> True | Some t \<Rightarrow> \<not> testFile t f)"

definition rulesFor :: "string \<Rightarrow> string \<Rightarrow> loader_rule list" where
  "rulesFor src f = filter (ruleApplies f) (loaderRules src)"

section \<open>The server of webpack\<close>

text \<open>
  A request below the context of the proxy is forwarded with its path rewritten; \<open>rewrite\<close> is the
  rewriting of the package, a regular expression replaced in a path.
\<close>

definition devForward :: "((string \<times> string) list \<Rightarrow> string \<Rightarrow> string) \<Rightarrow> string \<Rightarrow> string option" where
  "devForward rewrite path =
     (if hasPrefix path (dp_context devProxy) then Some (rewrite (dp_pathRewrite devProxy) path) else None)"

definition rewriteOk :: "((string \<times> string) list \<Rightarrow> string \<Rightarrow> string) \<Rightarrow> bool" where
  "rewriteOk rewrite \<longleftrightarrow> (\<forall>rest. rewrite [(''^/api'', [])] (''/api'' @ rest) = rest)"

section \<open>Lemmas\<close>

text \<open>The files of the sources get the loaders meant for them, and the icon is not inlined.\<close>

definition loadersFor :: "string \<Rightarrow> string list list" where
  "loadersFor f = map (map fst \<circ> lr_use) (rulesFor ''/frp/src'' f)"

lemma rules_of_sources:
  "loadersFor ''src/App.vue'' = [[''vue-loader'']]"
  "loadersFor ''src/main.js'' = [[''babel-loader'']]"
  "loadersFor ''node_modules/vue/index.js'' = []"
  "loadersFor ''src/utils/less/custom.less'' = [[''style-loader'', ''css-loader'', ''postcss-loader'', ''less-loader'']]"
  "loadersFor ''theme-chalk/index.css'' = [[''style-loader'', ''css-loader'', ''postcss-loader'']]"
  "loadersFor ''fonts/element-icons.woff?t=1'' = [[''url-loader'']]"
  "loadersFor ''assets/favicon.png'' = [[''file-loader'']]"
  by code_simp+

end
