(* ===== verification/WebRouting.thy ===== *)
theory WebRouting
  imports FrpsPages FrpcPages Webpack
begin

text \<open>
  The way of a request from a page to its handler: the reference that a page gives to \<open>fetch\<close> is resolved
  against the address of the page, in development the server of webpack rewrites the path
  (\<^verbatim>\<open>webpack.config.js\<close>), and the routers of frps (\<^verbatim>\<open>server/dashboard.go\<close>) and of frpc
  (\<^verbatim>\<open>client/admin.go\<close>) pick the handler behind the middleware that asks for a password
  (\<^verbatim>\<open>pkg/util/net/http.go\<close>). The router package is a parameter with its documented behaviour.
\<close>

section \<open>Routes\<close>

datatype web_handler =
    Healthz | PprofCmdline | PprofProfile | PprofSymbol | PprofTrace | PprofIndex | Metrics
  | APIServerInfoH | APIProxyByTypeH | APIProxyByTypeAndNameH | APIProxyTrafficH
  | ApiReloadH | ApiStatusH | ApiGetConfigH | ApiPutConfigH | Favicon | Static | ToStatic

record web_route =
  wr_path :: string
  wr_prefix :: bool
  wr_methods :: "string list"
  wr_handler :: web_handler
  wr_auth :: bool

definition openRoute :: "string \<Rightarrow> bool \<Rightarrow> web_handler \<Rightarrow> web_route" where
  "openRoute path prefix h = \<lparr> wr_path = path, wr_prefix = prefix, wr_methods = [], wr_handler = h, wr_auth = False \<rparr>"

definition subRoute :: "string \<Rightarrow> bool \<Rightarrow> string list \<Rightarrow> web_handler \<Rightarrow> web_route" where
  "subRoute path prefix ms h = \<lparr> wr_path = path, wr_prefix = prefix, wr_methods = ms, wr_handler = h, wr_auth = True \<rparr>"

definition pprofRoutes :: "web_route list" where
  "pprofRoutes =
     [openRoute ''/debug/pprof/cmdline'' False PprofCmdline, openRoute ''/debug/pprof/profile'' False PprofProfile,
      openRoute ''/debug/pprof/symbol'' False PprofSymbol, openRoute ''/debug/pprof/trace'' False PprofTrace,
      openRoute ''/debug/pprof/'' True PprofIndex]"

definition dashboardRoutes :: "bool \<Rightarrow> bool \<Rightarrow> web_route list" where
  "dashboardRoutes pprofEnable enablePrometheus =
     [openRoute ''/healthz'' False Healthz] @ (if pprofEnable then pprofRoutes else []) @
     (if enablePrometheus then [subRoute ''/metrics'' False [] Metrics] else []) @
     [subRoute ''/api/serverinfo'' False [''GET''] APIServerInfoH,
      subRoute ''/api/proxy/{type}'' False [''GET''] APIProxyByTypeH,
      subRoute ''/api/proxy/{type}/{name}'' False [''GET''] APIProxyByTypeAndNameH,
      subRoute ''/api/traffic/{name}'' False [''GET''] APIProxyTrafficH,
      subRoute ''/favicon.ico'' False [''GET''] Favicon, subRoute ''/static/'' True [''GET''] Static,
      subRoute ''/'' False [] ToStatic]"

definition adminRoutes :: "bool \<Rightarrow> web_route list" where
  "adminRoutes pprofEnable =
     [openRoute ''/healthz'' False Healthz] @ (if pprofEnable then pprofRoutes else []) @
     [subRoute ''/api/reload'' False [''GET''] ApiReloadH, subRoute ''/api/status'' False [''GET''] ApiStatusH,
      subRoute ''/api/config'' False [''GET''] ApiGetConfigH, subRoute ''/api/config'' False [''PUT''] ApiPutConfigH,
      subRoute ''/favicon.ico'' False [''GET''] Favicon, subRoute ''/static/'' True [''GET''] Static,
      subRoute ''/'' False [] ToStatic]"

section \<open>Authentication\<close>

text \<open>The user and the password of the basic authentication of a request, if it has one.\<close>

definition Middleware :: "string \<Rightarrow> string \<Rightarrow> (string \<times> string) option \<Rightarrow> bool" where
  "Middleware user passwd cred = ((user = [] \<and> passwd = []) \<or>
     (case cred of None \<Rightarrow> False | Some (reqUser, reqPasswd) \<Rightarrow> reqUser = user \<and> reqPasswd = passwd))"

datatype web_answer = NotServed | Unauthorized | Served web_handler "(string \<times> string) list"

text \<open>
  \<open>mux\<close> picks a route and the variables of its path; the middleware stands before the routes of the
  sub-router.
\<close>

type_synonym mux = "web_route list \<Rightarrow> string \<Rightarrow> string \<Rightarrow> (web_route \<times> (string \<times> string) list) option"

definition serve :: "mux \<Rightarrow> web_route list \<Rightarrow> string \<Rightarrow> string \<Rightarrow> (string \<times> string) option \<Rightarrow> string \<Rightarrow> string \<Rightarrow> web_answer" where
  "serve mux routes user passwd cred meth path =
     (case mux routes meth path of
        None \<Rightarrow> NotServed
      | Some (r, vars) \<Rightarrow>
          if wr_auth r \<and> \<not> Middleware user passwd cred then Unauthorized else Served (wr_handler r) vars)"

section \<open>The documented behaviour of the router\<close>

text \<open>
  A variable of a path stands for a non-empty text without a slash; the first route in the order of
  registration whose path and method match is taken.
\<close>

definition pathVar :: "string \<Rightarrow> string option" where
  "pathVar t = (case t of c # cs \<Rightarrow> if c = CHR ''{'' then Some (butlast cs) else None | [] \<Rightarrow> None)"

fun segVars :: "string list \<Rightarrow> string list \<Rightarrow> (string \<times> string) list option" where
  "segVars [] [] = Some []"
| "segVars (t # ts) (s # ss) =
     (case pathVar t of
        Some x \<Rightarrow> if s = [] then None else map_option (Cons (x, s)) (segVars ts ss)
      | None \<Rightarrow> if t = s then segVars ts ss else None)"
| "segVars _ _ = None"

definition routeVars :: "web_route \<Rightarrow> string \<Rightarrow> string \<Rightarrow> (string \<times> string) list option" where
  "routeVars r meth path =
     (if wr_methods r \<noteq> [] \<and> meth \<notin> set (wr_methods r) then None
      else if wr_prefix r then (if hasPrefix path (wr_path r) then Some [] else None)
      else segVars (goSplit CHR ''/'' (wr_path r)) (goSplit CHR ''/'' path))"

definition muxOk :: "mux \<Rightarrow> bool" where
  "muxOk mux \<longleftrightarrow> (\<forall>routes meth path.
     (case mux routes meth path of
        None \<Rightarrow> \<forall>r \<in> set routes. routeVars r meth path = None
      | Some (r, vars) \<Rightarrow> \<exists>before after. routes = before @ r # after \<and>
          (\<forall>q \<in> set before. routeVars q meth path = None) \<and> routeVars r meth path = Some vars))"

fun firstRoute :: "web_route list \<Rightarrow> string \<Rightarrow> string \<Rightarrow> (web_route \<times> (string \<times> string) list) option" where
  "firstRoute [] meth path = None"
| "firstRoute (r # rs) meth path =
     (case routeVars r meth path of Some vars \<Rightarrow> Some (r, vars) | None \<Rightarrow> firstRoute rs meth path)"

lemma firstRoute_append:
  "\<forall>q \<in> set xs. routeVars q meth path = None \<Longrightarrow> firstRoute (xs @ ys) meth path = firstRoute ys meth path"
  by (induction xs) auto

lemma mux_first: "muxOk mux \<Longrightarrow> mux routes meth path = firstRoute routes meth path"
proof -
  assume "muxOk mux"
  then have m: "case mux routes meth path of
        None \<Rightarrow> \<forall>r \<in> set routes. routeVars r meth path = None
      | Some (r, vars) \<Rightarrow> \<exists>before after. routes = before @ r # after \<and>
          (\<forall>q \<in> set before. routeVars q meth path = None) \<and> routeVars r meth path = Some vars"
    unfolding muxOk_def by blast
  show ?thesis
  proof (cases "mux routes meth path")
    case None
    then show ?thesis using m firstRoute_append [of routes meth path "[]"] by simp
  next
    case (Some p)
    obtain r vars where rv: "p = (r, vars)" by fastforce
    obtain before after where "routes = before @ r # after" "\<forall>q \<in> set before. routeVars q meth path = None"
        "routeVars r meth path = Some vars" using m Some rv by auto
    then show ?thesis using Some rv firstRoute_append [of before meth path "r # after"] by simp
  qed
qed

lemma muxOk_firstRoute: "muxOk firstRoute"
proof -
  have none: "firstRoute routes meth path = None \<Longrightarrow> \<forall>r \<in> set routes. routeVars r meth path = None" for routes meth path
    by (induction routes) (auto split: option.splits)
  have some: "firstRoute routes meth path = Some (r, vars) \<Longrightarrow> \<exists>before after. routes = before @ r # after \<and>
      (\<forall>q \<in> set before. routeVars q meth path = None) \<and> routeVars r meth path = Some vars" for routes meth path r vars
  proof (induction routes)
    case (Cons q routes)
    show ?case
    proof (cases "routeVars q meth path")
      case None
      then obtain before after where "routes = before @ r # after" "\<forall>q \<in> set before. routeVars q meth path = None"
          "routeVars r meth path = Some vars" using Cons by auto
      then show ?thesis using None by (intro exI [of _ "q # before"] exI [of _ after]) simp
    next
      case (Some vs)
      then show ?thesis using Cons.prems by (intro exI [of _ "[]"] exI [of _ routes]) simp
    qed
  qed simp
  show ?thesis unfolding muxOk_def using none some by (simp split: option.split)
qed

section \<open>References\<close>

text \<open>
  The path that a reference of a page asks for: the reference up to a question mark or a number sign,
  resolved against the path of the page as URLs are. Percent escapes and backslashes, which URLs treat
  in their own way, do not occur in the references considered.
\<close>

definition urlPath :: "string \<Rightarrow> string" where
  "urlPath ref = takeWhile (\<lambda>c. c \<noteq> CHR ''?'' \<and> c \<noteq> CHR ''#'') ref"

fun dotSegments :: "string list \<Rightarrow> string list \<Rightarrow> string list" where
  "dotSegments acc [] = rev acc"
| "dotSegments acc (s # ss) =
     (if s = ''.'' then dotSegments (if ss = [] then [] # acc else acc) ss
      else if s = ''..'' then dotSegments (if ss = [] then [] # drop 1 acc else drop 1 acc) ss
      else dotSegments (s # acc) ss)"

definition resolveRef :: "string \<Rightarrow> string \<Rightarrow> string" where
  "resolveRef base ref =
     (let p = urlPath ref; absolute = hasPrefix p ''/'';
          start = (if absolute then [] else butlast (goSplit CHR ''/'' (drop 1 base)));
          segs = goSplit CHR ''/'' (if absolute then drop 1 p else p) in
      concat (map (Cons CHR ''/'') (dotSegments (rev start) segs)))"

text \<open>The pages are served below \<open>/static/\<close>; the routes of Vue are behind the number sign.\<close>

definition pageBase :: string where "pageBase = ''/static/''"

section \<open>Lemmas\<close>

definition nameChar :: "char \<Rightarrow> bool" where
  "nameChar c \<longleftrightarrow> c \<noteq> CHR ''/'' \<and> c \<noteq> CHR ''?'' \<and> c \<noteq> CHR ''#'' \<and> c \<noteq> CHR ''%'' \<and> c \<noteq> CHR 0x5C \<and>
     (33 \<le> (of_char c :: nat) \<and> of_char c \<le> (126 :: nat))"

definition plainName :: "string \<Rightarrow> bool" where
  "plainName n \<longleftrightarrow> n \<noteq> [] \<and> n \<noteq> ''.'' \<and> n \<noteq> ''..'' \<and> list_all nameChar n"

lemma plainName_chars: "plainName n \<Longrightarrow> CHR ''/'' \<notin> set n \<and> CHR ''?'' \<notin> set n \<and> CHR ''#'' \<notin> set n"
  by (auto simp: plainName_def list_all_iff nameChar_def)

lemma urlPath_plain: "CHR ''?'' \<notin> set n \<Longrightarrow> CHR ''#'' \<notin> set n \<Longrightarrow> urlPath n = n"
  unfolding urlPath_def by (intro takeWhile_eq_all_conv [THEN iffD2]) auto

lemma goSplit_traffic: "goSplit CHR ''/'' (''../api/traffic/'' @ n) = [''..'', ''api'', ''traffic''] @ goSplit CHR ''/'' n"
  by (cases "goSplit CHR ''/'' n") simp_all

lemma resolve_traffic:
  assumes "plainName n" and "n' = n \<or> (\<exists>c rest. n' = n @ c # rest \<and> (c = CHR ''?'' \<or> c = CHR ''#''))"
  shows "resolveRef pageBase (''../api/traffic/'' @ n') = ''/api/traffic/'' @ n"
proof -
  note N = plainName_chars [OF assms(1)]
  have "\<forall>c \<in> set n. c \<noteq> CHR ''?'' \<and> c \<noteq> CHR ''#''" using N by blast
  then have "takeWhile (\<lambda>c. c \<noteq> CHR ''?'' \<and> c \<noteq> CHR ''#'') n' = n"
    using assms(2) by (elim disjE exE conjE) (simp_all add: takeWhile_append)
  then have "urlPath (''../api/traffic/'' @ n') = ''../api/traffic/'' @ n" by (simp add: urlPath_def)
  moreover have "goSplit CHR ''/'' n = [n]" using N by (simp add: goSplit_plain)
  ultimately show ?thesis
    using assms(1) by (simp add: resolveRef_def goSplit_traffic pageBase_def hasPrefix_def plainName_def)
qed

lemmas route_defs = dashboardRoutes_def adminRoutes_def pprofRoutes_def openRoute_def subRoute_def

text \<open>The requests of the pages whose path is fixed.\<close>

lemma serve_first:
  "muxOk mux \<Longrightarrow> serve mux routes user passwd cred meth path = serve firstRoute routes user passwd cred meth path"
  by (simp add: serve_def mux_first)

lemma segVars_fixed [simp]: "pathVar (c # cs) = (if c = CHR ''{'' then Some (butlast cs) else None)" "pathVar [] = None"
  by (simp_all add: pathVar_def)

lemma serve_traffic:
  assumes "CHR ''/'' \<notin> set n" and "n \<noteq> []" and "Middleware user passwd cred"
  shows "serve firstRoute (dashboardRoutes pp pr) user passwd cred ''GET'' (''/api/traffic/'' @ n) = Served APIProxyTrafficH [(''name'', n)]"
proof -
  have "goSplit CHR ''/'' (''/api/traffic/'' @ n) = [[], ''api'', ''traffic'', n]"
    using assms(1) by (simp add: goSplit_plain)
  then show ?thesis
    using assms(2,3) by (simp add: serve_def route_defs routeVars_def hasPrefix_def)
qed

lemma page_routes:
  assumes "Middleware user passwd cred"
  shows "serve firstRoute (dashboardRoutes pp pr) user passwd cred ''GET'' ''/api/serverinfo'' = Served APIServerInfoH []"
    and "t \<in> {''tcp'', ''udp'', ''http'', ''https'', ''stcp'', ''sudp''} \<Longrightarrow>
      serve firstRoute (dashboardRoutes pp pr) user passwd cred ''GET'' (''/api/proxy/'' @ t) = Served APIProxyByTypeH [(''type'', t)]"
    and "serve firstRoute (adminRoutes pp) user passwd cred ''GET'' ''/api/status'' = Served ApiStatusH []"
    and "serve firstRoute (adminRoutes pp) user passwd cred ''GET'' ''/api/config'' = Served ApiGetConfigH []"
    and "serve firstRoute (adminRoutes pp) user passwd cred ''PUT'' ''/api/config'' = Served ApiPutConfigH []"
    and "serve firstRoute (adminRoutes pp) user passwd cred ''GET'' ''/api/reload'' = Served ApiReloadH []"
  using assms by (auto simp: serve_def route_defs routeVars_def hasPrefix_def)

lemma resolve_requests:
  "resolveRef pageBase ''../api/serverinfo'' = ''/api/serverinfo''" "resolveRef pageBase ''../api/proxy/tcp'' = ''/api/proxy/tcp''"
  "resolveRef pageBase ''../api/proxy/udp'' = ''/api/proxy/udp''" "resolveRef pageBase ''../api/proxy/http'' = ''/api/proxy/http''"
  "resolveRef pageBase ''../api/proxy/https'' = ''/api/proxy/https''" "resolveRef pageBase ''../api/proxy/stcp'' = ''/api/proxy/stcp''"
  "resolveRef pageBase ''../api/proxy/sudp'' = ''/api/proxy/sudp''" "resolveRef pageBase ''/api/status'' = ''/api/status''"
  "resolveRef pageBase ''/api/config'' = ''/api/config''" "resolveRef pageBase ''/api/reload'' = ''/api/reload''"
  by code_simp+

text \<open>The handler that the first request of a page is meant for.\<close>

definition pageHandler :: "frps_page \<Rightarrow> web_answer" where
  "pageHandler p = (case p of
       ProxiesTcp \<Rightarrow> Served APIProxyByTypeH [(''type'', ''tcp'')]
     | ProxiesUdp \<Rightarrow> Served APIProxyByTypeH [(''type'', ''udp'')]
     | ProxiesStcp \<Rightarrow> Served APIProxyByTypeH [(''type'', ''stcp'')]
     | ProxiesSudp \<Rightarrow> Served APIProxyByTypeH [(''type'', ''sudp'')]
     | _ \<Rightarrow> Served APIServerInfoH [])"

lemma pageRequest_cases:
  "pageRequest p = (case p of
       ProxiesTcp \<Rightarrow> ''../api/proxy/tcp'' | ProxiesUdp \<Rightarrow> ''../api/proxy/udp'' | ProxiesStcp \<Rightarrow> ''../api/proxy/stcp''
     | ProxiesSudp \<Rightarrow> ''../api/proxy/sudp'' | _ \<Rightarrow> ''../api/serverinfo'')"
  by (cases p) (simp_all add: pageRequest_def overviewFetch_def tcpFetch_def udpFetch_def httpFetch_def httpsFetch_def
      stcpFetch_def sudpFetch_def tableFetch_def vhostFetch_def)

section \<open>Properties\<close>

text \<open>
  With the right password every request of a page reaches the handler it is meant for: the first
  request of each of the seven pages of frps, the lists of virtual hosts, the traffic of a proxy whose
  name is made of ordinary characters, and the four requests of the two pages of frpc.
\<close>

lemma page_requests_served:
  assumes "muxOk mux" and "Middleware user passwd cred"
  shows "serve mux (dashboardRoutes pp pr) user passwd cred ''GET'' (resolveRef pageBase (pageRequest p)) = pageHandler p \<and>
    serve mux (dashboardRoutes pp pr) user passwd cred ''GET'' (resolveRef pageBase
      (last (vrequests (httpInfo (Json (JObj [(''vhost_http_port'', JNum 80)])) hv)))) = Served APIProxyByTypeH [(''type'', ''http'')] \<and>
    serve mux (dashboardRoutes pp pr) user passwd cred ''GET'' (resolveRef pageBase
      (last (vrequests (httpsInfo (Json (JObj [(''vhost_https_port'', JNum 443)])) sv)))) = Served APIProxyByTypeH [(''type'', ''https'')] \<and>
    (plainName n \<longrightarrow> serve mux (dashboardRoutes pp pr) user passwd cred ''GET'' (resolveRef pageBase
      (last (tr_requests (trafficFetch (tv\<lparr> proxy_name := JStr n \<rparr>))))) = Served APIProxyTrafficH [(''name'', n)]) \<and>
    serve mux (adminRoutes pp) user passwd cred ''GET'' (resolveRef pageBase (last (sv_requests (statusFetch st)))) = Served ApiStatusH [] \<and>
    last (cfg_requests (cfgFetch cv)) = HGet ''/api/config'' \<and>
    serve mux (adminRoutes pp) user passwd cred ''GET'' (resolveRef pageBase ''/api/config'') = Served ApiGetConfigH [] \<and>
    (textarea cv \<noteq> [] \<longrightarrow> last (cfg_requests (uploadConfirmed cv)) = HPut ''/api/config'' (textarea cv)) \<and>
    serve mux (adminRoutes pp) user passwd cred ''PUT'' (resolveRef pageBase ''/api/config'') = Served ApiPutConfigH [] \<and>
    last (cfg_requests (putReply (Some code) cv)) = HGet ''/api/reload'' \<and>
    serve mux (adminRoutes pp) user passwd cred ''GET'' (resolveRef pageBase ''/api/reload'') = Served ApiReloadH []"
proof -
  note R = page_routes [OF assms(2)]
  have types: "serve firstRoute (dashboardRoutes pp pr) user passwd cred ''GET'' ''/api/proxy/tcp'' = Served APIProxyByTypeH [(''type'', ''tcp'')]"
    "serve firstRoute (dashboardRoutes pp pr) user passwd cred ''GET'' ''/api/proxy/udp'' = Served APIProxyByTypeH [(''type'', ''udp'')]"
    "serve firstRoute (dashboardRoutes pp pr) user passwd cred ''GET'' ''/api/proxy/http'' = Served APIProxyByTypeH [(''type'', ''http'')]"
    "serve firstRoute (dashboardRoutes pp pr) user passwd cred ''GET'' ''/api/proxy/https'' = Served APIProxyByTypeH [(''type'', ''https'')]"
    "serve firstRoute (dashboardRoutes pp pr) user passwd cred ''GET'' ''/api/proxy/stcp'' = Served APIProxyByTypeH [(''type'', ''stcp'')]"
    "serve firstRoute (dashboardRoutes pp pr) user passwd cred ''GET'' ''/api/proxy/sudp'' = Served APIProxyByTypeH [(''type'', ''sudp'')]"
    using R(2) [of "''tcp''"] R(2) [of "''udp''"] R(2) [of "''http''"] R(2) [of "''https''"] R(2) [of "''stcp''"] R(2) [of "''sudp''"]
    by simp_all
  note mux = serve_first [OF assms(1)]
  have "plainName n \<Longrightarrow> serve mux (dashboardRoutes pp pr) user passwd cred ''GET'' (resolveRef pageBase
      (last (tr_requests (trafficFetch (tv\<lparr> proxy_name := JStr n \<rparr>))))) = Served APIProxyTrafficH [(''name'', n)]"
    using resolve_traffic [of n n] serve_traffic [of n user passwd cred pp pr] plainName_chars [of n] assms(2)
    by (simp add: mux trafficFetch_def plainName_def)
  moreover have "serve mux (dashboardRoutes pp pr) user passwd cred ''GET'' (resolveRef pageBase (pageRequest p)) = pageHandler p"
    by (cases p) (simp_all add: mux pageRequest_cases resolve_requests pageHandler_def R types)
  ultimately show ?thesis
    by (simp add: mux resolve_requests R types httpInfo_def httpsInfo_def vhostInfo_def statusFetch_def cfgFetch_def
        uploadConfirmed_def putReply_def)
qed

text \<open>
  Without the password nothing but the health check is served, by either server, whatever the method
  and the path of the request, unless the profiler is enabled: then all its handlers are served to
  everybody, although the password is set.
\<close>

lemma dashboard_protected:
  assumes "muxOk mux" and "\<not> Middleware user passwd cred"
  shows "serve mux (dashboardRoutes False pr) user passwd cred meth path \<in> {NotServed, Unauthorized, Served Healthz []} \<and>
    serve mux (adminRoutes False) user passwd cred meth path \<in> {NotServed, Unauthorized, Served Healthz []} \<and>
    (\<forall>r \<in> set pprofRoutes. serve mux (dashboardRoutes True pr) user passwd cred meth (wr_path r) = Served (wr_handler r) [] \<and>
      serve mux (adminRoutes True) user passwd cred meth (wr_path r) = Served (wr_handler r) [])"
proof -
  have open_only: "serve mux routes user passwd cred meth path \<in> {NotServed, Unauthorized, Served Healthz []}"
    if "\<forall>r \<in> set routes. wr_auth r \<or> wr_handler r = Healthz \<and> routeVars r meth path \<in> {None, Some []}" for routes
  proof (cases "mux routes meth path")
    case (Some x)
    obtain r vars where x: "x = (r, vars)" by fastforce
    have "r \<in> set routes \<and> routeVars r meth path = Some vars"
      using assms(1) [unfolded muxOk_def, rule_format, of routes meth path] Some x by auto
    then show ?thesis using that assms(2) Some x by (auto simp: serve_def)
  qed (simp add: serve_def)
  have healthz: "segVars [[], ''healthz''] ss \<in> {None, Some []}" for ss
    by (cases ss; cases "tl ss"; cases "tl (tl ss)") auto
  have "\<forall>r \<in> set (dashboardRoutes False pr). wr_auth r \<or> wr_handler r = Healthz \<and> routeVars r meth path \<in> {None, Some []}"
    "\<forall>r \<in> set (adminRoutes False). wr_auth r \<or> wr_handler r = Healthz \<and> routeVars r meth path \<in> {None, Some []}"
    using healthz [of "goSplit CHR ''/'' path"] by (simp_all add: route_defs routeVars_def)
  note closed = open_only [OF this(1)] open_only [OF this(2)]
  have "\<forall>r \<in> set pprofRoutes. serve firstRoute (dashboardRoutes True pr) user passwd cred meth (wr_path r) = Served (wr_handler r) [] \<and>
      serve firstRoute (adminRoutes True) user passwd cred meth (wr_path r) = Served (wr_handler r) []"
    by (simp add: serve_def route_defs routeVars_def hasPrefix_def)
  then show ?thesis using closed by (simp add: serve_first [OF assms(1)])
qed

text \<open>
  The traffic page does not escape the name of the proxy. A name that continues with a question mark
  or a number sign asks for the traffic of the proxy whose name ends there; a name with a slash asks for
  nothing that the server has, so the chart of the proxy never appears.
\<close>

lemma traffic_name_unescaped:
  assumes "muxOk mux" and "Middleware user passwd cred" and "plainName n" and "plainName m"
  shows "serve mux (dashboardRoutes pp pr) user passwd cred ''GET'' (resolveRef pageBase
      (last (tr_requests (trafficFetch (tv\<lparr> proxy_name := JStr (n @ ''?'' @ rest) \<rparr>))))) = Served APIProxyTrafficH [(''name'', n)] \<and>
    serve mux (dashboardRoutes pp pr) user passwd cred ''GET'' (resolveRef pageBase
      (last (tr_requests (trafficFetch (tv\<lparr> proxy_name := JStr (n @ ''#'' @ rest) \<rparr>))))) = Served APIProxyTrafficH [(''name'', n)] \<and>
    serve mux (dashboardRoutes pp pr) user passwd cred ''GET'' (resolveRef pageBase
      (last (tr_requests (trafficFetch (tv\<lparr> proxy_name := JStr (n @ ''/'' @ m) \<rparr>))))) = NotServed"
proof -
  note mux = serve_first [OF assms(1)]
  note N = plainName_chars [OF assms(3)] and M = plainName_chars [OF assms(4)]
  have traffic: "serve firstRoute (dashboardRoutes pp pr) user passwd cred ''GET'' (''/api/traffic/'' @ n) = Served APIProxyTrafficH [(''name'', n)]"
    using serve_traffic [of n user passwd cred pp pr] N assms(2,3) by (simp add: plainName_def)
  have split: "goSplit CHR ''/'' (n @ CHR ''/'' # m) = [n, m]"
    using N M by (simp add: goSplit_append_sep goSplit_plain)
  have "urlPath (''../api/traffic/'' @ n @ ''/'' @ m) = ''../api/traffic/'' @ n @ ''/'' @ m"
    using N M by (intro urlPath_plain) auto
  then have "resolveRef pageBase (''../api/traffic/'' @ n @ ''/'' @ m) = ''/api/traffic/'' @ n @ ''/'' @ m"
    using assms(3,4) split goSplit_traffic [of "n @ ''/'' @ m"]
    by (simp add: resolveRef_def pageBase_def hasPrefix_def plainName_def)
  moreover have "goSplit CHR ''/'' (''/api/traffic/'' @ n @ ''/'' @ m) = [[], ''api'', ''traffic'', n, m]"
    using split by simp
  then have "serve firstRoute (dashboardRoutes pp pr) user passwd cred ''GET'' (''/api/traffic/'' @ n @ ''/'' @ m) = NotServed"
    by (simp add: serve_def route_defs routeVars_def hasPrefix_def)
  ultimately show ?thesis
    using traffic resolve_traffic [OF assms(3), of "n @ ''?'' @ rest"] resolve_traffic [OF assms(3), of "n @ ''#'' @ rest"]
    by (simp add: mux trafficFetch_def)
qed

text \<open>
  The server of webpack takes the prefix \<open>/api\<close> away before it forwards a request, but every handler of
  frps has that prefix: in development no page gets an answer.
\<close>

lemma dev_requests_unserved:
  assumes "muxOk mux" and "rewriteOk rewrite" and "base \<in> {''/'', ''/assets/''}"
  shows "\<exists>path. devForward rewrite (resolveRef base (pageRequest p)) = Some path \<and>
    serve mux (dashboardRoutes pp pr) user passwd cred ''GET'' path = NotServed"
proof -
  have info: "resolveRef base ''../api/serverinfo'' = ''/api'' @ ''/serverinfo''" using assms(3) by (elim insertE emptyE) (simp_all, code_simp+)
  have list: "resolveRef base (''../api/proxy/'' @ t) = ''/api'' @ ''/proxy/'' @ t" if "t \<in> {''tcp'', ''udp'', ''stcp'', ''sudp''}" for t
    using assms(3) that by (elim insertE emptyE) (simp_all, code_simp+)
  have rw: "devForward rewrite (''/api'' @ CHR ''/'' # rest) = Some (CHR ''/'' # rest)" for rest
    using assms(2) by (simp add: devForward_def devProxy_def hasPrefix_def rewriteOk_def)
  have unserved: "serve firstRoute (dashboardRoutes pp pr) user passwd cred ''GET'' ''/serverinfo'' = NotServed"
    "serve firstRoute (dashboardRoutes pp pr) user passwd cred ''GET'' ''/proxy/tcp'' = NotServed"
    "serve firstRoute (dashboardRoutes pp pr) user passwd cred ''GET'' ''/proxy/udp'' = NotServed"
    "serve firstRoute (dashboardRoutes pp pr) user passwd cred ''GET'' ''/proxy/stcp'' = NotServed"
    "serve firstRoute (dashboardRoutes pp pr) user passwd cred ''GET'' ''/proxy/sudp'' = NotServed"
    by (simp_all add: serve_def route_defs routeVars_def hasPrefix_def)
  show ?thesis
    unfolding serve_first [OF assms(1)]
    using unserved info list [of "''tcp''"] list [of "''udp''"] list [of "''stcp''"] list [of "''sudp''"] rw [of "''serverinfo''"]
      rw [of "''proxy/tcp''"] rw [of "''proxy/udp''"] rw [of "''proxy/stcp''"] rw [of "''proxy/sudp''"]
    by (cases p) (simp_all add: pageRequest_cases)
qed

end
