(* ===== verification/Ranges.thy ===== *)
theory Ranges
  imports GoStrings "HOL-Library.Word"
begin

text \<open>
  The lists of numbers and ranges of a configuration, such as \<open>allow_ports\<close>:
  \<^verbatim>\<open>ParseRangeNumbers\<close> of \<^verbatim>\<open>pkg/util/util/util.go\<close>. The numbers are 64 bits wide. The
  loop over a range increases its counter until it exceeds the upper bound; a loop that never ends
  is \<open>None\<close>.
\<close>

section \<open>Integers\<close>

definition maxInt64 :: int where "maxInt64 = 2 ^ 63 - 1"

text \<open>
  \<^verbatim>\<open>strconv.ParseInt(s, 10, 64)\<close>; which error it is only shows in the text of a message and is
  left out.
\<close>

definition ParseInt :: "string \<Rightarrow> 64 word option" where
  "ParseInt s =
     (let neg = (s \<noteq> [] \<and> hd s = CHR ''-'');
          digits = (if s \<noteq> [] \<and> (hd s = CHR ''-'' \<or> hd s = CHR ''+'') then tl s else s) in
      if digits = [] then None
      else case readDigits 0 digits of
        None \<Rightarrow> None
      | Some n \<Rightarrow>
          if neg then (if int n \<le> maxInt64 + 1 then Some (word_of_int (- int n)) else None)
          else if int n \<le> maxInt64 then Some (word_of_int (int n)) else None)"

section \<open>Ranges\<close>

datatype range_error = NumberInvalid | RangeInvalid

text \<open>The loop \<open>for i := min; i <= max; i++\<close>.\<close>

partial_function (option) rangeLoop :: "64 word \<Rightarrow> 64 word \<Rightarrow> 64 word list \<Rightarrow> 64 word list option" where
  "rangeLoop i mx numbers =
     (if sint i \<le> sint mx then rangeLoop (i + 1) mx (numbers @ [i]) else Some numbers)"

fun rangesLoop :: "string list \<Rightarrow> 64 word list \<Rightarrow> (range_error, 64 word list) result option" where
  "rangesLoop [] numbers = Some (Inr numbers)"
| "rangesLoop (s # ss) numbers =
     (case goSplit CHR ''-'' s of
        [a] \<Rightarrow> (case ParseInt (trimSpace a) of
            None \<Rightarrow> Some (Inl NumberInvalid)
          | Some n \<Rightarrow> rangesLoop ss (numbers @ [n]))
      | [a, b] \<Rightarrow> (case ParseInt (trimSpace a) of
            None \<Rightarrow> Some (Inl NumberInvalid)
          | Some mn \<Rightarrow> (case ParseInt (trimSpace b) of
              None \<Rightarrow> Some (Inl NumberInvalid)
            | Some mx \<Rightarrow>
                if sint mx < sint mn then Some (Inl RangeInvalid)
                else (case rangeLoop mn mx numbers of None \<Rightarrow> None | Some ns \<Rightarrow> rangesLoop ss ns)))
      | _ \<Rightarrow> Some (Inl RangeInvalid))"

definition ParseRangeNumbers :: "string \<Rightarrow> (range_error, 64 word list) result option" where
  "ParseRangeNumbers rangeStr = rangesLoop (goSplit CHR '','' (trimSpace rangeStr)) []"

section \<open>The loop\<close>

lemma sint_Suc: "sint i < maxInt64 \<Longrightarrow> sint (i + 1 :: 64 word) = sint i + 1"
proof -
  assume "sint i < maxInt64"
  moreover have "- (2 ^ 63) \<le> sint i" using sint_ge [of i] by simp
  ultimately have "signed_take_bit 63 (sint i + 1) = sint i + 1"
    by (intro signed_take_bit_int_eq_self) (simp_all add: maxInt64_def)
  then show ?thesis by (simp add: sint_word_ariths)
qed

lemma sint_le_max: "sint (i :: 64 word) \<le> maxInt64"
  using sint_less [of i] by (simp add: maxInt64_def)

lemma upto_snoc_word: "sint (i :: 64 word) \<le> m \<Longrightarrow> map word_of_int [sint i..m] = i # map word_of_int [sint i + 1..m]"
  by (simp add: upto_rec1)

text \<open>A range whose upper bound is not the largest number ends, with exactly its numbers.\<close>

lemma rangeLoop_ends:
  assumes "sint mx < maxInt64"
  shows "rangeLoop i mx numbers = Some (numbers @ map word_of_int [sint i..sint mx])"
proof (induction "nat (sint mx + 1 - sint i)" arbitrary: i numbers)
  case 0
  then have "\<not> sint i \<le> sint mx" by simp
  then show ?case by (subst rangeLoop.simps) simp
next
  case (Suc k)
  then have le: "sint i \<le> sint mx" by simp
  then have next_i: "sint (i + 1) = sint i + 1" using sint_Suc assms by simp
  have "k = nat (sint mx + 1 - sint (i + 1))" using Suc.hyps(2) next_i by linarith
  from Suc.hyps(1) [OF this, of "numbers @ [i]"]
  show ?case using le next_i by (subst rangeLoop.simps) (simp add: upto_snoc_word)
qed

text \<open>A range up to the largest number never ends: the counter wraps around.\<close>

lemma rangeLoop_returns:
  assumes "rangeLoop i mx numbers = Some r"
  shows "sint mx \<noteq> maxInt64"
proof (rule rangeLoop.raw_induct [where P = "\<lambda>i mx numbers r. sint mx \<noteq> maxInt64", OF _ assms])
  fix loop :: "64 word \<Rightarrow> 64 word \<Rightarrow> 64 word list \<Rightarrow> 64 word list option" and i mx numbers r
  assume IH: "\<And>i mx numbers r. loop i mx numbers = Some r \<Longrightarrow> sint mx \<noteq> maxInt64"
    and run: "(if sint i \<le> sint mx then loop (i + 1) mx (numbers @ [i]) else Some numbers) = Some r"
  show "sint mx \<noteq> maxInt64"
    using IH [of "i + 1" mx "numbers @ [i]" r] run sint_le_max [of i] by (cases "sint i \<le> sint mx") auto
qed

lemma rangeLoop_diverges: "sint mx = maxInt64 \<Longrightarrow> rangeLoop i mx numbers = None"
  using rangeLoop_returns by (cases "rangeLoop i mx numbers") auto

section \<open>Reading what was written\<close>

text \<open>An entry of a list: a number, or a range of two.\<close>

datatype range_entry = Single int | Range int int

fun showEntry :: "range_entry \<Rightarrow> string" where
  "showEntry (Single n) = showInt n"
| "showEntry (Range lo hi) = showInt lo @ ''-'' @ showInt hi"

fun entryOk :: "range_entry \<Rightarrow> bool" where
  "entryOk (Single n) \<longleftrightarrow> 0 \<le> n \<and> n \<le> maxInt64"
| "entryOk (Range lo hi) \<longleftrightarrow> 0 \<le> lo \<and> lo \<le> hi \<and> hi \<le> maxInt64"

fun entryNumbers :: "range_entry \<Rightarrow> int list" where
  "entryNumbers (Single n) = [n]"
| "entryNumbers (Range lo hi) = [lo..hi]"

fun entryEnds :: "range_entry \<Rightarrow> bool" where
  "entryEnds (Single n) = True"
| "entryEnds (Range lo hi) = (hi < maxInt64)"

definition showRanges :: "range_entry list \<Rightarrow> string" where
  "showRanges es = goJoin '','' (map showEntry es)"

definition isDigit :: "char \<Rightarrow> bool" where
  "isDigit c \<longleftrightarrow> c \<in> set ''0123456789''"

lemma isDigit_digitChar: "n < 10 \<Longrightarrow> isDigit (digitChar n)"
  by (drule lt10_cases) (auto simp: digitChar_def isDigit_def)

lemma showNat_digits: "list_all isDigit (showNat n)"
proof (induction n rule: showNat.induct)
  case (1 n)
  then show ?case by (subst showNat.simps) (simp add: isDigit_digitChar)
qed

lemma not_digit: "\<not> isDigit CHR ''-''" "\<not> isDigit CHR ''+''" "\<not> isDigit CHR '',''"
  by (simp_all add: isDigit_def)

lemma digit_not_space: "isDigit c \<Longrightarrow> \<not> goSpace c"
  by (auto simp: isDigit_def goSpace_def)

lemma trimSpace_solid: "list_all (\<lambda>c. \<not> goSpace c) s \<Longrightarrow> trimSpace s = s"
proof -
  assume "list_all (\<lambda>c. \<not> goSpace c) s"
  then have "dropWhile goSpace s = s" "dropWhile goSpace (rev s) = rev s"
    by (simp_all add: dropWhile_eq_self_iff list_all_iff) (metis hd_in_set set_rev rev_is_Nil_conv)
  then show ?thesis by (simp add: trimSpace_def)
qed

text \<open>A number that was written is read back.\<close>

lemma showInt_nat: "0 \<le> n \<Longrightarrow> list_all isDigit (showInt n) \<and> trimSpace (showInt n) = showInt n"
proof -
  assume "0 \<le> n"
  then have digits: "list_all isDigit (showInt n)" by (simp add: showInt_def showNat_digits)
  then have "list_all (\<lambda>c. \<not> goSpace c) (showInt n)" using digit_not_space by (auto simp: list_all_iff)
  then show ?thesis using digits trimSpace_solid by blast
qed

lemma ParseInt_showInt:
  assumes "0 \<le> n" and "n \<le> maxInt64"
  shows "ParseInt (showInt n) = Some (word_of_int n)"
proof -
  have "isDigit (hd (showNat (nat n)))" using showNat_digits [of "nat n"] by (cases "showNat (nat n)") auto
  then have "hd (showNat (nat n)) \<noteq> CHR ''-''" "hd (showNat (nat n)) \<noteq> CHR ''+''" using not_digit by metis+
  then show ?thesis using assms by (simp add: ParseInt_def showInt_def Let_def)
qed

lemma sint_of_small: "0 \<le> n \<Longrightarrow> n \<le> maxInt64 \<Longrightarrow> sint (word_of_int n :: 64 word) = n"
  by (simp add: maxInt64_def signed_of_int signed_take_bit_int_eq_self)

lemma entry_split:
  assumes "entryOk e"
  shows "goSplit CHR ''-'' (showEntry e) = (case e of Single n \<Rightarrow> [showInt n] | Range lo hi \<Rightarrow> [showInt lo, showInt hi])"
proof -
  have no: "CHR ''-'' \<notin> set (showInt n)" if "0 \<le> n" for n
    using showInt_nat [OF that] not_digit by (auto simp: list_all_iff)
  then show ?thesis using assms by (cases e) (simp_all add: goSplit_plain goSplit_append_sep)
qed

lemma rangesLoop_entry:
  assumes "entryOk e"
  shows "rangesLoop (showEntry e # ss) numbers =
     (if entryEnds e then rangesLoop ss (numbers @ map word_of_int (entryNumbers e)) else None)"
proof (cases e)
  case (Single n)
  then show ?thesis using assms entry_split [OF assms] showInt_nat [of n] ParseInt_showInt [of n] by simp
next
  case (Range lo hi)
  then have b: "0 \<le> lo" "lo \<le> hi" "hi \<le> maxInt64" "lo \<le> maxInt64" "0 \<le> hi" using assms by auto
  have "rangeLoop (word_of_int lo) (word_of_int hi) numbers =
      (if hi < maxInt64 then Some (numbers @ map word_of_int [lo..hi]) else None)"
    using b rangeLoop_ends [of "word_of_int hi"] rangeLoop_diverges [of "word_of_int hi"]
    by (simp add: sint_of_small)
  then show ?thesis
    using Range b entry_split [OF assms] showInt_nat ParseInt_showInt by (simp add: sint_of_small)
qed

lemma rangesLoop_entries:
  assumes "list_all entryOk es"
  shows "rangesLoop (map showEntry es) numbers =
     (if list_all entryEnds es then Some (Inr (numbers @ map word_of_int (concat (map entryNumbers es)))) else None)"
  using assms by (induction es arbitrary: numbers) (simp_all add: rangesLoop_entry del: rangesLoop.simps(2))

section \<open>Properties\<close>

text \<open>
  C39: a list of numbers and ranges written in decimal is read as exactly its numbers, in order, both
  ends of a range included, and reading it ends; but if one of the ranges goes up to the greatest number
  of 64 bits, the counter wraps around before it exceeds the bound and reading never ends.
\<close>

theorem range_numbers_terminate:
  assumes "es \<noteq> []" and "list_all entryOk es"
  shows "ParseRangeNumbers (showRanges es) =
     (if list_all entryEnds es then Some (Inr (map word_of_int (concat (map entryNumbers es)))) else None)"
proof -
  have entry: "list_all (\<lambda>c. \<not> goSpace c) (showEntry e) \<and> CHR '','' \<notin> set (showEntry e)" if "entryOk e" for e
  proof -
    have "list_all (\<lambda>c. isDigit c \<or> c = CHR ''-'') (showEntry e)"
    proof (cases e)
      case (Single n)
      then show ?thesis using that showInt_nat [of n] by (auto simp: list_all_iff)
    next
      case (Range lo hi)
      then show ?thesis using that showInt_nat [of lo] showInt_nat [of hi] by (auto simp: list_all_iff)
    qed
    then show ?thesis using digit_not_space not_digit by (auto simp: list_all_iff goSpace_def)
  qed
  then have "list_all (\<lambda>s. CHR '','' \<notin> set s) (map showEntry es)" using assms(2) by (auto simp: list_all_iff)
  then have "goSplit CHR '','' (showRanges es) = map showEntry es"
    using assms(1) goSplit_goJoin [of "map showEntry es" "CHR '',''"] by (simp add: showRanges_def)
  moreover have "list_all (\<lambda>c. \<not> goSpace c) (showRanges es)"
    unfolding showRanges_def using assms(2)
  proof (induction es)
    case (Cons e es)
    then show ?case using entry by (cases "es = []") (auto simp: goJoin_Cons goSpace_def)
  qed simp
  then have "trimSpace (showRanges es) = showRanges es" by (rule trimSpace_solid)
  ultimately show ?thesis using rangesLoop_entries [OF assms(2), of "[]"] by (simp add: ParseRangeNumbers_def)
qed

theorem range_numbers_terminate_witness:
  "ParseRangeNumbers ''1000-1002,2000'' = Some (Inr [1000, 1001, 1002, 2000]) \<and>
   ParseRangeNumbers (showRanges [Range 5 maxInt64]) = None"
proof -
  have s: "showRanges [Range 1000 1002, Single 2000] = ''1000-1002,2000''" by code_simp
  have u: "[1000..1002::int] = [1000, 1001, 1002]" by code_simp
  have "ParseRangeNumbers ''1000-1002,2000'' = Some (Inr (map word_of_int [1000, 1001, 1002, 2000]))"
    unfolding s [symmetric] by (subst range_numbers_terminate) (simp_all add: u maxInt64_def)
  moreover have "ParseRangeNumbers (showRanges [Range 5 maxInt64]) = None"
    by (subst range_numbers_terminate) (simp_all add: maxInt64_def)
  ultimately show ?thesis by simp
qed

end
