(* ===== verification/Auth.thy ===== *)
theory Auth
  imports Decimal
begin

text \<open>
  Authentication between frpc and frps, \<^verbatim>\<open>pkg/auth\<close>: a setter of the client puts a key into the messages
  that log in, keep alive and offer work connections; a verifier of the server checks it. With the method
  \<^verbatim>\<open>token\<close> the key is a hash of a shared token and the time of the message, with \<^verbatim>\<open>oidc\<close> a token of an
  identity provider. Parameters: the hash with its rendering in hexadecimal digits, the tokens that the
  provider issues, and what it finds in one: the subject, or an error.
\<close>

section \<open>Messages\<close>

record login_msg =
  li_Version :: string
  li_Hostname :: string
  li_Os :: string
  li_Arch :: string
  li_User :: string
  li_PrivilegeKey :: string
  li_Timestamp :: int
  li_RunID :: string
  li_Metas :: "string \<rightharpoonup> string"
  li_PoolCount :: int

record ping_msg =
  pi_PrivilegeKey :: string
  pi_Timestamp :: int

record work_conn_msg =
  nw_RunID :: string
  nw_PrivilegeKey :: string
  nw_Timestamp :: int

section \<open>Configuration\<close>

record auth_base =
  AuthenticationMethod :: string
  AuthenticateHeartBeats :: bool
  AuthenticateNewWorkConns :: bool

record auth_conf = auth_base +
  ac_Token :: string

definition getDefaultBaseConf :: auth_base where
  "getDefaultBaseConf = \<lparr> AuthenticationMethod = ''token'', AuthenticateHeartBeats = False, AuthenticateNewWorkConns = False \<rparr>"

record token_auth = auth_base +
  ta_token :: string

text \<open>A consumer of oidc tokens has the subject of the last login: one for all clients of the server.\<close>

record oidc_consumer = auth_base +
  subjectFromLogin :: string

datatype setter = TokenSetter token_auth | OidcSetter auth_base

datatype verifier = TokenVerifier token_auth | OidcVerifier oidc_consumer | NilVerifier

definition NewTokenAuth :: "auth_base \<Rightarrow> string \<Rightarrow> token_auth" where
  "NewTokenAuth b token = auth_base.extend b \<lparr> ta_token = token \<rparr>"

text \<open>A method that is neither of the two makes the client panic, here \<open>None\<close>; the server gets a nil verifier.\<close>

definition NewAuthSetter :: "auth_conf \<Rightarrow> setter option" where
  "NewAuthSetter cfg =
     (if AuthenticationMethod cfg = ''token'' then Some (TokenSetter (NewTokenAuth (auth_base.truncate cfg) (ac_Token cfg)))
      else if AuthenticationMethod cfg = ''oidc'' then Some (OidcSetter (auth_base.truncate cfg))
      else None)"

definition NewAuthVerifier :: "auth_conf \<Rightarrow> verifier" where
  "NewAuthVerifier cfg =
     (if AuthenticationMethod cfg = ''token'' then TokenVerifier (NewTokenAuth (auth_base.truncate cfg) (ac_Token cfg))
      else if AuthenticationMethod cfg = ''oidc'' then OidcVerifier (auth_base.extend (auth_base.truncate cfg) \<lparr> subjectFromLogin = [] \<rparr>)
      else NilVerifier)"

section \<open>Setters\<close>

definition GetAuthKey :: "(string \<Rightarrow> string) \<Rightarrow> string \<Rightarrow> int \<Rightarrow> string" where
  "GetAuthKey md5 token timestamp = md5 (token @ showInt timestamp)"

text \<open>\<open>now\<close> is the time in seconds and \<open>issued\<close> what the provider answers to the request of a token.\<close>

fun SetLogin :: "(string \<Rightarrow> string) \<Rightarrow> (string, string) result \<Rightarrow> setter \<Rightarrow> login_msg \<Rightarrow> (string, login_msg) result" where
  "SetLogin md5 issued (TokenSetter a) m = Inr (m\<lparr> li_PrivilegeKey := GetAuthKey md5 (ta_token a) (li_Timestamp m) \<rparr>)"
| "SetLogin md5 issued (OidcSetter b) m = map_sum id (\<lambda>t. m\<lparr> li_PrivilegeKey := t \<rparr>) issued"

fun SetPing :: "(string \<Rightarrow> string) \<Rightarrow> int \<Rightarrow> (string, string) result \<Rightarrow> setter \<Rightarrow> ping_msg \<Rightarrow> (string, ping_msg) result" where
  "SetPing md5 now issued (TokenSetter a) m =
     (if \<not> AuthenticateHeartBeats a then Inr m
      else Inr (m\<lparr> pi_Timestamp := now, pi_PrivilegeKey := GetAuthKey md5 (ta_token a) now \<rparr>))"
| "SetPing md5 now issued (OidcSetter b) m =
     (if \<not> AuthenticateHeartBeats b then Inr m else map_sum id (\<lambda>t. m\<lparr> pi_PrivilegeKey := t \<rparr>) issued)"

fun SetNewWorkConn ::
  "(string \<Rightarrow> string) \<Rightarrow> int \<Rightarrow> (string, string) result \<Rightarrow> setter \<Rightarrow> work_conn_msg \<Rightarrow> (string, work_conn_msg) result"
where
  "SetNewWorkConn md5 now issued (TokenSetter a) m =
     (if \<not> AuthenticateNewWorkConns a then Inr m
      else Inr (m\<lparr> nw_Timestamp := now, nw_PrivilegeKey := GetAuthKey md5 (ta_token a) now \<rparr>))"
| "SetNewWorkConn md5 now issued (OidcSetter b) m =
     (if \<not> AuthenticateNewWorkConns b then Inr m else map_sum id (\<lambda>t. m\<lparr> nw_PrivilegeKey := t \<rparr>) issued)"

section \<open>Verifiers\<close>

datatype auth_error = TokenMismatch | OidcInvalid string | OidcSubject string string

text \<open>The result is the error, if any, and the verifier after the call; a nil verifier is a panic.\<close>

fun VerifyLogin ::
  "(string \<Rightarrow> string) \<Rightarrow> (string \<Rightarrow> (string, string) result) \<Rightarrow> verifier \<Rightarrow> login_msg
     \<Rightarrow> (go_panic, auth_error option \<times> verifier) result"
where
  "VerifyLogin md5 verify (TokenVerifier a) m =
     Inr (if GetAuthKey md5 (ta_token a) (li_Timestamp m) \<noteq> li_PrivilegeKey m then Some TokenMismatch else None, TokenVerifier a)"
| "VerifyLogin md5 verify (OidcVerifier o1) m =
     Inr (case verify (li_PrivilegeKey m) of
        Inl e \<Rightarrow> (Some (OidcInvalid e), OidcVerifier o1)
      | Inr subject \<Rightarrow> (None, OidcVerifier (o1\<lparr> subjectFromLogin := subject \<rparr>)))"
| "VerifyLogin md5 verify NilVerifier m = Inl NilDereference"

definition verifyPostLoginToken :: "(string \<Rightarrow> (string, string) result) \<Rightarrow> oidc_consumer \<Rightarrow> string \<Rightarrow> auth_error option" where
  "verifyPostLoginToken verify o1 privilegeKey =
     (case verify privilegeKey of
        Inl e \<Rightarrow> Some (OidcInvalid e)
      | Inr subject \<Rightarrow> if subject \<noteq> subjectFromLogin o1 then Some (OidcSubject (subjectFromLogin o1) subject) else None)"

fun VerifyPing ::
  "(string \<Rightarrow> string) \<Rightarrow> (string \<Rightarrow> (string, string) result) \<Rightarrow> verifier \<Rightarrow> ping_msg \<Rightarrow> (go_panic, auth_error option) result"
where
  "VerifyPing md5 verify (TokenVerifier a) m =
     Inr (if \<not> AuthenticateHeartBeats a then None
       else if GetAuthKey md5 (ta_token a) (pi_Timestamp m) \<noteq> pi_PrivilegeKey m then Some TokenMismatch else None)"
| "VerifyPing md5 verify (OidcVerifier o1) m =
     Inr (if \<not> AuthenticateHeartBeats o1 then None else verifyPostLoginToken verify o1 (pi_PrivilegeKey m))"
| "VerifyPing md5 verify NilVerifier m = Inl NilDereference"

fun VerifyNewWorkConn ::
  "(string \<Rightarrow> string) \<Rightarrow> (string \<Rightarrow> (string, string) result) \<Rightarrow> verifier \<Rightarrow> work_conn_msg \<Rightarrow> (go_panic, auth_error option) result"
where
  "VerifyNewWorkConn md5 verify (TokenVerifier a) m =
     Inr (if \<not> AuthenticateNewWorkConns a then None
       else if GetAuthKey md5 (ta_token a) (nw_Timestamp m) \<noteq> nw_PrivilegeKey m then Some TokenMismatch else None)"
| "VerifyNewWorkConn md5 verify (OidcVerifier o1) m =
     Inr (if \<not> AuthenticateNewWorkConns o1 then None else verifyPostLoginToken verify o1 (nw_PrivilegeKey m))"
| "VerifyNewWorkConn md5 verify NilVerifier m = Inl NilDereference"

lemmas auth_defs [go_defs] = NewTokenAuth_def NewAuthSetter_def NewAuthVerifier_def GetAuthKey_def verifyPostLoginToken_def

section \<open>Lemmas\<close>

text \<open>With a hash without collisions, keys of one time are equal only for one token.\<close>

lemma key_token: "inj md5 \<Longrightarrow> GetAuthKey md5 t ts = GetAuthKey md5 t' ts \<longleftrightarrow> t = t'"
  by (auto simp: GetAuthKey_def dest: injD)

lemma showInt_int: "showInt (int n) = showNat n"
  by (simp add: showInt_def)

lemma showNat_append:
  "0 < k \<Longrightarrow> showNat k @ showNat t = showNat (k * 10 ^ length (showNat t) + t)"
proof (induction t rule: showNat.induct)
  case (1 t)
  show ?case
  proof (cases "t < 10")
    case True
    then have t: "showNat t = [digitChar t]" by (subst showNat.simps) simp
    have "showNat (k * 10 + t) = showNat k @ [digitChar t]"
      using True 1(2) by (subst showNat.simps) simp
    then show ?thesis by (simp add: t)
  next
    case False
    then have t: "showNat t = showNat (t div 10) @ [digitChar (t mod 10)]" by (subst showNat.simps) simp
    let ?n = "length (showNat (t div 10))"
    have "showNat ((k * 10 ^ ?n + t div 10) * 10 + t mod 10) = showNat (k * 10 ^ ?n + t div 10) @ [digitChar (t mod 10)]"
      using 1(2) False by (subst showNat.simps) auto
    moreover have "(k * 10 ^ ?n + t div 10) * 10 + t mod 10 = k * 10 ^ length (showNat t) + t"
      by (simp add: t algebra_simps)
    ultimately have "showNat (k * 10 ^ length (showNat t) + t) = showNat (k * 10 ^ ?n + t div 10) @ [digitChar (t mod 10)]" by (simp only:)
    then show ?thesis unfolding 1(1) [OF False 1(2), symmetric] by (simp add: t)
  qed
qed

section \<open>Properties\<close>



text \<open>
  A token is not stronger than the part of it before a final number: whoever knows that part makes a login that the
  server accepts, by moving the number from the token to the time of the message.
\<close>

lemma token_digits_worthless:
  assumes "0 < k" and "ta_token s = prefix @ showNat k" and "ta_token c = prefix"
    and "SetLogin md5 issued (TokenSetter c) (m\<lparr> li_Timestamp := int (k * 10 ^ length (showNat t) + t) \<rparr>) = Inr m'"
  shows "VerifyLogin md5 verify (TokenVerifier s) (m'\<lparr> li_Timestamp := int t \<rparr>) = Inr (None, TokenVerifier s)"
proof -
  have "li_PrivilegeKey m' = md5 (prefix @ showNat (k * 10 ^ length (showNat t) + t))"
    using assms(3,4) by (auto simp: GetAuthKey_def showInt_int simp del: of_nat_add of_nat_mult)
  then show ?thesis by (simp add: GetAuthKey_def showInt_int assms(2) showNat_append [OF assms(1), symmetric])
qed

text \<open>
  The verifier of oidc tokens has the subject of the last login of any client. Once another client has
  logged in, every ping of the first one is refused, which ends its session.
\<close>

lemma oidc_login_breaks_others:
  assumes "AuthenticateHeartBeats o1" and "verify (li_PrivilegeKey a) = Inr sa" and "verify (li_PrivilegeKey b) = Inr sb" and "sa \<noteq> sb"
    and "VerifyLogin md5 verify (OidcVerifier o1) a = Inr (None, v1)" and "VerifyLogin md5 verify v1 b = Inr (None, v2)"
    and "verify (pi_PrivilegeKey p) = Inr sa"
  shows "VerifyPing md5 verify v1 p = Inr None \<and> VerifyPing md5 verify v2 p = Inr (Some (OidcSubject sb sa))"
proof -
  have v1: "v1 = OidcVerifier (o1\<lparr> subjectFromLogin := sa \<rparr>)" using assms(2,5) by simp
  then have "v2 = OidcVerifier (o1\<lparr> subjectFromLogin := sb \<rparr>)" using assms(3,6) by auto
  then show ?thesis using assms(1,4,7) v1 by (simp add: verifyPostLoginToken_def)
qed

end
