(* ===== verification/ServerPlugins.thy ===== *)
theory ServerPlugins
  imports Auth ProxyConf
begin

text \<open>
  The plugins of frps, \<^verbatim>\<open>pkg/plugin/server\<close>: external services that see the requests of the clients, may
  reject them and may change them. The manager asks those that support an operation in the order in
  which they were registered. Parameters: what a service answers, with the decoding of its answer.
\<close>

section \<open>Requests and answers\<close>

definition OpLogin :: string where "OpLogin = ''Login''"
definition OpNewProxy :: string where "OpNewProxy = ''NewProxy''"
definition OpCloseProxy :: string where "OpCloseProxy = ''CloseProxy''"
definition OpPing :: string where "OpPing = ''Ping''"
definition OpNewWorkConn :: string where "OpNewWorkConn = ''NewWorkConn''"
definition OpNewUserConn :: string where "OpNewUserConn = ''NewUserConn''"

lemmas op_defs = OpLogin_def OpNewProxy_def OpCloseProxy_def OpPing_def OpNewWorkConn_def OpNewUserConn_def

record user_info =
  ui_User :: string
  ui_Metas :: "string \<rightharpoonup> string"
  ui_RunID :: string

text \<open>What is asked of a plugin: the values of type \<^verbatim>\<open>interface{}\<close> that the manager passes.\<close>

datatype content =
  LoginContent login_msg string
| NewProxyContent user_info new_proxy
| CloseProxyContent user_info string
| PingContent user_info ping_msg
| NewWorkConnContent user_info work_conn_msg
| NewUserConnContent user_info string string string

record plugin_response =
  rp_Reject :: bool
  rp_RejectReason :: string
  rp_Unchange :: bool

record plugin =
  pl_Name :: string
  pl_IsSupport :: "string \<Rightarrow> bool"
  pl_Handle :: "string \<Rightarrow> content \<Rightarrow> (string, plugin_response \<times> content) result"

section \<open>Services behind HTTP\<close>

record http_options =
  ho_Name :: string
  ho_Addr :: string
  ho_Path :: string
  ho_Ops :: "string list"

text \<open>\<open>post url op c\<close>: the request fails, or has a status and a body, which may not decode.\<close>

type_synonym http_post = "string \<Rightarrow> string \<Rightarrow> content \<Rightarrow> (string, int \<times> (string, plugin_response \<times> content) result) result"

definition pluginURL :: "http_options \<Rightarrow> string" where
  "pluginURL opts =
     (let url = ho_Addr opts @ ho_Path opts in
      if \<not> hasPrefix url ''https://'' \<and> \<not> hasPrefix url ''http://'' then ''http://'' @ url else url)"

definition NewHTTPPluginOptions :: "http_post \<Rightarrow> http_options \<Rightarrow> plugin" where
  "NewHTTPPluginOptions post opts =
     \<lparr> pl_Name = ho_Name opts, pl_IsSupport = (\<lambda>op. op \<in> set (ho_Ops opts)),
       pl_Handle = (\<lambda>op c. case post (pluginURL opts) op c of
           Inl e \<Rightarrow> Inl e
         | Inr (status, body) \<Rightarrow>
             if status \<noteq> 200 then Inl (''do http request error code: '' @ showInt status) else body) \<rparr>"

section \<open>The manager\<close>

record plugin_manager =
  loginPlugins :: "plugin list"
  newProxyPlugins :: "plugin list"
  closeProxyPlugins :: "plugin list"
  pingPlugins :: "plugin list"
  newWorkConnPlugins :: "plugin list"
  newUserConnPlugins :: "plugin list"

definition NewPluginManager :: plugin_manager where
  "NewPluginManager = \<lparr> loginPlugins = [], newProxyPlugins = [], closeProxyPlugins = [], pingPlugins = [],
     newWorkConnPlugins = [], newUserConnPlugins = [] \<rparr>"

definition RegisterPlugin :: "plugin \<Rightarrow> plugin_manager \<Rightarrow> plugin_manager" where
  "RegisterPlugin p m = m\<lparr>
     loginPlugins := loginPlugins m @ (if pl_IsSupport p OpLogin then [p] else []),
     newProxyPlugins := newProxyPlugins m @ (if pl_IsSupport p OpNewProxy then [p] else []),
     closeProxyPlugins := closeProxyPlugins m @ (if pl_IsSupport p OpCloseProxy then [p] else []),
     pingPlugins := pingPlugins m @ (if pl_IsSupport p OpPing then [p] else []),
     newWorkConnPlugins := newWorkConnPlugins m @ (if pl_IsSupport p OpNewWorkConn then [p] else []),
     newUserConnPlugins := newUserConnPlugins m @ (if pl_IsSupport p OpNewUserConn then [p] else []) \<rparr>"

text \<open>
  The loop of the five operations that can change what they carry: \<open>op\<close> is what the plugin is asked,
  \<open>title\<close> stands in the text of the error, \<open>mk\<close> and \<open>sel\<close> go between the content and its type;
  an answer of another type is a panic.
\<close>

fun handleAll ::
  "string \<Rightarrow> string \<Rightarrow> ('c \<Rightarrow> content) \<Rightarrow> (content \<Rightarrow> 'c option) \<Rightarrow> plugin list \<Rightarrow> 'c \<Rightarrow> (go_panic, (string, 'c) result) result"
where
  "handleAll op title mk sel [] c = Inr (Inr c)"
| "handleAll op title mk sel (p # ps) c =
     (case pl_Handle p op (mk c) of
        Inl e \<Rightarrow> Inr (Inl (''send '' @ title @ '' request to plugin error''))
      | Inr (res, ret) \<Rightarrow>
          if rp_Reject res then Inr (Inl (rp_RejectReason res))
          else if rp_Unchange res then handleAll op title mk sel ps c
          else (case sel ret of None \<Rightarrow> Inl TypeAssertion | Some c' \<Rightarrow> handleAll op title mk sel ps c'))"

fun loginOf :: "content \<Rightarrow> (login_msg \<times> string) option" where
  "loginOf (LoginContent m a) = Some (m, a)" | "loginOf _ = None"

fun newProxyOf :: "content \<Rightarrow> (user_info \<times> new_proxy) option" where
  "newProxyOf (NewProxyContent u m) = Some (u, m)" | "newProxyOf _ = None"

fun pingOf :: "content \<Rightarrow> (user_info \<times> ping_msg) option" where
  "pingOf (PingContent u m) = Some (u, m)" | "pingOf _ = None"

fun newWorkConnOf :: "content \<Rightarrow> (user_info \<times> work_conn_msg) option" where
  "newWorkConnOf (NewWorkConnContent u m) = Some (u, m)" | "newWorkConnOf _ = None"

fun newUserConnOf :: "content \<Rightarrow> (user_info \<times> string \<times> string \<times> string) option" where
  "newUserConnOf (NewUserConnContent u n t a) = Some (u, n, t, a)" | "newUserConnOf _ = None"

definition pluginLogin :: "plugin_manager \<Rightarrow> login_msg \<times> string \<Rightarrow> (go_panic, (string, login_msg \<times> string) result) result" where
  "pluginLogin m c = handleAll OpLogin ''Login'' (case_prod LoginContent) loginOf (loginPlugins m) c"

definition pluginNewProxy :: "plugin_manager \<Rightarrow> user_info \<times> new_proxy \<Rightarrow> (go_panic, (string, user_info \<times> new_proxy) result) result" where
  "pluginNewProxy m c = handleAll OpNewProxy ''NewProxy'' (case_prod NewProxyContent) newProxyOf (newProxyPlugins m) c"

definition pluginPing :: "plugin_manager \<Rightarrow> user_info \<times> ping_msg \<Rightarrow> (go_panic, (string, user_info \<times> ping_msg) result) result" where
  "pluginPing m c = handleAll OpPing ''Ping'' (case_prod PingContent) pingOf (pingPlugins m) c"

text \<open>The plugins of work connections are asked about a ping.\<close>

definition pluginNewWorkConn ::
  "plugin_manager \<Rightarrow> user_info \<times> work_conn_msg \<Rightarrow> (go_panic, (string, user_info \<times> work_conn_msg) result) result" where
  "pluginNewWorkConn m c = handleAll OpPing ''NewWorkConn'' (case_prod NewWorkConnContent) newWorkConnOf (newWorkConnPlugins m) c"

definition pluginNewUserConn ::
  "plugin_manager \<Rightarrow> user_info \<times> string \<times> string \<times> string
     \<Rightarrow> (go_panic, (string, user_info \<times> string \<times> string \<times> string) result) result" where
  "pluginNewUserConn m c =
     handleAll OpNewUserConn ''NewUserConn'' (\<lambda>(u, n, t, a). NewUserConnContent u n t a) newUserConnOf (newUserConnPlugins m) c"

text \<open>The plugins are told of a proxy that closes; their answers do not count, their failures are collected.\<close>

definition pluginCloseProxy :: "plugin_manager \<Rightarrow> user_info \<Rightarrow> string \<Rightarrow> string option" where
  "pluginCloseProxy m u name =
     (let errs = concat (map (\<lambda>p. case pl_Handle p OpCloseProxy (CloseProxyContent u name) of
         Inl e \<Rightarrow> [''['' @ pl_Name p @ '']: '' @ e] | Inr r \<Rightarrow> []) (closeProxyPlugins m)) in
      if errs \<noteq> [] then Some (''send CloseProxy request to plugin errors: '' @ goJoin ''; '' errs) else None)"

lemmas plugin_defs [go_defs] =
  NewHTTPPluginOptions_def NewPluginManager_def RegisterPlugin_def pluginLogin_def pluginNewProxy_def pluginPing_def pluginNewWorkConn_def
  pluginNewUserConn_def pluginCloseProxy_def

section \<open>Lemmas\<close>

text \<open>What gets through has been approved by every plugin, each asked about a content of the right type.\<close>

lemma handleAll_approved:
  assumes "handleAll op title mk sel ps c = Inr (Inr c')" and "p \<in> set ps"
  shows "\<exists>d res ret. pl_Handle p op (mk d) = Inr (res, ret) \<and> \<not> rp_Reject res"
  using assms by (induction ps arbitrary: c) (auto split: sum.splits prod.splits if_splits option.splits)

text \<open>Plugins that answer with the type they were asked about never panic the manager.\<close>

lemma handleAll_no_panic:
  assumes "\<And>p d res ret. p \<in> set ps \<Longrightarrow> pl_Handle p op (mk d) = Inr (res, ret) \<Longrightarrow> sel ret \<noteq> None"
  shows "\<exists>r. handleAll op title mk sel ps c = Inr r"
  using assms
proof (induction ps arbitrary: c)
  case (Cons p ps)
  have rest: "\<exists>r. handleAll op title mk sel ps d = Inr r" for d
    by (rule Cons.IH, rule Cons.prems [OF list.set_intros(2)])
  show ?case
  proof (cases "pl_Handle p op (mk c)")
    case (Inr a)
    obtain res ret where a: "a = (res, ret)" by fastforce
    then obtain d where "sel ret = Some d" using Cons.prems [of p c res ret] Inr by auto
    then show ?thesis using rest Inr a by auto
  qed simp
qed simp

text \<open>
  What a plugin answers to the operation of work connections never matters: the manager asks about a ping.
\<close>

lemma work_conn_plugins_asked_ping:
  "pluginNewWorkConn (m\<lparr> newWorkConnPlugins := map (\<lambda>p. p\<lparr> pl_Handle := (pl_Handle p)(OpNewWorkConn := g p) \<rparr>) (newWorkConnPlugins m) \<rparr>) c =
   pluginNewWorkConn m c"
proof -
  have "handleAll OpPing t mk sel (map (\<lambda>p. p\<lparr> pl_Handle := (pl_Handle p)(OpNewWorkConn := g p) \<rparr>) ps) c = handleAll OpPing t mk sel ps c"
    for t mk sel ps and c :: "user_info \<times> work_conn_msg"
    by (induction ps arbitrary: c) (simp_all add: op_defs split: sum.split option.split)
  then show ?thesis by (simp add: pluginNewWorkConn_def)
qed

end
