(* ===== verification/Versions.thy ===== *)
theory Versions
  imports Ranges
begin

text \<open>
  The versions of clients, \<^verbatim>\<open>pkg/util/version\<close>: the server refuses a client that is older than 0.18.0.
\<close>

text \<open>
  The value of \<^verbatim>\<open>strconv.ParseInt(s, 10, 64)\<close> when its error is ignored: 0 for what is not a number, the nearest
  64-bit number for one that is too large.
\<close>

definition parsedValue :: "string \<Rightarrow> int" where
  "parsedValue s =
     (let neg = (s \<noteq> [] \<and> hd s = CHR ''-'');
          digits = (if s \<noteq> [] \<and> (hd s = CHR ''-'' \<or> hd s = CHR ''+'') then tl s else s) in
      if digits = [] then 0
      else case readDigits 0 digits of
        None \<Rightarrow> 0
      | Some n \<Rightarrow> if neg then max (- int n) (- (2 ^ 63)) else min (int n) (2 ^ 63 - 1))"

definition getSubVersion :: "string \<Rightarrow> nat \<Rightarrow> int" where
  "getSubVersion v position =
     (let arr = goSplit CHR ''.'' v in if length arr < 3 then 0 else parsedValue (arr ! position))"

definition Proto :: "string \<Rightarrow> int" where "Proto v = getSubVersion v 0"
definition Major :: "string \<Rightarrow> int" where "Major v = getSubVersion v 1"
definition Minor :: "string \<Rightarrow> int" where "Minor v = getSubVersion v 2"

definition LessThan :: "string \<Rightarrow> string \<Rightarrow> bool" where
  "LessThan client server =
     (if Proto client > Proto server then False else if Proto client < Proto server then True
      else if Major client > Major server then False else if Major client < Major server then True
      else if Minor client > Minor server then False else if Minor client < Minor server then True
      else False)"

definition Compat :: "string \<Rightarrow> bool" where
  "Compat client \<longleftrightarrow> \<not> LessThan client ''0.18.0''"

lemmas version_defs [go_defs] = getSubVersion_def Proto_def Major_def Minor_def LessThan_def Compat_def

text \<open>A version of three numbers, as the releases of frp have it.\<close>

definition showVersion :: "nat \<times> nat \<times> nat \<Rightarrow> string" where
  "showVersion v = (case v of (p, ma, mi) \<Rightarrow> showNat p @ ''.'' @ showNat ma @ ''.'' @ showNat mi)"

section \<open>Lemmas\<close>

lemma showNat_head: "\<exists>d ds. showNat n = d # ds \<and> isDigit d"
  using showNat_digits [of n] by (cases "showNat n") auto

lemma parsedValue_showNat: "n < 2 ^ 63 \<Longrightarrow> parsedValue (showNat n) = int n"
proof -
  assume n: "n < 2 ^ 63"
  obtain d ds where d: "showNat n = d # ds" "isDigit d" using showNat_head by blast
  then have "d \<noteq> CHR ''-''" "d \<noteq> CHR ''+''" using not_digit by auto
  moreover have "readDigits 0 (d # ds) = Some n" using readDigits_showNat [of n] d(1) by simp
  ultimately have "parsedValue (d # ds) = min (int n) (2 ^ 63 - 1)" by (simp add: parsedValue_def del: readDigits.simps)
  moreover have "int n < 2 ^ 63" using n by (simp only: of_nat_less_numeral_power_cancel_iff)
  ultimately show ?thesis unfolding d(1) by simp
qed

lemma dot_free: "CHR ''.'' \<notin> set (showNat n)"
proof -
  have "\<not> isDigit CHR ''.''" by (simp add: isDigit_def)
  then show ?thesis using showNat_digits [of n] unfolding list_all_iff by blast
qed

lemma subVersions:
  assumes "p < 2 ^ 63" and "ma < 2 ^ 63" and "mi < 2 ^ 63"
  shows "Proto (showVersion (p, ma, mi)) = int p" and "Major (showVersion (p, ma, mi)) = int ma" and "Minor (showVersion (p, ma, mi)) = int mi"
proof -
  have "goSplit CHR ''.'' (showVersion (p, ma, mi)) = [showNat p, showNat ma, showNat mi]"
    by (simp add: showVersion_def goSplit_append_sep goSplit_plain dot_free)
  then show "Proto (showVersion (p, ma, mi)) = int p" and "Major (showVersion (p, ma, mi)) = int ma" and "Minor (showVersion (p, ma, mi)) = int mi"
    using assms by (simp_all add: version_defs Let_def parsedValue_showNat)
qed

text \<open>
  The server accepts a client of a release exactly from 0.18.0 on, and none whose version has fewer than three parts.
\<close>

lemma compat_exact:
  "p < 2 ^ 63 \<Longrightarrow> ma < 2 ^ 63 \<Longrightarrow> mi < 2 ^ 63 \<Longrightarrow> Compat (showVersion (p, ma, mi)) \<longleftrightarrow> 0 < p \<or> 18 \<le> ma"
  "length (goSplit CHR ''.'' v) < 3 \<Longrightarrow> \<not> Compat v"
proof -
  have m: "showVersion (0, 18, 0) = ''0.18.0''" by (simp add: showVersion_def showNat.simps digitChar_def)
  have least: "Proto ''0.18.0'' = 0" "Major ''0.18.0'' = 18" "Minor ''0.18.0'' = 0" unfolding m [symmetric] by (simp_all add: subVersions)
  show "p < 2 ^ 63 \<Longrightarrow> ma < 2 ^ 63 \<Longrightarrow> mi < 2 ^ 63 \<Longrightarrow> Compat (showVersion (p, ma, mi)) \<longleftrightarrow> 0 < p \<or> 18 \<le> ma"
    by (auto simp: Compat_def LessThan_def least subVersions)
  assume "length (goSplit CHR ''.'' v) < 3"
  then have "Proto v = 0" "Major v = 0" by (simp_all add: Proto_def Major_def getSubVersion_def Let_def)
  then show "\<not> Compat v" by (simp add: Compat_def LessThan_def least)
qed

end
