(* ===== verification/ListenerGroups.thy ===== *)
theory ListenerGroups
  imports Prelude
begin

text \<open>
  What the groups of tcp proxies and of tcpmux proxies have in common: the abstract table of groups and
  listeners that \<^verbatim>\<open>server/group/tcp.go\<close> and \<^verbatim>\<open>server/group/tcpmux.go\<close> implement,
  the interface of a controller as a locale, and who holds which listener. The two controllers interpret
  the locale in their own theories.
\<close>

section \<open>The abstract table\<close>

record listener_group =
  lg_name :: string
  lg_closed :: bool
  lg_on :: bool
  lg_lns :: "nat list"

record listener_table =
  lt_reg :: "string \<rightharpoonup> nat"
  lt_objs :: "nat \<rightharpoonup> listener_group"
  lt_nextObj :: nat
  lt_nextLn :: nat

definition emptyTable :: listener_table where
  "emptyTable = \<lparr> lt_reg = Map.empty, lt_objs = Map.empty, lt_nextObj = 0, lt_nextLn = 0 \<rparr>"

definition newGroup :: listener_group where
  "newGroup = \<lparr> lg_name = [], lg_closed = False, lg_on = False, lg_lns = [] \<rparr>"

definition specLook :: "string \<Rightarrow> listener_table \<Rightarrow> nat \<times> listener_table" where
  "specLook n t = (case lt_reg t n of
       Some i \<Rightarrow> (i, t)
     | None \<Rightarrow> (lt_nextObj t, t\<lparr> lt_reg := (lt_reg t)(n \<mapsto> lt_nextObj t), lt_objs := (lt_objs t)(lt_nextObj t \<mapsto> newGroup),
         lt_nextObj := lt_nextObj t + 1 \<rparr>))"

text \<open>A group that was closed does not get its channel back.\<close>

definition joinedGroup :: "string \<Rightarrow> nat \<Rightarrow> listener_group \<Rightarrow> listener_group" where
  "joinedGroup n ln g =
     (if lg_lns g = [] then g\<lparr> lg_name := n, lg_on := \<not> lg_closed g, lg_lns := [ln] \<rparr> else g\<lparr> lg_lns := lg_lns g @ [ln] \<rparr>)"

definition specJoin :: "nat \<Rightarrow> string \<Rightarrow> listener_group \<Rightarrow> listener_table \<Rightarrow> listener_table" where
  "specJoin i n g t = t\<lparr> lt_objs := (lt_objs t)(i \<mapsto> joinedGroup n (lt_nextLn t) g), lt_nextLn := lt_nextLn t + 1 \<rparr>"

definition specLeave :: "nat \<Rightarrow> nat \<Rightarrow> listener_table \<Rightarrow> (go_panic, listener_table) result" where
  "specLeave i ln t = (case lt_objs t i of
       None \<Rightarrow> Inl NilDereference
     | Some g \<Rightarrow>
         let g' = g\<lparr> lg_lns := remove1 ln (lg_lns g) \<rparr> in
         if lg_lns g' \<noteq> [] then Inr (t\<lparr> lt_objs := (lt_objs t)(i \<mapsto> g') \<rparr>)
         else if lg_closed g then Inl CloseOfClosedChannel
         else if \<not> lg_on g then Inl NilDereference
         else Inr (t\<lparr> lt_objs := (lt_objs t)(i \<mapsto> g'\<lparr> lg_closed := True, lg_on := False \<rparr>),
             lt_reg := (lt_reg t)(lg_name g := None) \<rparr>))"

section \<open>Who holds which listener\<close>

text \<open>
  The listeners of the groups are held by owners, each by one: \<open>held x\<close> are those of the owner \<open>x\<close>, as
  pairs of group and listener. A group with a listener is open, and a name leads to an open group.
\<close>

definition lgOk :: "listener_table \<Rightarrow> listener_group \<Rightarrow> bool" where
  "lgOk t g \<longleftrightarrow> distinct (lg_lns g) \<and> (\<forall>ln \<in> set (lg_lns g). ln < lt_nextLn t) \<and>
     (lg_lns g \<noteq> [] \<longrightarrow> \<not> lg_closed g \<and> lg_on g)"

definition tableOk :: "listener_table \<Rightarrow> bool" where
  "tableOk t \<longleftrightarrow>
     (\<forall>i g. lt_objs t i = Some g \<longrightarrow> i < lt_nextObj t \<and> lgOk t g) \<and>
     (\<forall>n i. lt_reg t n = Some i \<longrightarrow>
        (\<exists>g. lt_objs t i = Some g \<and> \<not> lg_closed g \<and> (lg_lns g \<noteq> [] \<longrightarrow> lg_name g = n))) \<and>
     (\<forall>m n i. lt_reg t m = Some i \<and> lt_reg t n = Some i \<longrightarrow> m = n)"

definition heldOk :: "listener_table \<Rightarrow> ('h \<Rightarrow> (nat \<times> nat) list) \<Rightarrow> bool" where
  "heldOk t held \<longleftrightarrow>
     (\<forall>i ln. (\<exists>x. (i, ln) \<in> set (held x)) \<longleftrightarrow> (\<exists>g. lt_objs t i = Some g \<and> ln \<in> set (lg_lns g))) \<and>
     (\<forall>x. distinct (held x)) \<and> (\<forall>x y p. p \<in> set (held x) \<and> p \<in> set (held y) \<longrightarrow> x = y)"

definition linv :: "listener_table \<Rightarrow> ('h \<Rightarrow> (nat \<times> nat) list) \<Rightarrow> bool" where
  "linv t held \<longleftrightarrow> tableOk t \<and> heldOk t held"

lemma tableOkD:
  assumes "tableOk t"
  shows "lt_objs t i = Some g \<Longrightarrow> i < lt_nextObj t" and "lt_objs t i = Some g \<Longrightarrow> lgOk t g"
    and "lt_reg t n = Some i \<Longrightarrow> \<exists>g. lt_objs t i = Some g \<and> \<not> lg_closed g \<and> (lg_lns g \<noteq> [] \<longrightarrow> lg_name g = n)"
    and "lt_reg t m = Some i \<Longrightarrow> lt_reg t n = Some i \<Longrightarrow> m = n"
  using assms unfolding tableOk_def by blast+

lemma tableOkI:
  assumes "\<And>i g. lt_objs t i = Some g \<Longrightarrow> i < lt_nextObj t \<and> lgOk t g"
    and "\<And>n i. lt_reg t n = Some i \<Longrightarrow> \<exists>g. lt_objs t i = Some g \<and> \<not> lg_closed g \<and> (lg_lns g \<noteq> [] \<longrightarrow> lg_name g = n)"
    and "\<And>m n i. lt_reg t m = Some i \<Longrightarrow> lt_reg t n = Some i \<Longrightarrow> m = n"
  shows "tableOk t"
  using assms unfolding tableOk_def by blast

lemma heldOkD:
  assumes "heldOk t held"
  shows "(i, ln) \<in> set (held x) \<Longrightarrow> \<exists>g. lt_objs t i = Some g \<and> ln \<in> set (lg_lns g)"
    and "lt_objs t i = Some g \<Longrightarrow> ln \<in> set (lg_lns g) \<Longrightarrow> \<exists>x. (i, ln) \<in> set (held x)"
    and "distinct (held x)" and "p \<in> set (held x) \<Longrightarrow> p \<in> set (held y) \<Longrightarrow> x = y"
  using assms unfolding heldOk_def by blast+

lemma heldOkI:
  assumes "\<And>x i ln. (i, ln) \<in> set (held x) \<Longrightarrow> \<exists>g. lt_objs t i = Some g \<and> ln \<in> set (lg_lns g)"
    and "\<And>i g ln. lt_objs t i = Some g \<Longrightarrow> ln \<in> set (lg_lns g) \<Longrightarrow> \<exists>x. (i, ln) \<in> set (held x)"
    and "\<And>x. distinct (held x)" and "\<And>x y p. p \<in> set (held x) \<Longrightarrow> p \<in> set (held y) \<Longrightarrow> x = y"
  shows "heldOk t held"
  unfolding heldOk_def using assms by blast

lemma linv_empty: "linv emptyTable (\<lambda>_. [])"
  by (simp add: linv_def tableOk_def heldOk_def emptyTable_def)

lemma linv_look:
  assumes "linv t held" and "specLook n t = (i, t')"
  shows "linv t' held" and "lt_reg t' n = Some i"
proof -
  have t: "tableOk t" and h: "heldOk t held" using assms(1) by (simp_all add: linv_def)
  show "linv t' held"
  proof (cases "lt_reg t n")
    case None
    let ?k = "lt_nextObj t"
    have t': "t' = t\<lparr> lt_reg := (lt_reg t)(n \<mapsto> ?k), lt_objs := (lt_objs t)(?k \<mapsto> newGroup), lt_nextObj := ?k + 1 \<rparr>"
      using assms(2) by (auto simp: specLook_def None)
    have fresh: "lt_objs t ?k = None" using tableOkD(1) [OF t, of ?k] by (cases "lt_objs t ?k") auto
    then have unused: "lt_reg t m \<noteq> Some ?k" for m using tableOkD(3) [OF t, of m ?k] by auto
    have "tableOk t'"
    proof (rule tableOkI)
      show "j < lt_nextObj t' \<and> lgOk t' g" if "lt_objs t' j = Some g" for j g
        using that tableOkD(1,2) [OF t, of j g]
        by (auto simp: t' lgOk_def newGroup_def less_SucI split: if_splits)
      show "\<exists>g. lt_objs t' j = Some g \<and> \<not> lg_closed g \<and> (lg_lns g \<noteq> [] \<longrightarrow> lg_name g = m)" if "lt_reg t' m = Some j" for m j
        using that tableOkD(3) [OF t, of m j] unused [of m] by (auto simp: t' newGroup_def split: if_splits)
      show "m = l" if "lt_reg t' m = Some j" "lt_reg t' l = Some j" for m l j
        using that tableOkD(4) [OF t, of m j l] unused by (auto simp: t' split: if_splits)
    qed
    moreover have "heldOk t' held"
    proof (rule heldOkI)
      show "\<exists>g. lt_objs t' j = Some g \<and> ln \<in> set (lg_lns g)" if "(j, ln) \<in> set (held x)" for x j ln
        using heldOkD(1) [OF h that] fresh by (auto simp: t')
      show "\<exists>x. (j, ln) \<in> set (held x)" if "lt_objs t' j = Some g" "ln \<in> set (lg_lns g)" for j g ln
        using that heldOkD(2) [OF h, of j g ln] by (auto simp: t' newGroup_def split: if_splits)
    qed (use heldOkD(3,4) [OF h] in blast)+
    ultimately show ?thesis by (simp add: linv_def)
  qed (use assms in \<open>simp add: specLook_def\<close>)
  show "lt_reg t' n = Some i" using assms(2) by (auto simp: specLook_def split: option.splits)
qed

lemma linv_join:
  assumes inv: "linv t held" and i: "lt_reg t n = Some i" and g: "lt_objs t i = Some g"
  shows "linv (specJoin i n g t) (held(x := held x @ [(i, lt_nextLn t)]))" (is "linv ?t ?held")
proof -
  let ?ln = "lt_nextLn t" and ?g = "joinedGroup n (lt_nextLn t) g"
  have t: "tableOk t" and h: "heldOk t held" using inv by (simp_all add: linv_def)
  have ok: "lgOk t g" by (rule tableOkD(2) [OF t g])
  have here: "\<not> lg_closed g" "lg_lns g \<noteq> [] \<longrightarrow> lg_name g = n" using tableOkD(3) [OF t i] g by auto
  have lns: "lg_lns ?g = lg_lns g @ [?ln]" and name: "lg_name ?g = n" and open_g: "\<not> lg_closed ?g"
    using here by (auto simp: joinedGroup_def)
  have ok': "lgOk ?t ?g"
    using ok here unfolding lgOk_def lns by (auto simp: joinedGroup_def specJoin_def less_SucI)
  have objs: "lt_objs ?t = (lt_objs t)(i \<mapsto> ?g)" "lt_reg ?t = lt_reg t" "lt_nextObj ?t = lt_nextObj t"
    by (simp_all add: specJoin_def)
  have "tableOk ?t"
  proof (rule tableOkI)
    show "j < lt_nextObj ?t \<and> lgOk ?t f" if "lt_objs ?t j = Some f" for j f
      using that tableOkD(1,2) [OF t, of j f] tableOkD(1) [OF t g] ok'
      by (auto simp: specJoin_def lgOk_def less_SucI split: if_splits)
    show "\<exists>f. lt_objs ?t j = Some f \<and> \<not> lg_closed f \<and> (lg_lns f \<noteq> [] \<longrightarrow> lg_name f = m)" if "lt_reg ?t m = Some j" for m j
      using that tableOkD(3) [OF t, of m j] tableOkD(4) [OF t, of m i n] i name open_g by (cases "j = i") (auto simp: objs)
    show "m = l" if "lt_reg ?t m = Some j" "lt_reg ?t l = Some j" for m l j
      using that tableOkD(4) [OF t, of m j l] by (simp add: objs)
  qed
  moreover have "heldOk ?t ?held"
  proof (rule heldOkI)
    have new: "(i, ?ln) \<notin> set (held y)" for y
      using heldOkD(1) [OF h, of i ?ln y] g ok by (auto simp: lgOk_def)
    show "\<exists>f. lt_objs ?t j = Some f \<and> ln \<in> set (lg_lns f)" if "(j, ln) \<in> set (?held y)" for y j ln
      using that heldOkD(1) [OF h, of j ln y] g lns by (cases "j = i") (auto simp: objs split: if_splits)
    show "\<exists>y. (j, ln) \<in> set (?held y)" if f: "lt_objs ?t j = Some f" "ln \<in> set (lg_lns f)" for j f ln
    proof (cases "j = i \<and> ln = ?ln")
      case True
      then show ?thesis by (intro exI [of _ x]) simp
    next
      case False
      then obtain y where "(j, ln) \<in> set (held y)"
        using f heldOkD(2) [OF h, of j] g lns by (cases "j = i") (auto simp: objs)
      then show ?thesis by (intro exI [of _ y]) auto
    qed
    show "distinct (?held y)" for y using heldOkD(3) [OF h] new by simp
    show "y = z" if "p \<in> set (?held y)" "p \<in> set (?held z)" for y z p
      using that heldOkD(4) [OF h, of p] new by (auto split: if_splits)
  qed
  ultimately show ?thesis by (simp add: linv_def)
qed

lemma linv_leave:
  assumes inv: "linv t held" and x: "(i, ln) \<in> set (held x)"
  shows "\<exists>t'. specLeave i ln t = Inr t' \<and> linv t' (held(x := remove1 (i, ln) (held x)))"
proof -
  let ?held = "held(x := remove1 (i, ln) (held x))"
  have t: "tableOk t" and h: "heldOk t held" using inv by (simp_all add: linv_def)
  obtain g where g: "lt_objs t i = Some g" "ln \<in> set (lg_lns g)" using heldOkD(1) [OF h x] by blast
  have ok: "lgOk t g" by (rule tableOkD(2) [OF t g(1)])
  then have lns: "set (remove1 ln (lg_lns g)) = set (lg_lns g) - {ln}" "distinct (remove1 ln (lg_lns g))"
    and up: "\<not> lg_closed g" "lg_on g" using g(2) by (auto simp: lgOk_def)
  let ?last = "remove1 ln (lg_lns g) = []"
  define g' where "g' = (if ?last then g\<lparr> lg_lns := [], lg_closed := True, lg_on := False \<rparr>
    else g\<lparr> lg_lns := remove1 ln (lg_lns g) \<rparr>)"
  define t' where "t' = (if ?last then t\<lparr> lt_objs := (lt_objs t)(i \<mapsto> g'), lt_reg := (lt_reg t)(lg_name g := None) \<rparr>
    else t\<lparr> lt_objs := (lt_objs t)(i \<mapsto> g') \<rparr>)"
  have spec: "specLeave i ln t = Inr t'" using g up by (simp add: specLeave_def Let_def t'_def g'_def)
  have objs: "lt_objs t' = (lt_objs t)(i \<mapsto> g')" "lt_nextObj t' = lt_nextObj t" "lt_nextLn t' = lt_nextLn t"
    and reg: "lt_reg t' m = Some j \<Longrightarrow> lt_reg t m = Some j \<and> (?last \<longrightarrow> m \<noteq> lg_name g)" for m j
    by (auto simp: t'_def split: if_splits)
  have none: "?last \<Longrightarrow> set (lg_lns g) - {ln} = {}" using lns(1) by (metis empty_set)
  have g': "set (lg_lns g') = set (lg_lns g) - {ln}" "lgOk t' g'" "\<not> ?last \<Longrightarrow> lg_name g' = lg_name g \<and> \<not> lg_closed g'"
    using lns none ok up by (auto simp: g'_def lgOk_def objs)
  have "tableOk t'"
  proof (rule tableOkI)
    show "j < lt_nextObj t' \<and> lgOk t' f" if "lt_objs t' j = Some f" for j f
      using that tableOkD(1,2) [OF t, of j f] tableOkD(1) [OF t g(1)] g'(2)
      by (cases "j = i") (simp_all add: objs lgOk_def)
    show "\<exists>f. lt_objs t' j = Some f \<and> \<not> lg_closed f \<and> (lg_lns f \<noteq> [] \<longrightarrow> lg_name f = m)" if "lt_reg t' m = Some j" for m j
    proof (cases "j = i")
      case True
      then have "lg_name g = m" using tableOkD(3) [OF t, of m i] reg [OF that] g by auto
      then show ?thesis using reg [OF that] True g'(3) by (simp add: objs)
    next
      case False
      then show ?thesis using reg [OF that] tableOkD(3) [OF t, of m j] by (simp add: objs)
    qed
    show "m = l" if "lt_reg t' m = Some j" "lt_reg t' l = Some j" for m l j
      using reg [OF that(1)] reg [OF that(2)] tableOkD(4) [OF t] by blast
  qed
  moreover have "heldOk t' ?held"
  proof (rule heldOkI)
    have dist: "distinct (held y)" for y by (rule heldOkD(3) [OF h])
    have only: "(i, ln) \<in> set (held y) \<Longrightarrow> y = x" for y using heldOkD(4) [OF h _ x] by blast
    have held: "p \<in> set (?held y) \<longleftrightarrow> p \<in> set (held y) \<and> p \<noteq> (i, ln)" for p y
      using dist [of x] only [of y] by auto
    show "\<exists>f. lt_objs t' j = Some f \<and> l \<in> set (lg_lns f)" if "(j, l) \<in> set (?held y)" for y j l
    proof -
      have old: "(j, l) \<in> set (held y)" and ne: "(j, l) \<noteq> (i, ln)" using that unfolding held by simp_all
      obtain f where "lt_objs t j = Some f" "l \<in> set (lg_lns f)" using heldOkD(1) [OF h old] by blast
      then show ?thesis using ne g(1) g'(1) by (cases "j = i") (simp_all add: objs)
    qed
    show "\<exists>y. (j, l) \<in> set (?held y)" if f: "lt_objs t' j = Some f" "l \<in> set (lg_lns f)" for j f l
    proof -
      have "\<exists>f. lt_objs t j = Some f \<and> l \<in> set (lg_lns f)" and ne: "(j, l) \<noteq> (i, ln)"
        using f g g'(1) by (cases "j = i"; simp add: objs)+
      then obtain y where "(j, l) \<in> set (held y)" using heldOkD(2) [OF h] by blast
      then show ?thesis using ne held by blast
    qed
    show "distinct (?held y)" for y using dist by (simp add: distinct_remove1)
    show "y = z" if "p \<in> set (?held y)" "p \<in> set (?held z)" for y z p
      using that heldOkD(4) [OF h, of p y z] unfolding held by blast
  qed
  ultimately show ?thesis using spec by (auto simp: linv_def)
qed

section \<open>The interface of a controller\<close>

text \<open>
  \<open>join k i n s\<close> is listening at the group \<open>i\<close>, looked up under the name \<open>n\<close>; \<open>k\<close> is all else it depends
  on. Each operation is that of the abstract table; what else it does to the state is not seen in it.
\<close>

locale listener_groups =
  fixes view :: "'s \<Rightarrow> listener_table"
    and look :: "string \<Rightarrow> 's \<Rightarrow> nat \<times> 's"
    and join :: "'k \<Rightarrow> nat \<Rightarrow> string \<Rightarrow> 's \<Rightarrow> ('e, nat) result \<times> 's"
    and leave :: "int \<Rightarrow> nat \<Rightarrow> nat \<Rightarrow> 's \<Rightarrow> (go_panic, 's) result"
  assumes look_spec: "look n s = (i, s') \<Longrightarrow> specLook n (view s) = (i, view s')"
    and join_Inl: "join k i n s = (Inl e, s') \<Longrightarrow> view s' = view s"
    and join_Inr: "join k i n s = (Inr ln, s') \<Longrightarrow> lt_objs (view s) i = Some g \<Longrightarrow>
      ln = lt_nextLn (view s) \<and> view s' = specJoin i n g (view s)"
    and leave_spec: "specLeave i ln (view s) = map_sum id view (leave now i ln s)"
begin

lemma look_inv: "linv (view s) held \<Longrightarrow> look n s = (i, s') \<Longrightarrow> linv (view s') held \<and> lt_reg (view s') n = Some i"
  using linv_look look_spec by metis

lemma join_inv:
  assumes "linv (view s) held" and "lt_reg (view s) n = Some i" and "join k i n s = (Inr ln, s')"
  shows "linv (view s') (held(x := held x @ [(i, ln)]))"
proof -
  obtain g where g: "lt_objs (view s) i = Some g"
    using tableOkD(3) assms(1,2) unfolding linv_def by blast
  show ?thesis using linv_join [OF assms(1,2) g] join_Inr [OF assms(3) g] by simp
qed

text \<open>The two steps of listening together, as they are when nothing comes between them.\<close>

lemma listen_inv:
  assumes "linv (view s) held" and "look n s = (i, s1)" and "join k i n s1 = (res, s2)"
  shows "linv (view s2) (case res of Inl e \<Rightarrow> held | Inr ln \<Rightarrow> held(x := held x @ [(i, ln)]))"
proof (cases res)
  case (Inl e)
  then show ?thesis using look_inv [OF assms(1,2)] join_Inl assms(3) by simp
next
  case (Inr ln)
  then show ?thesis using look_inv [OF assms(1,2)] join_inv [of s1 held n i k ln s2 x] assms(3) by simp
qed

lemma leave_inv:
  assumes "linv (view s) held" and "(i, ln) \<in> set (held x)"
  shows "\<exists>s'. leave now i ln s = Inr s' \<and> linv (view s') (held(x := remove1 (i, ln) (held x)))"
proof -
  obtain t where "specLeave i ln (view s) = Inr t" "linv t (held(x := remove1 (i, ln) (held x)))"
    using linv_leave [OF assms] by blast
  then show ?thesis using leave_spec [of i ln s now] by (cases "leave now i ln s") auto
qed

end

end
