(* ===== verification/TCPGroups.thy ===== *)
theory TCPGroups
  imports PortManager ListenerGroups
begin

text \<open>
  The groups of tcp proxies that share one port, \<^verbatim>\<open>server/group/tcp.go\<close>. The controller maps
  names to group objects; the objects are in a store, because a group that was removed from the map can
  still be held by a registration that looked it up before. A listener is a number. Listening has two
  steps, as in the code: the lookup under the lock of the controller, and the rest under the lock of the
  group.

  Parameters: what a call of \<open>Acquire\<close> finds in its environment, and whether the operating system
  lets the server listen.
\<close>

section \<open>State\<close>

record tcp_group =
  g_group :: string
  g_groupKey :: string
  g_addr :: string
  g_port :: int
  g_realPort :: int
  g_acceptClosed :: bool
  g_tcpLn :: "(string \<times> int) option"
  g_lns :: "nat list"

record group_ctl =
  groups :: "string \<rightharpoonup> nat"
  objs :: "nat \<rightharpoonup> tcp_group"
  nextObj :: nat
  nextLn :: nat
  pool :: port_manager

datatype group_error =
    PoolError port_error
  | ListenFailed string
  | ErrGroupParamsInvalid
  | ErrGroupDifferentPort
  | ErrGroupAuthFailed

definition NewTCPGroupCtl :: "port_manager \<Rightarrow> group_ctl" where
  "NewTCPGroupCtl pm = \<lparr> groups = Map.empty, objs = Map.empty, nextObj = 0, nextLn = 0, pool = pm \<rparr>"

definition NewTCPGroup :: tcp_group where
  "NewTCPGroup = \<lparr> g_group = [], g_groupKey = [], g_addr = [], g_port = 0, g_realPort = 0,
     g_acceptClosed = False, g_tcpLn = None, g_lns = [] \<rparr>"

section \<open>Operations\<close>

definition lookupGroup :: "string \<Rightarrow> group_ctl \<Rightarrow> nat \<times> group_ctl" where
  "lookupGroup grp s =
     (case groups s grp of Some i \<Rightarrow> (i, s)
      | None \<Rightarrow> let i = nextObj s in
          (i, s\<lparr> groups := (groups s)(grp \<mapsto> i), objs := (objs s)(i \<mapsto> NewTCPGroup), nextObj := i + 1 \<rparr>))"

definition updGroup :: "nat \<Rightarrow> tcp_group \<Rightarrow> group_ctl \<Rightarrow> group_ctl" where
  "updGroup i tg s = s\<lparr> objs := (objs s)(i \<mapsto> tg) \<rparr>"

definition groupListen ::
  "port_env \<Rightarrow> string option \<Rightarrow> nat \<Rightarrow> string \<Rightarrow> string \<Rightarrow> string \<Rightarrow> string \<Rightarrow> int \<Rightarrow> group_ctl
     \<Rightarrow> (group_error, nat \<times> int) result \<times> group_ctl"
where
  "groupListen env listenErr i proxyName grp key addr port s =
     (case objs s i of None \<Rightarrow> (Inl ErrGroupParamsInvalid, s)
      | Some tg \<Rightarrow>
          if g_lns tg = [] then
            (case acquireIn env proxyName port (pool s) of
               (Inl e, pm) \<Rightarrow> (Inl (PoolError e), s\<lparr> pool := pm \<rparr>)
             | (Inr realPort, pm) \<Rightarrow>
                 (case listenErr of Some e \<Rightarrow> (Inl (ListenFailed e), s\<lparr> pool := pm \<rparr>)
                  | None \<Rightarrow>
                      let ln = nextLn s in
                      (Inr (ln, realPort),
                       updGroup i (tg\<lparr> g_group := grp, g_groupKey := key, g_addr := addr, g_port := port,
                           g_realPort := realPort, g_tcpLn := Some (addr, port), g_lns := [ln] \<rparr>)
                         (s\<lparr> pool := pm, nextLn := ln + 1 \<rparr>))))
          else if g_group tg \<noteq> grp \<or> g_addr tg \<noteq> addr then (Inl ErrGroupParamsInvalid, s)
          else if g_port tg \<noteq> port then (Inl ErrGroupDifferentPort, s)
          else if g_groupKey tg \<noteq> key then (Inl ErrGroupAuthFailed, s)
          else let ln = nextLn s in
            (Inr (ln, g_realPort tg),
             updGroup i (tg\<lparr> g_lns := g_lns tg @ [ln] \<rparr>) (s\<lparr> nextLn := ln + 1 \<rparr>)))"

definition ctlListen ::
  "port_env \<Rightarrow> string option \<Rightarrow> string \<Rightarrow> string \<Rightarrow> string \<Rightarrow> string \<Rightarrow> int \<Rightarrow> group_ctl
     \<Rightarrow> (group_error, nat \<times> int) result \<times> group_ctl"
where
  "ctlListen env listenErr proxyName grp key addr port s =
     (let (i, s1) = lookupGroup grp s in groupListen env listenErr i proxyName grp key addr port s1)"

definition RemoveGroup :: "string \<Rightarrow> group_ctl \<Rightarrow> group_ctl" where
  "RemoveGroup grp s = s\<lparr> groups := (groups s)(grp := None) \<rparr>"

text \<open>Closing a channel twice is a panic.\<close>

definition CloseListener :: "int \<Rightarrow> nat \<Rightarrow> nat \<Rightarrow> group_ctl \<Rightarrow> (go_panic, group_ctl) result" where
  "CloseListener now i ln s =
     (case objs s i of None \<Rightarrow> Inl NilDereference
      | Some tg \<Rightarrow>
          let tg' = tg\<lparr> g_lns := remove1 ln (g_lns tg) \<rparr>; s' = updGroup i tg' s in
          if g_lns tg' \<noteq> [] then Inr s'
          else if g_acceptClosed tg then Inl CloseOfClosedChannel
          else if g_tcpLn tg = None then Inl NilDereference
          else Inr (RemoveGroup (g_group tg)
                (updGroup i (tg'\<lparr> g_acceptClosed := True, g_tcpLn := None \<rparr>)
                  (s'\<lparr> pool := Release now (g_realPort tg) (pool s') \<rparr>))))"

text \<open>A listener of a group accepts a connection only while the channel of the group is open.\<close>

definition canAccept :: "nat \<Rightarrow> group_ctl \<Rightarrow> bool" where
  "canAccept i s = (case objs s i of None \<Rightarrow> False | Some tg \<Rightarrow> \<not> g_acceptClosed tg)"

lemmas group_defs [go_defs] =
  NewTCPGroupCtl_def NewTCPGroup_def lookupGroup_def updGroup_def groupListen_def ctlListen_def
  RemoveGroup_def CloseListener_def canAccept_def

section \<open>The controller as a table of groups\<close>

definition tcpView :: "group_ctl \<Rightarrow> listener_table" where
  "tcpView s = \<lparr> lt_reg = groups s,
     lt_objs = (\<lambda>i. map_option (\<lambda>tg. \<lparr> lg_name = g_group tg, lg_closed = g_acceptClosed tg,
       lg_on = (g_tcpLn tg \<noteq> None \<and> \<not> g_acceptClosed tg), lg_lns = g_lns tg \<rparr>) (objs s i)),
     lt_nextObj = nextObj s, lt_nextLn = nextLn s \<rparr>"

fun tcpJoin ::
  "port_env \<times> string option \<times> string \<times> string \<times> string \<times> int \<Rightarrow> nat \<Rightarrow> string \<Rightarrow> group_ctl
     \<Rightarrow> (group_error, nat) result \<times> group_ctl"
where
  "tcpJoin (env, listenErr, name, key, addr, port) i grp s =
     (case groupListen env listenErr i name grp key addr port s of
        (Inl e, s') \<Rightarrow> (Inl e, s') | (Inr (ln, p), s') \<Rightarrow> (Inr ln, s'))"

lemma tcpView_objs: "lt_objs (tcpView s) i = Some g \<longleftrightarrow> (\<exists>tg. objs s i = Some tg \<and>
    g = \<lparr> lg_name = g_group tg, lg_closed = g_acceptClosed tg, lg_on = (g_tcpLn tg \<noteq> None \<and> \<not> g_acceptClosed tg), lg_lns = g_lns tg \<rparr>)"
  by (auto simp: tcpView_def)

lemma tcpView_fields [simp]: "tcpView (s\<lparr> pool := pm \<rparr>) = tcpView s"
  by (simp add: tcpView_def)

interpretation tcp_groups: listener_groups tcpView lookupGroup tcpJoin CloseListener
proof
  fix n s i s' assume "lookupGroup n s = (i, s')"
  then show "specLook n (tcpView s) = (i, tcpView s')"
    by (auto simp: lookupGroup_def specLook_def tcpView_def newGroup_def NewTCPGroup_def fun_eq_iff Let_def split: option.splits)
next
  fix k i n s e s' assume "tcpJoin k i n s = (Inl e, s')"
  then show "tcpView s' = tcpView s"
    by (cases k) (auto simp: groupListen_def Let_def split: option.splits prod.splits sum.splits if_splits)
next
  fix k i n s ln s' g
  assume a: "tcpJoin k i n s = (Inr ln, s')" and g: "lt_objs (tcpView s) i = Some g"
  from g obtain tg where tg: "objs s i = Some tg" and g: "g = \<lparr> lg_name = g_group tg, lg_closed = g_acceptClosed tg,
      lg_on = (g_tcpLn tg \<noteq> None \<and> \<not> g_acceptClosed tg), lg_lns = g_lns tg \<rparr>" by (auto simp: tcpView_objs)
  show "ln = lt_nextLn (tcpView s) \<and> tcpView s' = specJoin i n g (tcpView s)"
    using a tg by (cases k)
      (auto simp: groupListen_def Let_def updGroup_def tcpView_def specJoin_def joinedGroup_def g fun_eq_iff
        split: option.splits prod.splits sum.splits if_splits)
next
  fix i ln s now
  show "specLeave i ln (tcpView s) = map_sum id tcpView (CloseListener now i ln s)"
    by (auto simp: specLeave_def CloseListener_def updGroup_def RemoveGroup_def tcpView_def Let_def fun_eq_iff
        split: option.splits)
qed

section \<open>Runs\<close>

text \<open>
  A run in which every call is completed before the next one starts; the operating system always lets
  the server listen on a port the manager gave out. Only a listener that is in use is closed.
\<close>

datatype group_event = GListen port_env string string string string int | GClose int nat nat

fun groupOk :: "group_event \<Rightarrow> group_ctl \<Rightarrow> bool" where
  "groupOk (GListen env name grp key addr port) s = portEnvOk env (pool s)"
| "groupOk (GClose now i ln) s = (case objs s i of None \<Rightarrow> False | Some tg \<Rightarrow> ln \<in> set (g_lns tg))"

fun groupApply :: "group_event \<Rightarrow> group_ctl \<Rightarrow> group_ctl" where
  "groupApply (GListen env name grp key addr port) s = snd (ctlListen env None name grp key addr port s)"
| "groupApply (GClose now i ln) s = (case CloseListener now i ln s of Inl e \<Rightarrow> s | Inr s' \<Rightarrow> s')"

inductive group_reach :: "int set \<Rightarrow> group_ctl \<Rightarrow> bool" for allowPorts where
  start: "group_reach allowPorts (NewTCPGroupCtl (NewManager ''tcp'' addr allowPorts))"
| event: "group_reach allowPorts s \<Longrightarrow> groupOk e s \<Longrightarrow> group_reach allowPorts (groupApply e s)"

section \<open>The invariant\<close>

definition activeAt :: "group_ctl \<Rightarrow> nat \<Rightarrow> tcp_group \<Rightarrow> bool" where
  "activeAt s i tg \<longleftrightarrow> objs s i = Some tg \<and> g_lns tg \<noteq> []"

definition groupInv :: "int set \<Rightarrow> group_ctl \<Rightarrow> bool" where
  "groupInv A s \<longleftrightarrow> poolInv A (pool s) \<and>
     (\<forall>grp i. groups s grp = Some i \<longrightarrow> (\<exists>tg. objs s i = Some tg \<and> \<not> g_acceptClosed tg \<and> (g_lns tg \<noteq> [] \<longrightarrow> g_group tg = grp))) \<and>
     (\<forall>g1 g2 i. groups s g1 = Some i \<and> groups s g2 = Some i \<longrightarrow> g1 = g2) \<and>
     (\<forall>i tg. activeAt s i tg \<longrightarrow> groups s (g_group tg) = Some i \<and> g_tcpLn tg \<noteq> None) \<and>
     (\<forall>i \<ge> nextObj s. objs s i = None) \<and>
     (\<forall>i j tg th. activeAt s i tg \<and> activeAt s j th \<and> g_realPort tg = g_realPort th \<longrightarrow> i = j) \<and>
     dom (usedPorts (pool s)) = {p. \<exists>i tg. activeAt s i tg \<and> g_realPort tg = p}"

section \<open>Preservation\<close>

lemma groupInvD:
  assumes "groupInv A s"
  shows "poolInv A (pool s)"
    and "groups s grp = Some i \<Longrightarrow> \<exists>tg. objs s i = Some tg \<and> \<not> g_acceptClosed tg \<and> (g_lns tg \<noteq> [] \<longrightarrow> g_group tg = grp)"
    and "groups s g1 = Some i \<Longrightarrow> groups s g2 = Some i \<Longrightarrow> g1 = g2"
    and "activeAt s i tg \<Longrightarrow> groups s (g_group tg) = Some i \<and> g_tcpLn tg \<noteq> None"
    and "nextObj s \<le> i \<Longrightarrow> objs s i = None"
    and "activeAt s i tg \<Longrightarrow> activeAt s j th \<Longrightarrow> g_realPort tg = g_realPort th \<Longrightarrow> i = j"
    and "dom (usedPorts (pool s)) = {p. \<exists>i tg. activeAt s i tg \<and> g_realPort tg = p}"
  using assms unfolding groupInv_def by blast+

lemma groupInvI:
  assumes "poolInv A (pool s)"
    and "\<And>grp i. groups s grp = Some i \<Longrightarrow> \<exists>tg. objs s i = Some tg \<and> \<not> g_acceptClosed tg \<and> (g_lns tg \<noteq> [] \<longrightarrow> g_group tg = grp)"
    and "\<And>g1 g2 i. groups s g1 = Some i \<Longrightarrow> groups s g2 = Some i \<Longrightarrow> g1 = g2"
    and "\<And>i tg. activeAt s i tg \<Longrightarrow> groups s (g_group tg) = Some i \<and> g_tcpLn tg \<noteq> None"
    and "\<And>i. nextObj s \<le> i \<Longrightarrow> objs s i = None"
    and "\<And>i j tg th. activeAt s i tg \<Longrightarrow> activeAt s j th \<Longrightarrow> g_realPort tg = g_realPort th \<Longrightarrow> i = j"
    and "dom (usedPorts (pool s)) = {p. \<exists>i tg. activeAt s i tg \<and> g_realPort tg = p}"
  shows "groupInv A s"
  using assms unfolding groupInv_def by blast

lemma group_below: "groupInv A s \<Longrightarrow> groups s grp = Some i \<Longrightarrow> i < nextObj s"
  using groupInvD(2,5) by (metis not_le option.distinct(1))

lemma lookupGroup_spec:
  assumes "groupInv A s" and "lookupGroup grp s = (i, s')"
  shows "groupInv A s'" and "groups s' grp = Some i" and "pool s' = pool s"
proof -
  show "groupInv A s'"
  proof (cases "groups s grp")
    case (Some j)
    then show ?thesis using assms by (auto simp: lookupGroup_def)
  next
    case None
    let ?n = "nextObj s"
    have s': "s' = s\<lparr> groups := (groups s)(grp \<mapsto> ?n), objs := (objs s)(?n \<mapsto> NewTCPGroup), nextObj := ?n + 1 \<rparr>"
      using assms(2) None by (auto simp: lookupGroup_def Let_def)
    have active: "activeAt s' j tg \<longleftrightarrow> activeAt s j tg" for j tg
      using groupInvD(5) [OF assms(1), of ?n] by (auto simp: s' activeAt_def NewTCPGroup_def)
    show ?thesis
    proof (rule groupInvI)
      show "poolInv A (pool s')" using groupInvD(1) [OF assms(1)] by (simp add: s')
      show "\<exists>tg. objs s' j = Some tg \<and> \<not> g_acceptClosed tg \<and> (g_lns tg \<noteq> [] \<longrightarrow> g_group tg = g)"
        if "groups s' g = Some j" for g j
        using that groupInvD(2) [OF assms(1), of g j] group_below [OF assms(1), of g j]
        by (auto simp: s' NewTCPGroup_def split: if_splits)
      show "g1 = g2" if "groups s' g1 = Some j" "groups s' g2 = Some j" for g1 g2 j
        using that groupInvD(3) [OF assms(1), of g1 j g2] group_below [OF assms(1), of g1 ?n] group_below [OF assms(1), of g2 ?n]
        by (auto simp: s' split: if_splits)
      show "groups s' (g_group tg) = Some j \<and> g_tcpLn tg \<noteq> None" if "activeAt s' j tg" for j tg
        using that groupInvD(4) [OF assms(1), of j tg] None unfolding active by (auto simp: s')
      show "objs s' j = None" if "nextObj s' \<le> j" for j
        using that groupInvD(5) [OF assms(1), of j] by (simp add: s')
      show "j = k" if "activeAt s' j tg" "activeAt s' k th" "g_realPort tg = g_realPort th" for j k tg th
        using that groupInvD(6) [OF assms(1)] unfolding active by blast
      show "dom (usedPorts (pool s')) = {p. \<exists>j tg. activeAt s' j tg \<and> g_realPort tg = p}"
        using groupInvD(7) [OF assms(1)] unfolding active by (simp add: s')
    qed
  qed
  show "groups s' grp = Some i" "pool s' = pool s"
    using assms(2) by (auto simp: lookupGroup_def Let_def split: option.splits)
qed

lemma groupInv_pool:
  "groupInv A s \<Longrightarrow> poolInv A pm \<Longrightarrow> dom (usedPorts pm) = dom (usedPorts (pool s)) \<Longrightarrow> groupInv A (s\<lparr> pool := pm \<rparr>)"
proof -
  have "activeAt (s\<lparr> pool := pm \<rparr>) = activeAt s" by (simp add: fun_eq_iff activeAt_def)
  moreover assume "groupInv A s" "poolInv A pm" "dom (usedPorts pm) = dom (usedPorts (pool s))"
  ultimately show "groupInv A (s\<lparr> pool := pm \<rparr>)" by (simp add: groupInv_def)
qed

lemma groupListen_first:
  assumes inv: "groupInv A s" and i: "groups s grp = Some i" "objs s i = Some tg" "g_lns tg = []"
    and pm: "poolInv A pm" "dom (usedPorts pm) = insert rp (dom (usedPorts (pool s)))" "rp \<notin> dom (usedPorts (pool s))"
  shows "groupInv A (updGroup i (tg\<lparr> g_group := grp, g_groupKey := key, g_addr := addr, g_port := port,
    g_realPort := rp, g_tcpLn := Some (addr, port), g_lns := [ln] \<rparr>) (s\<lparr> pool := pm, nextLn := n \<rparr>))"
    (is "groupInv A ?s")
proof -
  let ?tg = "tg\<lparr> g_group := grp, g_groupKey := key, g_addr := addr, g_port := port,
    g_realPort := rp, g_tcpLn := Some (addr, port), g_lns := [ln] \<rparr>"
  have active: "activeAt ?s j th \<longleftrightarrow> (if j = i then th = ?tg else activeAt s j th)" for j th
    by (auto simp: activeAt_def updGroup_def)
  have old: "\<not> activeAt s i th" for th using i by (auto simp: activeAt_def)
  have fresh: "g_realPort th \<noteq> rp" if "activeAt s j th" for j th
    using that groupInvD(7) [OF inv] pm(3) by blast
  have below: "i < nextObj s" by (rule group_below [OF inv i(1)])
  show ?thesis
  proof (rule groupInvI)
    show "poolInv A (pool ?s)" using pm(1) by (simp add: updGroup_def)
    show "\<exists>th. objs ?s j = Some th \<and> \<not> g_acceptClosed th \<and> (g_lns th \<noteq> [] \<longrightarrow> g_group th = g)"
      if "groups ?s g = Some j" for g j
      using that groupInvD(2) [OF inv, of g j] groupInvD(3) [OF inv, of g i grp] i by (auto simp: updGroup_def)
    show "g1 = g2" if "groups ?s g1 = Some j" "groups ?s g2 = Some j" for g1 g2 j
      using that groupInvD(3) [OF inv] by (simp add: updGroup_def)
    show "groups ?s (g_group th) = Some j \<and> g_tcpLn th \<noteq> None" if "activeAt ?s j th" for j th
      using that groupInvD(4) [OF inv, of j th] i(1) unfolding active by (auto simp: updGroup_def split: if_splits)
    show "objs ?s j = None" if "nextObj ?s \<le> j" for j
      using that groupInvD(5) [OF inv, of j] below by (auto simp: updGroup_def)
    show "j = k" if "activeAt ?s j t1" "activeAt ?s k t2" "g_realPort t1 = g_realPort t2" for j k t1 t2
      using that groupInvD(6) [OF inv, of j t1 k t2] fresh [of j t1] fresh [of k t2] unfolding active
      by (auto split: if_splits)
    have "(\<exists>j th. activeAt ?s j th \<and> g_realPort th = p) \<longleftrightarrow> p = rp \<or> (\<exists>j th. activeAt s j th \<and> g_realPort th = p)" for p
    proof
      assume "\<exists>j th. activeAt ?s j th \<and> g_realPort th = p"
      then obtain j th where "activeAt ?s j th" "g_realPort th = p" by blast
      then show "p = rp \<or> (\<exists>j th. activeAt s j th \<and> g_realPort th = p)"
        unfolding active by (cases "j = i") auto
    next
      assume "p = rp \<or> (\<exists>j th. activeAt s j th \<and> g_realPort th = p)"
      then show "\<exists>j th. activeAt ?s j th \<and> g_realPort th = p"
      proof
        assume "p = rp"
        then show ?thesis unfolding active by (intro exI [of _ i] exI [of _ ?tg]) simp
      next
        assume "\<exists>j th. activeAt s j th \<and> g_realPort th = p"
        then obtain j th where h: "activeAt s j th" "g_realPort th = p" by blast
        then have "j \<noteq> i" using old by auto
        then show ?thesis unfolding active using h by (intro exI [of _ j] exI [of _ th]) simp
      qed
    qed
    then have "{p. \<exists>j th. activeAt ?s j th \<and> g_realPort th = p} = insert rp {p. \<exists>j th. activeAt s j th \<and> g_realPort th = p}"
      by blast
    then show "dom (usedPorts (pool ?s)) = {p. \<exists>j th. activeAt ?s j th \<and> g_realPort th = p}"
      using pm(2) groupInvD(7) [OF inv] by (simp add: updGroup_def)
  qed
qed

lemma updGroup_lns:
  assumes inv: "groupInv A s" and i: "objs s i = Some tg" "g_lns tg \<noteq> []" and ns: "ns \<noteq> []"
  shows "groupInv A (updGroup i (tg\<lparr> g_lns := ns \<rparr>) (s\<lparr> nextLn := n \<rparr>))" (is "groupInv A ?s")
proof -
  have act: "activeAt s i tg" using i by (simp add: activeAt_def)
  have active: "activeAt ?s j th \<longleftrightarrow> (if j = i then th = tg\<lparr> g_lns := ns \<rparr> else activeAt s j th)" for j th
    using ns by (auto simp: activeAt_def updGroup_def)
  have below: "i < nextObj s" using group_below [OF inv] groupInvD(4) [OF inv act] by blast
  show ?thesis
  proof (rule groupInvI)
    show "poolInv A (pool ?s)" using groupInvD(1) [OF inv] by (simp add: updGroup_def)
    show "\<exists>th. objs ?s j = Some th \<and> \<not> g_acceptClosed th \<and> (g_lns th \<noteq> [] \<longrightarrow> g_group th = g)"
      if "groups ?s g = Some j" for g j
      using that groupInvD(2) [OF inv, of g j] i by (auto simp: updGroup_def)
    show "g1 = g2" if "groups ?s g1 = Some j" "groups ?s g2 = Some j" for g1 g2 j
      using that groupInvD(3) [OF inv] by (simp add: updGroup_def)
    show "groups ?s (g_group th) = Some j \<and> g_tcpLn th \<noteq> None" if "activeAt ?s j th" for j th
      using that groupInvD(4) [OF inv, of j th] groupInvD(4) [OF inv act] unfolding active
      by (auto simp: updGroup_def split: if_splits)
    show "objs ?s j = None" if "nextObj ?s \<le> j" for j
      using that groupInvD(5) [OF inv, of j] below by (auto simp: updGroup_def)
    have orig: "\<exists>th'. activeAt s j th' \<and> g_realPort th' = g_realPort th" if "activeAt ?s j th" for j th
      using that act unfolding active by (cases "j = i") auto
    show "j = k" if "activeAt ?s j t1" "activeAt ?s k t2" "g_realPort t1 = g_realPort t2" for j k t1 t2
      using orig [OF that(1)] orig [OF that(2)] that(3) groupInvD(6) [OF inv] by metis
    have "{p. \<exists>j th. activeAt ?s j th \<and> g_realPort th = p} = {p. \<exists>j th. activeAt s j th \<and> g_realPort th = p}"
    proof -
      have "(\<exists>j th. activeAt ?s j th \<and> g_realPort th = p) \<longleftrightarrow> (\<exists>j th. activeAt s j th \<and> g_realPort th = p)" for p
      proof
        assume "\<exists>j th. activeAt ?s j th \<and> g_realPort th = p"
        then obtain j th where "activeAt ?s j th" "g_realPort th = p" by blast
        then show "\<exists>j th. activeAt s j th \<and> g_realPort th = p"
          using act unfolding active by (cases "j = i") auto
      next
        assume "\<exists>j th. activeAt s j th \<and> g_realPort th = p"
        then obtain j th where h: "activeAt s j th" "g_realPort th = p" by blast
        show "\<exists>j th. activeAt ?s j th \<and> g_realPort th = p"
        proof (cases "j = i")
          case True
          then have "th = tg" using h act by (simp add: activeAt_def)
          then show ?thesis unfolding active using h by (intro exI [of _ i] exI [of _ "tg\<lparr> g_lns := ns \<rparr>"]) simp
        next
          case False
          then show ?thesis unfolding active using h by (intro exI [of _ j] exI [of _ th]) simp
        qed
      qed
      then show ?thesis by blast
    qed
    then show "dom (usedPorts (pool ?s)) = {p. \<exists>j th. activeAt ?s j th \<and> g_realPort th = p}"
      using groupInvD(7) [OF inv] by (simp add: updGroup_def)
  qed
qed

lemma groupListen_inv:
  assumes inv: "groupInv A s" and i: "groups s grp = Some i" and env: "portEnvOk env (pool s)"
  shows "groupInv A (snd (groupListen env None i name grp key addr port s))"
proof -
  obtain tg where tg: "objs s i = Some tg" using groupInvD(2) [OF inv i] by blast
  show ?thesis
  proof (cases "g_lns tg = []")
    case True
    note p = groupInvD(1) [OF inv]
    show ?thesis
    proof (cases "acquireIn env name port (pool s)")
      case (Pair res pm)
      have pm: "poolInv A pm" using ports.invar_acquire' [OF p env Pair] .
      show ?thesis
      proof (cases res)
        case (Inl e)
        then have "dom (usedPorts pm) = dom (usedPorts (pool s))"
          using ports.acquire_Inl [OF p env] Pair by blast
        then show ?thesis using True tg Pair Inl groupInv_pool [OF inv pm] by (simp add: groupListen_def)
      next
        case (Inr rp)
        have a: "acquireIn env name port (pool s) = (Inr rp, pm)" using Pair Inr by simp
        have d: "dom (usedPorts pm) = insert rp (dom (usedPorts (pool s)))"
          using ports.acquire_Inr [OF p env a] by blast
        show ?thesis
          using True tg Pair Inr groupListen_first [OF inv i tg True pm d ports.acquire_fresh [OF p env a]]
          by (simp add: groupListen_def Let_def)
      qed
    qed
  next
    case False
    then show ?thesis using inv tg updGroup_lns [OF inv tg False, of "g_lns tg @ [nextLn s]" "nextLn s + 1"]
      by (simp add: groupListen_def Let_def)
  qed
qed

lemma ctlListen_inv:
  assumes "groupInv A s" and "portEnvOk env (pool s)"
  shows "groupInv A (snd (ctlListen env None name grp key addr port s))"
proof -
  obtain i s1 where s1: "lookupGroup grp s = (i, s1)" by fastforce
  show ?thesis
    using groupListen_inv [OF lookupGroup_spec(1,2) [OF assms(1) s1]] lookupGroup_spec(3) [OF assms(1) s1] assms(2) s1
    by (simp add: ctlListen_def)
qed

lemma CloseListener_inv:
  assumes inv: "groupInv A s" and i: "objs s i = Some tg" "ln \<in> set (g_lns tg)"
  shows "\<exists>s'. CloseListener now i ln s = Inr s' \<and> groupInv A s'"
proof -
  have act: "activeAt s i tg" using i by (auto simp: activeAt_def)
  note g = groupInvD(4) [OF inv act]
  have ne: "g_lns tg \<noteq> []" using i(2) by auto
  have op: "\<not> g_acceptClosed tg" using groupInvD(2) [OF inv conjunct1 [OF g]] i(1) by simp
  show ?thesis
  proof (cases "remove1 ln (g_lns tg) = []")
    case False
    have "groupInv A (updGroup i (tg\<lparr> g_lns := remove1 ln (g_lns tg) \<rparr>) (s\<lparr> nextLn := nextLn s \<rparr>))"
      by (rule updGroup_lns [OF inv i(1) ne False])
    then show ?thesis using False i(1) by (simp add: CloseListener_def Let_def)
  next
    case True
    let ?s = "RemoveGroup (g_group tg) (updGroup i (tg\<lparr> g_lns := [], g_acceptClosed := True, g_tcpLn := None \<rparr>)
      (s\<lparr> pool := Release now (g_realPort tg) (pool s) \<rparr>))"
    have s': "CloseListener now i ln s = Inr ?s"
      using True i(1) op g by (simp add: CloseListener_def updGroup_def Let_def)
    have active: "activeAt ?s j th \<longleftrightarrow> j \<noteq> i \<and> activeAt s j th" for j th
      by (auto simp: activeAt_def updGroup_def RemoveGroup_def)
    have below: "i < nextObj s" using group_below [OF inv] g by blast
    have used: "g_realPort tg \<in> dom (usedPorts (pool s))" using groupInvD(7) [OF inv] act by blast
    have "groupInv A ?s"
    proof (rule groupInvI)
      show "poolInv A (pool ?s)"
        using groupInvD(1) [OF inv] by (simp add: updGroup_def RemoveGroup_def Release_poolInv)
      show "\<exists>th. objs ?s j = Some th \<and> \<not> g_acceptClosed th \<and> (g_lns th \<noteq> [] \<longrightarrow> g_group th = h)"
        if "groups ?s h = Some j" for h j
      proof -
        have h: "h \<noteq> g_group tg" "groups s h = Some j"
          using that by (simp_all add: updGroup_def RemoveGroup_def split: if_splits)
        then have "j \<noteq> i" using groupInvD(3) [OF inv, of h i "g_group tg"] g by blast
        then show ?thesis using groupInvD(2) [OF inv h(2)] by (simp add: updGroup_def RemoveGroup_def)
      qed
      show "g1 = g2" if "groups ?s g1 = Some j" "groups ?s g2 = Some j" for g1 g2 j
        using that groupInvD(3) [OF inv, of g1 j g2] by (simp add: updGroup_def RemoveGroup_def split: if_splits)
      show "groups ?s (g_group th) = Some j \<and> g_tcpLn th \<noteq> None" if "activeAt ?s j th" for j th
        using that groupInvD(4) [OF inv, of j th] g unfolding active by (auto simp: updGroup_def RemoveGroup_def)
      show "objs ?s j = None" if "nextObj ?s \<le> j" for j
        using that groupInvD(5) [OF inv, of j] below by (auto simp: updGroup_def RemoveGroup_def)
      show "j = k" if "activeAt ?s j t1" "activeAt ?s k t2" "g_realPort t1 = g_realPort t2" for j k t1 t2
        using that groupInvD(6) [OF inv, of j t1 k t2] unfolding active by blast
      have "(\<exists>j th. activeAt ?s j th \<and> g_realPort th = p) \<longleftrightarrow>
          (\<exists>j th. activeAt s j th \<and> g_realPort th = p) \<and> p \<noteq> g_realPort tg" for p
      proof
        assume "\<exists>j th. activeAt ?s j th \<and> g_realPort th = p"
        then obtain j th where h: "j \<noteq> i" "activeAt s j th" "g_realPort th = p" unfolding active by blast
        then have "p \<noteq> g_realPort tg" using groupInvD(6) [OF inv act h(2)] by auto
        then show "(\<exists>j th. activeAt s j th \<and> g_realPort th = p) \<and> p \<noteq> g_realPort tg" using h by blast
      next
        assume "(\<exists>j th. activeAt s j th \<and> g_realPort th = p) \<and> p \<noteq> g_realPort tg"
        then obtain j th where h: "activeAt s j th" "g_realPort th = p" "p \<noteq> g_realPort tg" by blast
        then have "j \<noteq> i" using act by (metis activeAt_def option.inject)
        then show "\<exists>j th. activeAt ?s j th \<and> g_realPort th = p" unfolding active using h by blast
      qed
      then have "{p. \<exists>j th. activeAt ?s j th \<and> g_realPort th = p} =
          {p. \<exists>j th. activeAt s j th \<and> g_realPort th = p} - {g_realPort tg}"
        by blast
      then show "dom (usedPorts (pool ?s)) = {p. \<exists>j th. activeAt ?s j th \<and> g_realPort th = p}"
        using ports.release_inUse [OF groupInvD(1) [OF inv] used, of now] groupInvD(7) [OF inv]
        by (simp add: updGroup_def RemoveGroup_def)
    qed
    then show ?thesis using s' by blast
  qed
qed

lemma group_reach_inv:
  assumes "group_reach allowPorts s" and "0 \<notin> allowPorts"
  shows "groupInv (allowed allowPorts) s"
  using assms(1)
proof induction
  case (start addr)
  have "poolInv (allowed allowPorts) (NewManager ''tcp'' addr allowPorts)"
    using reachable_inv [OF portReachable.start] assms(2)
    by (auto simp: poolInv_def allowed_def MinPort_def)
  then show ?case by (simp add: groupInv_def NewTCPGroupCtl_def activeAt_def NewManager_def)
next
  case (event s e)
  show ?case
  proof (cases e)
    case (GListen env name grp key addr port)
    then show ?thesis using ctlListen_inv [OF event.IH] event.hyps by simp
  next
    case (GClose now i ln)
    then obtain tg where "objs s i = Some tg" "ln \<in> set (g_lns tg)"
      using event.hyps(2) by (auto split: option.splits)
    then show ?thesis using CloseListener_inv [OF event.IH, of i tg ln now] GClose by auto
  qed
qed

section \<open>Defects\<close>

text \<open>
  A port that was acquired stays taken when the server cannot listen on it: the group has no listener
  that would give it back, and the same request fails from then on.
\<close>

lemma listen_failure_leaks_port:
  "let s = snd (ctlListen (\<lambda>_. True, [7000], 1) (Some ''in use'') ''web'' ''g'' ''k'' '''' 7000
            (NewTCPGroupCtl (NewManager ''tcp'' '''' {7000}))) in
   dom (usedPorts (pool s)) = {7000} \<and> (\<forall>i tg. \<not> activeAt s i tg) \<and>
   fst (ctlListen (\<lambda>_. True, [], 2) None ''web'' ''g'' ''k'' '''' 7000 s) = Inl (PoolError ErrPortAlreadyUsed)"
  by (simp add: group_defs activeAt_def port_defs Let_def)

text \<open>
  With port 0 the manager chooses a port, which the client is told, but the server listens on port 0,
  that is, on a port the operating system chooses.
\<close>

lemma zero_port_listens_elsewhere:
  "let (res, s) = ctlListen (\<lambda>_. True, [7000], 1) None ''web'' ''g'' ''k'' '''' 0
            (NewTCPGroupCtl (NewManager ''tcp'' '''' {7000})) in
   res = Inr (0, 7000) \<and> map_option g_tcpLn (objs s 0) = Some (Some ([], 0))"
  by (simp add: group_defs port_defs Let_def)

section \<open>Properties\<close>

text \<open>
  In every history of complete calls in which the server can listen on the ports it acquired, the
  ports in use are exactly the ports of the groups that have a listener, no two such groups share a
  port, each of them is registered under its name and listening, and closing a listener never panics.
\<close>
lemma group_ports_exact:
  assumes "group_reach allowPorts s" and "0 \<notin> allowPorts"
  shows "dom (usedPorts (pool s)) = {p. \<exists>i tg. activeAt s i tg \<and> g_realPort tg = p} \<and>
    (\<forall>i j tg th. activeAt s i tg \<and> activeAt s j th \<and> g_realPort tg = g_realPort th \<longrightarrow> i = j) \<and>
    (\<forall>i tg ln. activeAt s i tg \<longrightarrow> groups s (g_group tg) = Some i \<and> g_tcpLn tg \<noteq> None \<and> canAccept i s \<and>
       (ln \<in> set (g_lns tg) \<longrightarrow> (\<exists>s'. CloseListener now i ln s = Inr s')))"
proof -
  have inv: "groupInv (allowed allowPorts) s" by (rule group_reach_inv [OF assms])
  have "canAccept i s" if "activeAt s i tg" for i tg
    using groupInvD(2) [OF inv conjunct1 [OF groupInvD(4) [OF inv that]]] that
    by (auto simp: canAccept_def activeAt_def)
  moreover have "\<exists>s'. CloseListener now i ln s = Inr s'" if "activeAt s i tg" "ln \<in> set (g_lns tg)" for i tg ln
    using CloseListener_inv [OF inv _ that(2), of i now] that(1) by (auto simp: activeAt_def)
  ultimately show ?thesis using groupInvD(4,6,7) [OF inv] by blast
qed

definition sampleCtl :: group_ctl where
  "sampleCtl = groupApply (GListen (\<lambda>_. True, [7000], 1) ''web'' ''g'' ''k'' '''' 7000)
     (NewTCPGroupCtl (NewManager ''tcp'' '''' {7000}))"

lemma sampleCtl_reach: "group_reach {7000} sampleCtl"
  unfolding sampleCtl_def
  by (intro group_reach.intros) (simp add: rangeOrder_def NewManager_def NewTCPGroupCtl_def)

lemma sampleCtl_value:
  "groups sampleCtl = [''g'' \<mapsto> 0]" "map_option g_lns (objs sampleCtl 0) = Some [0]"
  "dom (usedPorts (pool sampleCtl)) = {7000}"
  by (simp_all add: sampleCtl_def group_defs port_defs Let_def)

text \<open>
  A proxy that joins a group with listeners is accepted exactly when it names the same address, port
  and key, in this order of errors; it gets the group's port and takes none from the manager.
\<close>
lemma group_join:
  assumes "group_reach allowPorts s" and "0 \<notin> allowPorts" and "groups s grp = Some i" and "activeAt s i tg"
  shows "fst (ctlListen env listenErr name grp key addr port s) =
      (if g_addr tg \<noteq> addr then Inl ErrGroupParamsInvalid
       else if g_port tg \<noteq> port then Inl ErrGroupDifferentPort
       else if g_groupKey tg \<noteq> key then Inl ErrGroupAuthFailed
       else Inr (nextLn s, g_realPort tg)) \<and>
    pool (snd (ctlListen env listenErr name grp key addr port s)) = pool s"
proof -
  have inv: "groupInv (allowed allowPorts) s" by (rule group_reach_inv [OF assms(1,2)])
  have "g_group tg = grp" using groupInvD(2) [OF inv assms(3)] assms(4) by (auto simp: activeAt_def)
  then show ?thesis
    using assms(3,4) by (auto simp: ctlListen_def lookupGroup_def groupListen_def activeAt_def updGroup_def Let_def)
qed

text \<open>
  If the last listener of a group is closed between the lookup of a joining proxy and its listening,
  the proxy listens on a group that is no longer registered and whose channel is closed: it is told a
  port but can never accept a connection, and closing its listener panics.
\<close>
lemma join_during_close:
  assumes "groupInv A s" and "activeAt s i tg" and "g_lns tg = [ln]"
    and "CloseListener now i ln s = Inr s1"
    and "groupListen env listenErr i name (g_group tg) key addr port s1 = (Inr (ln', rp), s2)"
  shows "groups s2 (g_group tg) = None \<and> \<not> canAccept i s2 \<and>
    CloseListener now' i ln' s2 = Inl CloseOfClosedChannel"
proof -
  note inv = assms(1)
  have tg: "objs s i = Some tg" "\<not> g_acceptClosed tg"
    using assms(2) groupInvD(2) [OF inv conjunct1 [OF groupInvD(4) [OF inv assms(2)]]] by (auto simp: activeAt_def)
  have s1: "objs s1 i = Some (tg\<lparr> g_lns := [], g_acceptClosed := True, g_tcpLn := None \<rparr>)"
      "groups s1 (g_group tg) = None"
    using assms(3,4) tg groupInvD(4) [OF inv assms(2)]
    by (auto simp: CloseListener_def updGroup_def RemoveGroup_def Let_def)
  obtain pm where "acquireIn env name port (pool s1) = (Inr rp, pm)" "listenErr = None"
      "ln' = nextLn s1"
    using assms(5) s1(1) by (auto simp: groupListen_def Let_def split: prod.splits sum.splits option.splits)
  then have s2: "s2 = updGroup i (tg\<lparr> g_acceptClosed := True, g_groupKey := key, g_addr := addr, g_port := port,
      g_realPort := rp, g_tcpLn := Some (addr, port), g_lns := [ln'] \<rparr>) (s1\<lparr> pool := pm, nextLn := ln' + 1 \<rparr>)"
    using assms(5) s1(1) by (simp add: groupListen_def Let_def)
  then show ?thesis
    using s1(2) by (simp add: updGroup_def canAccept_def CloseListener_def Let_def)
qed

end
