(* ===== verification/ServerProxies.thy ===== *)
theory ServerProxies
  imports TCPGroups ProxyConf
begin

text \<open>
  The tcp and udp proxies of frps, \<^verbatim>\<open>server/proxy/tcp.go\<close> and \<^verbatim>\<open>server/proxy/udp.go\<close>:
  how they take a port, directly or through a group, and give it back. What the operating system
  answers to the calls that listen is a parameter. The streams of a work connection are left out.
\<close>

section \<open>Proxies of type tcp\<close>

datatype tcp_listener = OwnListener | OfGroup nat nat

datatype proxy_error = AcquireFailed port_error | GroupFailed group_error | NetListen string

text \<open>
  The result of \<open>Run\<close>: the address, the port, and the listener. \<open>listenErr\<close> is the error of
  \<open>net.Listen\<close>, if any; \<open>now\<close> is the time of a release.
\<close>

definition tcpRun ::
  "port_env \<Rightarrow> string option \<Rightarrow> int \<Rightarrow> string \<Rightarrow> base_conf \<Rightarrow> int \<Rightarrow> group_ctl
     \<Rightarrow> (proxy_error, string \<times> int \<times> tcp_listener) result \<times> group_ctl" where
  "tcpRun env listenErr now proxyBindAddr b remotePort s =
     (if Group b \<noteq> [] then
        (let i = fst (lookupGroup (Group b) s) in
         case ctlListen env listenErr (ProxyConf.ProxyName b) (Group b) (GroupKey b) proxyBindAddr remotePort s of
           (Inl e, s') \<Rightarrow> (Inl (GroupFailed e), s')
         | (Inr (ln, realPort), s') \<Rightarrow> (Inr ('':'' @ showInt realPort, realPort, OfGroup i ln), s'))
      else
        (case acquireIn env (ProxyConf.ProxyName b) remotePort (pool s) of
           (Inl e, pm) \<Rightarrow> (Inl (AcquireFailed e), s\<lparr> pool := pm \<rparr>)
         | (Inr realPort, pm) \<Rightarrow>
             (case listenErr of
                Some e \<Rightarrow> (Inl (NetListen e), s\<lparr> pool := Release now realPort pm \<rparr>)
              | None \<Rightarrow> (Inr ('':'' @ showInt realPort, realPort, OwnListener), s\<lparr> pool := pm \<rparr>))))"

definition tcpClose :: "int \<Rightarrow> int \<Rightarrow> tcp_listener \<Rightarrow> group_ctl \<Rightarrow> (go_panic, group_ctl) result" where
  "tcpClose now realPort l s =
     (case l of
        OwnListener \<Rightarrow> Inr (s\<lparr> pool := Release now realPort (pool s) \<rparr>)
      | OfGroup i ln \<Rightarrow> CloseListener now i ln s)"

section \<open>Proxies of type udp\<close>

record udp_proxy =
  up_realPort :: int
  up_isClosed :: bool

definition udpRun ::
  "port_env \<Rightarrow> string option \<Rightarrow> int \<Rightarrow> base_conf \<Rightarrow> int \<Rightarrow> port_manager
     \<Rightarrow> (proxy_error, string \<times> udp_proxy) result \<times> port_manager" where
  "udpRun env listenErr now b remotePort pm0 =
     (case acquireIn env (ProxyConf.ProxyName b) remotePort pm0 of
        (Inl e, pm) \<Rightarrow> (Inl (AcquireFailed e), pm)
      | (Inr realPort, pm) \<Rightarrow>
          (case listenErr of
             Some e \<Rightarrow> (Inl (NetListen e), Release now realPort pm)
           | None \<Rightarrow> (Inr ('':'' @ showInt realPort, \<lparr> up_realPort = realPort, up_isClosed = False \<rparr>), pm)))"

text \<open>
  \<open>Close\<close> closes the channels once, but it releases the port every time: it is called when the proxy
  is closed, and again by the goroutine that forwards the packets of the users, which ends then.
\<close>

definition udpClose :: "int \<Rightarrow> udp_proxy \<Rightarrow> port_manager \<Rightarrow> udp_proxy \<times> port_manager" where
  "udpClose now p pm = (p\<lparr> up_isClosed := True \<rparr>, Release now (up_realPort p) pm)"

lemmas server_proxy_defs [go_defs] = tcpRun_def tcpClose_def udpRun_def udpClose_def

section \<open>Lemmas\<close>

text \<open>A run that fails after it took a port gives the port back.\<close>

lemma udpRun_fails:
  assumes "poolInv A pm" and "portEnvOk env pm" and "udpRun env listenErr now b p pm = (Inl e, pm')"
  shows "dom (usedPorts pm') = dom (usedPorts pm) \<and> freePorts pm' = freePorts pm"
proof -
  obtain r pm1 where a: "acquireIn env (ProxyConf.ProxyName b) p pm = (r, pm1)" by fastforce
  show ?thesis
  proof (cases r)
    case (Inl f)
    then show ?thesis using assms a ports.acquire_Inl [of A pm env "ProxyConf.ProxyName b" p f pm1] by (simp add: udpRun_def)
  next
    case (Inr q)
    then show ?thesis
      using assms a ports.acquire_release [of A pm env "ProxyConf.ProxyName b" p q pm1 now]
      by (auto simp: udpRun_def split: option.splits)
  qed
qed

lemma tcpRun_fails:
  assumes "poolInv A (pool s)" and "portEnvOk env (pool s)" and "Group b = []"
    and "tcpRun env listenErr now addr b p s = (Inl e, s')"
  shows "dom (usedPorts (pool s')) = dom (usedPorts (pool s)) \<and> freePorts (pool s') = freePorts (pool s)"
proof -
  obtain r pm1 where a: "acquireIn env (ProxyConf.ProxyName b) p (pool s) = (r, pm1)" by fastforce
  show ?thesis
  proof (cases r)
    case (Inl f)
    then have "pool s' = pm1" using assms(3,4) a by (auto simp: tcpRun_def)
    then show ?thesis using ports.acquire_Inl [OF assms(1,2) a [unfolded Inl]] by (simp only:)
  next
    case (Inr q)
    have "pool s' = Release now q pm1" using assms(3,4) a Inr by (auto simp: tcpRun_def split: option.splits)
    then show ?thesis using ports.acquire_release [OF assms(1,2) a [unfolded Inr], of now] by (simp only:)
  qed
qed

section \<open>Properties\<close>

text \<open>
  Closing a udp proxy takes a port away from another proxy. The proxy is closed and its port given
  back; another proxy acquires that port; when the goroutine of the closed proxy ends, it closes the
  proxy again and the port of the other proxy is free although that proxy still listens on it.
\<close>

lemma udp_second_close_frees:
  assumes "poolInv A pm" and "up_realPort p \<in> dom (usedPorts pm)" and "udpClose now p pm = (p1, pm1)"
    and "portEnvOk env pm1" and "acquireIn env other port pm1 = (Inr (up_realPort p), pm2)"
  shows "freePorts pm1 = insert (up_realPort p) (freePorts pm) \<and> up_realPort p \<in> dom (usedPorts pm2) \<and>
    up_realPort p \<in> freePorts (snd (udpClose later p1 pm2)) \<and> up_realPort p \<notin> dom (usedPorts (snd (udpClose later p1 pm2)))"
proof -
  have pm1: "pm1 = Release now (up_realPort p) pm" and p1: "up_realPort p1 = up_realPort p"
    using assms(3) by (auto simp: udpClose_def)
  have inv1: "poolInv A pm1" unfolding pm1 by (rule ports.invar_release [OF assms(1)])
  have inv2: "poolInv A pm2" using ports.invar_acquire [OF inv1 assms(4), of other port] assms(5) by simp
  have used: "up_realPort p \<in> dom (usedPorts pm2)" using ports.acquire_Inr [OF inv1 assms(4,5)] by simp
  show ?thesis
    using ports.release_inUse [OF assms(1,2), of now] ports.release_inUse [OF inv2 used, of later] used
    by (simp add: pm1 p1 udpClose_def)
qed

end
