(* ===== verification/ServerResources.thy ===== *)
theory ServerResources
  imports ServerProxies HttpProxies
begin

text \<open>
  Everything a proxy of frps takes when it runs and gives back when it is closed, for all eight types:
  \<^verbatim>\<open>server/proxy/*.go\<close> over the resources of \<^verbatim>\<open>server/controller/resource.go\<close>. Ports, groups of
  tcp proxies and routes of http proxies are in the theories imported; here are the groups of tcpmux
  proxies (\<^verbatim>\<open>server/group/tcpmux.go\<close>), the listeners for visitors
  (\<^verbatim>\<open>server/visitor/visitor.go\<close>) and the clients of the nat hole
  (\<^verbatim>\<open>pkg/nathole/nathole.go\<close>). The streams of a work connection are left out.
\<close>

section \<open>Groups of tcpmux proxies\<close>

record mux_group =
  mg_group :: string
  mg_groupKey :: string
  mg_domain :: string
  mg_routeByHTTPUser :: string
  mg_acceptClosed :: bool
  mg_tcpMuxLn :: "listener option"
  mg_lns :: "nat list"

text \<open>The controller, with the routes of the multiplexer that groups and single proxies share.\<close>

record mux_ctl =
  mc_groups :: "string \<rightharpoonup> nat"
  mc_objs :: "nat \<rightharpoonup> mux_group"
  mc_nextObj :: nat
  mc_nextLn :: nat
  mc_routes :: "listener routers"

datatype mux_error = MuxRoute router_error | MuxParamsInvalid | MuxAuthFailed | UnknownMultiplexer string

definition NewTCPMuxGroupCtl :: "listener routers \<Rightarrow> mux_ctl" where
  "NewTCPMuxGroupCtl r = \<lparr> mc_groups = Map.empty, mc_objs = Map.empty, mc_nextObj = 0, mc_nextLn = 0, mc_routes = r \<rparr>"

definition NewTCPMuxGroup :: mux_group where
  "NewTCPMuxGroup = \<lparr> mg_group = [], mg_groupKey = [], mg_domain = [], mg_routeByHTTPUser = [],
     mg_acceptClosed = False, mg_tcpMuxLn = None, mg_lns = [] \<rparr>"

definition muxLookup :: "string \<Rightarrow> mux_ctl \<Rightarrow> nat \<times> mux_ctl" where
  "muxLookup grp s =
     (case mc_groups s grp of Some i \<Rightarrow> (i, s)
      | None \<Rightarrow> let i = mc_nextObj s in
          (i, s\<lparr> mc_groups := (mc_groups s)(grp \<mapsto> i), mc_objs := (mc_objs s)(i \<mapsto> NewTCPMuxGroup), mc_nextObj := i + 1 \<rparr>))"

definition HTTPConnectListen ::
  "nat \<Rightarrow> string \<Rightarrow> string \<Rightarrow> route_config \<Rightarrow> mux_ctl \<Rightarrow> (mux_error, nat) result \<times> mux_ctl"
where
  "HTTPConnectListen i grp key rc s =
     (let g = the (mc_objs s i); ln = mc_nextLn s in
      if mg_lns g = [] then
        (case VhostLookup.Listen rc (mc_routes s) of
           Inl e \<Rightarrow> (Inl (MuxRoute e), s)
         | Inr (l, r) \<Rightarrow> (Inr ln, s\<lparr> mc_routes := r, mc_nextLn := ln + 1,
             mc_objs := (mc_objs s)(i \<mapsto> g\<lparr> mg_group := grp, mg_groupKey := key, mg_domain := rc_Domain rc,
               mg_routeByHTTPUser := rc_RouteByHTTPUser rc, mg_tcpMuxLn := Some l, mg_lns := [ln] \<rparr>) \<rparr>))
      else if mg_group g \<noteq> grp \<or> mg_domain g \<noteq> rc_Domain rc \<or> mg_routeByHTTPUser g \<noteq> rc_RouteByHTTPUser rc
      then (Inl MuxParamsInvalid, s)
      else if mg_groupKey g \<noteq> key then (Inl MuxAuthFailed, s)
      else (Inr ln, s\<lparr> mc_nextLn := ln + 1, mc_objs := (mc_objs s)(i \<mapsto> g\<lparr> mg_lns := mg_lns g @ [ln] \<rparr>) \<rparr>))"

text \<open>The result is the object of the group and the listener in it.\<close>

definition muxCtlListen ::
  "string \<Rightarrow> string \<Rightarrow> string \<Rightarrow> route_config \<Rightarrow> mux_ctl \<Rightarrow> (mux_error, nat \<times> nat) result \<times> mux_ctl"
where
  "muxCtlListen multiplexer grp key rc s =
     (let (i, s1) = muxLookup grp s in
      if multiplexer = ''httpconnect''
      then (case HTTPConnectListen i grp key rc s1 of (Inl e, s2) \<Rightarrow> (Inl e, s2) | (Inr ln, s2) \<Rightarrow> (Inr (i, ln), s2))
      else (Inl (UnknownMultiplexer multiplexer), s1))"

definition muxGroupClose :: "nat \<Rightarrow> nat \<Rightarrow> mux_ctl \<Rightarrow> (go_panic, mux_ctl) result" where
  "muxGroupClose i ln s =
     (case mc_objs s i of None \<Rightarrow> Inl NilDereference
      | Some g \<Rightarrow>
          let g' = g\<lparr> mg_lns := remove1 ln (mg_lns g) \<rparr> in
          if mg_lns g' \<noteq> [] then Inr (s\<lparr> mc_objs := (mc_objs s)(i \<mapsto> g') \<rparr>)
          else if mg_acceptClosed g then Inl CloseOfClosedChannel
          else (case mg_tcpMuxLn g of None \<Rightarrow> Inl NilDereference
            | Some l \<Rightarrow> Inr (s\<lparr> mc_routes := VhostLookup.CloseListener l (mc_routes s),
                mc_objs := (mc_objs s)(i \<mapsto> g'\<lparr> mg_acceptClosed := True \<rparr>),
                mc_groups := (mc_groups s)(mg_group g := None) \<rparr>)))"

text \<open>The controller as a table of groups; \<open>join\<close> takes the key and the route.\<close>

definition muxView :: "mux_ctl \<Rightarrow> listener_table" where
  "muxView s = \<lparr> lt_reg = mc_groups s,
     lt_objs = (\<lambda>i. map_option (\<lambda>g. \<lparr> lg_name = mg_group g, lg_closed = mg_acceptClosed g,
       lg_on = (mg_tcpMuxLn g \<noteq> None \<and> \<not> mg_acceptClosed g), lg_lns = mg_lns g \<rparr>) (mc_objs s i)),
     lt_nextObj = mc_nextObj s, lt_nextLn = mc_nextLn s \<rparr>"

lemma muxView_objs: "lt_objs (muxView s) i = Some g \<longleftrightarrow> (\<exists>mg. mc_objs s i = Some mg \<and>
    g = \<lparr> lg_name = mg_group mg, lg_closed = mg_acceptClosed mg, lg_on = (mg_tcpMuxLn mg \<noteq> None \<and> \<not> mg_acceptClosed mg),
      lg_lns = mg_lns mg \<rparr>)"
  by (auto simp: muxView_def)

lemma muxView_fields [simp]: "muxView (s\<lparr> mc_routes := r \<rparr>) = muxView s"
  by (simp add: muxView_def)

interpretation mux_groups: listener_groups muxView muxLookup "\<lambda>(key, rc) i n. HTTPConnectListen i n key rc" "\<lambda>now. muxGroupClose"
proof
  fix n s i s' assume "muxLookup n s = (i, s')"
  then show "specLook n (muxView s) = (i, muxView s')"
    by (auto simp: muxLookup_def specLook_def muxView_def newGroup_def NewTCPMuxGroup_def fun_eq_iff Let_def split: option.splits)
next
  fix k :: "string \<times> route_config" and i n s e s'
  assume "(case k of (key, rc) \<Rightarrow> \<lambda>i n. HTTPConnectListen i n key rc) i n s = (Inl e, s')"
  then show "muxView s' = muxView s"
    by (cases k) (auto simp: HTTPConnectListen_def Let_def split: sum.splits if_splits)
next
  fix k :: "string \<times> route_config" and i n s ln s' g
  assume a: "(case k of (key, rc) \<Rightarrow> \<lambda>i n. HTTPConnectListen i n key rc) i n s = (Inr ln, s')"
    and g: "lt_objs (muxView s) i = Some g"
  from g obtain mg where mg: "mc_objs s i = Some mg" and g: "g = \<lparr> lg_name = mg_group mg, lg_closed = mg_acceptClosed mg,
      lg_on = (mg_tcpMuxLn mg \<noteq> None \<and> \<not> mg_acceptClosed mg), lg_lns = mg_lns mg \<rparr>" by (auto simp: muxView_objs)
  show "ln = lt_nextLn (muxView s) \<and> muxView s' = specJoin i n g (muxView s)"
    using a mg by (cases k)
      (auto simp: HTTPConnectListen_def Let_def muxView_def specJoin_def joinedGroup_def g fun_eq_iff split: sum.splits if_splits)
next
  fix i ln s
  show "specLeave i ln (muxView s) = map_sum id muxView (muxGroupClose i ln s)"
    by (auto simp: specLeave_def muxGroupClose_def muxView_def Let_def fun_eq_iff split: option.splits)
qed

section \<open>Proxies of type https and tcpmux\<close>

text \<open>The domains of a configuration, in the order of the loops.\<close>

definition confDomains :: "server_conf \<Rightarrow> domain_conf \<Rightarrow> string list" where
  "confDomains sc d = filter (\<lambda>dm. dm \<noteq> []) (elems (CustomDomains d)) @
     (if SubDomain d \<noteq> [] then [SubDomain d @ ''.'' @ SubDomainHost sc] else [])"

definition domainRoute :: "string \<Rightarrow> string \<Rightarrow> route_config" where
  "domainRoute user dm = \<lparr> rc_Domain = dm, rc_Location = [], rc_RewriteHost = [], rc_Username = [], rc_Password = [],
     rc_Headers = None, rc_RouteByHTTPUser = user, rc_CreateConn = None \<rparr>"

fun listenAll :: "string list \<Rightarrow> listener list \<Rightarrow> listener routers \<Rightarrow> router_error option \<times> listener list \<times> listener routers"
where
  "listenAll [] ls r = (None, ls, r)"
| "listenAll (dm # dms) ls r =
     (case VhostLookup.Listen (domainRoute [] dm) r of
        Inl e \<Rightarrow> (Some e, ls, r)
      | Inr (l, r') \<Rightarrow> listenAll dms (ls @ [l]) r')"

definition httpsClose :: "listener list \<Rightarrow> listener routers \<Rightarrow> listener routers" where
  "httpsClose ls r = foldl (\<lambda>r l. VhostLookup.CloseListener l r) r ls"

definition httpsRun ::
  "server_conf \<Rightarrow> domain_conf \<Rightarrow> listener routers \<Rightarrow> (router_error, string \<times> listener list) result \<times> listener routers"
where
  "httpsRun sc d r =
     (case listenAll (confDomains sc d) [] r of
        (Some e, ls, r') \<Rightarrow> (Inl e, httpsClose ls r')
      | (None, ls, r') \<Rightarrow>
          (Inr (goJoin '','' (map (\<lambda>dm. CanonicalAddr dm (VhostHTTPSPort sc)) (confDomains sc d)), ls), r'))"

datatype mux_listener = MuxOwn listener | MuxOfGroup nat nat

definition httpConnectListen ::
  "base_conf \<Rightarrow> string \<Rightarrow> string \<Rightarrow> string \<Rightarrow> mux_ctl \<Rightarrow> (mux_error, mux_listener) result \<times> mux_ctl"
where
  "httpConnectListen b multiplexer user dm s =
     (if Group b \<noteq> [] then
        (case muxCtlListen multiplexer (Group b) (GroupKey b) (domainRoute user dm) s of
           (Inl e, s') \<Rightarrow> (Inl e, s') | (Inr (i, ln), s') \<Rightarrow> (Inr (MuxOfGroup i ln), s'))
      else
        (case VhostLookup.Listen (domainRoute user dm) (mc_routes s) of
           Inl e \<Rightarrow> (Inl (MuxRoute e), s) | Inr (l, r) \<Rightarrow> (Inr (MuxOwn l), s\<lparr> mc_routes := r \<rparr>)))"

fun connectAll ::
  "base_conf \<Rightarrow> string \<Rightarrow> string \<Rightarrow> string list \<Rightarrow> mux_listener list \<Rightarrow> mux_ctl \<Rightarrow> mux_error option \<times> mux_listener list \<times> mux_ctl"
where
  "connectAll b x user [] ls s = (None, ls, s)"
| "connectAll b x user (dm # dms) ls s =
     (case httpConnectListen b x user dm s of
        (Inl e, s') \<Rightarrow> (Some e, ls, s')
      | (Inr l, s') \<Rightarrow> connectAll b x user dms (ls @ [l]) s')"

fun tcpMuxClose :: "mux_listener list \<Rightarrow> mux_ctl \<Rightarrow> (go_panic, mux_ctl) result" where
  "tcpMuxClose [] s = Inr s"
| "tcpMuxClose (MuxOwn l # ls) s = tcpMuxClose ls (s\<lparr> mc_routes := VhostLookup.CloseListener l (mc_routes s) \<rparr>)"
| "tcpMuxClose (MuxOfGroup i ln # ls) s = (case muxGroupClose i ln s of Inl p \<Rightarrow> Inl p | Inr s' \<Rightarrow> tcpMuxClose ls s')"

text \<open>A run that fails closes the proxy, which may panic itself.\<close>

definition tcpMuxRun ::
  "server_conf \<Rightarrow> base_conf \<Rightarrow> domain_conf \<Rightarrow> string \<Rightarrow> string \<Rightarrow> mux_ctl
     \<Rightarrow> (go_panic, (mux_error, string \<times> mux_listener list) result \<times> mux_ctl) result"
where
  "tcpMuxRun sc b d user x s =
     (if x = ''httpconnect'' then
        (case connectAll b x user (confDomains sc d) [] s of
           (Some e, ls, s') \<Rightarrow> (case tcpMuxClose ls s' of Inl p \<Rightarrow> Inl p | Inr s'' \<Rightarrow> Inr (Inl e, s''))
         | (None, ls, s') \<Rightarrow>
             Inr (Inr (goJoin '','' (map (\<lambda>dm. CanonicalAddr dm (TCPMuxHTTPConnectPort sc)) (confDomains sc d)), ls), s'))
      else Inr (Inl (UnknownMultiplexer x), s))"

section \<open>Visitors and the nat hole\<close>

text \<open>The two maps of the manager have the same keys: the listeners of the names and their secret keys.\<close>

record visitor_manager =
  visitorListeners :: "string set"
  skMap :: "string \<rightharpoonup> string"

definition NewVisitorManager :: visitor_manager where
  "NewVisitorManager = \<lparr> visitorListeners = {}, skMap = Map.empty \<rparr>"

definition visitorListen :: "string \<Rightarrow> string \<Rightarrow> visitor_manager \<Rightarrow> (string, visitor_manager) result" where
  "visitorListen name sk vm =
     (if name \<in> visitorListeners vm then Inl name
      else Inr (vm\<lparr> visitorListeners := insert name (visitorListeners vm), skMap := (skMap vm)(name \<mapsto> sk) \<rparr>))"

definition visitorClose :: "string \<Rightarrow> visitor_manager \<Rightarrow> visitor_manager" where
  "visitorClose name vm = vm\<lparr> visitorListeners := visitorListeners vm - {name}, skMap := (skMap vm)(name := None) \<rparr>"

text \<open>
  A connection of a visitor: \<open>authKey\<close> is the digest of a key and a time, \<open>closed\<close> whether the
  listener was closed; the streams are left out.
\<close>

datatype visitor_error = VisitorAuthFailed | ListenerMissing | ListenerClosed

definition visitorConn ::
  "(string \<Rightarrow> int \<Rightarrow> string) \<Rightarrow> (string \<Rightarrow> bool) \<Rightarrow> string \<Rightarrow> int \<Rightarrow> string \<Rightarrow> visitor_manager \<Rightarrow> visitor_error option"
where
  "visitorConn authKey closed name timestamp signKey vm =
     (if name \<in> visitorListeners vm then
        (let sk = (case skMap vm name of None \<Rightarrow> [] | Some k \<Rightarrow> k) in
         if authKey sk timestamp \<noteq> signKey then Some VisitorAuthFailed
         else if closed name then Some ListenerClosed else None)
      else Some ListenerMissing)"

text \<open>The clients of the nat hole: the secret key of each name.\<close>

type_synonym nat_hole = "string \<rightharpoonup> string"

definition ListenClient :: "string \<Rightarrow> string \<Rightarrow> nat_hole \<Rightarrow> nat_hole" where
  "ListenClient name sk nc = nc(name \<mapsto> sk)"

definition CloseNatClient :: "string \<Rightarrow> nat_hole \<Rightarrow> nat_hole" where
  "CloseNatClient name nc = nc(name := None)"

section \<open>Running a proxy\<close>

record resources =
  rs_tcp :: group_ctl
  rs_udpPorts :: port_manager
  rs_http :: http_ctl
  rs_httpsRoutes :: "listener routers"
  rs_mux :: mux_ctl
  rs_visitors :: visitor_manager
  rs_natHole :: "nat_hole option"

text \<open>What the environment decides during a run: the calls of \<open>Acquire\<close> of the two managers of ports, what
  listening yields, the time.\<close>

record run_env =
  re_ports :: port_env
  re_udpPorts :: port_env
  re_listenErr :: "string option"
  re_now :: int

record service_conf = server_conf +
  ProxyBindAddr :: string

datatype run_error =
  PortTrouble proxy_error | HttpTrouble http_error | HttpsTrouble router_error | MuxTrouble mux_error
| VisitorTrouble string | XtcpNotSupported

datatype held =
  TcpHeld int tcp_listener | UdpHeld udp_proxy | HttpHeld "route_config list" | HttpsHeld "listener list"
| MuxHeld "mux_listener list" | VisitorHeld | NatHeld

record running =
  rn_conf :: proxy_conf
  rn_held :: held

abbreviation GetName :: "running \<Rightarrow> string" where
  "GetName pxy \<equiv> ProxyConf.ProxyName (GetBaseInfo (rn_conf pxy))"

fun runVisitor :: "base_conf \<Rightarrow> string \<Rightarrow> proxy_conf \<Rightarrow> resources \<Rightarrow> (run_error, string \<times> running) result \<times> resources" where
  "runVisitor b sk c rs = (case visitorListen (ProxyConf.ProxyName b) sk (rs_visitors rs) of
     Inl e \<Rightarrow> (Inl (VisitorTrouble e), rs)
   | Inr vm \<Rightarrow> (Inr ([], \<lparr> rn_conf = c, rn_held = VisitorHeld \<rparr>), rs\<lparr> rs_visitors := vm \<rparr>))"

text \<open>
  \<open>Run\<close> of every type: the address and the proxy, whose configuration then has its real port. Only the
  run of a tcpmux proxy can panic.
\<close>

fun pxyRun ::
  "run_env \<Rightarrow> service_conf \<Rightarrow> proxy_conf \<Rightarrow> resources
     \<Rightarrow> (go_panic, (run_error, string \<times> running) result \<times> resources) result"
where
  "pxyRun env sc (TCPProxyConf b p) rs =
     Inr (case tcpRun (re_ports env) (re_listenErr env) (re_now env) (ProxyBindAddr sc) b p (rs_tcp rs) of
        (Inl e, s) \<Rightarrow> (Inl (PortTrouble e), rs\<lparr> rs_tcp := s \<rparr>)
      | (Inr (addr, realPort, l), s) \<Rightarrow>
          (Inr (addr, \<lparr> rn_conf = TCPProxyConf b realPort, rn_held = TcpHeld realPort l \<rparr>), rs\<lparr> rs_tcp := s \<rparr>))"
| "pxyRun env sc (UDPProxyConf b p) rs =
     Inr (case udpRun (re_udpPorts env) (re_listenErr env) (re_now env) b p (rs_udpPorts rs) of
        (Inl e, pm) \<Rightarrow> (Inl (PortTrouble e), rs\<lparr> rs_udpPorts := pm \<rparr>)
      | (Inr (addr, u), pm) \<Rightarrow>
          (Inr (addr, \<lparr> rn_conf = UDPProxyConf b (up_realPort u), rn_held = UdpHeld u \<rparr>), rs\<lparr> rs_udpPorts := pm \<rparr>))"
| "pxyRun env sc (HTTPProxyConf b d h) rs =
     Inr (case httpRun (server_conf.truncate sc) (ProxyConf.ProxyName b) b d h (rs_http rs) of
        (Inl e, s) \<Rightarrow> (Inl (HttpTrouble e), rs\<lparr> rs_http := s \<rparr>)
      | (Inr (addr, regd), s) \<Rightarrow>
          (Inr (addr, \<lparr> rn_conf = HTTPProxyConf b d h, rn_held = HttpHeld regd \<rparr>), rs\<lparr> rs_http := s \<rparr>))"
| "pxyRun env sc (HTTPSProxyConf b d) rs =
     Inr (case httpsRun (server_conf.truncate sc) d (rs_httpsRoutes rs) of
        (Inl e, r) \<Rightarrow> (Inl (HttpsTrouble e), rs\<lparr> rs_httpsRoutes := r \<rparr>)
      | (Inr (addr, ls), r) \<Rightarrow>
          (Inr (addr, \<lparr> rn_conf = HTTPSProxyConf b d, rn_held = HttpsHeld ls \<rparr>), rs\<lparr> rs_httpsRoutes := r \<rparr>))"
| "pxyRun env sc (TCPMuxProxyConf b d user x) rs =
     (case tcpMuxRun (server_conf.truncate sc) b d user x (rs_mux rs) of
        Inl p \<Rightarrow> Inl p
      | Inr (Inl e, s) \<Rightarrow> Inr (Inl (MuxTrouble e), rs\<lparr> rs_mux := s \<rparr>)
      | Inr (Inr (addr, ls), s) \<Rightarrow>
          Inr (Inr (addr, \<lparr> rn_conf = TCPMuxProxyConf b d user x, rn_held = MuxHeld ls \<rparr>), rs\<lparr> rs_mux := s \<rparr>))"
| "pxyRun env sc (STCPProxyConf b r sk) rs = Inr (runVisitor b sk (STCPProxyConf b r sk) rs)"
| "pxyRun env sc (SUDPProxyConf b r sk) rs = Inr (runVisitor b sk (SUDPProxyConf b r sk) rs)"
| "pxyRun env sc (XTCPProxyConf b r sk) rs =
     Inr (case rs_natHole rs of
        None \<Rightarrow> (Inl XtcpNotSupported, rs)
      | Some nc \<Rightarrow> (Inr ([], \<lparr> rn_conf = XTCPProxyConf b r sk, rn_held = NatHeld \<rparr>),
          rs\<lparr> rs_natHole := Some (ListenClient (ProxyConf.ProxyName b) sk nc) \<rparr>))"

definition pxyClose :: "int \<Rightarrow> running \<Rightarrow> resources \<Rightarrow> (go_panic, resources) result" where
  "pxyClose now pxy rs =
     (case rn_held pxy of
        TcpHeld realPort l \<Rightarrow> map_sum id (\<lambda>s. rs\<lparr> rs_tcp := s \<rparr>) (tcpClose now realPort l (rs_tcp rs))
      | UdpHeld u \<Rightarrow> Inr (rs\<lparr> rs_udpPorts := snd (udpClose now u (rs_udpPorts rs)) \<rparr>)
      | HttpHeld regd \<Rightarrow>
          Inr (rs\<lparr> rs_http := httpClose (GetName pxy) (GetBaseInfo (rn_conf pxy)) regd (rs_http rs) \<rparr>)
      | HttpsHeld ls \<Rightarrow> Inr (rs\<lparr> rs_httpsRoutes := httpsClose ls (rs_httpsRoutes rs) \<rparr>)
      | MuxHeld ls \<Rightarrow> map_sum id (\<lambda>s. rs\<lparr> rs_mux := s \<rparr>) (tcpMuxClose ls (rs_mux rs))
      | VisitorHeld \<Rightarrow> Inr (rs\<lparr> rs_visitors := visitorClose (GetName pxy) (rs_visitors rs) \<rparr>)
      | NatHeld \<Rightarrow> (case rs_natHole rs of None \<Rightarrow> Inl NilDereference
          | Some nc \<Rightarrow> Inr (rs\<lparr> rs_natHole := Some (CloseNatClient (GetName pxy) nc) \<rparr>)))"

text \<open>The ports that a proxy counts for, set when it is made.\<close>

fun usedPortsNum :: "proxy_conf \<Rightarrow> int" where
  "usedPortsNum (TCPProxyConf b p) = 1"
| "usedPortsNum (UDPProxyConf b p) = 1"
| "usedPortsNum c = 0"

section \<open>Lemmas\<close>

text \<open>Running changes of the configuration only the port.\<close>

lemma pxyRun_conf:
  assumes "pxyRun env sc c rs = Inr (Inr (addr, pxy), rs')"
  shows "GetBaseInfo (rn_conf pxy) = GetBaseInfo c \<and> usedPortsNum (rn_conf pxy) = usedPortsNum c \<and> typeName (rn_conf pxy) = typeName c"
  using assms by (cases c) (auto split: prod.splits sum.splits option.splits)


end
