(* ===== verification/ServerControl.thy ===== *)
theory ServerControl
  imports ServerResources MemMetrics
begin

text \<open>
  The sessions of the clients: \<^verbatim>\<open>server/control.go\<close>, the registry of \<^verbatim>\<open>server/proxy/proxy.go\<close> and
  the logins of \<^verbatim>\<open>server/service.go\<close>. Every client has a control, a number here; its goroutines are
  steps of one relation on the state of the service. A step is what the code does under one lock or
  between two waits: a registration is the run of the proxy and then its entry in the registry, and a
  control closes its proxies one by one.

  Parameters: what the environment decides in a run, the server plugins, and the results of the checks of
  versions, logins and pings. The sizes of the channels for messages are left out.
\<close>

section \<open>State\<close>

record server_setup = service_conf +
  TCPMux :: bool
  AllowPorts :: "int set"

datatype reg_error =
  PluginError string | ConfError conf_error | TooManyPorts | RunError run_error | NameInUse string

datatype ctl_msg =
  LoginResp string | ReqWorkConn | NewProxyResp string "(reg_error, string) result" | Pong bool

text \<open>
  A control waits for the one it replaces, if any; it has started; it is closing the proxies of a list;
  it is done; or a panic has ended its goroutines while it held the proxies of a set.
\<close>

datatype ctl_phase = Waiting "nat option" | Started | Stopping "string list" | Finished | Stuck "string fset"

text \<open>
  \<open>ct_pending\<close> is the registration that has run its proxy: the name and the type of the message, the
  address and the proxy.
\<close>

record control =
  ct_runID :: string
  ct_loginRunID :: string
  ct_poolCount :: int
  ct_portsUsedNum :: int
  ct_proxies :: "(string, running) fmap"
  ct_workConns :: "nat list"
  ct_poolClosed :: bool
  ct_sent :: "ctl_msg list"
  ct_shutdown :: bool
  ct_lastPing :: int
  ct_pending :: "(string \<times> string \<times> string \<times> running) option"
  ct_phase :: ctl_phase

record service =
  svc_ctls :: "nat \<rightharpoonup> control"
  svc_next :: nat
  svc_byRunID :: "string \<rightharpoonup> nat"
  svc_pxys :: "string \<rightharpoonup> running"
  svc_res :: resources
  svc_events :: "mem_event list"

text \<open>The resources of a server that starts; the nat hole needs a port.\<close>

definition NewResources :: "server_setup \<Rightarrow> resources" where
  "NewResources cfg = \<lparr> rs_tcp = NewTCPGroupCtl (PortManager.NewManager ''tcp'' (ProxyBindAddr cfg) (AllowPorts cfg)),
     rs_udpPorts = PortManager.NewManager ''udp'' (ProxyBindAddr cfg) (AllowPorts cfg),
     rs_http = NewHTTPGroupController NewRouters, rs_httpsRoutes = NewRouters, rs_mux = NewTCPMuxGroupCtl NewRouters,
     rs_visitors = NewVisitorManager, rs_natHole = (if BindUDPPort cfg > 0 then Some Map.empty else None) \<rparr>"

definition newService :: "server_setup \<Rightarrow> service" where
  "newService cfg = \<lparr> svc_ctls = Map.empty, svc_next = 0, svc_byRunID = Map.empty, svc_pxys = Map.empty,
     svc_res = NewResources cfg, svc_events = [] \<rparr>"

definition updCtl :: "nat \<Rightarrow> control \<Rightarrow> service \<Rightarrow> service" where
  "updCtl i c s = s\<lparr> svc_ctls := (svc_ctls s)(i \<mapsto> c) \<rparr>"

definition send :: "ctl_msg \<Rightarrow> control \<Rightarrow> control" where
  "send m c = c\<lparr> ct_sent := ct_sent c @ [m] \<rparr>"

section \<open>Login\<close>

text \<open>Making a channel with a negative size is a panic, which nothing recovers here.\<close>

definition NewControl :: "server_setup \<Rightarrow> int \<Rightarrow> string \<Rightarrow> int \<Rightarrow> (go_panic, control) result" where
  "NewControl cfg now runID loginPool =
     (let poolCount = (if loginPool > MaxPoolCount cfg then MaxPoolCount cfg else loginPool) in
      if poolCount + 10 < 0 then Inl NegativeLength
      else Inr \<lparr> ct_runID = runID, ct_loginRunID = runID, ct_poolCount = poolCount, ct_portsUsedNum = 0,
        ct_proxies = fmempty, ct_workConns = [], ct_poolClosed = False, ct_sent = [], ct_shutdown = False,
        ct_lastPing = now, ct_pending = None, ct_phase = Waiting None \<rparr>)"

definition Replaced :: "control \<Rightarrow> control" where
  "Replaced c = c\<lparr> ct_runID := [], ct_shutdown := True \<rparr>"

definition cmAdd :: "string \<Rightarrow> nat \<Rightarrow> service \<Rightarrow> nat option \<times> service" where
  "cmAdd runID i s =
     (let s1 = s\<lparr> svc_byRunID := (svc_byRunID s)(runID \<mapsto> i) \<rparr> in
      case svc_byRunID s runID of
        None \<Rightarrow> (None, s1)
      | Some j \<Rightarrow> (Some j, case svc_ctls s j of None \<Rightarrow> s1 | Some c \<Rightarrow> updCtl j (Replaced c) s1))"

definition cmDel :: "string \<Rightarrow> nat \<Rightarrow> service \<Rightarrow> service" where
  "cmDel runID i s =
     (if svc_byRunID s runID = Some i then s\<lparr> svc_byRunID := (svc_byRunID s)(runID := None) \<rparr> else s)"

definition GetByID :: "string \<Rightarrow> service \<Rightarrow> nat option" where
  "GetByID runID s = svc_byRunID s runID"

text \<open>
  A login up to the wait for the control it replaces; \<open>randID\<close> is the identifier drawn when the client
  has none, \<open>refused\<close> says that the version or the authentication is refused.
\<close>

definition RegisterControl :: "server_setup \<Rightarrow> int \<Rightarrow> string \<Rightarrow> bool \<Rightarrow> string \<Rightarrow> int \<Rightarrow> service \<Rightarrow> (go_panic, service) result"
where
  "RegisterControl cfg now randID refused loginRunID loginPool s =
     (let runID = (if loginRunID = [] then randID else loginRunID) in
      if refused then Inr s
      else case NewControl cfg now runID loginPool of
        Inl p \<Rightarrow> Inl p
      | Inr c \<Rightarrow>
          let i = svc_next s; (old, s1) = cmAdd runID i s in
          Inr (updCtl i (c\<lparr> ct_phase := Waiting old \<rparr>) s1\<lparr> svc_next := i + 1 \<rparr>))"

definition Start :: "control \<Rightarrow> control" where
  "Start c = c\<lparr> ct_phase := Started,
     ct_sent := LoginResp (ct_runID c) # replicate (nat (ct_poolCount c)) ReqWorkConn \<rparr>"

text \<open>The end of a login, once the control it replaces is done.\<close>

definition startControl :: "nat \<Rightarrow> control \<Rightarrow> service \<Rightarrow> service" where
  "startControl i c s = updCtl i (Start c) s\<lparr> svc_events := svc_events s @ [MNewClient] \<rparr>"

section \<open>Work connections\<close>

text \<open>
  A connection that does not fit is refused. After the channel was closed sending is a panic, which is
  recovered: the result is that of success, but the connection is nowhere.
\<close>

definition RegisterWorkConn :: "nat \<Rightarrow> control \<Rightarrow> bool \<times> control" where
  "RegisterWorkConn conn c =
     (if ct_poolClosed c then (True, c)
      else if int (length (ct_workConns c)) < ct_poolCount c + 10
      then (True, c\<lparr> ct_workConns := ct_workConns c @ [conn] \<rparr>)
      else (False, c))"

datatype work_error = ErrCtlClosed | ControlClosed | WorkTimeout

text \<open>\<open>later\<close> is what waiting yields when the pool is empty.\<close>

definition GetWorkConn :: "(work_error, nat) result \<Rightarrow> control \<Rightarrow> (work_error, nat) result \<times> control" where
  "GetWorkConn later c =
     (if ct_poolClosed c then (Inl ErrCtlClosed, c)
      else case ct_workConns c of
        w # ws \<Rightarrow> (Inr w, send ReqWorkConn (c\<lparr> ct_workConns := ws \<rparr>))
      | [] \<Rightarrow> (case later of
          Inl e \<Rightarrow> (Inl e, send ReqWorkConn c)
        | Inr w \<Rightarrow> (Inr w, send ReqWorkConn (send ReqWorkConn c))))"

text \<open>
  The loop of \<open>GetWorkConnFromPool\<close>, with the number of rounds left: \<open>get i\<close> is what the work pool
  yields in round \<open>i\<close> and \<open>writeOk w\<close> whether the start message can be written to a connection. The
  error of the write is a variable of the loop body. The result is the connection, which may be nil, and
  the connections closed.
\<close>

fun poolLoop ::
  "(nat \<Rightarrow> (work_error, nat) result) \<Rightarrow> (nat \<Rightarrow> bool) \<Rightarrow> nat \<Rightarrow> nat \<Rightarrow> nat option \<Rightarrow> nat list
     \<Rightarrow> (work_error, nat option) result \<times> nat list"
where
  "poolLoop get writeOk i 0 workConn gone = (Inr workConn, gone)"
| "poolLoop get writeOk i (Suc k) workConn gone =
     (case get i of
        Inl e \<Rightarrow> (Inl e, gone)
      | Inr w \<Rightarrow> if writeOk w then (Inr (Some w), gone) else poolLoop get writeOk (Suc i) k (Some w) (gone @ [w]))"

definition GetWorkConnFromPool ::
  "(nat \<Rightarrow> (work_error, nat) result) \<Rightarrow> (nat \<Rightarrow> bool) \<Rightarrow> int \<Rightarrow> (work_error, nat option) result \<times> nat list"
where
  "GetWorkConnFromPool get writeOk poolCount = poolLoop get writeOk 0 (nat (poolCount + 1)) None []"

text \<open>
  A user connection of a tcp proxy, as far as the work connection: closing a nil connection is a panic,
  which nothing recovers; joining a closed one moves no data.
\<close>

datatype user_result = Refused | Joined nat

definition HandleUserTCPConnection ::
  "(nat \<Rightarrow> (work_error, nat) result) \<Rightarrow> (nat \<Rightarrow> bool) \<Rightarrow> bool \<Rightarrow> int \<Rightarrow> (go_panic, user_result) result"
where
  "HandleUserTCPConnection get writeOk rejected poolCount =
     (if rejected then Inr Refused
      else case fst (GetWorkConnFromPool get writeOk poolCount) of
        Inl e \<Rightarrow> Inr Refused
      | Inr None \<Rightarrow> Inl NilDereference
      | Inr (Some w) \<Rightarrow> Inr (Joined w))"

section \<open>Proxies of a control\<close>

definition freePortsNum :: "server_setup \<Rightarrow> proxy_conf \<Rightarrow> control \<Rightarrow> control" where
  "freePortsNum cfg conf c =
     (if MaxPortsPerClient cfg > 0 then c\<lparr> ct_portsUsedNum := ct_portsUsedNum c - usedPortsNum conf \<rparr> else c)"

definition countPortsNum :: "server_setup \<Rightarrow> proxy_conf \<Rightarrow> control \<Rightarrow> control" where
  "countPortsNum cfg conf c =
     (if MaxPortsPerClient cfg > 0 then c\<lparr> ct_portsUsedNum := ct_portsUsedNum c + usedPortsNum conf \<rparr> else c)"

text \<open>
  A registration up to the run of the proxy. The type of the message is filled in when it is empty. A
  panic of the run ends the goroutine that handles the messages.
\<close>

definition registerRun ::
  "run_env \<Rightarrow> server_setup \<Rightarrow> new_proxy \<Rightarrow> control \<Rightarrow> resources \<Rightarrow> control \<times> resources"
where
  "registerRun env cfg m c rs =
     (case NewProxyConfFromMsg m (server_conf.truncate cfg) of
        Inl e \<Rightarrow> (send (NewProxyResp (np_ProxyName m) (Inl (ConfError e))) c, rs)
      | Inr conf \<Rightarrow>
          if MaxPortsPerClient cfg > 0 \<and> ct_portsUsedNum c + usedPortsNum conf > MaxPortsPerClient cfg
          then (send (NewProxyResp (np_ProxyName m) (Inl TooManyPorts)) c, rs)
          else let c1 = countPortsNum cfg conf c in
            (case pxyRun env (service_conf.truncate cfg) conf rs of
               Inl p \<Rightarrow> (c1\<lparr> ct_shutdown := True \<rparr>, rs)
             | Inr (Inl e, rs') \<Rightarrow> (send (NewProxyResp (np_ProxyName m) (Inl (RunError e))) (freePortsNum cfg conf c1), rs')
             | Inr (Inr (addr, pxy), rs') \<Rightarrow>
                 (c1\<lparr> ct_pending := Some (np_ProxyName m, if np_ProxyType m = [] then ''tcp'' else np_ProxyType m, addr, pxy) \<rparr>,
                  rs')))"

text \<open>\<open>plugin\<close> is what the server plugins make of the message.\<close>

definition handleNewProxy ::
  "run_env \<Rightarrow> server_setup \<Rightarrow> (string, new_proxy) result \<Rightarrow> new_proxy \<Rightarrow> control \<Rightarrow> resources \<Rightarrow> control \<times> resources"
where
  "handleNewProxy env cfg plugin m c rs =
     (case plugin of
        Inl e \<Rightarrow> (send (NewProxyResp (np_ProxyName m) (Inl (PluginError e))) c, rs)
      | Inr m' \<Rightarrow> registerRun env cfg m' c rs)"

text \<open>
  The end of a registration: the entry in the registry, or the close of a proxy whose name is in use. A
  panic of the close is recovered where the messages are handled.
\<close>

definition registerAdd ::
  "server_setup \<Rightarrow> int \<Rightarrow> nat \<Rightarrow> control \<Rightarrow> string \<times> string \<times> string \<times> running \<Rightarrow> service \<Rightarrow> service"
where
  "registerAdd cfg now i c p s =
     (case p of (name, ty, addr, pxy) \<Rightarrow>
        let c1 = c\<lparr> ct_pending := None \<rparr> in
        if svc_pxys s name \<noteq> None then
          (let c2 = freePortsNum cfg (rn_conf pxy) c1 in
           case pxyClose now pxy (svc_res s) of
             Inl q \<Rightarrow> updCtl i (c2\<lparr> ct_shutdown := True \<rparr>) s
           | Inr rs \<Rightarrow> updCtl i (send (NewProxyResp name (Inl (NameInUse name))) c2) (s\<lparr> svc_res := rs \<rparr>))
        else
          updCtl i (send (NewProxyResp name (Inr addr)) (c1\<lparr> ct_proxies := fmupd (GetName pxy) pxy (ct_proxies c) \<rparr>))
            (s\<lparr> svc_pxys := (svc_pxys s)(name \<mapsto> pxy), svc_events := svc_events s @ [MNewProxy now name ty] \<rparr>))"

definition closedEvent :: "int \<Rightarrow> running \<Rightarrow> mem_event" where
  "closedEvent now pxy = MCloseProxy now (GetName pxy) (ProxyType (GetBaseInfo (rn_conf pxy)))"

text \<open>A panic of the close leaves the lock of the control taken, and with it the control.\<close>

definition CloseCtlProxy :: "server_setup \<Rightarrow> int \<Rightarrow> nat \<Rightarrow> control \<Rightarrow> string \<Rightarrow> service \<Rightarrow> service" where
  "CloseCtlProxy cfg now i c name s =
     (case fmlookup (ct_proxies c) name of
        None \<Rightarrow> s
      | Some pxy \<Rightarrow>
          let c1 = freePortsNum cfg (rn_conf pxy) c in
          (case pxyClose now pxy (svc_res s) of
             Inl q \<Rightarrow> updCtl i (c1\<lparr> ct_shutdown := True, ct_phase := Stuck (fmdom (ct_proxies c)) \<rparr>) s
           | Inr rs \<Rightarrow> updCtl i (c1\<lparr> ct_proxies := fmdrop name (ct_proxies c) \<rparr>)
               (s\<lparr> svc_res := rs, svc_pxys := (svc_pxys s)(GetName pxy := None),
                   svc_events := svc_events s @ [closedEvent now pxy] \<rparr>)))"

text \<open>The loop over the proxies of a control that stops; a panic leaves it there.\<close>

definition stopOne :: "int \<Rightarrow> nat \<Rightarrow> control \<Rightarrow> string \<Rightarrow> string list \<Rightarrow> service \<Rightarrow> service" where
  "stopOne now i c n ns s =
     (case fmlookup (ct_proxies c) n of
        None \<Rightarrow> updCtl i (c\<lparr> ct_phase := Stopping ns \<rparr>) s
      | Some pxy \<Rightarrow>
          (case pxyClose now pxy (svc_res s) of
             Inl q \<Rightarrow> updCtl i (c\<lparr> ct_phase := Stuck (fset_of_list (n # ns)) \<rparr>) s
           | Inr rs \<Rightarrow> updCtl i (c\<lparr> ct_phase := Stopping ns \<rparr>)
               (s\<lparr> svc_res := rs, svc_pxys := (svc_pxys s)(GetName pxy := None),
                   svc_events := svc_events s @ [closedEvent now pxy] \<rparr>)))"

definition stopBegin :: "string list \<Rightarrow> control \<Rightarrow> control" where
  "stopBegin order c = c\<lparr> ct_workConns := [], ct_poolClosed := True, ct_phase := Stopping order \<rparr>"

definition stopEnd :: "nat \<Rightarrow> control \<Rightarrow> service \<Rightarrow> service" where
  "stopEnd i c s = updCtl i (c\<lparr> ct_phase := Finished \<rparr>) (s\<lparr> svc_events := svc_events s @ [MCloseClient] \<rparr>)"

section \<open>Heartbeats\<close>

definition heartbeatExpired :: "server_setup \<Rightarrow> int \<Rightarrow> control \<Rightarrow> bool" where
  "heartbeatExpired cfg now c \<longleftrightarrow>
     \<not> (TCPMux cfg \<or> HeartbeatTimeout cfg \<le> 0) \<and> now - ct_lastPing c > HeartbeatTimeout cfg * 1000000000"

definition handlePing :: "int \<Rightarrow> bool \<Rightarrow> control \<Rightarrow> control" where
  "handlePing now refused c =
     (if refused then (send (Pong False) c)\<lparr> ct_shutdown := True \<rparr> else send (Pong True) (c\<lparr> ct_lastPing := now \<rparr>))"

lemmas control_defs [go_defs] =
  NewResources_def newService_def updCtl_def send_def NewControl_def Replaced_def cmAdd_def cmDel_def GetByID_def RegisterControl_def
  Start_def startControl_def RegisterWorkConn_def GetWorkConn_def freePortsNum_def countPortsNum_def registerRun_def
  handleNewProxy_def registerAdd_def closedEvent_def CloseCtlProxy_def stopOne_def stopBegin_def stopEnd_def
  heartbeatExpired_def handlePing_def

section \<open>The steps of the service\<close>

text \<open>The calls on the statistics that do not come from a control: connections, traffic, queries, the timer.\<close>

fun otherEvent :: "mem_event \<Rightarrow> bool" where
  "otherEvent MNewClient = False"
| "otherEvent MCloseClient = False"
| "otherEvent (MNewProxy now n ty) = False"
| "otherEvent (MCloseProxy now n ty) = False"
| "otherEvent e = True"

text \<open>\<open>ok\<close> limits what the environment may decide during the run of a proxy.\<close>

inductive svc_step :: "(run_env \<Rightarrow> resources \<Rightarrow> bool) \<Rightarrow> server_setup \<Rightarrow> service \<Rightarrow> service \<Rightarrow> bool" for ok cfg where
  login: "RegisterControl cfg now randID refused runID loginPool s = Inr s' \<Longrightarrow> svc_step ok cfg s s'"
| start: "svc_ctls s i = Some c \<Longrightarrow> ct_phase c = Waiting old \<Longrightarrow>
    (\<forall>j. old = Some j \<longrightarrow> (\<exists>d. svc_ctls s j = Some d \<and> ct_phase d = Finished)) \<Longrightarrow> svc_step ok cfg s (startControl i c s)"
| work: "svc_ctls s i = Some c \<Longrightarrow> RegisterWorkConn w c = (r, c') \<Longrightarrow> svc_step ok cfg s (updCtl i c' s)"
| take: "svc_ctls s i = Some c \<Longrightarrow> GetWorkConn later c = (r, c') \<Longrightarrow> svc_step ok cfg s (updCtl i c' s)"
| new_proxy: "svc_ctls s i = Some c \<Longrightarrow> ct_phase c = Started \<Longrightarrow> ct_pending c = None \<Longrightarrow>
    ok env (svc_res s) \<Longrightarrow> handleNewProxy env cfg plugin m c (svc_res s) = (c', rs) \<Longrightarrow> svc_step ok cfg s (updCtl i c' (s\<lparr> svc_res := rs \<rparr>))"
| add: "svc_ctls s i = Some c \<Longrightarrow> ct_phase c = Started \<Longrightarrow> ct_pending c = Some p \<Longrightarrow>
    svc_step ok cfg s (registerAdd cfg now i c p s)"
| close_proxy: "svc_ctls s i = Some c \<Longrightarrow> ct_phase c = Started \<Longrightarrow> ct_pending c = None \<Longrightarrow>
    svc_step ok cfg s (CloseCtlProxy cfg now i c name s)"
| ping: "svc_ctls s i = Some c \<Longrightarrow> ct_phase c = Started \<Longrightarrow> svc_step ok cfg s (updCtl i (handlePing now refused c) s)"
| shutdown: "svc_ctls s i = Some c \<Longrightarrow> ct_phase c = Started \<Longrightarrow> svc_step ok cfg s (updCtl i (c\<lparr> ct_shutdown := True \<rparr>) s)"
| stop: "svc_ctls s i = Some c \<Longrightarrow> ct_phase c = Started \<Longrightarrow> ct_shutdown c \<Longrightarrow> ct_pending c = None \<Longrightarrow>
    distinct order \<Longrightarrow> set order = fmdom' (ct_proxies c) \<Longrightarrow> svc_step ok cfg s (updCtl i (stopBegin order c) s)"
| stop_one: "svc_ctls s i = Some c \<Longrightarrow> ct_phase c = Stopping (n # ns) \<Longrightarrow> svc_step ok cfg s (stopOne now i c n ns s)"
| stop_end: "svc_ctls s i = Some c \<Longrightarrow> ct_phase c = Stopping [] \<Longrightarrow> svc_step ok cfg s (stopEnd i c s)"
| del: "svc_ctls s i = Some c \<Longrightarrow> ct_phase c = Finished \<Longrightarrow> svc_step ok cfg s (cmDel (ct_loginRunID c) i s)"
| metric: "otherEvent e \<Longrightarrow> svc_step ok cfg s (s\<lparr> svc_events := svc_events s @ [e] \<rparr>)"

inductive svc_reach :: "(run_env \<Rightarrow> resources \<Rightarrow> bool) \<Rightarrow> server_setup \<Rightarrow> service \<Rightarrow> bool" for ok cfg where
  init: "svc_reach ok cfg (newService cfg)"
| step: "svc_reach ok cfg s \<Longrightarrow> svc_step ok cfg s s' \<Longrightarrow> svc_reach ok cfg s'"

end
