(* ===== verification/ServerSessions.thy ===== *)
theory ServerSessions
  imports ServerControl
begin

text \<open>
  What holds of the sessions of frps in every reachable state: one live control per client, the registry
  of names, the limit of ports, and the statistics. The steps are those of ServerControl.
\<close>

section \<open>One session per client\<close>

text \<open>
  The part of the state that decides which controls are live: the client and the stage of each control,
  and the map of the manager.
\<close>

datatype stage = Waits "nat option" | Live | Over

fun stageOf :: "ctl_phase \<Rightarrow> stage" where
  "stageOf (Waiting old) = Waits old"
| "stageOf Finished = Over"
| "stageOf p = Live"

definition sessView :: "service \<Rightarrow> nat \<rightharpoonup> string \<times> stage" where
  "sessView s i = map_option (\<lambda>c. (ct_loginRunID c, stageOf (ct_phase c))) (svc_ctls s i)"

fun predOf :: "stage \<Rightarrow> nat option" where
  "predOf (Waits old) = old"
| "predOf Live = None"
| "predOf Over = None"

text \<open>
  \<open>newest V m rid p\<close>: of the controls of a client before \<open>m\<close>, \<open>p\<close> is the last one, or all are over. It
  holds of what a control waits for and, at the end of the numbers, of the map.
\<close>

definition newest :: "(nat \<rightharpoonup> string \<times> stage) \<Rightarrow> nat \<Rightarrow> string \<Rightarrow> nat option \<Rightarrow> bool" where
  "newest V m rid p = (case p of
       None \<Rightarrow> (\<forall>j < m. \<forall>st. V j = Some (rid, st) \<longrightarrow> st = Over)
     | Some k \<Rightarrow> k < m \<and> (\<exists>st. V k = Some (rid, st)) \<and> (\<forall>j < m. \<forall>st. V j = Some (rid, st) \<longrightarrow> j \<le> k))"

definition sessInv :: "(nat \<rightharpoonup> string \<times> stage) \<Rightarrow> (string \<rightharpoonup> nat) \<Rightarrow> nat \<Rightarrow> bool" where
  "sessInv V B N \<longleftrightarrow>
     (\<forall>i rid st. V i = Some (rid, st) \<longrightarrow> i < N \<and> newest V i rid (predOf st)) \<and> (\<forall>rid. newest V N rid (B rid))"

lemma sessInvD:
  assumes "sessInv V B N"
  shows "V i = Some (rid, st) \<Longrightarrow> i < N" and "V i = Some (rid, st) \<Longrightarrow> newest V i rid (predOf st)"
    and "newest V N rid (B rid)"
  using assms unfolding sessInv_def by blast+

lemma newest_beyond: "m \<le> n \<Longrightarrow> newest (V(n \<mapsto> x)) m rid p \<longleftrightarrow> newest V m rid p"
  by (auto simp: newest_def split: option.split)

lemma newest_step:
  assumes "V i = Some (rid, st)" and "st \<noteq> Over" and "newest V m r p"
  shows "newest (V(i \<mapsto> (rid, st'))) m r p"
  using assms by (fastforce simp: newest_def split: option.splits)

lemma newest_over:
  assumes "newest V i rid (Some k)" and "V k = Some (rid, Over)" and "newest V k rid None"
  shows "newest V i rid None"
  using assms unfolding newest_def by simp (metis le_neq_implies_less option.inject prod.inject)

text \<open>The moves of the abstract machine.\<close>

lemma sess_login:
  assumes inv: "sessInv V B N"
  shows "sessInv (V(N \<mapsto> (rid, Waits (B rid)))) (B(rid \<mapsto> N)) (Suc N)"
proof -
  have other: "newest (V(N \<mapsto> (rid, Waits (B rid)))) (Suc N) r (B r)" if "r \<noteq> rid" for r
    using sessInvD(3) [OF inv, of r] that by (auto simp: newest_def less_Suc_eq split: option.splits)
  have self: "newest (V(N \<mapsto> (rid, Waits (B rid)))) (Suc N) rid (Some N)" by (simp add: newest_def less_Suc_eq_le)
  have old: "i < Suc N \<and> newest (V(N \<mapsto> (rid, Waits (B rid)))) i r (predOf st)"
    if "(V(N \<mapsto> (rid, Waits (B rid)))) i = Some (r, st)" for i r st
    using that sessInvD [OF inv] by (cases "i = N") (auto simp: newest_beyond less_imp_le intro: less_SucI)
  show ?thesis unfolding sessInv_def using other self old by simp
qed

lemma sess_move:
  assumes inv: "sessInv V B N" and "V i = Some (rid, st)" and "st \<noteq> Over" and "newest V i rid (predOf st')"
  shows "sessInv (V(i \<mapsto> (rid, st'))) B N"
  unfolding sessInv_def using assms sessInvD [OF inv] newest_step [of V i rid st] by auto

lemma sess_start:
  assumes inv: "sessInv V B N" and "V i = Some (rid, Waits old)" and "\<forall>k. old = Some k \<longrightarrow> (\<exists>r. V k = Some (r, Over))"
  shows "sessInv (V(i \<mapsto> (rid, Live))) B N"
proof -
  have n: "newest V i rid old" using sessInvD(2) [OF inv assms(2)] by simp
  have "newest V i rid None"
  proof (cases old)
    case (Some k)
    then have "V k = Some (rid, Over)" using n assms(3) by (auto simp: newest_def)
    then show ?thesis using newest_over n Some sessInvD(2) [OF inv, of k rid Over] by simp
  qed (use n in simp)
  then show ?thesis using sess_move [OF inv assms(2)] by simp
qed

lemma sess_del:
  assumes inv: "sessInv V B N" and "V i = Some (rid, Over)" and "B rid = Some i"
  shows "sessInv V (B(rid := None)) N"
proof -
  have "newest V N rid None"
    using newest_over [of V N rid i] assms(2) sessInvD(2) [OF inv assms(2)] sessInvD(3) [OF inv, of rid] assms(3) by simp
  then show ?thesis unfolding sessInv_def using sessInvD [OF inv] by auto
qed

lemma sess_unique:
  assumes "sessInv V B N" and "V i = Some (rid, Live)" and "V j = Some (rid, Live)"
  shows "i = j"
  using sessInvD(2) [OF assms(1,2)] sessInvD(2) [OF assms(1,3)] assms(2,3)
  by (auto simp: newest_def) (metis linorder_neqE_nat stage.distinct(5))

text \<open>Every step of the service is a move of the abstract machine, or none.\<close>

lemma sessView_upd [simp]: "sessView (updCtl i c s) = (sessView s)(i \<mapsto> (ct_loginRunID c, stageOf (ct_phase c)))"
  by (auto simp: fun_eq_iff sessView_def updCtl_def)

lemma sessView_Some: "svc_ctls s i = Some c \<Longrightarrow> sessView s i = Some (ct_loginRunID c, stageOf (ct_phase c))"
  by (simp add: sessView_def)

lemma sessView_keep [simp]:
  "svc_ctls s i = Some c \<Longrightarrow> a = ct_loginRunID c \<Longrightarrow> st = stageOf (ct_phase c) \<Longrightarrow> (sessView s)(i \<mapsto> (a, st)) = sessView s"
  by (auto simp: sessView_Some intro: map_upd_triv)

lemma updCtl_fields [simp]:
  "svc_byRunID (updCtl i c s) = svc_byRunID s" "svc_next (updCtl i c s) = svc_next s" "svc_pxys (updCtl i c s) = svc_pxys s"
  "svc_res (updCtl i c s) = svc_res s" "svc_events (updCtl i c s) = svc_events s"
  "svc_ctls (updCtl i c s) = (svc_ctls s)(i \<mapsto> c)"
  by (simp_all add: updCtl_def)

lemma sessView_fields [simp]:
  "sessView (s\<lparr> svc_next := a \<rparr>) = sessView s" "sessView (s\<lparr> svc_byRunID := b \<rparr>) = sessView s"
  "sessView (s\<lparr> svc_pxys := r \<rparr>) = sessView s" "sessView (s\<lparr> svc_res := rs \<rparr>) = sessView s"
  "sessView (s\<lparr> svc_events := es \<rparr>) = sessView s"
  by (simp_all add: fun_eq_iff sessView_def)

definition serviceInv :: "service \<Rightarrow> bool" where
  "serviceInv s \<longleftrightarrow> sessInv (sessView s) (svc_byRunID s) (svc_next s)"

text \<open>The handlers of a control keep its client and its stage.\<close>

lemma send_fields [simp]:
  "ct_loginRunID (send m c) = ct_loginRunID c" "ct_phase (send m c) = ct_phase c" "ct_proxies (send m c) = ct_proxies c"
  "ct_pending (send m c) = ct_pending c" "ct_portsUsedNum (send m c) = ct_portsUsedNum c"
  "ct_workConns (send m c) = ct_workConns c" "ct_poolCount (send m c) = ct_poolCount c"
  "ct_poolClosed (send m c) = ct_poolClosed c"
  by (simp_all add: send_def)

lemma portsNum_fields [simp]:
  "ct_loginRunID (freePortsNum cfg k c) = ct_loginRunID c" "ct_phase (freePortsNum cfg k c) = ct_phase c"
  "ct_proxies (freePortsNum cfg k c) = ct_proxies c" "ct_pending (freePortsNum cfg k c) = ct_pending c"
  "ct_workConns (freePortsNum cfg k c) = ct_workConns c" "ct_poolCount (freePortsNum cfg k c) = ct_poolCount c"
  "ct_loginRunID (countPortsNum cfg k c) = ct_loginRunID c" "ct_phase (countPortsNum cfg k c) = ct_phase c"
  "ct_proxies (countPortsNum cfg k c) = ct_proxies c" "ct_pending (countPortsNum cfg k c) = ct_pending c"
  "ct_workConns (countPortsNum cfg k c) = ct_workConns c" "ct_poolCount (countPortsNum cfg k c) = ct_poolCount c"
  by (simp_all add: freePortsNum_def countPortsNum_def)

lemma handler_fields:
  "RegisterWorkConn w c = (r, c1) \<Longrightarrow> ct_loginRunID c1 = ct_loginRunID c \<and> ct_phase c1 = ct_phase c \<and>
     ct_proxies c1 = ct_proxies c \<and> ct_pending c1 = ct_pending c \<and> ct_portsUsedNum c1 = ct_portsUsedNum c \<and> ct_poolCount c1 = ct_poolCount c"
  "GetWorkConn later c = (q, c2) \<Longrightarrow> ct_loginRunID c2 = ct_loginRunID c \<and> ct_phase c2 = ct_phase c \<and>
     ct_proxies c2 = ct_proxies c \<and> ct_pending c2 = ct_pending c \<and> ct_portsUsedNum c2 = ct_portsUsedNum c \<and> ct_poolCount c2 = ct_poolCount c"
  "handleNewProxy env cfg plugin m c rs = (c3, rs') \<Longrightarrow> ct_loginRunID c3 = ct_loginRunID c \<and> ct_phase c3 = ct_phase c \<and>
     ct_proxies c3 = ct_proxies c \<and> ct_poolCount c3 = ct_poolCount c \<and> ct_workConns c3 = ct_workConns c"
  by (auto simp: RegisterWorkConn_def GetWorkConn_def handleNewProxy_def registerRun_def Let_def
      split: if_splits list.splits sum.splits prod.splits)

lemma RegisterControl_cases:
  assumes "RegisterControl cfg now randID refused runID loginPool s = Inr s'"
  obtains "s' = s"
  | rid c where "NewControl cfg now rid loginPool = Inr c"
      "s' = updCtl (svc_next s) (c\<lparr> ct_phase := Waiting (fst (cmAdd rid (svc_next s) s)) \<rparr>) (snd (cmAdd rid (svc_next s) s))
        \<lparr> svc_next := svc_next s + 1 \<rparr>"
  using assms by (auto simp: RegisterControl_def Let_def case_prod_beta split: if_splits sum.splits)

lemma cmAdd_view:
  "fst (cmAdd rid i s) = svc_byRunID s rid" "sessView (snd (cmAdd rid i s)) = sessView s"
  "svc_byRunID (snd (cmAdd rid i s)) = (svc_byRunID s)(rid \<mapsto> i)" "svc_next (snd (cmAdd rid i s)) = svc_next s"
  by (auto simp: cmAdd_def Let_def Replaced_def split: option.split)

lemma NewControl_fields:
  assumes "NewControl cfg now rid loginPool = Inr c"
  shows "ct_loginRunID c = rid \<and> ct_proxies c = fmempty \<and> ct_pending c = None \<and> ct_portsUsedNum c = 0 \<and> ct_workConns c = [] \<and>
     ct_poolCount c \<le> MaxPoolCount cfg \<and> 0 \<le> ct_poolCount c + 10"
  using assms by (auto simp: NewControl_def Let_def split: if_splits)

lemma serviceInv_step:
  assumes "serviceInv s" and "svc_step ok cfg s s'"
  shows "serviceInv s'"
  using assms(2)
proof cases
  case (login now randID refused runID loginPool)
  show ?thesis
  proof (rule RegisterControl_cases [OF login])
    fix rid c assume "NewControl cfg now rid loginPool = Inr c" and s':
      "s' = updCtl (svc_next s) (c\<lparr> ct_phase := Waiting (fst (cmAdd rid (svc_next s) s)) \<rparr>) (snd (cmAdd rid (svc_next s) s))
        \<lparr> svc_next := svc_next s + 1 \<rparr>"
    then have "ct_loginRunID c = rid" using NewControl_fields by blast
    then show ?thesis
      using sess_login assms(1) by (simp add: s' serviceInv_def cmAdd_view)
  qed (use assms(1) in simp)
next
  case (start i c old)
  have "\<forall>k. old = Some k \<longrightarrow> (\<exists>r. sessView s k = Some (r, Over))" using start(4) by (auto simp: sessView_def)
  then have "sessInv ((sessView s)(i \<mapsto> (ct_loginRunID c, Live))) (svc_byRunID s) (svc_next s)"
    using sess_start assms(1) sessView_Some [OF start(2)] start(3) unfolding serviceInv_def by simp
  then show ?thesis by (simp add: start(1) serviceInv_def startControl_def Start_def)
next
  case (stop_end i c)
  have "sessInv ((sessView s)(i \<mapsto> (ct_loginRunID c, Over))) (svc_byRunID s) (svc_next s)"
    using sess_move [of "sessView s" _ _ i _ Live Over] assms(1) sessView_Some [OF stop_end(2)] stop_end(3)
      sessInvD(2) [of "sessView s" _ _ i _ Live] unfolding serviceInv_def by simp
  then show ?thesis by (simp add: stop_end(1) serviceInv_def stopEnd_def)
next
  case (del i c)
  then show ?thesis
    using sess_del assms(1) sessView_Some [OF del(2)] by (auto simp: serviceInv_def cmDel_def)
qed (use assms(1) in \<open>auto simp: serviceInv_def handler_fields handlePing_def registerAdd_def CloseCtlProxy_def
      stopOne_def stopBegin_def Let_def split: sum.split option.split prod.split\<close>)

lemma serviceInv_reach: "svc_reach ok cfg s \<Longrightarrow> serviceInv s"
proof (induction rule: svc_reach.induct)
  case init
  show ?case by (simp add: serviceInv_def newService_def sessInv_def sessView_def newest_def)
qed (rule serviceInv_step)

section \<open>The registry\<close>

text \<open>The proxies that a control holds: none before it starts, and while it stops those not yet closed.\<close>

definition ownedNames :: "control \<Rightarrow> string set" where
  "ownedNames c = (case ct_phase c of
       Started \<Rightarrow> fmdom' (ct_proxies c) | Stopping ns \<Rightarrow> set ns | Stuck f \<Rightarrow> fset f | _ \<Rightarrow> {})"

definition holds :: "control \<Rightarrow> string \<rightharpoonup> running" where
  "holds c = fmlookup (ct_proxies c) |` ownedNames c"

definition heldBy :: "service \<Rightarrow> nat \<Rightarrow> string \<rightharpoonup> running" where
  "heldBy s i = (case svc_ctls s i of None \<Rightarrow> Map.empty | Some c \<Rightarrow> holds c)"

definition regInv :: "(nat \<Rightarrow> string \<rightharpoonup> running) \<Rightarrow> (string \<rightharpoonup> running) \<Rightarrow> bool" where
  "regInv H P \<longleftrightarrow>
     (\<forall>i n pxy. H i n = Some pxy \<longrightarrow> P n = Some pxy) \<and> (\<forall>n pxy. P n = Some pxy \<longrightarrow> (\<exists>i. H i n = Some pxy)) \<and>
     (\<forall>i j n x y. H i n = Some x \<and> H j n = Some y \<longrightarrow> i = j)"

lemma regInvD:
  assumes "regInv H P"
  shows "H i n = Some pxy \<Longrightarrow> P n = Some pxy" and "P n = Some pxy \<Longrightarrow> \<exists>i. H i n = Some pxy"
    and "H i n = Some x \<Longrightarrow> H j n = Some y \<Longrightarrow> i = j"
  using assms unfolding regInv_def by blast+

lemma regInvI:
  assumes "\<And>i n pxy. H i n = Some pxy \<Longrightarrow> P n = Some pxy" and "\<And>n pxy. P n = Some pxy \<Longrightarrow> \<exists>i. H i n = Some pxy"
    and "\<And>i j n x y. H i n = Some x \<Longrightarrow> H j n = Some y \<Longrightarrow> i = j"
  shows "regInv H P"
  unfolding regInv_def using assms by blast

lemma reg_add:
  assumes "regInv H P" and "P n = None"
  shows "regInv (H(i := (H i)(n \<mapsto> pxy))) (P(n \<mapsto> pxy))"
proof -
  have none: "H j n = None" for j using regInvD(1) [OF assms(1), of j n] assms(2) by (cases "H j n") auto
  let ?H = "H(i := (H i)(n \<mapsto> pxy))"
  have at: "?H j m = (if m = n then (if j = i then Some pxy else None) else H j m)" for j m using none by simp
  show ?thesis
  proof (rule regInvI)
    fix m x assume "(P(n \<mapsto> pxy)) m = Some x"
    then show "\<exists>j. ?H j m = Some x" using regInvD(2) [OF assms(1), of m x] unfolding at by (cases "m = n") auto
  qed (use regInvD(1,3) [OF assms(1)] in \<open>unfold at, auto split: if_splits\<close>)
qed

lemma reg_del:
  assumes "regInv H P" and "H i n = Some pxy"
  shows "regInv (H(i := (H i)(n := None))) (P(n := None))"
proof -
  have other: "H j n = None" if "j \<noteq> i" for j using regInvD(3) [OF assms(1) assms(2), of j] that by (cases "H j n") auto
  let ?H = "H(i := (H i)(n := None))"
  have at: "?H j m = (if m = n then None else H j m)" for j m using other by auto
  show ?thesis
  proof (rule regInvI)
    fix m x assume "(P(n := None)) m = Some x"
    then show "\<exists>j. ?H j m = Some x" using regInvD(2) [OF assms(1), of m x] unfolding at by (cases "m = n") auto
  qed (use regInvD(1,3) [OF assms(1)] in \<open>unfold at, auto split: if_splits\<close>)
qed

lemma heldBy_upd [simp]: "heldBy (updCtl i c s) = (heldBy s)(i := holds c)"
  by (auto simp: fun_eq_iff heldBy_def)

lemma heldBy_fields [simp]:
  "heldBy (s\<lparr> svc_next := a \<rparr>) = heldBy s" "heldBy (s\<lparr> svc_byRunID := b \<rparr>) = heldBy s"
  "heldBy (s\<lparr> svc_pxys := r \<rparr>) = heldBy s" "heldBy (s\<lparr> svc_res := rs \<rparr>) = heldBy s"
  "heldBy (s\<lparr> svc_events := es \<rparr>) = heldBy s"
  by (simp_all add: fun_eq_iff heldBy_def)

lemma heldBy_keep [simp]:
  "svc_ctls s i = Some c \<Longrightarrow> h = holds c \<Longrightarrow> (heldBy s)(i := h) = heldBy s"
  "svc_ctls s i = None \<Longrightarrow> h = Map.empty \<Longrightarrow> (heldBy s)(i := h) = heldBy s"
  by (auto simp: fun_eq_iff heldBy_def)

lemma heldBy_Some: "svc_ctls s i = Some c \<Longrightarrow> heldBy s i = holds c"
  by (simp add: heldBy_def)

lemma holds_fields:
  "ct_phase c' = ct_phase c \<Longrightarrow> ct_proxies c' = ct_proxies c \<Longrightarrow> holds c' = holds c"
  by (simp add: holds_def ownedNames_def cong: ctl_phase.case_cong)

lemma holds_phases:
  "ct_phase c = Started \<Longrightarrow> holds c = fmlookup (ct_proxies c)"
  "ct_phase c = Waiting old \<Longrightarrow> holds c = Map.empty" "ct_phase c = Finished \<Longrightarrow> holds c = Map.empty"
  "ct_phase c = Stopping [] \<Longrightarrow> holds c = Map.empty"
  by (auto simp: holds_def ownedNames_def fun_eq_iff restrict_map_def fmlookup_dom'_iff)

section \<open>The controls\<close>

text \<open>
  What holds of every control: its proxies have the names under which it keeps them, the registration
  under way is named and typed like its message, a control that stops knows the proxies it has yet to
  close, and the ports it has are counted and within the limit.
\<close>

definition portsHeld :: "control \<Rightarrow> int" where
  "portsHeld c = int (card {n. \<exists>pxy. fmlookup (ct_proxies c) n = Some pxy \<and> usedPortsNum (rn_conf pxy) = 1}) +
     (case ct_pending c of None \<Rightarrow> 0 | Some (name, ty, addr, pxy) \<Rightarrow> usedPortsNum (rn_conf pxy))"

definition ctlOk :: "server_setup \<Rightarrow> control \<Rightarrow> bool" where
  "ctlOk cfg c \<longleftrightarrow>
     (\<forall>n pxy. fmlookup (ct_proxies c) n = Some pxy \<longrightarrow> GetName pxy = n) \<and>
     (\<forall>name ty addr pxy. ct_pending c = Some (name, ty, addr, pxy) \<longrightarrow>
        GetName pxy = name \<and> ProxyType (GetBaseInfo (rn_conf pxy)) = ty) \<and>
     (case ct_phase c of
        Waiting old \<Rightarrow> ct_proxies c = fmempty \<and> ct_pending c = None \<and> ct_portsUsedNum c = 0
      | Stopping ns \<Rightarrow> distinct ns \<and> set ns \<subseteq> fmdom' (ct_proxies c)
      | Stuck f \<Rightarrow> fset f \<subseteq> fmdom' (ct_proxies c)
      | _ \<Rightarrow> True) \<and>
     ct_poolCount c \<le> MaxPoolCount cfg \<and> int (length (ct_workConns c)) \<le> ct_poolCount c + 10 \<and>
     (0 < MaxPortsPerClient cfg \<longrightarrow> (ct_phase c = Started \<longrightarrow> portsHeld c \<le> ct_portsUsedNum c) \<and>
        ct_portsUsedNum c \<le> MaxPortsPerClient cfg)"

lemma ctlOkD:
  assumes "ctlOk cfg c"
  shows "fmlookup (ct_proxies c) n = Some pxy \<Longrightarrow> GetName pxy = n"
    and "ct_pending c = Some (name, ty, addr, pxy) \<Longrightarrow> GetName pxy = name \<and> ProxyType (GetBaseInfo (rn_conf pxy)) = ty"
    and "ct_phase c = Waiting old \<Longrightarrow> ct_proxies c = fmempty" and "ct_phase c = Waiting old \<Longrightarrow> ct_pending c = None \<and> ct_portsUsedNum c = 0"
    and "ct_phase c = Stopping ns \<Longrightarrow> distinct ns" and "ct_phase c = Stopping ns \<Longrightarrow> set ns \<subseteq> fmdom' (ct_proxies c)"
    and "ct_phase c = Stuck f \<Longrightarrow> fset f \<subseteq> fmdom' (ct_proxies c)"
    and "ct_poolCount c \<le> MaxPoolCount cfg" and "int (length (ct_workConns c)) \<le> ct_poolCount c + 10"
    and "0 < MaxPortsPerClient cfg \<Longrightarrow> ct_phase c = Started \<Longrightarrow> portsHeld c \<le> ct_portsUsedNum c"
    and "0 < MaxPortsPerClient cfg \<Longrightarrow> ct_portsUsedNum c \<le> MaxPortsPerClient cfg"
proof -
  have ph: "case ct_phase c of
        Waiting old \<Rightarrow> ct_proxies c = fmempty \<and> ct_pending c = None \<and> ct_portsUsedNum c = 0
      | Stopping ns \<Rightarrow> distinct ns \<and> set ns \<subseteq> fmdom' (ct_proxies c)
      | Stuck f \<Rightarrow> fset f \<subseteq> fmdom' (ct_proxies c)
      | _ \<Rightarrow> True" using assms unfolding ctlOk_def by blast
  show "ct_phase c = Waiting old \<Longrightarrow> ct_proxies c = fmempty" "ct_phase c = Waiting old \<Longrightarrow> ct_pending c = None \<and> ct_portsUsedNum c = 0"
    "ct_phase c = Stopping ns \<Longrightarrow> distinct ns" "ct_phase c = Stopping ns \<Longrightarrow> set ns \<subseteq> fmdom' (ct_proxies c)"
    "ct_phase c = Stuck f \<Longrightarrow> fset f \<subseteq> fmdom' (ct_proxies c)" using ph by auto
qed (use assms in \<open>unfold ctlOk_def, blast+\<close>)

definition ctlsOk :: "server_setup \<Rightarrow> service \<Rightarrow> bool" where
  "ctlsOk cfg s \<longleftrightarrow> (\<forall>i c. svc_ctls s i = Some c \<longrightarrow> ctlOk cfg c)"

lemma ctlsOk_upd: "ctlsOk cfg s \<Longrightarrow> ctlOk cfg c \<Longrightarrow> ctlsOk cfg (updCtl i c s)"
  by (simp add: ctlsOk_def)

lemma ctlsOk_fields [simp]:
  "ctlsOk cfg (s\<lparr> svc_next := a \<rparr>) = ctlsOk cfg s" "ctlsOk cfg (s\<lparr> svc_byRunID := b \<rparr>) = ctlsOk cfg s"
  "ctlsOk cfg (s\<lparr> svc_pxys := r \<rparr>) = ctlsOk cfg s" "ctlsOk cfg (s\<lparr> svc_res := rs \<rparr>) = ctlsOk cfg s"
  "ctlsOk cfg (s\<lparr> svc_events := es \<rparr>) = ctlsOk cfg s"
  by (simp_all add: ctlsOk_def)

lemma usedPortsNum_range: "usedPortsNum k = 0 \<or> usedPortsNum k = 1"
  by (cases k) simp_all

text \<open>Adding a proxy of a new name, and taking one away.\<close>

lemma card_add:
  assumes "m n = None" and "finite (dom m)"
  shows "card {k. \<exists>x. (m(n \<mapsto> v)) k = Some x \<and> Q x} = card {k. \<exists>x. m k = Some x \<and> Q x} + (if Q v then 1 else 0)"
proof -
  have fin: "finite {k. \<exists>x. m k = Some x \<and> Q x}" by (rule finite_subset [OF _ assms(2)]) auto
  have "{k. \<exists>x. (m(n \<mapsto> v)) k = Some x \<and> Q x} = (if Q v then insert n {k. \<exists>x. m k = Some x \<and> Q x} else {k. \<exists>x. m k = Some x \<and> Q x})"
    using assms(1) by auto
  then show ?thesis using fin assms(1) by simp
qed

lemma card_del:
  assumes "m n = Some v" and "finite (dom m)"
  shows "card {k. \<exists>x. m k = Some x \<and> Q x} = card {k. \<exists>x. (m(n := None)) k = Some x \<and> Q x} + (if Q v then 1 else 0)"
proof -
  have "(m(n := None))(n \<mapsto> v) = m" using assms(1) by auto
  then show ?thesis using card_add [of "m(n := None)" n v Q] assms(2) by simp
qed

section \<open>The registry as an abstract machine\<close>

text \<open>
  A step enters one name, held by one control, or takes one away, and tells the statistics; or it does
  neither. The state is what the controls hold, the registry, and the calls on the statistics.
\<close>

inductive reg_move ::
  "(nat \<Rightarrow> string \<rightharpoonup> running) \<times> (string \<rightharpoonup> running) \<times> mem_event list
     \<Rightarrow> (nat \<Rightarrow> string \<rightharpoonup> running) \<times> (string \<rightharpoonup> running) \<times> mem_event list \<Rightarrow> bool"
where
  stay: "reg_move (H, P, E) (H, P, E)"
| tell: "otherEvent e \<or> e = MNewClient \<or> e = MCloseClient \<Longrightarrow> reg_move (H, P, E) (H, P, E @ [e])"
| enter: "P n = None \<Longrightarrow> ty = ProxyType (GetBaseInfo (rn_conf pxy)) \<Longrightarrow>
    reg_move (H, P, E) (H(i := (H i)(n \<mapsto> pxy)), P(n \<mapsto> pxy), E @ [MNewProxy now n ty])"
| leave: "H i n = Some pxy \<Longrightarrow> ty = ProxyType (GetBaseInfo (rn_conf pxy)) \<Longrightarrow>
    reg_move (H, P, E) (H(i := (H i)(n := None)), P(n := None), E @ [MCloseProxy now n ty])"

lemma stays: "reg_move x x"
  by (cases x) (auto intro: stay)

definition regView :: "service \<Rightarrow> (nat \<Rightarrow> string \<rightharpoonup> running) \<times> (string \<rightharpoonup> running) \<times> mem_event list" where
  "regView s = (heldBy s, svc_pxys s, svc_events s)"

lemma holds_all: "fmlookup m |` fmdom' m = fmlookup m"
  by (auto simp: fun_eq_iff restrict_map_def fmlookup_dom'_iff)

lemma holds_rest: "n \<notin> set ns \<Longrightarrow> (m |` set (n # ns))(n := None) = m |` set ns"
  by (auto simp: fun_eq_iff restrict_map_def)

lemma holds_stages:
  "ct_phase c = Stopping ns \<Longrightarrow> holds c = fmlookup (ct_proxies c) |` set ns"
  "ct_phase c = Stuck f \<Longrightarrow> holds c = fmlookup (ct_proxies c) |` fset f"
  by (simp_all add: holds_def ownedNames_def)

lemma cmAdd_held:
  "heldBy (snd (cmAdd rid i s)) = heldBy s" "svc_pxys (snd (cmAdd rid i s)) = svc_pxys s"
  "svc_events (snd (cmAdd rid i s)) = svc_events s"
proof -
  have rep: "holds (Replaced c) = holds c" for c by (rule holds_fields) (simp_all add: Replaced_def)
  show "heldBy (snd (cmAdd rid i s)) = heldBy s"
    by (cases "svc_byRunID s rid"; cases "svc_ctls s (the (svc_byRunID s rid))") (simp_all add: cmAdd_def Let_def rep)
  show "svc_pxys (snd (cmAdd rid i s)) = svc_pxys s" "svc_events (snd (cmAdd rid i s)) = svc_events s"
    by (simp_all add: cmAdd_def Let_def split: option.split)
qed

lemma close_moves:
  assumes c: "svc_ctls s i = Some c" "ct_phase c = Started" and ok: "ctlOk cfg c"
  shows "reg_move (regView s) (regView (CloseCtlProxy cfg now i c name s))"
proof (cases "fmlookup (ct_proxies c) name")
  case None
  then show ?thesis by (simp add: CloseCtlProxy_def stays)
next
  case (Some pxy)
  have name: "GetName pxy = name" using ctlOkD(1) ok Some by blast
  have held: "heldBy s i = fmlookup (ct_proxies c)" using c by (simp add: heldBy_Some holds_phases)
  show ?thesis
  proof (cases "pxyClose now pxy (svc_res s)")
    case (Inl p)
    have "holds ((freePortsNum cfg (rn_conf pxy) c)\<lparr> ct_shutdown := True, ct_phase := Stuck (fmdom (ct_proxies c)) \<rparr>) = holds c"
      using c(2) by (simp add: holds_stages holds_phases holds_all flip: fmdom'_alt_def)
    then show ?thesis using Some Inl c by (simp add: CloseCtlProxy_def regView_def stay Let_def)
  next
    case (Inr rs)
    have "holds ((freePortsNum cfg (rn_conf pxy) c)\<lparr> ct_proxies := fmdrop name (ct_proxies c) \<rparr>) = (heldBy s i)(name := None)"
      using c(2) by (auto simp: holds_phases held fun_eq_iff)
    then have "regView (CloseCtlProxy cfg now i c name s) = ((heldBy s)(i := (heldBy s i)(name := None)),
        (svc_pxys s)(name := None), svc_events s @ [MCloseProxy now name (ProxyType (GetBaseInfo (rn_conf pxy)))])"
      using Some Inr name by (simp add: CloseCtlProxy_def regView_def Let_def closedEvent_def)
    moreover have "heldBy s i name = Some pxy" using held Some by simp
    ultimately show ?thesis using leave by (metis regView_def)
  qed
qed

lemma stop_moves:
  assumes c: "svc_ctls s i = Some c" "ct_phase c = Stopping (n # ns)" and ok: "ctlOk cfg c"
  shows "reg_move (regView s) (regView (stopOne now i c n ns s))"
proof -
  have in_dom: "n \<in> fmdom' (ct_proxies c)" and fresh: "n \<notin> set ns" using ctlOkD(5,6) [OF ok c(2)] by auto
  then obtain pxy where pxy: "fmlookup (ct_proxies c) n = Some pxy" by (auto simp: fmlookup_dom'_iff)
  have name: "GetName pxy = n" using ctlOkD(1) ok pxy by blast
  have held: "heldBy s i = fmlookup (ct_proxies c) |` set (n # ns)" using c by (simp add: heldBy_Some holds_stages)
  have rest: "holds (c\<lparr> ct_phase := Stopping ns \<rparr>) = (heldBy s i)(n := None)"
    unfolding held holds_rest [OF fresh] by (simp add: holds_stages)
  have stuck: "holds (c\<lparr> ct_phase := Stuck (fset_of_list (n # ns)) \<rparr>) = holds c"
    using c(2) by (simp add: holds_stages fset_of_list.rep_eq)
  show ?thesis
  proof (cases "pxyClose now pxy (svc_res s)")
    case (Inl p)
    then show ?thesis using pxy stuck c by (simp add: stopOne_def regView_def stay)
  next
    case (Inr rs)
    have "regView (stopOne now i c n ns s) = ((heldBy s)(i := (heldBy s i)(n := None)), (svc_pxys s)(n := None),
        svc_events s @ [MCloseProxy now n (ProxyType (GetBaseInfo (rn_conf pxy)))])"
      using pxy Inr rest name by (simp add: stopOne_def regView_def closedEvent_def)
    moreover have "heldBy s i n = Some pxy" using held pxy by simp
    ultimately show ?thesis using leave by (metis regView_def)
  qed
qed

lemma add_moves:
  assumes c: "svc_ctls s i = Some c" "ct_phase c = Started" "ct_pending c = Some p" and ok: "ctlOk cfg c"
  shows "reg_move (regView s) (regView (registerAdd cfg now i c p s))"
proof -
  obtain name ty addr pxy where p: "p = (name, ty, addr, pxy)" by (cases p) auto
  have name: "GetName pxy = name" "ProxyType (GetBaseInfo (rn_conf pxy)) = ty" using ctlOkD(2) ok c(3) p by blast+
  have held: "heldBy s i = fmlookup (ct_proxies c)" using c by (simp add: heldBy_Some holds_phases)
  show ?thesis
  proof (cases "svc_pxys s name = None")
    case True
    have "holds (send (NewProxyResp name (Inr addr)) (c\<lparr> ct_pending := None, ct_proxies := fmupd name pxy (ct_proxies c) \<rparr>)) =
        (heldBy s i)(name \<mapsto> pxy)"
      using c(2) by (auto simp: holds_phases held fun_eq_iff)
    then have "regView (registerAdd cfg now i c p s) = ((heldBy s)(i := (heldBy s i)(name \<mapsto> pxy)), (svc_pxys s)(name \<mapsto> pxy),
        svc_events s @ [MNewProxy now name ty])"
      using True name(1) by (simp add: registerAdd_def p Let_def regView_def)
    then show ?thesis using True name(2) enter by (metis regView_def)
  next
    case False
    show ?thesis
    proof (cases "pxyClose now pxy (svc_res s)")
      case (Inl q)
      then show ?thesis using False c by (simp add: registerAdd_def p Let_def regView_def holds_fields stay)
    next
      case (Inr rs)
      then show ?thesis using False c by (simp add: registerAdd_def p Let_def regView_def holds_fields stay)
    qed
  qed
qed

lemma step_moves:
  assumes "serviceInv s" and "ctlsOk cfg s" and "svc_step ok cfg s s'"
  shows "reg_move (regView s) (regView s')"
  using assms(3)
proof cases
  case (login now randID refused runID loginPool)
  show ?thesis
  proof (rule RegisterControl_cases [OF login])
    fix rid c assume "NewControl cfg now rid loginPool = Inr c" and s':
      "s' = updCtl (svc_next s) (c\<lparr> ct_phase := Waiting (fst (cmAdd rid (svc_next s) s)) \<rparr>) (snd (cmAdd rid (svc_next s) s))
        \<lparr> svc_next := svc_next s + 1 \<rparr>"
    have none: "svc_ctls s (svc_next s) = None"
      using assms(1) sessInvD(1) [of "sessView s" _ _ "svc_next s"] sessView_Some [of s "svc_next s"]
      unfolding serviceInv_def by (cases "svc_ctls s (svc_next s)") auto
    show ?thesis using none by (simp add: s' regView_def cmAdd_held holds_phases stay)
  qed (simp add: stays)
next
  case (start i c old)
  then have "ct_proxies c = fmempty" using assms(2) ctlOkD(3) unfolding ctlsOk_def by blast
  then have "holds (Start c) = holds c" using start(3) by (simp add: Start_def holds_phases fun_eq_iff)
  then show ?thesis using start(2) by (simp add: start(1) startControl_def regView_def tell)
next
  case (work i c w r c')
  then have "holds c' = holds c" using handler_fields(1) [OF work(3)] holds_fields by blast
  then show ?thesis using work(2) by (simp add: work(1) regView_def stay)
next
  case (take i c later r c')
  then have "holds c' = holds c" using handler_fields(2) [OF take(3)] holds_fields by blast
  then show ?thesis using take(2) by (simp add: take(1) regView_def stay)
next
  case (new_proxy i c env plugin m c' rs)
  then have "holds c' = holds c" using handler_fields(3) [OF new_proxy(6)] holds_fields by blast
  then show ?thesis using new_proxy(2) by (simp add: new_proxy(1) regView_def stay)
next
  case (add i c p now)
  then show ?thesis using add_moves assms(2) unfolding ctlsOk_def by blast
next
  case (close_proxy i c now name)
  then show ?thesis using close_moves assms(2) unfolding ctlsOk_def by blast
next
  case (ping i c now refused)
  then have "holds (handlePing now refused c) = holds c" by (intro holds_fields) (simp_all add: handlePing_def)
  then show ?thesis using ping(2) by (simp add: ping(1) regView_def stay)
next
  case (shutdown i c)
  have "holds (c\<lparr> ct_shutdown := True \<rparr>) = holds c" by (rule holds_fields) simp_all
  then show ?thesis using shutdown(2) by (simp add: shutdown(1) regView_def stay)
next
  case (stop i c order)
  then have "holds (stopBegin order c) = holds c"
    by (simp add: stopBegin_def holds_stages holds_phases holds_all)
  then show ?thesis using stop by (simp add: regView_def stay)
next
  case (stop_one i c n ns now)
  then show ?thesis using stop_moves assms(2) unfolding ctlsOk_def by blast
next
  case (stop_end i c)
  then show ?thesis by (simp add: stopEnd_def regView_def holds_phases tell)
next
  case (del i c)
  then show ?thesis by (simp add: cmDel_def regView_def stay)
next
  case (metric e)
  then show ?thesis by (simp add: regView_def tell)
qed

section \<open>The statistics\<close>

text \<open>Of every type as many proxies are open as the registry has.\<close>

definition metOk :: "(string \<rightharpoonup> running) \<Rightarrow> mem_event list \<Rightarrow> bool" where
  "metOk P E \<longleftrightarrow> finite (dom P) \<and>
     (\<forall>ty. balanced ty E \<and>
        opened ty E = closed ty E + card {n. \<exists>pxy. P n = Some pxy \<and> ProxyType (GetBaseInfo (rn_conf pxy)) = ty})"

lemma count_snoc:
  "opened ty (es @ [e]) = opened ty es + (if isOpenOf ty e then 1 else 0)"
  "closed ty (es @ [e]) = closed ty es + (if isCloseOf ty e then 1 else 0)"
  by (simp_all add: opened_def closed_def)

lemma other_counts: "otherEvent e \<or> e = MNewClient \<or> e = MCloseClient \<Longrightarrow> \<not> isOpenOf ty e \<and> \<not> isCloseOf ty e"
  by (cases e) auto

lemma move_inv:
  assumes "reg_move x y" and "regInv (fst x) (fst (snd x))" and "metOk (fst (snd x)) (snd (snd x))"
  shows "regInv (fst y) (fst (snd y)) \<and> metOk (fst (snd y)) (snd (snd y))"
  using assms
proof cases
  case (tell e H P E)
  then show ?thesis using assms(2,3) other_counts by (simp add: metOk_def balanced_snoc count_snoc)
next
  case (enter P n ty pxy H E i now)
  then show ?thesis
    using assms(2,3) reg_add card_add [of P n pxy] by (simp add: metOk_def balanced_snoc count_snoc)
next
  case (leave H i n pxy ty P E now)
  have P: "P n = Some pxy" using assms(2) leave regInvD(1) by simp
  have "metOk (P(n := None)) (E @ [MCloseProxy now n ty])"
    using assms(3) leave card_del [of P n pxy, OF P] by (auto simp: metOk_def balanced_snoc count_snoc)
  then show ?thesis using assms(2) leave reg_del by simp
qed (use assms in simp)

section \<open>Preservation\<close>

lemma finite_fmlookup: "finite (dom (fmlookup m))"
  by (metis finite_fmdom' fmdom'_alt_def fmlookup_dom_iff finite_fset dom_fmlookup)

lemma conf_of_message:
  assumes "NewProxyConfFromMsg m sc = Inr conf"
  shows "ProxyConf.ProxyName (GetBaseInfo conf) = np_ProxyName m \<and>
    ProxyType (GetBaseInfo conf) = (if np_ProxyType m = [] then ''tcp'' else np_ProxyType m)"
proof -
  have base: "ProxyConf.ProxyName (GetBaseInfo (UnmarshalFromMsg k c)) = np_ProxyName k \<and>
      ProxyType (GetBaseInfo (UnmarshalFromMsg k c)) = np_ProxyType k" for k c
    by (cases c) (simp_all add: unmarshalBase_def)
  show ?thesis using assms base by (auto simp: NewProxyConfFromMsg_def Let_def split: option.splits if_splits)
qed

lemma ctlOk_same:
  assumes "ctlOk cfg c" and "ct_phase c' = ct_phase c" and "ct_proxies c' = ct_proxies c" and "ct_poolCount c' = ct_poolCount c"
    and "int (length (ct_workConns c')) \<le> ct_poolCount c + 10" and "ct_pending c' = ct_pending c"
    and "ct_portsUsedNum c' = ct_portsUsedNum c"
  shows "ctlOk cfg c'"
proof -
  have "portsHeld c' = portsHeld c" using assms by (simp add: portsHeld_def)
  then show ?thesis
    using assms(1) unfolding ctlOk_def assms(2,3,4,6,7) by (simp add: assms(5))
qed

lemma ctlOk_Started:
  assumes "ct_phase c' = Started"
    and "\<And>n pxy. fmlookup (ct_proxies c') n = Some pxy \<Longrightarrow> GetName pxy = n"
    and "\<And>name ty addr pxy. ct_pending c' = Some (name, ty, addr, pxy) \<Longrightarrow>
        GetName pxy = name \<and> ProxyType (GetBaseInfo (rn_conf pxy)) = ty"
    and "ct_poolCount c' \<le> MaxPoolCount cfg" and "int (length (ct_workConns c')) \<le> ct_poolCount c' + 10"
    and "0 < MaxPortsPerClient cfg \<Longrightarrow> portsHeld c' \<le> ct_portsUsedNum c'"
    and "0 < MaxPortsPerClient cfg \<Longrightarrow> ct_portsUsedNum c' \<le> MaxPortsPerClient cfg"
  shows "ctlOk cfg c'"
  using assms unfolding ctlOk_def by auto

lemma registerRun_ok:
  assumes ok: "ctlOk cfg c" and c: "ct_phase c = Started" "ct_pending c = None" and r: "registerRun env cfg m c rs = (c', rs')"
  shows "ctlOk cfg c'"
proof -
  note D = ctlOkD [OF ok]
  have held: "portsHeld c' = portsHeld c + usedPortsNum k"
    if "ct_proxies c' = ct_proxies c" "ct_pending c' = Some (name, ty, addr, pxy)" "usedPortsNum (rn_conf pxy) = usedPortsNum k"
    for c' name ty addr pxy k using that c(2) by (simp add: portsHeld_def)
  have same: "portsHeld c' = portsHeld c" if "ct_proxies c' = ct_proxies c" "ct_pending c' = ct_pending c" for c'
    using that by (simp add: portsHeld_def)
  have keep: "ctlOk cfg (send x d)" if "ctlOk cfg d" for x d
    by (rule ctlOk_same [OF that]) (use ctlOkD [OF that] in simp_all)
  show ?thesis
  proof (cases "NewProxyConfFromMsg m (server_conf.truncate cfg)")
    case (Inl e)
    then show ?thesis using r keep [OF ok] by (auto simp: registerRun_def)
  next
    case (Inr conf)
    note base = conf_of_message [OF Inr]
    show ?thesis
    proof (cases "MaxPortsPerClient cfg > 0 \<and> ct_portsUsedNum c + usedPortsNum conf > MaxPortsPerClient cfg")
      case True
      then show ?thesis using r Inr keep [OF ok] by (auto simp: registerRun_def)
    next
      case False
      let ?c1 = "countPortsNum cfg conf c"
      have n: "0 \<le> usedPortsNum conf" using usedPortsNum_range [of conf] by auto
      have undo: "freePortsNum cfg conf ?c1 = c" by (simp add: freePortsNum_def countPortsNum_def)
      have used: "0 < MaxPortsPerClient cfg \<Longrightarrow> ct_portsUsedNum ?c1 = ct_portsUsedNum c + usedPortsNum conf"
        by (simp add: countPortsNum_def)
      show ?thesis
      proof (cases "pxyRun env (service_conf.truncate cfg) conf rs")
        case (Inl p)
        then have "c' = ?c1\<lparr> ct_shutdown := True \<rparr>" using r Inr False by (auto simp: registerRun_def Let_def)
        moreover have "portsHeld (?c1\<lparr> ct_shutdown := True \<rparr>) = portsHeld c" by (rule same) simp_all
        ultimately show ?thesis
          by (intro ctlOk_Started) (use c D n used False in auto)
      next
        case run: (Inr x)
        obtain q rs1 where x: "x = (q, rs1)" by fastforce
        show ?thesis
        proof (cases q)
          case (Inl e)
          then show ?thesis using r Inr False run x keep [OF ok] undo by (auto simp: registerRun_def Let_def)
        next
          case q: (Inr ap)
          obtain addr pxy where ap: "ap = (addr, pxy)" by fastforce
          note conf = pxyRun_conf [OF run [unfolded x q ap]]
          let ?ty = "if np_ProxyType m = [] then ''tcp'' else np_ProxyType m"
          have c': "c' = ?c1\<lparr> ct_pending := Some (np_ProxyName m, ?ty, addr, pxy) \<rparr>"
            using r Inr False run x q ap by (auto simp: registerRun_def Let_def)
          have "portsHeld c' = portsHeld c + usedPortsNum conf" using held [of c' _ _ _ pxy conf] conf unfolding c' by simp
          then show ?thesis using base conf
            by (intro ctlOk_Started) (use c D n used False in \<open>auto simp: c'\<close>)
        qed
      qed
    qed
  qed
qed

lemma portsHeld_enter:
  assumes "fmlookup (ct_proxies c) n = None" and "ct_pending c = Some (name, ty, addr, pxy)"
    and "ct_proxies c' = fmupd n pxy (ct_proxies c)" and "ct_pending c' = None"
  shows "portsHeld c' = portsHeld c"
proof -
  have "fmlookup (ct_proxies c') = (fmlookup (ct_proxies c))(n \<mapsto> pxy)" using assms(3) by (auto simp: fun_eq_iff)
  then show ?thesis
    using card_add [of "fmlookup (ct_proxies c)" n pxy "\<lambda>x. usedPortsNum (rn_conf x) = 1", OF assms(1) finite_fmlookup]
      usedPortsNum_range [of "rn_conf pxy"] assms(2,4) by (auto simp: portsHeld_def simp del: fun_upd_apply)
qed

lemma portsHeld_leave:
  assumes "fmlookup (ct_proxies c) n = Some pxy" and "ct_pending c = None"
    and "ct_proxies c' = fmdrop n (ct_proxies c)" and "ct_pending c' = None"
  shows "portsHeld c' = portsHeld c - usedPortsNum (rn_conf pxy)"
proof -
  have "fmlookup (ct_proxies c') = (fmlookup (ct_proxies c))(n := None)" using assms(3) by (auto simp: fun_eq_iff)
  then show ?thesis
    using card_del [of "fmlookup (ct_proxies c)" n pxy "\<lambda>x. usedPortsNum (rn_conf x) = 1", OF assms(1) finite_fmlookup]
      usedPortsNum_range [of "rn_conf pxy"] assms(2,4) by (auto simp: portsHeld_def simp del: fun_upd_apply)
qed

lemma freePortsNum_num: "0 < MaxPortsPerClient cfg \<Longrightarrow> ct_portsUsedNum (freePortsNum cfg k c) = ct_portsUsedNum c - usedPortsNum k"
  by (simp add: freePortsNum_def)

lemma usedPortsNum_nonneg: "0 \<le> usedPortsNum k"
  using usedPortsNum_range [of k] by auto

lemma registerAdd_ok:
  assumes ok: "ctlsOk cfg s" and c: "svc_ctls s i = Some c" "ct_phase c = Started" "ct_pending c = Some p"
    and reg: "regInv (heldBy s) (svc_pxys s)"
  shows "ctlsOk cfg (registerAdd cfg now i c p s)"
proof -
  have ok_c: "ctlOk cfg c" using ok c(1) unfolding ctlsOk_def by blast
  note D = ctlOkD [OF ok_c]
  obtain name ty addr pxy where p: "p = (name, ty, addr, pxy)" by (cases p) auto
  note named = D(2) [OF c(3) [unfolded p]]
  have drop: "portsHeld c' = portsHeld c - usedPortsNum (rn_conf pxy)" if "ct_proxies c' = ct_proxies c" "ct_pending c' = None" for c'
    using that c(3) p by (simp add: portsHeld_def)
  have gone: "ctlOk cfg c'"
    if "ct_phase c' = Started" "ct_proxies c' = ct_proxies c" "ct_pending c' = None" "ct_poolCount c' = ct_poolCount c"
      "ct_workConns c' = ct_workConns c" "0 < MaxPortsPerClient cfg \<Longrightarrow> ct_portsUsedNum c' = ct_portsUsedNum c - usedPortsNum (rn_conf pxy)"
    for c'
    by (rule ctlOk_Started) (use that D drop [of c'] c(2) usedPortsNum_nonneg [of "rn_conf pxy"] in \<open>auto simp: order_trans\<close>)
  show ?thesis
  proof (cases "svc_pxys s name = None")
    case True
    have "fmlookup (ct_proxies c) name = None"
      using regInvD(1) [OF reg, of i name] True c by (cases "fmlookup (ct_proxies c) name") (auto simp: heldBy_Some holds_phases)
    then have held: "portsHeld c' = portsHeld c" if "ct_proxies c' = fmupd name pxy (ct_proxies c)" "ct_pending c' = None" for c'
      using portsHeld_enter c(3) p that by blast
    have "ctlOk cfg (send (NewProxyResp name (Inr addr)) (c\<lparr> ct_pending := None, ct_proxies := fmupd name pxy (ct_proxies c) \<rparr>))"
      (is "ctlOk cfg ?c'")
      by (rule ctlOk_Started) (use D c(2) named held [of ?c'] in \<open>auto split: if_splits\<close>)
    then show ?thesis using True ok named by (simp add: registerAdd_def p Let_def ctlsOk_upd)
  next
    case False
    then show ?thesis
      using ok c(2) by (auto simp: registerAdd_def p Let_def freePortsNum_num intro!: ctlsOk_upd gone split: sum.split)
  qed
qed

lemma close_ok:
  assumes ok: "ctlsOk cfg s" and c: "svc_ctls s i = Some c" "ct_phase c = Started" "ct_pending c = None"
  shows "ctlsOk cfg (CloseCtlProxy cfg now i c name s)"
proof (cases "fmlookup (ct_proxies c) name")
  case None
  then show ?thesis using ok by (simp add: CloseCtlProxy_def)
next
  case (Some pxy)
  have ok_c: "ctlOk cfg c" using ok c(1) unfolding ctlsOk_def by blast
  note D = ctlOkD [OF ok_c]
  let ?c1 = "freePortsNum cfg (rn_conf pxy) c"
  have le: "0 < MaxPortsPerClient cfg \<Longrightarrow> ct_portsUsedNum ?c1 \<le> MaxPortsPerClient cfg"
    using D(11) usedPortsNum_nonneg [of "rn_conf pxy"] by (simp add: freePortsNum_num)
  have "ctlOk cfg (?c1\<lparr> ct_shutdown := True, ct_phase := Stuck (fmdom (ct_proxies c)) \<rparr>)"
    unfolding ctlOk_def using D c(3) le by (simp flip: fmdom'_alt_def)
  moreover have "ctlOk cfg (?c1\<lparr> ct_proxies := fmdrop name (ct_proxies c) \<rparr>)" (is "ctlOk cfg ?c'")
  proof -
    have "portsHeld ?c' = portsHeld c - usedPortsNum (rn_conf pxy)"
      by (rule portsHeld_leave [OF Some]) (use c(3) in simp_all)
    then show ?thesis
      by (intro ctlOk_Started) (use D c le in \<open>auto simp: freePortsNum_num split: if_splits\<close>)
  qed
  ultimately show ?thesis
    using Some ok by (auto simp: CloseCtlProxy_def Let_def intro!: ctlsOk_upd split: sum.split)
qed

lemma ctlOk_phase:
  assumes "ctlOk cfg c" and "ct_proxies c' = ct_proxies c" and "ct_pending c' = ct_pending c" and "ct_poolCount c' = ct_poolCount c"
    and "length (ct_workConns c') \<le> length (ct_workConns c)" and "ct_portsUsedNum c' = ct_portsUsedNum c"
    and "ct_phase c' = Finished \<or> (\<exists>ns. ct_phase c' = Stopping ns \<and> distinct ns \<and> set ns \<subseteq> fmdom' (ct_proxies c)) \<or>
        (\<exists>f. ct_phase c' = Stuck f \<and> fset f \<subseteq> fmdom' (ct_proxies c))"
  shows "ctlOk cfg c'"
proof -
  note D = ctlOkD [OF assms(1)]
  have len: "int (length (ct_workConns c')) \<le> ct_poolCount c + 10" using assms(5) D(9) by linarith
  have phase: "(case ct_phase c' of
        Waiting old \<Rightarrow> ct_proxies c = fmempty \<and> ct_pending c = None \<and> ct_portsUsedNum c = 0
      | Stopping ns \<Rightarrow> distinct ns \<and> set ns \<subseteq> fmdom' (ct_proxies c)
      | Stuck f \<Rightarrow> fset f \<subseteq> fmdom' (ct_proxies c)
      | _ \<Rightarrow> True) \<and> ct_phase c' \<noteq> Started" using assms(7) by auto
  show ?thesis unfolding ctlOk_def assms(2,3,4,6) using phase len D by blast
qed

lemma cmAdd_ok: "ctlsOk cfg s \<Longrightarrow> ctlsOk cfg (snd (cmAdd rid i s))"
proof -
  assume ok: "ctlsOk cfg s"
  have rep: "ctlOk cfg (Replaced c)" if "ctlOk cfg c" for c
    by (rule ctlOk_same [OF that]) (use ctlOkD [OF that] in \<open>simp_all add: Replaced_def\<close>)
  show ?thesis using ok rep
    by (auto simp: cmAdd_def Let_def ctlsOk_def split: option.split)
qed

lemma ctlsOk_step:
  assumes ok: "ctlsOk cfg s" and reg: "regInv (heldBy s) (svc_pxys s)" and step: "svc_step ok cfg s s'"
  shows "ctlsOk cfg s'"
proof -
  have at: "ctlOk cfg c" if "svc_ctls s i = Some c" for i c using ok that unfolding ctlsOk_def by blast
  show ?thesis using step
  proof cases
    case (login now randID refused runID loginPool)
    show ?thesis
    proof (rule RegisterControl_cases [OF login])
      fix rid c assume new: "NewControl cfg now rid loginPool = Inr c" and s':
        "s' = updCtl (svc_next s) (c\<lparr> ct_phase := Waiting (fst (cmAdd rid (svc_next s) s)) \<rparr>) (snd (cmAdd rid (svc_next s) s))
          \<lparr> svc_next := svc_next s + 1 \<rparr>"
      have "ctlOk cfg (c\<lparr> ct_phase := Waiting old \<rparr>)" for old
        using NewControl_fields [OF new] unfolding ctlOk_def by simp
      then show ?thesis using cmAdd_ok [OF ok] by (simp add: s' ctlsOk_upd)
    qed (use ok in simp)
  next
    case (start i c old)
    note D = ctlOkD [OF at [OF start(2)]]
    have "portsHeld (Start c) = 0" using D(3,4) [OF start(3)] by (simp add: portsHeld_def Start_def)
    then have "ctlOk cfg (Start c)"
      by (intro ctlOk_Started) (use D start(3) in \<open>auto simp: Start_def\<close>)
    then show ?thesis using ok by (simp add: start(1) startControl_def ctlsOk_upd)
  next
    case (work i c w r c')
    note D = ctlOkD [OF at [OF work(2)]]
    have "int (length (ct_workConns c')) \<le> ct_poolCount c + 10"
      using work(3) D(9) by (auto simp: RegisterWorkConn_def split: if_splits)
    then have "ctlOk cfg c'" using ctlOk_same [OF at [OF work(2)]] handler_fields(1) [OF work(3)] by blast
    then show ?thesis using ok by (simp add: work(1) ctlsOk_upd)
  next
    case (take i c later r c')
    note D = ctlOkD [OF at [OF take(2)]]
    have "int (length (ct_workConns c')) \<le> ct_poolCount c + 10"
      using take(3) D(9) by (auto simp: GetWorkConn_def split: if_splits list.splits sum.splits)
    then have "ctlOk cfg c'" using ctlOk_same [OF at [OF take(2)]] handler_fields(2) [OF take(3)] by blast
    then show ?thesis using ok by (simp add: take(1) ctlsOk_upd)
  next
    case (new_proxy i c env plugin m c' rs)
    note c = at [OF new_proxy(2)]
    have "ctlOk cfg c'"
    proof (cases plugin)
      case (Inl e)
      then have "c' = send (NewProxyResp (np_ProxyName m) (Inl (PluginError e))) c"
        using new_proxy(6) by (simp add: handleNewProxy_def)
      then show ?thesis using ctlOk_same [OF c] ctlOkD(9) [OF c] by simp
    next
      case (Inr m')
      then show ?thesis using registerRun_ok [OF c new_proxy(3,4)] new_proxy(6) by (simp add: handleNewProxy_def)
    qed
    then show ?thesis using ok by (simp add: new_proxy(1) ctlsOk_upd)
  next
    case (add i c p now)
    then show ?thesis using registerAdd_ok [OF ok _ _ _ reg] by blast
  next
    case (close_proxy i c now name)
    then show ?thesis using close_ok [OF ok] by blast
  next
    case (ping i c now refused)
    have "ctlOk cfg (handlePing now refused c)"
      using ctlOk_same [OF at [OF ping(2)]] ctlOkD(9) [OF at [OF ping(2)]] by (simp add: handlePing_def)
    then show ?thesis using ok by (simp add: ping(1) ctlsOk_upd)
  next
    case (shutdown i c)
    have "ctlOk cfg (c\<lparr> ct_shutdown := True \<rparr>)"
      using ctlOk_same [OF at [OF shutdown(2)]] ctlOkD(9) [OF at [OF shutdown(2)]] by simp
    then show ?thesis using ok by (simp add: shutdown(1) ctlsOk_upd)
  next
    case (stop i c order)
    have "ctlOk cfg (stopBegin order c)"
      by (rule ctlOk_phase [OF at [OF stop(2)]]) (use stop(6,7) in \<open>simp_all add: stopBegin_def\<close>)
    then show ?thesis using ok by (simp add: stop(1) ctlsOk_upd)
  next
    case (stop_one i c n ns now)
    note D = ctlOkD(5,6) [OF at [OF stop_one(2)] stop_one(3)]
    have "ctlOk cfg (c\<lparr> ct_phase := Stopping ns \<rparr>)" "ctlOk cfg (c\<lparr> ct_phase := Stuck (fset_of_list (n # ns)) \<rparr>)"
      by (rule ctlOk_phase [OF at [OF stop_one(2)]], use D in \<open>simp_all add: fset_of_list.rep_eq\<close>)+
    then show ?thesis using ok
      by (simp add: stop_one(1) stopOne_def ctlsOk_upd split: option.split sum.split)
  next
    case (stop_end i c)
    have "ctlOk cfg (c\<lparr> ct_phase := Finished \<rparr>)"
      by (rule ctlOk_phase [OF at [OF stop_end(2)]]) simp_all
    then show ?thesis using ok by (simp add: stop_end(1) stopEnd_def ctlsOk_upd)
  next
    case (del i c)
    then show ?thesis using ok by (simp add: cmDel_def)
  next
    case (metric e)
    then show ?thesis using ok by simp
  qed
qed

lemma reach_inv:
  assumes "svc_reach ok cfg s"
  shows "ctlsOk cfg s \<and> regInv (heldBy s) (svc_pxys s) \<and> metOk (svc_pxys s) (svc_events s)"
  using assms
proof (induction rule: svc_reach.induct)
  case init
  show ?case by (simp add: newService_def ctlsOk_def regInv_def heldBy_def metOk_def balanced_def opened_def closed_def)
next
  case (step s s')
  have "reg_move (regView s) (regView s')" using step_moves serviceInv_reach step by blast
  moreover have "ctlsOk cfg s'" using ctlsOk_step step by blast
  ultimately show ?case using move_inv step.IH by (simp add: regView_def) (metis fst_conv snd_conv)
qed

section \<open>The number of clients\<close>

text \<open>As many clients have joined and not left as there are live controls.\<close>

definition liveCtls :: "service \<Rightarrow> nat set" where
  "liveCtls s = {i. \<exists>c. svc_ctls s i = Some c \<and> stageOf (ct_phase c) = Live}"

definition clientsOk :: "service \<Rightarrow> bool" where
  "clientsOk s \<longleftrightarrow> finite (liveCtls s) \<and> joined (svc_events s) = left (svc_events s) + card (liveCtls s)"

lemma liveCtls_view: "liveCtls s = {i. \<exists>rid. sessView s i = Some (rid, Live)}"
  by (auto simp: liveCtls_def sessView_def)

lemma liveCtls_fields [simp]:
  "liveCtls (s\<lparr> svc_next := a \<rparr>) = liveCtls s" "liveCtls (s\<lparr> svc_byRunID := b \<rparr>) = liveCtls s"
  "liveCtls (s\<lparr> svc_pxys := r \<rparr>) = liveCtls s" "liveCtls (s\<lparr> svc_res := rs \<rparr>) = liveCtls s"
  "liveCtls (s\<lparr> svc_events := es \<rparr>) = liveCtls s"
  by (simp_all add: liveCtls_def)

lemma liveCtls_upd [simp]:
  "liveCtls (updCtl i c s) = (if stageOf (ct_phase c) = Live then insert i (liveCtls s) else liveCtls s - {i})"
  by (auto simp: liveCtls_def)

lemma liveCtls_keep:
  "svc_ctls s i = Some c \<Longrightarrow> stageOf (ct_phase c') = stageOf (ct_phase c) \<Longrightarrow> liveCtls (updCtl i c' s) = liveCtls s"
  by (auto simp: liveCtls_def)

lemma clients_snoc:
  "joined (es @ [e]) = joined es + (if e = MNewClient then 1 else 0)"
  "left (es @ [e]) = left es + (if e = MCloseClient then 1 else 0)"
  by (simp_all add: joined_def left_def)

lemma clientsOk_step:
  assumes inv: "serviceInv s" and ok: "clientsOk s" and step: "svc_step ok cfg s s'"
  shows "clientsOk s'"
  using step
proof cases
  case (login now randID refused runID loginPool)
  show ?thesis
  proof (rule RegisterControl_cases [OF login])
    fix rid c assume s':
      "s' = updCtl (svc_next s) (c\<lparr> ct_phase := Waiting (fst (cmAdd rid (svc_next s) s)) \<rparr>) (snd (cmAdd rid (svc_next s) s))
        \<lparr> svc_next := svc_next s + 1 \<rparr>"
    have "svc_next s \<notin> liveCtls s"
      using sessInvD(1) [of "sessView s" "svc_byRunID s" "svc_next s" "svc_next s"] inv
      by (auto simp: liveCtls_view serviceInv_def)
    moreover have "liveCtls (snd (cmAdd rid (svc_next s) s)) = liveCtls s" by (simp add: liveCtls_view cmAdd_view)
    moreover have "svc_events (snd (cmAdd rid (svc_next s) s)) = svc_events s"
      by (auto simp: cmAdd_def Let_def split: option.split)
    ultimately show ?thesis using ok by (simp add: s' clientsOk_def)
  qed (use ok in simp)
next
  case (start i c old)
  then have "i \<notin> liveCtls s" by (simp add: liveCtls_def)
  then show ?thesis using ok start(1) by (simp add: clientsOk_def startControl_def Start_def clients_snoc)
next
  case (stop_end i c)
  then have "i \<in> liveCtls s" by (simp add: liveCtls_def)
  then show ?thesis
    using ok stop_end(1) card_Suc_Diff1 [of "liveCtls s" i] by (simp add: clientsOk_def stopEnd_def clients_snoc)
next
  case (metric e)
  then show ?thesis using ok by (cases e) (simp_all add: clientsOk_def clients_snoc)
next
  case (del i c)
  then show ?thesis using ok by (simp add: clientsOk_def cmDel_def)
qed (use ok in \<open>auto simp: clientsOk_def clients_snoc liveCtls_keep handler_fields handlePing_def registerAdd_def CloseCtlProxy_def
      closedEvent_def stopOne_def stopBegin_def Let_def simp del: liveCtls_upd split: sum.split option.split prod.split\<close>)

lemma clientsOk_reach: "svc_reach ok cfg s \<Longrightarrow> clientsOk s"
proof (induction rule: svc_reach.induct)
  case init
  show ?case by (simp add: clientsOk_def newService_def liveCtls_def joined_def left_def)
next
  case (step s s')
  then show ?case using clientsOk_step serviceInv_reach by blast
qed

text \<open>The registered names of some types.\<close>

definition registeredOf :: "string list \<Rightarrow> service \<Rightarrow> string set" where
  "registeredOf types s = {n. \<exists>pxy. svc_pxys s n = Some pxy \<and> ProxyType (GetBaseInfo (rn_conf pxy)) \<in> set types}"

lemma registeredOf_le:
  assumes "metOk (svc_pxys s) es"
  shows "finite (registeredOf types s)" and "card (registeredOf types s) \<le> card (dom (svc_pxys s))"
proof -
  have "registeredOf types s \<subseteq> dom (svc_pxys s)" by (auto simp: registeredOf_def)
  then show "finite (registeredOf types s)" "card (registeredOf types s) \<le> card (dom (svc_pxys s))"
    using assms by (auto simp: metOk_def intro: finite_subset card_mono)
qed

lemma registeredOf_sum:
  assumes "metOk (svc_pxys s) es" and "distinct types"
  shows "card (registeredOf types s) = (\<Sum>ty \<leftarrow> types. card (registeredOf [ty] s))"
  using assms(2)
proof (induction types)
  case (Cons ty types)
  have "registeredOf (ty # types) s = registeredOf [ty] s \<union> registeredOf types s" by (auto simp: registeredOf_def)
  moreover have "registeredOf [ty] s \<inter> registeredOf types s = {}" using Cons.prems by (auto simp: registeredOf_def)
  ultimately show ?case
    using Cons registeredOf_le(1) [OF assms(1)] by (simp add: card_Un_disjoint)
qed (simp add: registeredOf_def)

section \<open>An example\<close>

text \<open>Two clients; the first has registered an xtcp proxy \<open>p2p\<close> and a tcp proxy is on its way.\<close>

definition sampleSetup :: server_setup where
  "sampleSetup = \<lparr> BindPort = 7000, BindUDPPort = 7001, KCPBindPort = 0, VhostHTTPPort = 0, VhostHTTPSPort = 0,
     TCPMuxHTTPConnectPort = 0, SubDomainHost = [], MaxPoolCount = 5, MaxPortsPerClient = 1,
     HeartbeatTimeout = 90, ProxyBindAddr = ''0.0.0.0'', TCPMux = False, AllowPorts = {7000, 7001} \<rparr>"

definition sampleResources :: resources where
  "sampleResources = NewResources sampleSetup"

lemma sampleResources_hole [simp]: "rs_natHole sampleResources = Some Map.empty"
  by (simp add: sampleResources_def NewResources_def sampleSetup_def)

definition sampleEnv :: run_env where
  "sampleEnv = \<lparr> re_ports = (\<lambda>_. True, [7000, 7001], 0), re_udpPorts = (\<lambda>_. True, [7000, 7001], 0),
     re_listenErr = None, re_now = 0 \<rparr>"

definition xtcpMsg :: new_proxy where
  "xtcpMsg = emptyMsg\<lparr> np_ProxyName := ''p2p'', np_ProxyType := ''xtcp'', np_Sk := ''k'' \<rparr>"

text \<open>The control of a new client after its login.\<close>

definition freshCtl :: "int \<Rightarrow> string \<Rightarrow> int \<Rightarrow> control" where
  "freshCtl now rid pl = \<lparr> ct_runID = rid, ct_loginRunID = rid, ct_poolCount = pl, ct_portsUsedNum = 0, ct_proxies = fmempty,
     ct_workConns = [], ct_poolClosed = False, ct_sent = LoginResp rid # replicate (nat pl) ReqWorkConn, ct_shutdown = False,
     ct_lastPing = now, ct_pending = None, ct_phase = Started \<rparr>"

lemma fresh_login:
  assumes "svc_reach ok cfg s" and "svc_byRunID s rid = None" and "rid \<noteq> []" and "- 10 \<le> pl" and "pl \<le> MaxPoolCount cfg"
  shows "svc_reach ok cfg (s\<lparr> svc_ctls := (svc_ctls s)(svc_next s \<mapsto> freshCtl now rid pl), svc_next := svc_next s + 1,
    svc_byRunID := (svc_byRunID s)(rid \<mapsto> svc_next s), svc_events := svc_events s @ [MNewClient] \<rparr>)"
proof -
  let ?c = "(freshCtl now rid pl)\<lparr> ct_sent := [], ct_phase := Waiting None \<rparr>"
  let ?s1 = "updCtl (svc_next s) ?c (s\<lparr> svc_byRunID := (svc_byRunID s)(rid \<mapsto> svc_next s) \<rparr>)\<lparr> svc_next := svc_next s + 1 \<rparr>"
  have "NewControl cfg now rid pl = Inr ?c" using assms(4,5) by (simp add: NewControl_def freshCtl_def)
  then have "RegisterControl cfg now [] False rid pl s = Inr ?s1"
    using assms(2,3) by (simp add: RegisterControl_def cmAdd_def Let_def updCtl_def)
  then have "svc_reach ok cfg ?s1" using svc_reach.step [OF assms(1)] svc_step.login by blast
  then have "svc_reach ok cfg (startControl (svc_next s) ?c ?s1)"
    by (rule svc_reach.step, intro svc_step.start [where old = None]) (simp_all add: updCtl_def)
  moreover have "startControl (svc_next s) ?c ?s1 = s\<lparr> svc_ctls := (svc_ctls s)(svc_next s \<mapsto> freshCtl now rid pl),
      svc_next := svc_next s + 1, svc_byRunID := (svc_byRunID s)(rid \<mapsto> svc_next s), svc_events := svc_events s @ [MNewClient] \<rparr>"
    by (cases s) (simp add: startControl_def updCtl_def Start_def freshCtl_def)
  ultimately show ?thesis by simp
qed

definition sampleSess :: "string \<Rightarrow> control" where
  "sampleSess rid = freshCtl 0 rid 0"

definition xtcpRunning :: running where
  "xtcpRunning = \<lparr> rn_conf = XTCPProxyConf ((defaultBaseProxyConf ''xtcp'')\<lparr> ProxyName := ''p2p'', ProxyType := ''xtcp'' \<rparr>) ''server'' ''k'',
     rn_held = NatHeld \<rparr>"

definition sampleIdle :: service where
  "sampleIdle = \<lparr> svc_ctls = [0 \<mapsto> sampleSess ''r1'', 1 \<mapsto> sampleSess ''r2''], svc_next = 2,
     svc_byRunID = [''r1'' \<mapsto> 0, ''r2'' \<mapsto> 1], svc_pxys = Map.empty, svc_res = sampleResources,
     svc_events = [MNewClient, MNewClient] \<rparr>"

definition sampleCtlP2P :: control where
  "sampleCtlP2P = (sampleSess ''r1'')\<lparr> ct_proxies := fmupd ''p2p'' xtcpRunning fmempty,
     ct_sent := [LoginResp ''r1'', NewProxyResp ''p2p'' (Inr [])] \<rparr>"

definition sampleP2P :: service where
  "sampleP2P = sampleIdle\<lparr> svc_ctls := [0 \<mapsto> sampleCtlP2P, 1 \<mapsto> sampleSess ''r2''], svc_pxys := [''p2p'' \<mapsto> xtcpRunning],
     svc_res := sampleResources\<lparr> rs_natHole := Some [''p2p'' \<mapsto> ''k''] \<rparr>,
     svc_events := [MNewClient, MNewClient, MNewProxy 5 ''p2p'' ''xtcp''] \<rparr>"

lemma sampleSetup_sel [simp]:
  "MaxPoolCount sampleSetup = 5" "MaxPortsPerClient sampleSetup = 1"
  by (simp_all add: sampleSetup_def)

lemma sampleIdle_reach: "svc_reach ok sampleSetup sampleIdle"
proof -
  note one = fresh_login [OF svc_reach.init [where ok = ok and cfg = sampleSetup], of "''r1''" 0 0]
  note two = fresh_login [OF one, of "''r2''" 0 0]
  show ?thesis using two by (simp add: newService_def sampleResources_def sampleIdle_def sampleSess_def numeral_2_eq_2)
qed

lemma xtcp_conf: "NewProxyConfFromMsg xtcpMsg (server_conf.truncate sampleSetup) = Inr (rn_conf xtcpRunning)"
  by code_simp

lemma xtcp_run:
  "pxyRun env (service_conf.truncate sampleSetup) (rn_conf xtcpRunning) rs = Inr (case rs_natHole rs of
     None \<Rightarrow> (Inl XtcpNotSupported, rs)
   | Some nc \<Rightarrow> (Inr ([], xtcpRunning), rs\<lparr> rs_natHole := Some (nc(''p2p'' \<mapsto> ''k'')) \<rparr>))"
  by (simp add: xtcpRunning_def ListenClient_def split: option.split)

lemma sampleP2P_reach:
  assumes "ok sampleEnv sampleResources"
  shows "svc_reach ok sampleSetup sampleP2P"
proof -
  let ?env = sampleEnv
  let ?c = "(sampleSess ''r1'')\<lparr> ct_pending := Some (''p2p'', ''xtcp'', [], xtcpRunning) \<rparr>"
  let ?rs = "sampleResources\<lparr> rs_natHole := Some [''p2p'' \<mapsto> ''k''] \<rparr>"
  let ?s1 = "updCtl 0 ?c (sampleIdle\<lparr> svc_res := ?rs \<rparr>)"
  have n: "handleNewProxy ?env sampleSetup (Inr xtcpMsg) xtcpMsg (sampleSess ''r1'') (svc_res sampleIdle) = (?c, ?rs)"
    unfolding handleNewProxy_def registerRun_def
    by (simp add: xtcp_conf xtcp_run countPortsNum_def Let_def)
      (simp add: xtcpRunning_def xtcpMsg_def sampleSess_def freshCtl_def sampleIdle_def)
  have c: "svc_ctls sampleIdle 0 = Some (sampleSess ''r1'')" "ct_phase (sampleSess ''r1'') = Started" "ct_pending (sampleSess ''r1'') = None"
    by (simp_all add: sampleIdle_def sampleSess_def freshCtl_def)
  have "svc_reach ok sampleSetup ?s1"
    by (rule svc_reach.step [OF sampleIdle_reach svc_step.new_proxy [OF c _ n]]) (simp add: assms sampleIdle_def)
  then have "svc_reach ok sampleSetup (registerAdd sampleSetup 5 0 ?c (''p2p'', ''xtcp'', [], xtcpRunning) ?s1)"
    by (rule svc_reach.step, intro svc_step.add) (simp_all add: c)
  moreover have "registerAdd sampleSetup 5 0 ?c (''p2p'', ''xtcp'', [], xtcpRunning) ?s1 = sampleP2P"
    by (simp add: registerAdd_def updCtl_def send_def sampleP2P_def sampleIdle_def sampleCtlP2P_def sampleSess_def
        freshCtl_def xtcpRunning_def fun_upd_twist)
  ultimately show ?thesis by simp
qed

lemma sampleP2P_any: "svc_reach (\<lambda>_ _. True) sampleSetup sampleP2P"
  by (rule sampleP2P_reach) (rule TrueI)

definition sampleRelogin :: service where
  "sampleRelogin = projr (RegisterControl sampleSetup 9 [] False ''r1'' 0 sampleP2P)"

lemma sampleRelogin_reach:
  assumes "ok sampleEnv sampleResources"
  shows "svc_reach ok sampleSetup sampleRelogin"
proof -
  have "RegisterControl sampleSetup 9 [] False ''r1'' 0 sampleP2P = Inr sampleRelogin"
    by (simp add: sampleRelogin_def RegisterControl_def NewControl_def Let_def case_prod_beta)
  then show ?thesis using svc_reach.step [where ok = ok, OF sampleP2P_reach [where ok = ok, OF assms]] svc_step.login by blast
qed

lemma sampleRelogin_ctls:
  "svc_ctls sampleRelogin 0 = Some (Replaced sampleCtlP2P)"
  "svc_ctls sampleRelogin 2 = Some ((freshCtl 9 ''r1'' 0)\<lparr> ct_sent := [], ct_phase := Waiting (Some 0) \<rparr>)"
  by (simp_all add: sampleRelogin_def RegisterControl_def NewControl_def cmAdd_def Let_def updCtl_def sampleP2P_def sampleIdle_def freshCtl_def)

section \<open>Properties\<close>

text \<open>
  C9: a client never has two sessions. While one of its controls is live, from its start until the last of
  its proxies is closed, every other control of the same client is not live and holds no proxy: a control
  that replaces another one starts only when the other is done.
\<close>

theorem one_session_per_client:
  assumes "svc_reach ok cfg s" and "svc_ctls s i = Some c" and "svc_ctls s j = Some d" and "i \<noteq> j"
    and "ct_loginRunID c = ct_loginRunID d" and "stageOf (ct_phase c) = Live"
  shows "stageOf (ct_phase d) \<noteq> Live \<and> holds d = Map.empty"
proof -
  have "stageOf (ct_phase d) \<noteq> Live"
    using sess_unique [OF serviceInv_reach [OF assms(1), unfolded serviceInv_def], of i "ct_loginRunID c" j] assms(2-6)
    by (auto simp: sessView_Some)
  then show ?thesis by (cases "ct_phase d") (simp_all add: holds_phases)
qed

theorem one_session_per_client_witness:
  "stageOf (Waiting (Some 0)) \<noteq> Live \<and> svc_byRunID sampleRelogin ''r1'' = Some 2"
proof -
  have "stageOf (ct_phase (Replaced sampleCtlP2P)) = Live"
    by (simp add: Replaced_def sampleCtlP2P_def sampleSess_def freshCtl_def)
  from one_session_per_client [OF sampleRelogin_reach [of "\<lambda>_ _. True", OF TrueI] sampleRelogin_ctls _ _ this]
  have "stageOf (Waiting (Some 0)) \<noteq> Live" by (simp add: Replaced_def sampleCtlP2P_def sampleSess_def freshCtl_def)
  then show ?thesis
    by (simp add: sampleRelogin_def RegisterControl_def NewControl_def cmAdd_def Let_def updCtl_def sampleP2P_def sampleIdle_def)
qed

text \<open>
  C3: in every reachable state the registry has exactly the proxies that the controls hold, each under its
  own name and held by exactly one control; a control that stops holds the proxies it has not closed yet.
\<close>

theorem registry_exact:
  assumes "svc_reach ok cfg s"
  shows "(svc_pxys s n = Some pxy \<longleftrightarrow> (\<exists>i c. svc_ctls s i = Some c \<and> holds c n = Some pxy)) \<and>
    (svc_pxys s n = Some pxy \<longrightarrow> GetName pxy = n \<and> (\<exists>!i. heldBy s i n = Some pxy))"
proof -
  have ok: "ctlsOk cfg s" and reg: "regInv (heldBy s) (svc_pxys s)" using reach_inv [OF assms] by simp_all
  have held: "(\<exists>i c. svc_ctls s i = Some c \<and> holds c n = Some pxy) \<longleftrightarrow> (\<exists>i. heldBy s i n = Some pxy)"
    by (auto simp: heldBy_def split: option.splits)
  have "GetName pxy = n" if i: "heldBy s i n = Some pxy" for i
  proof -
    obtain c where "svc_ctls s i = Some c" "holds c n = Some pxy" using i by (auto simp: heldBy_def split: option.splits)
    then show ?thesis using ok ctlOkD(1) [of cfg c n pxy] by (auto simp: ctlsOk_def holds_def restrict_map_def split: if_splits)
  qed
  then show ?thesis using held regInvD [OF reg] by blast
qed

theorem registry_exact_witness: "GetName xtcpRunning = ''p2p'' \<and> (\<exists>!i. heldBy sampleP2P i ''p2p'' = Some xtcpRunning)"
  using registry_exact [OF sampleP2P_any, of "''p2p''" xtcpRunning] by (simp add: sampleP2P_def)

text \<open>
  C38: the limits of a client hold in every reachable state: its pool is within the limit of the server, no
  more work connections wait than the pool and ten more, and with a limit of ports a live client has no
  more tcp and udp proxies than it.
\<close>

theorem client_limits:
  assumes "svc_reach ok cfg s" and "svc_ctls s i = Some c"
  shows "ct_poolCount c \<le> MaxPoolCount cfg \<and> int (length (ct_workConns c)) \<le> ct_poolCount c + 10 \<and>
    (0 < MaxPortsPerClient cfg \<and> ct_phase c = Started \<longrightarrow>
      int (card {n. \<exists>pxy. fmlookup (ct_proxies c) n = Some pxy \<and> usedPortsNum (rn_conf pxy) = 1}) \<le> MaxPortsPerClient cfg)"
proof -
  have ok: "ctlOk cfg c" using reach_inv [OF assms(1)] assms(2) unfolding ctlsOk_def by blast
  have "int (card {n. \<exists>pxy. fmlookup (ct_proxies c) n = Some pxy \<and> usedPortsNum (rn_conf pxy) = 1}) \<le> portsHeld c"
    using usedPortsNum_nonneg by (simp add: portsHeld_def split: option.split)
  then show ?thesis using ctlOkD(8-11) [OF ok] by linarith
qed

theorem client_limits_witness: "ct_poolCount sampleCtlP2P \<le> 5"
  using client_limits [OF sampleP2P_any, of 0 sampleCtlP2P] by (simp add: sampleP2P_def)

text \<open>
  A second xtcp proxy of a name that is in use is refused, but the refusal breaks the first one. Its
  run has replaced the entry of the first proxy at the nat hole, and its close removes the entry: the name
  stays registered, and no visitor reaches it.
\<close>

lemma xtcp_duplicate_unreachable:
  assumes "svc_reach ok cfg s" and "svc_ctls s i = Some c" and "ct_phase c = Started" and "ct_pending c = None"
    and "np_ProxyType m = ''xtcp''" and "svc_pxys s (np_ProxyName m) = Some pxy" and "rs_natHole (svc_res s) = Some nc"
    and "handleNewProxy env cfg (Inr m) m c (svc_res s) = (c', rs)" and "ok env (svc_res s)"
  shows "\<exists>x s'. ct_pending c' = Some (np_ProxyName m, ''xtcp'', [], x) \<and>
    s' = registerAdd cfg now i c' (np_ProxyName m, ''xtcp'', [], x) (updCtl i c' (s\<lparr> svc_res := rs \<rparr>)) \<and> svc_reach ok cfg s' \<and>
    svc_pxys s' (np_ProxyName m) = Some pxy \<and> rs_natHole (svc_res s') = Some (nc(np_ProxyName m := None))"
proof -
  have ok: "ctlOk cfg c" using reach_inv [OF assms(1)] assms(2) unfolding ctlsOk_def by blast
  obtain b r k where conf: "NewProxyConfFromMsg m (server_conf.truncate cfg) = Inr (XTCPProxyConf b r k)"
      "ProxyConf.ProxyName b = np_ProxyName m"
    using assms(5) by (auto simp: NewProxyConfFromMsg_def DefaultProxyConf_def Let_def unmarshalBase_def)
  have within: "\<not> (0 < MaxPortsPerClient cfg \<and> MaxPortsPerClient cfg < ct_portsUsedNum c)"
    using ctlOkD(11) [OF ok] by linarith
  let ?x = "\<lparr> rn_conf = XTCPProxyConf b r k, rn_held = NatHeld \<rparr>"
  have c': "c' = (countPortsNum cfg (XTCPProxyConf b r k) c)\<lparr> ct_pending := Some (np_ProxyName m, ''xtcp'', [], ?x) \<rparr>"
    and rs: "rs = (svc_res s)\<lparr> rs_natHole := Some (ListenClient (np_ProxyName m) k nc) \<rparr>"
    using assms(8) unfolding handleNewProxy_def registerRun_def
    by (simp_all add: assms(5,7) conf within Let_def del: not_less)
  let ?s1 = "updCtl i c' (s\<lparr> svc_res := rs \<rparr>)"
  have "svc_reach ok cfg ?s1" using svc_reach.step [OF assms(1)] svc_step.new_proxy [where ok = ok and env = env, OF assms(2-4,9,8)] by blast
  then have reach: "svc_reach ok cfg (registerAdd cfg now i c' (np_ProxyName m, ''xtcp'', [], ?x) ?s1)" (is "svc_reach ok cfg ?s2")
    by (rule svc_reach.step, intro svc_step.add) (simp_all add: c' assms(3))
  have "svc_pxys ?s2 (np_ProxyName m) = Some pxy \<and> rs_natHole (svc_res ?s2) = Some (nc(np_ProxyName m := None))"
    using assms(6) by (simp add: registerAdd_def Let_def rs pxyClose_def CloseNatClient_def ListenClient_def conf(2))
  then show ?thesis using reach by (intro exI [of _ ?x] exI [of _ ?s2]) (simp add: c')
qed

text \<open>
  A client that logs in with a negative pool breaks the server. Below minus ten the login itself
  panics, where nothing recovers it; above, the session starts, and the first user of one of its tcp proxies
  makes the server use a connection that it never got.
\<close>

lemma negative_pool_panics:
  assumes "loginPool < 0" and "0 \<le> MaxPoolCount cfg"
  shows "(loginPool < - 10 \<longrightarrow> RegisterControl cfg now randID False runID loginPool s = Inl NegativeLength) \<and>
    (- 10 \<le> loginPool \<longrightarrow> (\<exists>s' c. RegisterControl cfg now randID False runID loginPool s = Inr s' \<and>
       svc_ctls s' (svc_next s) = Some c \<and> HandleUserTCPConnection get writeOk False (ct_poolCount c) = Inl NilDereference))"
proof -
  have loop: "HandleUserTCPConnection get writeOk False loginPool = Inl NilDereference"
    using assms(1) by (simp add: HandleUserTCPConnection_def GetWorkConnFromPool_def)
  show ?thesis
    using assms loop by (auto simp: RegisterControl_def NewControl_def Let_def case_prod_beta)
qed

text \<open>
  When the start message can be written to none of the connections of the pool, the last of them is
  handed out although it was closed: the error of the write is lost in the loop.
\<close>

lemma failed_writes_lost:
  assumes "0 \<le> poolCount" and "\<And>i. get i = Inr (w i)" and "\<And>i. \<not> writeOk (w i)"
  shows "GetWorkConnFromPool get writeOk poolCount = (Inr (Some (w (nat poolCount))), map w [0..<nat poolCount + 1])"
proof -
  have "poolLoop get writeOk i (Suc k) x gone = (Inr (Some (w (i + k))), gone @ map w [i..<i + k + 1])" for i k x gone
  proof (induction k arbitrary: i x gone)
    case (Suc k)
    show ?case
      by (subst poolLoop.simps) (simp add: assms Suc del: poolLoop.simps upt_Suc add: upt_conv_Cons)
  qed (simp add: assms)
  from this [of 0 "nat poolCount" None "[]"] show ?thesis
    using assms(1) by (simp add: GetWorkConnFromPool_def nat_add_distrib del: poolLoop.simps)
qed

end
