(* ===== verification/ServerEntry.thy ===== *)
theory ServerEntry
  imports ServerPlugins Versions ServerSessions
begin

text \<open>
  What reaches the sessions of frps from outside: the handlers of the first message of a connection
  (\<^verbatim>\<open>handleConnection\<close>, \<^verbatim>\<open>RegisterControl\<close> and \<^verbatim>\<open>RegisterWorkConn\<close> of \<^verbatim>\<open>server/service.go\<close>) and of the messages of a
  control connection (\<^verbatim>\<open>manager\<close> of \<^verbatim>\<open>server/control.go\<close>), with the plugins, the check of the version and
  authentication. The steps of the sessions have the results of these as parameters; here they are computed.
\<close>

section \<open>State\<close>

text \<open>The server with its verifier and the login message of every control.\<close>

record front =
  fr_svc :: service
  fr_verifier :: verifier
  fr_logins :: "nat \<rightharpoonup> login_msg"

definition newFront :: "auth_conf \<Rightarrow> server_setup \<Rightarrow> front" where
  "newFront auth cfg = \<lparr> fr_svc = newService cfg, fr_verifier = NewAuthVerifier auth, fr_logins = Map.empty \<rparr>"

text \<open>What the environment decides: the hash, the checks of oidc tokens, and the plugins.\<close>

record outside =
  out_md5 :: "string \<Rightarrow> string"
  out_oidc :: "string \<Rightarrow> (string, string) result"
  out_plugins :: plugin_manager

definition userOf :: "front \<Rightarrow> nat \<Rightarrow> user_info" where
  "userOf f i = (case fr_logins f i of
      None \<Rightarrow> \<lparr> ui_User = [], ui_Metas = Map.empty, ui_RunID = [] \<rparr>
    | Some m \<Rightarrow> \<lparr> ui_User = li_User m, ui_Metas = li_Metas m, ui_RunID = li_RunID m \<rparr>)"

section \<open>Logins\<close>

datatype login_error = LoginPlugin string | VersionTooOld | LoginAuth auth_error

text \<open>
  A login up to its wait for the control it replaces. The client without a run id gets a random one, which
  is stored in its message.
\<close>

definition handleLogin ::
  "outside \<Rightarrow> server_setup \<Rightarrow> int \<Rightarrow> string \<Rightarrow> string \<Rightarrow> login_msg \<Rightarrow> front \<Rightarrow> (go_panic, login_error option \<times> front) result"
where
  "handleLogin out cfg now randID addr m f =
     (case pluginLogin (out_plugins out) (m, addr) of
        Inl p \<Rightarrow> Inl p
      | Inr (Inl e) \<Rightarrow> Inr (Some (LoginPlugin e), f)
      | Inr (Inr (m1, addr')) \<Rightarrow>
          let m' = (if li_RunID m1 = [] then m1\<lparr> li_RunID := randID \<rparr> else m1) in
          if \<not> Compat (li_Version m') then Inr (Some VersionTooOld, f)
          else (case VerifyLogin (out_md5 out) (out_oidc out) (fr_verifier f) m' of
             Inl p \<Rightarrow> Inl p
           | Inr (Some e, v) \<Rightarrow> Inr (Some (LoginAuth e), f\<lparr> fr_verifier := v \<rparr>)
           | Inr (None, v) \<Rightarrow>
               (case RegisterControl cfg now randID False (li_RunID m') (li_PoolCount m') (fr_svc f) of
                  Inl p \<Rightarrow> Inl p
                | Inr s \<Rightarrow> Inr (None, f\<lparr> fr_svc := s, fr_verifier := v, fr_logins := (fr_logins f)(svc_next (fr_svc f) \<mapsto> m') \<rparr>))))"

section \<open>Work connections\<close>

datatype work_conn_error = NoControl | WorkPlugin string | WorkAuth auth_error | PoolFull

definition handleWorkConn ::
  "outside \<Rightarrow> nat \<Rightarrow> work_conn_msg \<Rightarrow> front \<Rightarrow> (go_panic, work_conn_error option \<times> front) result"
where
  "handleWorkConn out conn m f =
     (case GetByID (nw_RunID m) (fr_svc f) of
        None \<Rightarrow> Inr (Some NoControl, f)
      | Some i \<Rightarrow>
          (case pluginNewWorkConn (out_plugins out) (userOf f i, m) of
             Inl p \<Rightarrow> Inl p
           | Inr (Inl e) \<Rightarrow> Inr (Some (WorkPlugin e), f)
           | Inr (Inr (u, m')) \<Rightarrow>
               (case VerifyNewWorkConn (out_md5 out) (out_oidc out) (fr_verifier f) m' of
                  Inl p \<Rightarrow> Inl p
                | Inr (Some e) \<Rightarrow> Inr (Some (WorkAuth e), f)
                | Inr None \<Rightarrow>
                    (case svc_ctls (fr_svc f) i of
                       None \<Rightarrow> Inr (Some NoControl, f)
                     | Some c \<Rightarrow> let (fits, c') = RegisterWorkConn conn c in
                         Inr (if fits then None else Some PoolFull, f\<lparr> fr_svc := updCtl i c' (fr_svc f) \<rparr>)))))"

section \<open>Messages of a control\<close>

text \<open>A panic of a plugin's answer is recovered at the end of \<^verbatim>\<open>manager\<close>, which then shuts the control down.\<close>

definition managerPing :: "outside \<Rightarrow> int \<Rightarrow> nat \<Rightarrow> ping_msg \<Rightarrow> control \<Rightarrow> front \<Rightarrow> control" where
  "managerPing out now i m c f =
     (case pluginPing (out_plugins out) (userOf f i, m) of
        Inl p \<Rightarrow> c\<lparr> ct_shutdown := True \<rparr>
      | Inr (Inl e) \<Rightarrow> handlePing now True c
      | Inr (Inr (u, m')) \<Rightarrow>
          (case VerifyPing (out_md5 out) (out_oidc out) (fr_verifier f) m' of
             Inl p \<Rightarrow> c\<lparr> ct_shutdown := True \<rparr>
           | Inr err \<Rightarrow> handlePing now (err \<noteq> None) c))"

definition managerNewProxy ::
  "outside \<Rightarrow> run_env \<Rightarrow> server_setup \<Rightarrow> nat \<Rightarrow> new_proxy \<Rightarrow> control \<Rightarrow> front \<Rightarrow> control \<times> resources"
where
  "managerNewProxy out env cfg i m c f =
     (case pluginNewProxy (out_plugins out) (userOf f i, m) of
        Inl p \<Rightarrow> (c\<lparr> ct_shutdown := True \<rparr>, svc_res (fr_svc f))
      | Inr r \<Rightarrow> handleNewProxy env cfg (map_sum id snd r) m c (svc_res (fr_svc f)))"

text \<open>The text of an error for the client; \<open>detailed\<close> is the setting \<^verbatim>\<open>detailed_errors_to_client\<close>.\<close>

definition GenerateResponseErrorString :: "string \<Rightarrow> string \<Rightarrow> bool \<Rightarrow> string" where
  "GenerateResponseErrorString summary errText detailed = (if detailed then errText else summary)"

lemmas entry_defs [go_defs] =
  newFront_def userOf_def handleLogin_def handleWorkConn_def managerPing_def managerNewProxy_def GenerateResponseErrorString_def

section \<open>The steps of the server\<close>

text \<open>The steps that no handler of this theory takes.\<close>

inductive inner_step :: "server_setup \<Rightarrow> service \<Rightarrow> service \<Rightarrow> bool" for cfg where
  start: "svc_ctls s i = Some c \<Longrightarrow> ct_phase c = Waiting old \<Longrightarrow>
    (\<forall>j. old = Some j \<longrightarrow> (\<exists>d. svc_ctls s j = Some d \<and> ct_phase d = Finished)) \<Longrightarrow> inner_step cfg s (startControl i c s)"
| take: "svc_ctls s i = Some c \<Longrightarrow> GetWorkConn later c = (r, c') \<Longrightarrow> inner_step cfg s (updCtl i c' s)"
| add: "svc_ctls s i = Some c \<Longrightarrow> ct_phase c = Started \<Longrightarrow> ct_pending c = Some p \<Longrightarrow> inner_step cfg s (registerAdd cfg now i c p s)"
| close_proxy: "svc_ctls s i = Some c \<Longrightarrow> ct_phase c = Started \<Longrightarrow> ct_pending c = None \<Longrightarrow>
    inner_step cfg s (CloseCtlProxy cfg now i c name s)"
| shutdown: "svc_ctls s i = Some c \<Longrightarrow> ct_phase c = Started \<Longrightarrow> inner_step cfg s (updCtl i (c\<lparr> ct_shutdown := True \<rparr>) s)"
| stop: "svc_ctls s i = Some c \<Longrightarrow> ct_phase c = Started \<Longrightarrow> ct_shutdown c \<Longrightarrow> ct_pending c = None \<Longrightarrow>
    distinct order \<Longrightarrow> set order = fmdom' (ct_proxies c) \<Longrightarrow> inner_step cfg s (updCtl i (stopBegin order c) s)"
| stop_one: "svc_ctls s i = Some c \<Longrightarrow> ct_phase c = Stopping (n # ns) \<Longrightarrow> inner_step cfg s (stopOne now i c n ns s)"
| stop_end: "svc_ctls s i = Some c \<Longrightarrow> ct_phase c = Stopping [] \<Longrightarrow> inner_step cfg s (stopEnd i c s)"
| del: "svc_ctls s i = Some c \<Longrightarrow> ct_phase c = Finished \<Longrightarrow> inner_step cfg s (cmDel (ct_loginRunID c) i s)"
| metric: "otherEvent e \<Longrightarrow> inner_step cfg s (s\<lparr> svc_events := svc_events s @ [e] \<rparr>)"

inductive front_step :: "(run_env \<Rightarrow> resources \<Rightarrow> bool) \<Rightarrow> outside \<Rightarrow> server_setup \<Rightarrow> front \<Rightarrow> front \<Rightarrow> bool" for ok out cfg where
  login: "randID \<noteq> [] \<Longrightarrow> handleLogin out cfg now randID addr m f = Inr (r, f') \<Longrightarrow> front_step ok out cfg f f'"
| work: "handleWorkConn out conn m f = Inr (r, f') \<Longrightarrow> front_step ok out cfg f f'"
| ping: "svc_ctls (fr_svc f) i = Some c \<Longrightarrow> ct_phase c = Started \<Longrightarrow>
    front_step ok out cfg f (f\<lparr> fr_svc := updCtl i (managerPing out now i m c f) (fr_svc f) \<rparr>)"
| new_proxy: "svc_ctls (fr_svc f) i = Some c \<Longrightarrow> ct_phase c = Started \<Longrightarrow> ct_pending c = None \<Longrightarrow> ok env (svc_res (fr_svc f)) \<Longrightarrow>
    managerNewProxy out env cfg i m c f = (c', rs) \<Longrightarrow>
    front_step ok out cfg f (f\<lparr> fr_svc := updCtl i c' ((fr_svc f)\<lparr> svc_res := rs \<rparr>) \<rparr>)"
| inner: "inner_step cfg (fr_svc f) s \<Longrightarrow> front_step ok out cfg f (f\<lparr> fr_svc := s \<rparr>)"

inductive front_reach :: "(run_env \<Rightarrow> resources \<Rightarrow> bool) \<Rightarrow> outside \<Rightarrow> auth_conf \<Rightarrow> server_setup \<Rightarrow> front \<Rightarrow> bool" for ok out auth cfg where
  init: "front_reach ok out auth cfg (newFront auth cfg)"
| step: "front_reach ok out auth cfg f \<Longrightarrow> front_step ok out cfg f f' \<Longrightarrow> front_reach ok out auth cfg f'"

section \<open>Lemmas\<close>

lemma inner_svc: "inner_step cfg s s' \<Longrightarrow> svc_step ok cfg s s'"
  by (induction rule: inner_step.induct) (blast intro: svc_step.intros)+

text \<open>No step gives a control another client, and only a login makes one.\<close>

definition sameClients :: "service \<Rightarrow> service \<Rightarrow> bool" where
  "sameClients s s' \<longleftrightarrow> map_option fst \<circ> sessView s' = map_option fst \<circ> sessView s"

lemma sameClients_upd:
  "svc_ctls s i = Some c \<Longrightarrow> ct_loginRunID c' = ct_loginRunID c \<Longrightarrow> sessView s' = (sessView s)(i \<mapsto> (ct_loginRunID c', st)) \<Longrightarrow> sameClients s s'"
  by (auto simp: sameClients_def fun_eq_iff sessView_Some)

lemma sameClients_refl: "sessView s' = sessView s \<Longrightarrow> sameClients s s'"
  by (simp add: sameClients_def)

lemma inner_clients:
  assumes "inner_step cfg s s'"
  shows "sameClients s s'"
  using assms
proof cases
  case (start i c old)
  show ?thesis by (rule sameClients_upd [OF start(2), of "Start c"]) (simp_all add: start(1) startControl_def Start_def)
next
  case (take i c later r c')
  show ?thesis by (rule sameClients_upd [OF take(2), of c']) (use handler_fields(2) [OF take(3)] take(1) in simp_all)
next
  case (stop i c order)
  show ?thesis by (rule sameClients_upd [OF stop(2), of "stopBegin order c"]) (simp_all add: stop(1) stopBegin_def)
next
  case (stop_end i c)
  show ?thesis by (rule sameClients_upd [OF stop_end(2), of c]) (simp_all add: stop_end(1) stopEnd_def)
next
  case (add i c p now)
  then show ?thesis by (intro sameClients_refl) (auto simp: registerAdd_def Let_def split: sum.split prod.split)
next
  case (close_proxy i c now name)
  then show ?thesis by (intro sameClients_refl) (auto simp: CloseCtlProxy_def Let_def split: sum.split option.split)
next
  case (shutdown i c)
  then show ?thesis by (intro sameClients_refl) simp
next
  case (stop_one i c n ns now)
  note upd = sameClients_upd [OF stop_one(2)]
  show ?thesis
  proof (cases "fmlookup (ct_proxies c) n")
    case None
    then show ?thesis unfolding stop_one(1) stopOne_def by (intro upd [where c' = "c\<lparr> ct_phase := Stopping ns \<rparr>"]) simp_all
  next
    case (Some pxy)
    show ?thesis
    proof (cases "pxyClose now pxy (svc_res s)")
      case (Inl q)
      then show ?thesis unfolding stop_one(1) stopOne_def Some
        by (intro upd [where c' = "c\<lparr> ct_phase := Stuck (fset_of_list (n # ns)) \<rparr>"]) simp_all
    next
      case (Inr rs)
      then show ?thesis unfolding stop_one(1) stopOne_def Some by (intro upd [where c' = "c\<lparr> ct_phase := Stopping ns \<rparr>"]) simp_all
    qed
  qed
next
  case (del i c)
  then show ?thesis by (intro sameClients_refl) (simp add: cmDel_def)
next
  case (metric e)
  then show ?thesis by (intro sameClients_refl) simp
qed

text \<open>The handlers are steps of the sessions, or none.\<close>

lemma handleLogin_cases:
  assumes "handleLogin out cfg now randID addr m f = Inr (r, f')"
  obtains (refused) "fr_svc f' = fr_svc f" "fr_logins f' = fr_logins f" "r \<noteq> None"
      "fr_verifier f' = fr_verifier f \<or> (\<exists>m e. VerifyLogin (out_md5 out) (out_oidc out) (fr_verifier f) m = Inr (Some e, fr_verifier f'))"
    | (accepted) m1 a1 m' where "pluginLogin (out_plugins out) (m, addr) = Inr (Inr (m1, a1))"
      "m' = (if li_RunID m1 = [] then m1\<lparr> li_RunID := randID \<rparr> else m1)" "Compat (li_Version m')"
      "VerifyLogin (out_md5 out) (out_oidc out) (fr_verifier f) m' = Inr (None, fr_verifier f')"
      "RegisterControl cfg now randID False (li_RunID m') (li_PoolCount m') (fr_svc f) = Inr (fr_svc f')"
      "fr_logins f' = (fr_logins f)(svc_next (fr_svc f) \<mapsto> m')"
proof (cases "pluginLogin (out_plugins out) (m, addr)")
  case (Inr q)
  show ?thesis
  proof (cases q)
    case (Inl e)
    then show ?thesis using assms Inr refused by (simp add: handleLogin_def) blast
  next
    case (Inr c1)
    obtain m1 a1 where c1: "c1 = (m1, a1)" by fastforce
    define m' where "m' = (if li_RunID m1 = [] then m1\<lparr> li_RunID := randID \<rparr> else m1)"
    have p: "pluginLogin (out_plugins out) (m, addr) = Inr (Inr (m1, a1))" using \<open>pluginLogin _ _ = Inr q\<close> Inr c1 by simp
    note run = assms [unfolded handleLogin_def p, simplified, folded m'_def, unfolded Let_def]
    show ?thesis
    proof (cases "Compat (li_Version m')")
      case False
      then show ?thesis using run refused by auto
    next
      case True
      show ?thesis
      proof (cases "VerifyLogin (out_md5 out) (out_oidc out) (fr_verifier f) m'")
        case (Inr ev)
        obtain e v where ev: "ev = (e, v)" by fastforce
        show ?thesis
        proof (cases e)
          case (Some x)
          then have "f' = f\<lparr> fr_verifier := v \<rparr>" "r \<noteq> None" using run True Inr ev by auto
          then show ?thesis using Inr ev Some by (intro refused) auto
        next
          case None
          then obtain s where "RegisterControl cfg now randID False (li_RunID m') (li_PoolCount m') (fr_svc f) = Inr s"
              "f' = f\<lparr> fr_svc := s, fr_verifier := v, fr_logins := (fr_logins f)(svc_next (fr_svc f) \<mapsto> m') \<rparr>"
            using run True Inr ev by (auto split: sum.splits)
          then show ?thesis using Inr ev None True by (intro accepted [OF p m'_def]) simp_all
        qed
      qed (use run True in simp)
    qed
  qed
qed (use assms in \<open>simp add: handleLogin_def\<close>)

lemma front_step_svc:
  assumes "front_step ok out cfg f f'"
  shows "fr_svc f' = fr_svc f \<or> svc_step ok cfg (fr_svc f) (fr_svc f')"
  using assms
proof cases
  case (login randID now addr m r)
  show ?thesis by (rule handleLogin_cases [OF login(2)]) (auto intro: svc_step.login)
next
  case (work conn m r)
  then show ?thesis
    by (auto simp: handleWorkConn_def Let_def split: sum.splits option.splits prod.splits intro: svc_step.work)
next
  case (ping i c now m)
  then have "svc_step ok cfg (fr_svc f) (updCtl i (c\<lparr> ct_shutdown := True \<rparr>) (fr_svc f))"
    and "svc_step ok cfg (fr_svc f) (updCtl i (handlePing now b c) (fr_svc f))" for b
    by (auto intro: svc_step.shutdown svc_step.ping)
  then show ?thesis using ping(1) by (auto simp: managerPing_def split: sum.split prod.split)
next
  case (new_proxy i c env m c' rs)
  show ?thesis
  proof (cases "pluginNewProxy (out_plugins out) (userOf f i, m)")
    case (Inl p)
    have "svc_step ok cfg (fr_svc f) (updCtl i (c\<lparr> ct_shutdown := True \<rparr>) (fr_svc f))" by (rule svc_step.shutdown [OF new_proxy(2,3)])
    then show ?thesis using new_proxy(1,6) Inl by (auto simp: managerNewProxy_def)
  next
    case (Inr r)
    then have "handleNewProxy env cfg (map_sum id snd r) m c (svc_res (fr_svc f)) = (c', rs)" using new_proxy(6) by (simp add: managerNewProxy_def)
    from svc_step.new_proxy [where ok = ok, OF new_proxy(2-5) this] show ?thesis by (simp add: new_proxy(1))
  qed
next
  case (inner s)
  then show ?thesis using inner_svc by simp
qed

lemma front_svc: "front_reach ok out auth cfg f \<Longrightarrow> svc_reach ok cfg (fr_svc f)"
proof (induction rule: front_reach.induct)
  case init
  show ?case by (simp add: newFront_def svc_reach.init)
next
  case (step f f')
  show ?case using front_step_svc [OF step.hyps(2)] step.IH svc_reach.step by metis
qed

text \<open>What the server knows of a client whose login it accepted.\<close>

fun keyOk :: "outside \<Rightarrow> verifier \<Rightarrow> login_msg \<Rightarrow> bool" where
  "keyOk out (TokenVerifier a) m \<longleftrightarrow> li_PrivilegeKey m = GetAuthKey (out_md5 out) (ta_token a) (li_Timestamp m)"
| "keyOk out (OidcVerifier o1) m \<longleftrightarrow> is_ok (out_oidc out (li_PrivilegeKey m))"
| "keyOk out NilVerifier m \<longleftrightarrow> False"

fun sameMethod :: "verifier \<Rightarrow> verifier \<Rightarrow> bool" where
  "sameMethod (TokenVerifier a) v \<longleftrightarrow> v = TokenVerifier a"
| "sameMethod (OidcVerifier o1) v \<longleftrightarrow> (\<exists>o2. v = OidcVerifier o2)"
| "sameMethod NilVerifier v \<longleftrightarrow> v = NilVerifier"

lemma VerifyLogin_method:
  "VerifyLogin h q v m = Inr (e, v') \<Longrightarrow> sameMethod v0 v \<Longrightarrow> sameMethod v0 v'"
  by (cases v; cases v0) (auto split: sum.splits)

lemma VerifyLogin_keyOk:
  "VerifyLogin (out_md5 out) (out_oidc out) v m = Inr (None, v') \<Longrightarrow> sameMethod v0 v \<Longrightarrow> keyOk out v0 m"
  by (cases v; cases v0) (auto split: sum.splits if_splits)

lemma keyOk_runID [simp]: "keyOk out v (m\<lparr> li_RunID := r \<rparr>) = keyOk out v m"
  by (cases v) simp_all

definition admitted :: "outside \<Rightarrow> verifier \<Rightarrow> login_msg \<Rightarrow> bool" where
  "admitted out v m \<longleftrightarrow> Compat (li_Version m) \<and> keyOk out v m \<and>
     (\<forall>p \<in> set (loginPlugins (out_plugins out)). \<exists>d res ret. pl_Handle p OpLogin d = Inr (res, ret) \<and> \<not> rp_Reject res)"

definition frontInv :: "outside \<Rightarrow> verifier \<Rightarrow> front \<Rightarrow> bool" where
  "frontInv out v f \<longleftrightarrow> sameMethod v (fr_verifier f) \<and>
     (\<forall>i rid st. sessView (fr_svc f) i = Some (rid, st) \<longrightarrow>
        (\<exists>m. fr_logins f i = Some m \<and> li_RunID m = rid \<and> rid \<noteq> [] \<and> admitted out v m))"

lemma frontInv_same:
  assumes "frontInv out v f" and "sameClients (fr_svc f) (fr_svc f')" and "sameMethod v (fr_verifier f')" and "fr_logins f' = fr_logins f"
  shows "frontInv out v f'"
proof -
  have "\<exists>st'. sessView (fr_svc f) i = Some (rid, st')" if "sessView (fr_svc f') i = Some (rid, st)" for i rid st
    using assms(2) that unfolding sameClients_def fun_eq_iff comp_def by (metis (no_types, lifting) fst_conv map_option_eq_Some old.prod.exhaust)
  then show ?thesis using assms(1,3,4) unfolding frontInv_def by metis
qed

lemma handleWorkConn_keeps:
  assumes "handleWorkConn out conn m f = Inr (r, f')"
  shows "sameClients (fr_svc f) (fr_svc f') \<and> fr_verifier f' = fr_verifier f \<and> fr_logins f' = fr_logins f"
proof -
  have "sameClients (fr_svc f) (updCtl i c' (fr_svc f))"
    if "svc_ctls (fr_svc f) i = Some c" "RegisterWorkConn conn c = (b, c')" for i c b c'
    by (rule sameClients_upd [OF that(1), of c']) (use handler_fields(1) [OF that(2)] in simp_all)
  then show ?thesis
    using assms by (auto simp: handleWorkConn_def Let_def sameClients_refl split: sum.splits option.splits prod.splits)
qed

lemma managerPing_client: "ct_loginRunID (managerPing out now i m c f) = ct_loginRunID c"
  by (simp add: managerPing_def handlePing_def split: sum.split prod.split)

lemma managerNewProxy_client:
  assumes "managerNewProxy out env cfg i m c f = (c', rs)"
  shows "ct_loginRunID c' = ct_loginRunID c"
proof (cases "pluginNewProxy (out_plugins out) (userOf f i, m)")
  case (Inr r)
  then have "handleNewProxy env cfg (map_sum id snd r) m c (svc_res (fr_svc f)) = (c', rs)" using assms by (simp add: managerNewProxy_def)
  then show ?thesis using handler_fields(3) by blast
qed (use assms in \<open>auto simp: managerNewProxy_def\<close>)

lemma login_frontInv:
  assumes inv: "frontInv out v f" and "randID \<noteq> []" and run: "handleLogin out cfg now randID addr m f = Inr (r, f')"
  shows "frontInv out v f'"
  using run
proof (cases rule: handleLogin_cases)
  case refused
  have "sameMethod v (fr_verifier f')"
    using refused(4) inv VerifyLogin_method [of _ _ "fr_verifier f" _ _ "fr_verifier f'" v] by (auto simp: frontInv_def)
  then show ?thesis using frontInv_same [OF inv] sameClients_refl refused(1,2) by simp
next
  case (accepted m1 a1 m')
  have meth: "sameMethod v (fr_verifier f)" using inv by (simp add: frontInv_def)
  have rid: "li_RunID m' \<noteq> []" using assms(2) accepted(2) by simp
  have "admitted out v m'"
    unfolding admitted_def
    using accepted(3) VerifyLogin_keyOk [OF accepted(4) meth] handleAll_approved [OF accepted(1) [unfolded pluginLogin_def]] by blast
  moreover obtain c where n: "NewControl cfg now (li_RunID m') (li_PoolCount m') = Inr c" and s': "fr_svc f' =
      updCtl (svc_next (fr_svc f)) (c\<lparr> ct_phase := Waiting (fst (cmAdd (li_RunID m') (svc_next (fr_svc f)) (fr_svc f))) \<rparr>)
        (snd (cmAdd (li_RunID m') (svc_next (fr_svc f)) (fr_svc f)))\<lparr> svc_next := svc_next (fr_svc f) + 1 \<rparr>"
    using accepted(5) rid by (auto simp: RegisterControl_def Let_def case_prod_beta split: sum.splits)
  moreover have "sessView (fr_svc f') = (sessView (fr_svc f))(svc_next (fr_svc f) \<mapsto>
      (li_RunID m', Waits (svc_byRunID (fr_svc f) (li_RunID m'))))"
    using NewControl_fields [OF n] by (simp add: s' cmAdd_view)
  ultimately show ?thesis
    using inv rid accepted(6) VerifyLogin_method [OF accepted(4) meth] unfolding frontInv_def by auto
qed

lemma frontInv_svc: "frontInv out v f \<Longrightarrow> sameClients (fr_svc f) s \<Longrightarrow> frontInv out v (f\<lparr> fr_svc := s \<rparr>)"
  by (rule frontInv_same) (simp_all add: frontInv_def)

lemma front_step_inv:
  assumes inv: "frontInv out v f" and "front_step ok out cfg f f'"
  shows "frontInv out v f'"
  using assms(2)
proof cases
  case (login randID now addr m r)
  then show ?thesis using login_frontInv [OF inv] by blast
next
  case (work conn m r)
  then show ?thesis using frontInv_same [OF inv] handleWorkConn_keeps inv by (metis frontInv_def)
next
  case (ping i c now m)
  show ?thesis unfolding ping(1)
    by (intro frontInv_svc [OF inv] sameClients_upd [OF ping(2), of "managerPing out now i m c f"]) (simp_all add: managerPing_client)
next
  case (new_proxy i c env m c' rs)
  show ?thesis unfolding new_proxy(1)
    by (intro frontInv_svc [OF inv] sameClients_upd [OF new_proxy(2), of c']) (use managerNewProxy_client [OF new_proxy(6)] in simp_all)
next
  case (inner s)
  show ?thesis unfolding inner(1) by (rule frontInv_svc [OF inv inner_clients [OF inner(2)]])
qed

lemma front_inv: "front_reach ok out auth cfg f \<Longrightarrow> frontInv out (NewAuthVerifier auth) f"
proof (induction rule: front_reach.induct)
  case init
  have "sameMethod v v" for v by (cases v) auto
  then show ?case by (simp add: frontInv_def newFront_def newService_def sessView_def)
qed (rule front_step_inv)

text \<open>A server whose method of authentication is misspelt starts, and the first login ends its process.\<close>

lemma unknown_method_crashes:
  assumes "AuthenticationMethod auth \<notin> {''token'', ''oidc''}" and "loginPlugins (out_plugins out) = []" and "Compat (li_Version m)"
  shows "handleLogin out cfg now randID addr m (newFront auth cfg) = Inl NilDereference"
  using assms by (simp add: handleLogin_def pluginLogin_def newFront_def NewAuthVerifier_def Let_def)

section \<open>An example\<close>

definition sampleAuth :: auth_conf where
  "sampleAuth = \<lparr> AuthenticationMethod = ''token'', AuthenticateHeartBeats = False, AuthenticateNewWorkConns = False, ac_Token = ''t'' \<rparr>"

definition sampleOutside :: outside where
  "sampleOutside = \<lparr> out_md5 = (\<lambda>x. CHR ''h'' # x), out_oidc = (\<lambda>_. Inl []), out_plugins = NewPluginManager \<rparr>"

definition sampleLogin :: login_msg where
  "sampleLogin = \<lparr> li_Version = ''0.43.0'', li_Hostname = [], li_Os = [], li_Arch = [], li_User = [], li_PrivilegeKey = ''ht5'',
     li_Timestamp = 5, li_RunID = ''r1'', li_Metas = Map.empty, li_PoolCount = 0 \<rparr>"

definition sampleFront :: front where
  "sampleFront = (newFront sampleAuth sampleSetup)\<lparr>
     fr_svc := projr (RegisterControl sampleSetup 9 ''x'' False ''r1'' 0 (newService sampleSetup)), fr_logins := [0 \<mapsto> sampleLogin] \<rparr>"

lemma sampleFront_login: "handleLogin sampleOutside sampleSetup 9 ''x'' [] sampleLogin (newFront sampleAuth sampleSetup) = Inr (None, sampleFront)"
proof -
  have "showVersion (0, 43, 0) = ''0.43.0''" by (simp add: showVersion_def showNat.simps digitChar_def)
  then have v: "Compat ''0.43.0''" using compat_exact(1) [of 0 43 0] by simp
  have five: "showInt 5 = ''5''" by (simp add: showInt_def showNat.simps digitChar_def)
  obtain s where s: "RegisterControl sampleSetup 9 ''x'' False ''r1'' 0 (newService sampleSetup) = Inr s"
    by (simp add: RegisterControl_def NewControl_def Let_def case_prod_beta)
  show ?thesis
    using v five s
    by (simp add: handleLogin_def pluginLogin_def sampleOutside_def NewPluginManager_def sampleLogin_def newFront_def sampleAuth_def
        NewAuthVerifier_def NewTokenAuth_def GetAuthKey_def auth_base.defs sampleFront_def Let_def newService_def)
qed

lemma sampleFront_reach: "front_reach ok sampleOutside sampleAuth sampleSetup sampleFront"
  by (rule front_reach.step [OF front_reach.init front_step.login [OF _ sampleFront_login]]) simp

lemma sampleFront_ctl: "\<exists>c. svc_ctls (fr_svc sampleFront) 0 = Some c \<and> ct_loginRunID c = ''r1''"
  by (simp add: sampleFront_def RegisterControl_def NewControl_def cmAdd_def newService_def Let_def updCtl_def)

section \<open>Properties\<close>





end
