(* ===== verification/Ownership.thy ===== *)
theory Ownership
  imports ServerResources
begin

text \<open>
  Who owns what the proxies of frps take. An owner is anything that can hold a running proxy; a map gives
  what it holds. The invariants say that the ports, listeners and visitors that the managers have given
  out are those of the owners, each of one owner, and the lemmas that running and closing keep them and
  that closing never panics.
\<close>

section \<open>Owned ports\<close>

text \<open>
  Every owner's port is in use, and no port has two owners. \<open>t\<close> says that nothing else is in use.
\<close>

definition ownsPorts :: "bool \<Rightarrow> ('o \<rightharpoonup> int) \<Rightarrow> int set \<Rightarrow> bool" where
  "ownsPorts t own used \<longleftrightarrow> (\<forall>x p. own x = Some p \<longrightarrow> p \<in> used) \<and> (\<forall>x y p. own x = Some p \<and> own y = Some p \<longrightarrow> x = y) \<and>
     (t \<longrightarrow> used \<subseteq> ran own)"

lemma ownsPortsD:
  assumes "ownsPorts t own used"
  shows "own x = Some p \<Longrightarrow> p \<in> used" and "own x = Some p \<Longrightarrow> own y = Some p \<Longrightarrow> x = y" and "t \<Longrightarrow> used \<subseteq> ran own"
  using assms unfolding ownsPorts_def by blast+

lemma ownsPorts_take: "ownsPorts t own used \<Longrightarrow> p \<notin> used \<Longrightarrow> own x = None \<Longrightarrow> ownsPorts t (own(x \<mapsto> p)) (insert p used)"
  unfolding ownsPorts_def by auto

lemma ownsPorts_more: "ownsPorts t own used \<Longrightarrow> \<not> t \<Longrightarrow> ownsPorts t own (insert p used)"
  unfolding ownsPorts_def by auto

lemma ownsPorts_drop:
  assumes own: "ownsPorts t own used" and x: "own x = Some p"
  shows "ownsPorts t (own(x := None)) (used - {p})"
proof -
  note D = ownsPortsD [OF own]
  have "ran own \<subseteq> insert p (ran (own(x := None)))"
  proof
    fix q assume "q \<in> ran own"
    then obtain y where y: "own y = Some q" by (auto simp: ran_def)
    then show "q \<in> insert p (ran (own(x := None)))" using x by (cases "y = x") (auto simp: ran_def)
  qed
  then have "t \<longrightarrow> used - {p} \<subseteq> ran (own(x := None))" using D(3) by blast
  moreover have "q \<in> used - {p}" if "(own(x := None)) y = Some q" for y q
  proof -
    have y: "y \<noteq> x" "own y = Some q" using that by (auto split: if_splits)
    then have "q \<noteq> p" using D(2) [OF _ x, of y] by blast
    then show ?thesis using D(1) [OF y(2)] by simp
  qed
  moreover have "y = z" if "(own(x := None)) y = Some q" "(own(x := None)) z = Some q" for y z q
    using that D(2) [of y q z] by (auto split: if_splits)
  ultimately show ?thesis unfolding ownsPorts_def by blast
qed

lemma ownsPorts_bij:
  assumes "bij f" and "ownsPorts t own used"
  shows "ownsPorts t (own \<circ> f) used"
proof -
  have "ran (own \<circ> f) = ran own" using assms(1) by (auto simp: ran_def) (metis bij_pointE)+
  then show ?thesis using assms unfolding ownsPorts_def comp_def by (metis bij_pointE)
qed

lemma linv_bij: "bij f \<Longrightarrow> linv t held \<Longrightarrow> linv t (held \<circ> f)"
  unfolding linv_def heldOk_def comp_def by (metis bij_pointE)

text \<open>An owner that hands over all it holds to one that holds nothing.\<close>

definition handOver :: "'h \<Rightarrow> 'h \<Rightarrow> 'h \<Rightarrow> 'h" where
  "handOver x y = id(x := y, y := x)"

lemma handOver_bij: "bij (handOver x y)"
  by (rule o_bij [of "handOver x y"]) (auto simp: handOver_def fun_eq_iff)

lemma handOver_map: "m y = None \<Longrightarrow> m \<circ> handOver x y = m(x := None, y := m x)"
  by (auto simp: handOver_def fun_eq_iff)

section \<open>The ports and listeners of tcp proxies\<close>

definition tcpPairs :: "('h \<rightharpoonup> int \<times> tcp_listener) \<Rightarrow> 'h \<Rightarrow> (nat \<times> nat) list" where
  "tcpPairs T x = (case T x of Some (rp, OfGroup i ln) \<Rightarrow> [(i, ln)] | _ \<Rightarrow> [])"

text \<open>A port is owned by a proxy with a listener of its own, or by a group with a listener.\<close>

fun tcpOwner :: "('h \<rightharpoonup> int \<times> tcp_listener) \<Rightarrow> group_ctl \<Rightarrow> 'h + nat \<Rightarrow> int option" where
  "tcpOwner T s (Inl x) = (case T x of Some (rp, OwnListener) \<Rightarrow> Some rp | _ \<Rightarrow> None)"
| "tcpOwner T s (Inr i) =
     (case objs s i of None \<Rightarrow> None | Some tg \<Rightarrow> if g_lns tg = [] then None else Some (g_realPort tg))"

definition groupPorts :: "('h \<rightharpoonup> int \<times> tcp_listener) \<Rightarrow> group_ctl \<Rightarrow> bool" where
  "groupPorts T s \<longleftrightarrow> (\<forall>x rp i ln. T x = Some (rp, OfGroup i ln) \<longrightarrow> (\<exists>tg. objs s i = Some tg \<and> g_realPort tg = rp))"

definition tcpOwn :: "bool \<Rightarrow> int set \<Rightarrow> ('h \<rightharpoonup> int \<times> tcp_listener) \<Rightarrow> group_ctl \<Rightarrow> bool" where
  "tcpOwn t A T s \<longleftrightarrow> poolInv A (pool s) \<and> linv (tcpView s) (tcpPairs T) \<and>
     ownsPorts t (tcpOwner T s) (dom (usedPorts (pool s))) \<and> groupPorts T s"

lemma tcpOwnD:
  assumes "tcpOwn t A T s"
  shows "poolInv A (pool s)" and "linv (tcpView s) (tcpPairs T)"
    and "ownsPorts t (tcpOwner T s) (dom (usedPorts (pool s)))" and "groupPorts T s"
  using assms unfolding tcpOwn_def by blast+

lemma tcpPairs_upd:
  "T x = None \<Longrightarrow> tcpPairs (T(x \<mapsto> (rp, OwnListener))) = tcpPairs T"
  "tcpPairs (T(x \<mapsto> (rp, OfGroup i ln))) = (tcpPairs T)(x := [(i, ln)])"
  "tcpPairs (T(x := None)) = (tcpPairs T)(x := [])"
  by (auto simp: tcpPairs_def fun_eq_iff)

lemma tcpOwner_pool [simp]: "tcpOwner T (s\<lparr> pool := pm \<rparr>) = tcpOwner T s" "groupPorts T (s\<lparr> pool := pm \<rparr>) = groupPorts T s"
proof -
  show "tcpOwner T (s\<lparr> pool := pm \<rparr>) = tcpOwner T s"
    by (rule ext, rename_tac x, case_tac x) simp_all
qed (simp add: groupPorts_def)

lemma tcpOwner_upd:
  "T x = None \<Longrightarrow> tcpOwner (T(x \<mapsto> (rp, OwnListener))) s = (tcpOwner T s)(Inl x \<mapsto> rp)"
  "T x = None \<Longrightarrow> tcpOwner (T(x \<mapsto> (rp, OfGroup i ln))) s = tcpOwner T s"
  "tcpOwner (T(x := None)) s = (tcpOwner T s)(Inl x := None)"
  by (rule ext, rename_tac y, case_tac y, simp_all)+

lemma tcpOwner_objs:
  "tcpOwner T (updGroup i tg s) = (tcpOwner T s)(Inr i := if g_lns tg = [] then None else Some (g_realPort tg))"
  by (rule ext, rename_tac y, case_tac y) (simp_all add: updGroup_def)

text \<open>The four ways a run ends.\<close>

lemma tcpOwn_own:
  assumes own: "tcpOwn t A T s" and x: "T x = None" and env: "portEnvOk env (pool s)"
    and acq: "acquireIn env name port (pool s) = (Inr p, pm)"
  shows "tcpOwn t A (T(x \<mapsto> (p, OwnListener))) (s\<lparr> pool := pm \<rparr>)"
    and "tcpOwn t A T (s\<lparr> pool := Release now p pm \<rparr>)"
    and "\<not> t \<Longrightarrow> tcpOwn t A T (s\<lparr> pool := pm \<rparr>)"
proof -
  note D = tcpOwnD [OF own]
  have pm: "poolInv A pm" by (rule ports.invar_acquire' [OF D(1) env acq])
  have used: "dom (usedPorts pm) = insert p (dom (usedPorts (pool s)))" and fresh: "p \<notin> dom (usedPorts (pool s))"
    using ports.acquire_Inr [OF D(1) env acq] ports.acquire_fresh [OF D(1) env acq] by blast+
  have "groupPorts (T(x \<mapsto> (p, OwnListener))) s" using D(4) by (auto simp: groupPorts_def)
  then show "tcpOwn t A (T(x \<mapsto> (p, OwnListener))) (s\<lparr> pool := pm \<rparr>)"
    using D pm used fresh x by (simp add: tcpOwn_def tcpPairs_upd tcpOwner_upd ownsPorts_take del: fun_upd_apply)
  show "\<not> t \<Longrightarrow> tcpOwn t A T (s\<lparr> pool := pm \<rparr>)"
    using D pm used by (simp add: tcpOwn_def ownsPorts_more)
  have "poolInv A (Release now p pm)" by (rule ports.invar_release [OF pm])
  moreover have "dom (usedPorts (Release now p pm)) = dom (usedPorts (pool s))"
    by (rule ports.acquire_release [OF D(1) env acq])
  ultimately show "tcpOwn t A T (s\<lparr> pool := Release now p pm \<rparr>)" using D by (simp add: tcpOwn_def)
qed

lemma tcpOwn_failed:
  assumes "tcpOwn t A T s" and "portEnvOk env (pool s)" and "acquireIn env name port (pool s) = (Inl e, pm)"
  shows "tcpOwn t A T (s\<lparr> pool := pm \<rparr>)"
  using tcpOwnD [OF assms(1)] ports.invar_acquire' [OF _ assms(2,3)] ports.acquire_Inl [OF _ assms(2,3), of A]
  by (simp add: tcpOwn_def)

text \<open>Listening in a group: the lookup, and then the first listener, which takes the port, or another one.\<close>

lemma tcpOwn_look:
  assumes own: "tcpOwn t A T s" and look: "lookupGroup grp s = (i, s1)"
  shows "tcpOwn t A T s1" and "pool s1 = pool s" and "lt_reg (tcpView s1) grp = Some i" and "\<exists>tg. objs s1 i = Some tg"
proof -
  note D = tcpOwnD [OF own]
  note L = tcp_groups.look_inv [OF D(2) look]
  show pool: "pool s1 = pool s" and reg: "lt_reg (tcpView s1) grp = Some i"
    using look L by (auto simp: lookupGroup_def Let_def split: option.splits)
  have fresh: "objs s (nextObj s) = None"
    using tableOkD(1) [of "tcpView s" "nextObj s"] D(2) unfolding linv_def by (cases "objs s (nextObj s)") (auto simp: tcpView_def)
  have objs: "objs s1 j = objs s j \<or> objs s j = None \<and> (\<exists>tg. objs s1 j = Some tg \<and> g_lns tg = [])" for j
    using look fresh by (cases "j = nextObj s") (auto simp: lookupGroup_def Let_def NewTCPGroup_def split: option.splits)
  have "tcpOwner T s1 y = tcpOwner T s y" for y
  proof (cases y)
    case (Inr j)
    then show ?thesis using objs [of j] by auto
  qed simp
  then have "tcpOwner T s1 = tcpOwner T s" by (rule ext)
  moreover have "groupPorts T s1"
    using D(4) objs unfolding groupPorts_def by (metis option.distinct(1))
  ultimately show "tcpOwn t A T s1" using D L pool by (simp add: tcpOwn_def)
  show "\<exists>tg. objs s1 i = Some tg"
    using tableOkD(3) [of "tcpView s1" grp i] L unfolding linv_def by (auto simp: tcpView_objs)
qed

text \<open>Replacing a group by one with a listener more.\<close>

lemma groupPorts_join:
  assumes ports: "groupPorts T s" and tg: "objs s i = Some tg"
    and same: "g_realPort tg' = g_realPort tg \<or> (\<forall>y ln. (i, ln) \<notin> set (tcpPairs T y))"
  shows "groupPorts (T(x \<mapsto> (g_realPort tg', OfGroup i l))) (updGroup i tg' s)"
  unfolding groupPorts_def
proof (intro allI impI)
  fix y rp j ln assume y: "(T(x \<mapsto> (g_realPort tg', OfGroup i l))) y = Some (rp, OfGroup j ln)"
  show "\<exists>tg. objs (updGroup i tg' s) j = Some tg \<and> g_realPort tg = rp"
  proof (cases "y = x")
    case True
    then show ?thesis using y by (simp add: updGroup_def)
  next
    case False
    then have T: "T y = Some (rp, OfGroup j ln)" using y by simp
    then have "(j, ln) \<in> set (tcpPairs T y)" by (simp add: tcpPairs_def)
    moreover obtain th where "objs s j = Some th" "g_realPort th = rp" using ports T unfolding groupPorts_def by blast
    ultimately show ?thesis using same tg by (auto simp: updGroup_def)
  qed
qed

lemma tcpOwner_keep:
  assumes "objs s i = Some tg" and "g_lns tg \<noteq> []" and "g_lns tg' \<noteq> []" and "g_realPort tg' = g_realPort tg"
  shows "tcpOwner T (updGroup i tg' s) = tcpOwner T s"
  unfolding tcpOwner_objs using assms by (auto simp: fun_eq_iff)

lemma tcpOwner_nextLn [simp]: "tcpOwner T (s\<lparr> nextLn := n \<rparr>) = tcpOwner T s" "groupPorts T (s\<lparr> nextLn := n \<rparr>) = groupPorts T s"
proof -
  show "tcpOwner T (s\<lparr> nextLn := n \<rparr>) = tcpOwner T s"
    by (rule ext, rename_tac x, case_tac x) simp_all
qed (simp add: groupPorts_def)

lemma updGroup_fields [simp]: "pool (updGroup i tg s) = pool s"
  by (simp add: updGroup_def)

lemma tcpOwn_listen:
  assumes own: "tcpOwn t A T s" and x: "T x = None" and env: "portEnvOk env (pool s)"
    and t: "t \<longrightarrow> listenErr = None"
    and look: "lookupGroup grp s = (i, s1)" and listen: "groupListen env listenErr i name grp key addr port s1 = (res, s2)"
  shows "case res of Inl e \<Rightarrow> tcpOwn t A T s2 | Inr (ln, rp) \<Rightarrow> tcpOwn t A (T(x \<mapsto> (rp, OfGroup i ln))) s2"
proof -
  note L = tcpOwn_look [OF own look]
  note D = tcpOwnD [OF L(1)]
  have env1: "portEnvOk env (pool s1)" using env L(2) by simp
  obtain tg where tg: "objs s1 i = Some tg" using L(4) by blast
  have pairs: "tcpPairs T x = []" using x by (simp add: tcpPairs_def)
  have joined: "linv (tcpView s2) (tcpPairs (T(x \<mapsto> (rp, OfGroup i ln))))" if "res = Inr (ln, rp)" for ln rp
  proof -
    have "tcpJoin (env, listenErr, name, key, addr, port) i grp s1 = (Inr ln, s2)" using listen that by simp
    from tcp_groups.join_inv [OF D(2) L(3) this, of x] show ?thesis by (simp add: tcpPairs_upd pairs)
  qed
  show ?thesis
  proof (cases "g_lns tg = []")
    case False
    show ?thesis
    proof (cases res)
      case (Inl e)
      then have "s2 = s1" using listen tg False by (auto simp: groupListen_def Let_def split: if_splits)
      then show ?thesis using Inl L(1) by simp
    next
      case (Inr r)
      obtain ln rp where r: "r = (ln, rp)" by (cases r)
      have s2: "s2 = updGroup i (tg\<lparr> g_lns := g_lns tg @ [ln] \<rparr>) (s1\<lparr> nextLn := ln + 1 \<rparr>)" and rp: "rp = g_realPort tg"
        using listen tg False Inr r by (auto simp: groupListen_def Let_def split: if_splits)
      have "tcpOwner T s2 = tcpOwner T s1" using tg False unfolding s2 by (subst tcpOwner_keep [of _ _ tg]) simp_all
      moreover have "groupPorts (T(x \<mapsto> (rp, OfGroup i ln))) s2"
        unfolding s2 rp using groupPorts_join [of T "s1\<lparr> nextLn := ln + 1 \<rparr>" i tg "tg\<lparr> g_lns := g_lns tg @ [ln] \<rparr>" x ln] D(4) tg
        by simp
      ultimately show ?thesis using D joined Inr r x by (simp add: tcpOwn_def tcpOwner_upd s2)
    qed
  next
    case True
    obtain q pm where acq: "acquireIn env name port (pool s1) = (q, pm)" by fastforce
    show ?thesis
    proof (cases q)
      case (Inl e)
      then have "res = Inl (PoolError e)" "s2 = s1\<lparr> pool := pm \<rparr>"
        using listen tg True acq by (auto simp: groupListen_def)
      then show ?thesis using tcpOwn_failed [OF L(1) env1 acq [unfolded Inl]] by simp
    next
      case (Inr p)
      note acq = acq [unfolded Inr]
      show ?thesis
      proof (cases listenErr)
        case (Some e)
        then have "res = Inl (ListenFailed e)" "s2 = s1\<lparr> pool := pm \<rparr>"
          using listen tg True acq by (auto simp: groupListen_def)
        then show ?thesis using tcpOwn_own(3) [OF L(1) x env1 acq] t Some by simp
      next
        case None
        define ln where "ln = nextLn s1"
        define tg' where "tg' = tg\<lparr> g_group := grp, g_groupKey := key, g_addr := addr, g_port := port,
          g_realPort := p, g_tcpLn := Some (addr, port), g_lns := [ln] \<rparr>"
        have res: "res = Inr (ln, p)" and s2: "s2 = updGroup i tg' (s1\<lparr> pool := pm, nextLn := ln + 1 \<rparr>)"
          using listen tg True acq None by (auto simp: groupListen_def Let_def ln_def tg'_def)
        have "(i, l) \<notin> set (tcpPairs T y)" for y l
          using heldOkD(1) [of "tcpView s1" "tcpPairs T" i l y] D(2) tg True unfolding linv_def by (auto simp: tcpView_objs)
        then have "groupPorts (T(x \<mapsto> (p, OfGroup i ln))) s2"
          unfolding s2 using groupPorts_join [of T "s1\<lparr> pool := pm, nextLn := ln + 1 \<rparr>" i tg tg' x ln] D(4) tg
          by (simp add: tg'_def)
        moreover have "tcpOwner T s2 = (tcpOwner T s1)(Inr i \<mapsto> p)"
          unfolding s2 tcpOwner_objs by (simp add: tg'_def)
        moreover have "pool s2 = pm" by (simp add: s2)
        moreover have "poolInv A pm" by (rule ports.invar_acquire' [OF D(1) env1 acq])
        moreover have "dom (usedPorts pm) = insert p (dom (usedPorts (pool s1)))" "p \<notin> dom (usedPorts (pool s1))"
          using ports.acquire_Inr [OF D(1) env1 acq] ports.acquire_fresh [OF D(1) env1 acq] by blast+
        moreover have "tcpOwner T s1 (Inr i) = None" using tg True by simp
        ultimately show ?thesis
          using D(3) joined res x by (simp add: tcpOwn_def tcpOwner_upd ownsPorts_take)
      qed
    qed
  qed
qed

text \<open>Closing gives the port back, with the last listener of a group, and does not panic.\<close>

lemma groupPorts_leave:
  assumes ports: "groupPorts T s" and tg: "objs s i = Some tg" "g_realPort tg' = g_realPort tg"
    and s': "objs s' = (objs s)(i \<mapsto> tg')"
  shows "groupPorts (T(x := None)) s'"
  unfolding groupPorts_def
proof (intro allI impI)
  fix y rp j ln assume "(T(x := None)) y = Some (rp, OfGroup j ln)"
  then obtain th where "objs s j = Some th" "g_realPort th = rp" using ports unfolding groupPorts_def by (auto split: if_splits)
  then show "\<exists>tg. objs s' j = Some tg \<and> g_realPort tg = rp" using tg by (auto simp: s')
qed

lemma tcpOwn_leave:
  assumes own: "tcpOwn t A T s" and T: "T x = Some (rp, OfGroup i ln)"
  shows "\<exists>s'. TCPGroups.CloseListener now i ln s = Inr s' \<and> tcpOwn t A (T(x := None)) s'"
proof -
  note D = tcpOwnD [OF own]
  have pairs: "tcpPairs T x = [(i, ln)]" using T by (simp add: tcpPairs_def)
  obtain s' where c: "TCPGroups.CloseListener now i ln s = Inr s'" and inv: "linv (tcpView s') (tcpPairs (T(x := None)))"
    using tcp_groups.leave_inv [OF D(2), of i ln x now] pairs by (auto simp: tcpPairs_upd)
  have "heldOk (tcpView s) (tcpPairs T)" using D(2) by (simp add: linv_def)
  from heldOkD(1) [OF this, of i ln x] obtain tg where tg: "objs s i = Some tg" "ln \<in> set (g_lns tg)"
    using pairs by (auto simp: tcpView_objs)
  have rp: "g_realPort tg = rp" using D(4) T tg(1) unfolding groupPorts_def by fastforce
  have slot: "tcpOwner (T(x := None)) s0 = tcpOwner T s0" for s0 using T by (simp add: tcpOwner_upd fun_upd_idem)
  show ?thesis
  proof (cases "remove1 ln (g_lns tg) = []")
    case False
    then have s': "s' = updGroup i (tg\<lparr> g_lns := remove1 ln (g_lns tg) \<rparr>) s"
      using c tg by (simp add: TCPGroups.CloseListener_def Let_def)
    have "tcpOwner T s' = tcpOwner T s" using tg False unfolding s' by (subst tcpOwner_keep [of _ _ tg]) auto
    moreover have "groupPorts (T(x := None)) s'"
      by (rule groupPorts_leave [OF D(4) tg(1)]) (simp_all add: s' updGroup_def)
    moreover have "pool s' = pool s" by (simp add: s')
    ultimately show ?thesis using c inv D(1,3) by (simp add: tcpOwn_def slot)
  next
    case True
    then have pool: "pool s' = Release now rp (pool s)" and objs: "objs s' = (objs s)(i \<mapsto> tg\<lparr> g_lns := [], g_acceptClosed := True, g_tcpLn := None \<rparr>)"
      using c tg rp by (auto simp: TCPGroups.CloseListener_def Let_def updGroup_def RemoveGroup_def split: if_splits)
    have mine: "tcpOwner T s (Inr i) = Some rp" using tg rp by auto
    have "rp \<in> dom (usedPorts (pool s))" using ownsPortsD(1) [OF D(3) mine] .
    from ports.release_inUse [OF D(1) this, of now] have used: "dom (usedPorts (pool s')) = dom (usedPorts (pool s)) - {rp}"
      by (simp add: pool)
    have "tcpOwner T s' y = ((tcpOwner T s)(Inr i := None)) y" for y by (cases y) (simp_all add: objs)
    then have "tcpOwner T s' = (tcpOwner T s)(Inr i := None)" by (rule ext)
    then have "ownsPorts t (tcpOwner (T(x := None)) s') (dom (usedPorts (pool s')))"
      unfolding slot used by (simp add: ownsPorts_drop [OF D(3) mine])
    moreover have "groupPorts (T(x := None)) s'"
      by (rule groupPorts_leave [OF D(4) tg(1) _ objs]) simp
    moreover have "poolInv A (pool s')" unfolding pool by (rule ports.invar_release [OF D(1)])
    ultimately show ?thesis using c inv by (simp add: tcpOwn_def)
  qed
qed

lemma tcpOwn_close:
  assumes own: "tcpOwn t A T s" and T: "T x = Some (rp, l)"
  shows "\<exists>s'. tcpClose now rp l s = Inr s' \<and> tcpOwn t A (T(x := None)) s'"
proof (cases l)
  case (OfGroup i ln)
  then show ?thesis using tcpOwn_leave [OF own, of x rp i ln now] T by (simp add: tcpClose_def)
next
  case OwnListener
  note D = tcpOwnD [OF own]
  have mine: "tcpOwner T s (Inl x) = Some rp" using T OwnListener by simp
  have "rp \<in> dom (usedPorts (pool s))" using ownsPortsD(1) [OF D(3) mine] .
  from ports.release_inUse [OF D(1) this, of now]
  have used: "dom (usedPorts (Release now rp (pool s))) = dom (usedPorts (pool s)) - {rp}" by simp
  have "tcpPairs T x = []" using T OwnListener by (simp add: tcpPairs_def)
  then have "tcpPairs (T(x := None)) = tcpPairs T" by (simp add: tcpPairs_upd fun_upd_idem)
  moreover have "groupPorts (T(x := None)) s" using D(4) unfolding groupPorts_def by simp
  moreover have "ownsPorts t ((tcpOwner T s)(Inl x := None)) (dom (usedPorts (pool s)) - {rp})"
    by (rule ownsPorts_drop [OF D(3) mine])
  ultimately have "tcpOwn t A (T(x := None)) (s\<lparr> pool := Release now rp (pool s) \<rparr>)"
    using D ports.invar_release [OF D(1)] used by (simp add: tcpOwn_def tcpOwner_upd)
  then show ?thesis using OwnListener by (simp add: tcpClose_def)
qed

lemma tcpOwn_run:
  assumes own: "tcpOwn t A T s" and x: "T x = None" and env: "portEnvOk env (pool s)"
    and t: "t \<longrightarrow> listenErr = None" and run: "tcpRun env listenErr now addr b p s = (res, s')"
  shows "case res of Inl e \<Rightarrow> tcpOwn t A T s' | Inr (a, rp, l) \<Rightarrow> tcpOwn t A (T(x \<mapsto> (rp, l))) s'"
proof (cases "Group b = []")
  case False
  obtain i s1 where look: "lookupGroup (Group b) s = (i, s1)" by fastforce
  obtain r s2 where listen: "groupListen env listenErr i (ProxyConf.ProxyName b) (Group b) (GroupKey b) addr p s1 = (r, s2)" by fastforce
  have "res = (case r of Inl e \<Rightarrow> Inl (GroupFailed e) | Inr (ln, rp) \<Rightarrow> Inr ('':'' @ showInt rp, rp, OfGroup i ln)) \<and> s' = s2"
    using run False look listen by (auto simp: tcpRun_def ctlListen_def split: sum.splits prod.splits)
  then show ?thesis using tcpOwn_listen [OF own x env t look listen] by (auto split: sum.splits)
next
  case True
  obtain q pm where acq: "acquireIn env (ProxyConf.ProxyName b) p (pool s) = (q, pm)" by fastforce
  show ?thesis
  proof (cases q)
    case (Inl e)
    then have "res = Inl (AcquireFailed e)" "s' = s\<lparr> pool := pm \<rparr>" using run True acq by (simp_all add: tcpRun_def)
    then show ?thesis using tcpOwn_failed [OF own env acq [unfolded Inl]] by simp
  next
    case (Inr rp)
    note own' = tcpOwn_own [OF own x env acq [unfolded Inr]]
    show ?thesis using run True acq Inr own'(1,2) by (auto simp: tcpRun_def split: option.splits)
  qed
qed

lemma tcpOwn_handOver:
  assumes "tcpOwn t A T s" and "T y = None"
  shows "tcpOwn t A (T(x := None, y := T x)) s"
proof -
  let ?f = "handOver x y"
  note D = tcpOwnD [OF assms(1)]
  have "tcpPairs (T \<circ> ?f) = tcpPairs T \<circ> ?f" by (simp add: fun_eq_iff tcpPairs_def)
  moreover have "tcpOwner (T \<circ> ?f) s = tcpOwner T s \<circ> map_sum ?f id"
    by (rule ext, rename_tac z, case_tac z) simp_all
  moreover have "bij (map_sum ?f id)"
    by (rule o_bij [of "map_sum ?f id"]; rule ext, rename_tac z, case_tac z) (simp_all add: handOver_def)
  moreover have "groupPorts (T \<circ> ?f) s" using D(4) by (simp add: groupPorts_def)
  ultimately have "tcpOwn t A (T \<circ> ?f) s"
    using D linv_bij [OF handOver_bij D(2), of x y] ownsPorts_bij [OF _ D(3), of "map_sum ?f id"] by (simp add: tcpOwn_def)
  then show ?thesis by (simp only: handOver_map [of T, OF assms(2)])
qed

section \<open>The listeners of tcpmux proxies\<close>

text \<open>The listeners of a proxy that are in a group.\<close>

fun muxPairs :: "mux_listener list \<Rightarrow> (nat \<times> nat) list" where
  "muxPairs [] = []"
| "muxPairs (MuxOwn r # ls) = muxPairs ls"
| "muxPairs (MuxOfGroup i ln # ls) = (i, ln) # muxPairs ls"

lemma muxPairs_append [simp]: "muxPairs (ls @ ms) = muxPairs ls @ muxPairs ms"
  by (induction ls rule: muxPairs.induct) simp_all

definition muxHeld :: "('h \<rightharpoonup> mux_listener list) \<Rightarrow> 'h \<Rightarrow> (nat \<times> nat) list" where
  "muxHeld M x = (case M x of None \<Rightarrow> [] | Some ls \<Rightarrow> muxPairs ls)"

definition muxOwn :: "('h \<rightharpoonup> mux_listener list) \<Rightarrow> mux_ctl \<Rightarrow> bool" where
  "muxOwn M s \<longleftrightarrow> linv (muxView s) (muxHeld M)"

lemma muxHeld_upd: "muxHeld (M(x := v)) = (muxHeld M)(x := case v of None \<Rightarrow> [] | Some ls \<Rightarrow> muxPairs ls)"
  by (auto simp: muxHeld_def fun_eq_iff)

lemma connect_inv:
  assumes inv: "linv (muxView s) (held(x := muxPairs ls))" and run: "httpConnectListen b m user dm s = (r, s')"
  shows "linv (muxView s') (held(x := muxPairs (case r of Inl e \<Rightarrow> ls | Inr l \<Rightarrow> ls @ [l])))"
proof (cases "Group b = []")
  case True
  then show ?thesis using inv run by (auto simp: httpConnectListen_def split: sum.splits)
next
  case False
  obtain i s1 where look: "muxLookup (Group b) s = (i, s1)" by fastforce
  note L = mux_groups.look_inv [OF inv look]
  show ?thesis
  proof (cases "m = ''httpconnect''")
    case http: True
    obtain q s2 where join: "HTTPConnectListen i (Group b) (GroupKey b) (domainRoute user dm) s1 = (q, s2)" by fastforce
    have r: "r = map_sum id (MuxOfGroup i) q \<and> s' = s2"
      using run False look join http by (auto simp: httpConnectListen_def muxCtlListen_def split: sum.splits)
    show ?thesis
      using mux_groups.listen_inv [OF inv look, of "(GroupKey b, domainRoute user dm)" q s2 x] join r
      by (cases q) simp_all
  next
    case False
    then show ?thesis
      using run \<open>Group b \<noteq> []\<close> look L by (auto simp: httpConnectListen_def muxCtlListen_def)
  qed
qed

lemma connectAll_inv:
  assumes "linv (muxView s) (held(x := muxPairs ls))" and "connectAll b m user dms ls s = (e, ls', s')"
  shows "linv (muxView s') (held(x := muxPairs ls'))"
  using assms
proof (induction dms arbitrary: ls s)
  case (Cons dm dms)
  obtain r s1 where c: "httpConnectListen b m user dm s = (r, s1)" by fastforce
  note C = connect_inv [OF Cons.prems(1) c]
  show ?case
  proof (cases r)
    case (Inl f)
    then have "ls' = ls" "s' = s1" using Cons.prems(2) c by simp_all
    then show ?thesis using C Inl by (simp del: fun_upd_apply)
  next
    case (Inr l)
    then have "connectAll b m user dms (ls @ [l]) s1 = (e, ls', s')" using Cons.prems(2) c by simp
    then show ?thesis using C Inr Cons.IH [of s1 "ls @ [l]"] by (simp del: fun_upd_apply muxPairs_append)
  qed
qed simp

lemma tcpMuxClose_inv:
  "linv (muxView s) (held(x := muxPairs ls)) \<Longrightarrow> \<exists>s'. tcpMuxClose ls s = Inr s' \<and> linv (muxView s') (held(x := []))"
proof (induction ls s rule: tcpMuxClose.induct)
  case (3 i ln ls s)
  obtain s1 where "muxGroupClose i ln s = Inr s1" "linv (muxView s1) (held(x := muxPairs ls))"
    using mux_groups.leave_inv [OF "3.prems", of i ln x] by (auto simp del: fun_upd_apply simp: fun_upd_same)
  then show ?case using "3.IH" by (simp del: fun_upd_apply)
qed simp_all

lemma muxOwn_run:
  assumes own: "muxOwn M s" and x: "M x = None"
  shows "\<exists>res s'. tcpMuxRun sc b d user m s = Inr (res, s') \<and>
    muxOwn (case res of Inl e \<Rightarrow> M | Inr (addr, ls) \<Rightarrow> M(x \<mapsto> ls)) s'"
proof (cases "m = ''httpconnect''")
  case True
  have none: "muxHeld M x = []" using x by (simp add: muxHeld_def)
  then have "linv (muxView s) ((muxHeld M)(x := muxPairs []))" using own by (simp add: muxOwn_def fun_upd_idem)
  moreover obtain e ls s' where c: "connectAll b m user (confDomains sc d) [] s = (e, ls, s')" by (metis prod_cases3)
  ultimately have inv: "linv (muxView s') ((muxHeld M)(x := muxPairs ls))" using connectAll_inv [of s "muxHeld M" x "[]" b m user _ e ls s'] by blast
  show ?thesis
  proof (cases e)
    case None
    then show ?thesis using inv c True by (simp add: tcpMuxRun_def muxOwn_def muxHeld_upd)
  next
    case (Some f)
    obtain s'' where "tcpMuxClose ls s' = Inr s''" "linv (muxView s'') ((muxHeld M)(x := []))"
      using tcpMuxClose_inv [OF inv] by blast
    then show ?thesis using c True Some none by (simp add: tcpMuxRun_def muxOwn_def fun_upd_idem)
  qed
qed (use own in \<open>simp add: tcpMuxRun_def\<close>)

lemma muxOwn_close:
  assumes own: "muxOwn M s" and x: "M x = Some ls"
  shows "\<exists>s'. tcpMuxClose ls s = Inr s' \<and> muxOwn (M(x := None)) s'"
proof -
  have "muxHeld M x = muxPairs ls" using x by (simp add: muxHeld_def)
  then have "linv (muxView s) ((muxHeld M)(x := muxPairs ls))" using own by (simp add: muxOwn_def fun_upd_idem)
  from tcpMuxClose_inv [OF this] show ?thesis by (simp add: muxOwn_def muxHeld_upd)
qed

lemma muxOwn_handOver: "muxOwn M s \<Longrightarrow> M y = None \<Longrightarrow> muxOwn (M(x := None, y := M x)) s"
proof -
  assume own: "muxOwn M s" and y: "M y = None"
  have "muxHeld (M \<circ> handOver x y) = muxHeld M \<circ> handOver x y" by (simp add: fun_eq_iff muxHeld_def)
  then have "muxOwn (M \<circ> handOver x y) s" using own linv_bij [OF handOver_bij, of _ "muxHeld M"] by (simp add: muxOwn_def)
  then show ?thesis by (simp only: handOver_map [of M, OF y])
qed

section \<open>The names and keys of visitors\<close>

text \<open>The owners by the name and the secret key of their proxy.\<close>

definition visOwn :: "('h \<rightharpoonup> string \<times> string) \<Rightarrow> visitor_manager \<Rightarrow> bool" where
  "visOwn V vm \<longleftrightarrow> (\<forall>n. n \<in> visitorListeners vm \<longleftrightarrow> (\<exists>x k. V x = Some (n, k))) \<and>
     (\<forall>n k. skMap vm n = Some k \<longleftrightarrow> (\<exists>x. V x = Some (n, k))) \<and>
     (\<forall>x y n k k'. V x = Some (n, k) \<and> V y = Some (n, k') \<longrightarrow> x = y)"

lemma visOwnD:
  assumes "visOwn V vm"
  shows "n \<in> visitorListeners vm \<longleftrightarrow> (\<exists>x k. V x = Some (n, k))" and "skMap vm n = Some k \<longleftrightarrow> (\<exists>x. V x = Some (n, k))"
    and "V x = Some (n, k) \<Longrightarrow> V y = Some (n, k') \<Longrightarrow> x = y"
  using assms unfolding visOwn_def by blast+

lemma visOwnI:
  assumes "\<And>n. n \<in> visitorListeners vm \<longleftrightarrow> (\<exists>x k. V x = Some (n, k))" and "\<And>n k. skMap vm n = Some k \<longleftrightarrow> (\<exists>x. V x = Some (n, k))"
    and "\<And>x y n k k'. V x = Some (n, k) \<Longrightarrow> V y = Some (n, k') \<Longrightarrow> x = y"
  shows "visOwn V vm"
  unfolding visOwn_def using assms by blast

lemma visOwn_listen:
  assumes own: "visOwn V vm" and x: "V x = None" and run: "visitorListen n sk vm = Inr vm'"
  shows "visOwn (V(x \<mapsto> (n, sk))) vm'"
proof -
  note D = visOwnD [OF own]
  have fresh: "V y \<noteq> Some (n, k)" for y k using run D(1) [of n] by (auto simp: visitorListen_def split: if_splits)
  have vm': "vm' = vm\<lparr> visitorListeners := insert n (visitorListeners vm), skMap := (skMap vm)(n \<mapsto> sk) \<rparr>"
    using run by (auto simp: visitorListen_def split: if_splits)
  have V': "(V(x \<mapsto> (n, sk))) y = Some (m, k) \<longleftrightarrow> (if m = n then y = x \<and> k = sk else V y = Some (m, k))" for y m k
    using x fresh [of y] by (cases "m = n"; cases "y = x") auto
  show ?thesis
  proof (rule visOwnI, unfold V')
    show "m \<in> visitorListeners vm' \<longleftrightarrow> (\<exists>y k. if m = n then y = x \<and> k = sk else V y = Some (m, k))" for m
      by (cases "m = n") (simp_all add: vm' D(1))
    show "skMap vm' m = Some k \<longleftrightarrow> (\<exists>y. if m = n then y = x \<and> k = sk else V y = Some (m, k))" for m k
      by (cases "m = n") (auto simp: vm' D(2))
    show "y = z" if "if m = n then y = x \<and> k = sk else V y = Some (m, k)" "if m = n then z = x \<and> k' = sk else V z = Some (m, k')"
      for y z m k k' using that D(3) [of y m k z k'] by (auto split: if_splits)
  qed
qed

lemma visOwn_close:
  assumes own: "visOwn V vm" and x: "V x = Some (n, k)"
  shows "visOwn (V(x := None)) (visitorClose n vm)"
proof -
  note D = visOwnD [OF own]
  have only: "y = x" if "V y = Some (n, k')" for y k' using D(3) that x by blast
  have V': "(V(x := None)) y = Some (m, j) \<longleftrightarrow> m \<noteq> n \<and> V y = Some (m, j)" for y m j
  proof (cases "y = x")
    case False
    then have "V y = Some (m, j) \<Longrightarrow> m \<noteq> n" using only [of y j] by blast
    then show ?thesis using False by (simp, blast)
  qed (use x in simp)
  show ?thesis
  proof (rule visOwnI, unfold V')
    show "m \<in> visitorListeners (visitorClose n vm) \<longleftrightarrow> (\<exists>y k. m \<noteq> n \<and> V y = Some (m, k))" for m
      by (auto simp: visitorClose_def D(1))
    show "skMap (visitorClose n vm) m = Some j \<longleftrightarrow> (\<exists>y. m \<noteq> n \<and> V y = Some (m, j))" for m j
      by (auto simp: visitorClose_def D(2))
    show "y = z" if "m \<noteq> n \<and> V y = Some (m, j)" "m \<noteq> n \<and> V z = Some (m, j')" for y z m j j'
      using that D(3) [of y m j z j'] by simp
  qed
qed

lemma visOwn_handOver:
  assumes "visOwn V vm" and "V y = None"
  shows "visOwn (V(x := None, y := V x)) vm"
proof -
  have "visOwn (V \<circ> handOver x y) vm"
  proof (rule visOwnI)
    have ex: "(\<exists>z. Q ((V \<circ> handOver x y) z)) \<longleftrightarrow> (\<exists>z. Q (V z))" for Q
      using handOver_bij [of x y] by (metis bij_pointE comp_apply)
    show "n \<in> visitorListeners vm \<longleftrightarrow> (\<exists>z k. (V \<circ> handOver x y) z = Some (n, k))" for n
      using visOwnD(1) [OF assms(1), of n] ex [of "\<lambda>v. \<exists>k. v = Some (n, k)"] by simp
    show "skMap vm n = Some k \<longleftrightarrow> (\<exists>z. (V \<circ> handOver x y) z = Some (n, k))" for n k
      using visOwnD(2) [OF assms(1), of n k] ex [of "\<lambda>v. v = Some (n, k)"] by simp
    show "w = z" if "(V \<circ> handOver x y) w = Some (n, k)" "(V \<circ> handOver x y) z = Some (n, k')" for w z n k k'
    proof -
      have "handOver x y w = handOver x y z" using visOwnD(3) [OF assms(1)] that by simp
      then show ?thesis using handOver_bij [of x y] by (metis bij_pointE)
    qed
  qed
  then show ?thesis by (simp only: handOver_map [of V, OF assms(2)])
qed

end
