(* ===== verification/ServerOwnership.thy ===== *)
theory ServerOwnership
  imports Ownership ServerSessions
begin

text \<open>
  The resources of frps in every reachable state: what the managers have given out is held by the proxies
  of the sessions, so closing a proxy never panics, a session that ends always comes to its end, and a
  login that waits for another session starts. The run of a proxy is one step here; the theory of the
  groups has the defect that appears when it is not.
\<close>

section \<open>The owners\<close>

text \<open>
  An owner is a control with a name, for a proxy that it holds, or a control alone, for the proxy of the
  registration under way.
\<close>

type_synonym slot = "nat \<times> string option"

definition ctlSlots :: "control \<Rightarrow> string option \<rightharpoonup> running" where
  "ctlSlots c q = (case q of Some n \<Rightarrow> holds c n | None \<Rightarrow> map_option (snd \<circ> snd \<circ> snd) (ct_pending c))"

definition slotsOf :: "service \<Rightarrow> slot \<rightharpoonup> running" where
  "slotsOf s x = (case svc_ctls s (fst x) of None \<Rightarrow> None | Some c \<Rightarrow> ctlSlots c (snd x))"

lemma slotsOf_Some: "svc_ctls s i = Some c \<Longrightarrow> slotsOf s (i, q) = ctlSlots c q"
  by (simp add: slotsOf_def)

lemma slotsOf_fields [simp]:
  "slotsOf (s\<lparr> svc_next := a \<rparr>) = slotsOf s" "slotsOf (s\<lparr> svc_byRunID := b \<rparr>) = slotsOf s"
  "slotsOf (s\<lparr> svc_pxys := r \<rparr>) = slotsOf s" "slotsOf (s\<lparr> svc_res := rs \<rparr>) = slotsOf s"
  "slotsOf (s\<lparr> svc_events := es \<rparr>) = slotsOf s"
  by (simp_all add: fun_eq_iff slotsOf_def)

lemma updCtl_swap:
  "slotsOf (updCtl i c (s\<lparr> svc_res := rs \<rparr>)) = slotsOf (updCtl i c s)"
  "slotsOf (updCtl i c (s\<lparr> svc_pxys := r \<rparr>)) = slotsOf (updCtl i c s)"
  "slotsOf (updCtl i c (s\<lparr> svc_events := es \<rparr>)) = slotsOf (updCtl i c s)"
  "slotsOf (updCtl i c (s\<lparr> svc_res := rs, svc_pxys := r, svc_events := es \<rparr>)) = slotsOf (updCtl i c s)"
  "slotsOf (updCtl i c (s\<lparr> svc_pxys := r, svc_events := es \<rparr>)) = slotsOf (updCtl i c s)"
  by (simp_all add: fun_eq_iff slotsOf_def)

lemma slotsOf_keep:
  assumes "svc_ctls s i = Some c" and "ctlSlots c' = ctlSlots c"
  shows "slotsOf (updCtl i c' s) = slotsOf s"
  using assms by (auto simp: fun_eq_iff slotsOf_def)

lemma slotsOf_set:
  assumes "svc_ctls s i = Some c" and "ctlSlots c' = (ctlSlots c)(q := v)"
  shows "slotsOf (updCtl i c' s) = (slotsOf s)((i, q) := v)"
  using assms by (auto simp: fun_eq_iff slotsOf_def)

lemma ctlSlots_same: "holds c' = holds c \<Longrightarrow> ct_pending c' = ct_pending c \<Longrightarrow> ctlSlots c' = ctlSlots c"
  by (simp add: fun_eq_iff ctlSlots_def split: option.split)

text \<open>The part of the owners that hold a kind of resource.\<close>

definition part :: "(running \<Rightarrow> 'r option) \<Rightarrow> ('h \<rightharpoonup> running) \<Rightarrow> 'h \<rightharpoonup> 'r" where
  "part f S x = (case S x of None \<Rightarrow> None | Some pxy \<Rightarrow> f pxy)"

lemma part_upd:
  "part f (S(x \<mapsto> pxy)) = (part f S)(x := f pxy)" "part f (S(x := None)) = (part f S)(x := None)"
  "S x = Some pxy \<Longrightarrow> part f S x = f pxy"
  by (auto simp: part_def fun_eq_iff)

lemma part_None: "S x = None \<Longrightarrow> part f S x = None"
  by (simp add: part_def)

lemma part_idle [simp]: "S x = None \<Longrightarrow> (part f S)(x := None) = part f S"
  by (simp add: part_None fun_upd_idem)

lemma part_other: "S x = None \<Longrightarrow> f pxy = None \<Longrightarrow> part f (S(x \<mapsto> pxy)) = part f S"
  by (auto simp: part_def fun_eq_iff)

lemma part_gone: "S x = Some pxy \<Longrightarrow> f pxy = None \<Longrightarrow> part f (S(x := None)) = part f S"
  by (auto simp: part_def fun_eq_iff)

definition tcpOf :: "running \<Rightarrow> (int \<times> tcp_listener) option" where
  "tcpOf pxy = (case rn_held pxy of TcpHeld rp l \<Rightarrow> Some (rp, l) | _ \<Rightarrow> None)"

definition muxOf :: "running \<Rightarrow> mux_listener list option" where
  "muxOf pxy = (case rn_held pxy of MuxHeld ls \<Rightarrow> Some ls | _ \<Rightarrow> None)"

fun secretOf :: "proxy_conf \<Rightarrow> string" where
  "secretOf (STCPProxyConf b r k) = k"
| "secretOf (SUDPProxyConf b r k) = k"
| "secretOf (XTCPProxyConf b r k) = k"
| "secretOf c = []"

definition visOf :: "running \<Rightarrow> (string \<times> string) option" where
  "visOf pxy = (case rn_held pxy of VisitorHeld \<Rightarrow> Some (GetName pxy, secretOf (rn_conf pxy)) | _ \<Rightarrow> None)"

definition holeOk :: "('h \<rightharpoonup> running) \<Rightarrow> nat_hole option \<Rightarrow> bool" where
  "holeOk S nc \<longleftrightarrow> (\<forall>x pxy. S x = Some pxy \<and> rn_held pxy = NatHeld \<longrightarrow> nc \<noteq> None)"

definition ownInv :: "bool \<Rightarrow> int set \<Rightarrow> ('h \<rightharpoonup> running) \<Rightarrow> resources \<Rightarrow> bool" where
  "ownInv t A S rs \<longleftrightarrow> tcpOwn t A (part tcpOf S) (rs_tcp rs) \<and> muxOwn (part muxOf S) (rs_mux rs) \<and>
     visOwn (part visOf S) (rs_visitors rs) \<and> holeOk S (rs_natHole rs)"

lemma kind_simps [simp]:
  "tcpOf \<lparr> rn_conf = k, rn_held = h \<rparr> = (case h of TcpHeld rp l \<Rightarrow> Some (rp, l) | _ \<Rightarrow> None)"
  "muxOf \<lparr> rn_conf = k, rn_held = h \<rparr> = (case h of MuxHeld ls \<Rightarrow> Some ls | _ \<Rightarrow> None)"
  "visOf \<lparr> rn_conf = k, rn_held = h \<rparr> = (case h of VisitorHeld \<Rightarrow> Some (ProxyConf.ProxyName (GetBaseInfo k), secretOf k) | _ \<Rightarrow> None)"
  by (auto simp: tcpOf_def muxOf_def visOf_def split: held.split)

lemma holeOk_add: "holeOk S nc \<Longrightarrow> rn_held pxy \<noteq> NatHeld \<or> nc \<noteq> None \<Longrightarrow> holeOk (S(x \<mapsto> pxy)) nc"
  by (auto simp: holeOk_def)

lemma holeOk_del: "holeOk S nc \<Longrightarrow> holeOk (S(x := None)) nc"
  by (auto simp: holeOk_def)

lemma holeOk_Some: "holeOk S (Some nc)"
  by (simp add: holeOk_def)

text \<open>The system reports a port that the manager has given out as taken; with \<open>t\<close> the server can also listen on every
  port that it got.\<close>

definition systemOk :: "bool \<Rightarrow> run_env \<Rightarrow> resources \<Rightarrow> bool" where
  "systemOk t env rs \<longleftrightarrow> portEnvOk (re_ports env) (pool (rs_tcp rs)) \<and> (t \<longrightarrow> re_listenErr env = None)"

section \<open>Running and closing\<close>

lemma own_visitor:
  assumes own: "ownInv t A S rs" and x: "S x = None" and b: "GetBaseInfo k = b" and sk: "secretOf k = sk"
    and run: "runVisitor b sk k rs = (res, rs')"
  shows "ownInv t A (case res of Inl e \<Rightarrow> S | Inr (addr, pxy) \<Rightarrow> S(x \<mapsto> pxy)) rs'"
proof (cases "visitorListen (ProxyConf.ProxyName b) sk (rs_visitors rs)")
  case (Inl e)
  then show ?thesis using own run by auto
next
  case (Inr vm)
  have "visOwn (part visOf S) (rs_visitors rs)" using own by (simp add: ownInv_def)
  from visOwn_listen [OF this part_None [of S, OF x] Inr] show ?thesis
    using own x run Inr b sk
    by (auto simp: ownInv_def part_upd part_None part_other holeOk_add holeOk_Some)
qed

lemma own_run:
  assumes own: "ownInv t A S rs" and x: "S x = None" and env: "systemOk t env rs"
  shows "\<exists>res rs'. pxyRun env sc k rs = Inr (res, rs') \<and>
    ownInv t A (case res of Inl e \<Rightarrow> S | Inr (addr, pxy) \<Rightarrow> S(x \<mapsto> pxy)) rs'"
proof (cases k)
  case (TCPProxyConf b p)
  obtain res s' where run: "tcpRun (re_ports env) (re_listenErr env) (re_now env) (ProxyBindAddr sc) b p (rs_tcp rs) = (res, s')"
    by fastforce
  have "tcpOwn t A (part tcpOf S) (rs_tcp rs)" using own by (simp add: ownInv_def)
  note R = tcpOwn_run [OF this part_None [of S, OF x] _ _ run]
  show ?thesis
    using R env own TCPProxyConf run x
    by (cases res) (auto simp: systemOk_def ownInv_def part_upd part_None part_other holeOk_add holeOk_Some)
next
  case (TCPMuxProxyConf b d user m)
  have "muxOwn (part muxOf S) (rs_mux rs)" using own by (simp add: ownInv_def)
  from muxOwn_run [OF this part_None [of S, OF x], of "server_conf.truncate sc" b d user m]
  obtain res s' where run: "tcpMuxRun (server_conf.truncate sc) b d user m (rs_mux rs) = Inr (res, s')"
    "muxOwn (case res of Inl e \<Rightarrow> part muxOf S | Inr (addr, ls) \<Rightarrow> (part muxOf S)(x \<mapsto> ls)) s'" by blast
  then show ?thesis
    using own TCPMuxProxyConf x
    by (cases res) (auto simp: ownInv_def part_upd part_other holeOk_add holeOk_Some)
next
  case (STCPProxyConf b r sk)
  then show ?thesis using own_visitor [OF own x, of k b sk] by (cases "runVisitor b sk k rs") auto
next
  case (SUDPProxyConf b r sk)
  then show ?thesis using own_visitor [OF own x, of k b sk] by (cases "runVisitor b sk k rs") auto
qed (use own x in \<open>auto simp: ownInv_def part_upd part_other holeOk_add holeOk_Some
      split: sum.split prod.split option.split\<close>)

lemma own_close:
  assumes own: "ownInv t A S rs" and x: "S x = Some pxy"
  shows "\<exists>rs'. pxyClose now pxy rs = Inr rs' \<and> ownInv t A (S(x := None)) rs'"
proof -
  have hole: "holeOk (S(x := None)) (rs_natHole rs)" using own by (auto simp: ownInv_def holeOk_def)
  show ?thesis
  proof (cases "rn_held pxy")
    case (TcpHeld rp l)
    have "tcpOwn t A (part tcpOf S) (rs_tcp rs)" "part tcpOf S x = Some (rp, l)"
      using own x TcpHeld by (simp_all add: ownInv_def part_upd tcpOf_def)
    from tcpOwn_close [OF this, of now] show ?thesis
      using own x TcpHeld hole
      by (auto simp: pxyClose_def ownInv_def part_upd(2) [of tcpOf] part_gone muxOf_def visOf_def)
  next
    case (MuxHeld ls)
    have "muxOwn (part muxOf S) (rs_mux rs)" "part muxOf S x = Some ls"
      using own x MuxHeld by (simp_all add: ownInv_def part_upd muxOf_def)
    from muxOwn_close [OF this] show ?thesis
      using own x MuxHeld hole
      by (auto simp: pxyClose_def ownInv_def part_upd(2) [of muxOf] part_gone tcpOf_def visOf_def)
  next
    case VisitorHeld
    have "visOwn (part visOf S) (rs_visitors rs)" "part visOf S x = Some (GetName pxy, secretOf (rn_conf pxy))"
      using own x VisitorHeld by (simp_all add: ownInv_def part_upd visOf_def)
    from visOwn_close [OF this] show ?thesis
      using own x VisitorHeld hole
      by (auto simp: pxyClose_def ownInv_def part_upd(2) [of visOf] part_gone tcpOf_def muxOf_def)
  next
    case NatHeld
    then obtain nc where nc: "rs_natHole rs = Some nc" using own x by (auto simp: ownInv_def holeOk_def)
    have "holeOk (S(x := None)) (Some (CloseNatClient (GetName pxy) nc))" by (simp add: holeOk_def)
    then show ?thesis
      using own x NatHeld nc by (simp add: pxyClose_def ownInv_def part_gone tcpOf_def muxOf_def visOf_def)
  qed (use own x hole in \<open>simp_all add: pxyClose_def ownInv_def part_gone tcpOf_def muxOf_def visOf_def\<close>)
qed

lemma own_handOver:
  assumes own: "ownInv t A S rs" and x: "S x = Some pxy" and y: "S y = None"
  shows "ownInv t A (S(x := None, y \<mapsto> pxy)) rs"
proof -
  have part: "part f (S(x := None, y \<mapsto> pxy)) = (part f S)(x := None, y := part f S x)" for f
    using x by (simp add: part_upd)
  have y': "part f S y = None" for f using y by (simp add: part_def)
  have "holeOk (S(x := None, y \<mapsto> pxy)) (rs_natHole rs)" using own x by (auto simp: ownInv_def holeOk_def)
  then show ?thesis
    using own tcpOwn_handOver [of t A "part tcpOf S" "rs_tcp rs" y x, OF _ y'] muxOwn_handOver [of "part muxOf S" "rs_mux rs" y x, OF _ y']
      visOwn_handOver [of "part visOf S" "rs_visitors rs" y x, OF _ y'] unfolding ownInv_def part by blast
qed

section \<open>Every step\<close>

definition noStuck :: "service \<Rightarrow> bool" where
  "noStuck s \<longleftrightarrow> (\<forall>i c f. svc_ctls s i = Some c \<longrightarrow> ct_phase c \<noteq> Stuck f)"

lemma noStuck_upd: "noStuck s \<Longrightarrow> (\<And>f. ct_phase c \<noteq> Stuck f) \<Longrightarrow> noStuck (updCtl i c s)"
  by (simp add: noStuck_def)

lemma noStuck_fields [simp]:
  "noStuck (s\<lparr> svc_next := a \<rparr>) = noStuck s" "noStuck (s\<lparr> svc_byRunID := b \<rparr>) = noStuck s"
  "noStuck (s\<lparr> svc_pxys := r \<rparr>) = noStuck s" "noStuck (s\<lparr> svc_res := rs \<rparr>) = noStuck s"
  "noStuck (s\<lparr> svc_events := es \<rparr>) = noStuck s"
  by (simp_all add: noStuck_def)

lemma noStuck_swap: "noStuck (updCtl i c (s\<lparr> svc_events := es \<rparr>)) = noStuck (updCtl i c s)"
  by (simp add: noStuck_def)

lemma registerRun_own:
  assumes c: "svc_ctls s i = Some c" "ct_phase c = Started" "ct_pending c = None"
    and own: "ownInv t A (slotsOf s) (svc_res s)" and env: "systemOk t env (svc_res s)"
    and run: "registerRun env cfg m c (svc_res s) = (c', rs)"
  shows "ownInv t A (slotsOf (updCtl i c' (s\<lparr> svc_res := rs \<rparr>))) rs"
proof -
  let ?x = "(i, None)"
  have x: "slotsOf s ?x = None" using c by (simp add: slotsOf_Some ctlSlots_def)
  have keep: "slotsOf (updCtl i c'' (s\<lparr> svc_res := rs \<rparr>)) = slotsOf s"
    if "ct_phase c'' = ct_phase c" "ct_proxies c'' = ct_proxies c" "ct_pending c'' = None" for c''
    using slotsOf_keep [of "s\<lparr> svc_res := rs \<rparr>" i c c''] ctlSlots_same [OF holds_fields] that c by simp
  show ?thesis
  proof (cases "NewProxyConfFromMsg m (server_conf.truncate cfg)")
    case (Inl e)
    then show ?thesis using run own c keep by (auto simp: registerRun_def)
  next
    case (Inr conf)
    let ?c1 = "countPortsNum cfg conf c"
    obtain res rs' where r: "pxyRun env (service_conf.truncate cfg) conf (svc_res s) = Inr (res, rs')"
      and inv: "ownInv t A (case res of Inl e \<Rightarrow> slotsOf s | Inr (addr, pxy) \<Rightarrow> (slotsOf s)(?x \<mapsto> pxy)) rs'"
      using own_run [OF own x env] by blast
    show ?thesis
    proof (cases "MaxPortsPerClient cfg > 0 \<and> ct_portsUsedNum c + usedPortsNum conf > MaxPortsPerClient cfg")
      case True
      then show ?thesis using run own c keep Inr by (auto simp: registerRun_def)
    next
      case False
      show ?thesis
      proof (cases res)
        case (Inl e)
        then show ?thesis using run inv c keep Inr False r by (auto simp: registerRun_def Let_def)
      next
        case ok: (Inr ap)
        obtain addr pxy where ap: "ap = (addr, pxy)" by (cases ap)
        have rs: "rs = rs'" and c': "c' = ?c1\<lparr> ct_pending := Some (np_ProxyName m,
            if np_ProxyType m = [] then ''tcp'' else np_ProxyType m, addr, pxy) \<rparr>"
          using run Inr False r ok ap by (auto simp: registerRun_def Let_def)
        have "holds c' = holds c" by (rule holds_fields) (simp_all add: c')
        then have "ctlSlots c' = (ctlSlots c)(None \<mapsto> pxy)"
          by (auto simp: fun_eq_iff ctlSlots_def c' split: option.split)
        from slotsOf_set [of "s\<lparr> svc_res := rs \<rparr>" i c c', OF _ this]
        have "slotsOf (updCtl i c' (s\<lparr> svc_res := rs \<rparr>)) = (slotsOf s)(?x \<mapsto> pxy)" using c by simp
        then show ?thesis using inv ok ap rs by simp
      qed
    qed
  qed
qed

lemma registerAdd_own:
  assumes c: "svc_ctls s i = Some c" "ct_phase c = Started" "ct_pending c = Some p" and ok: "ctlOk cfg c"
    and reg: "regInv (heldBy s) (svc_pxys s)" and own: "ownInv t A (slotsOf s) (svc_res s)" and stuck: "noStuck s"
  shows "ownInv t A (slotsOf (registerAdd cfg now i c p s)) (svc_res (registerAdd cfg now i c p s)) \<and> noStuck (registerAdd cfg now i c p s)"
proof -
  obtain name ty addr pxy where p: "p = (name, ty, addr, pxy)" by (cases p) auto
  have name: "GetName pxy = name" using ctlOkD(2) ok c(3) p by blast
  have x: "slotsOf s (i, None) = Some pxy" using c p by (simp add: slotsOf_Some ctlSlots_def)
  show ?thesis
  proof (cases "svc_pxys s name = None")
    case True
    have held: "holds c = fmlookup (ct_proxies c)" using c by (simp add: holds_phases)
    have "heldBy s i name = None" using regInvD(1) [OF reg, of i name] True by (cases "heldBy s i name") auto
    then have y: "slotsOf s (i, Some name) = None" using c by (simp add: slotsOf_Some ctlSlots_def heldBy_Some)
    let ?c' = "send (NewProxyResp name (Inr addr)) (c\<lparr> ct_pending := None, ct_proxies := fmupd name pxy (ct_proxies c) \<rparr>)"
    have "ctlSlots ?c' = (ctlSlots c)(None := None, Some name \<mapsto> pxy)"
      using c(2) by (auto simp: fun_eq_iff ctlSlots_def holds_phases split: option.split)
    then have "slotsOf (updCtl i ?c' s) = (slotsOf s)((i, None) := None, (i, Some name) \<mapsto> pxy)"
      using c by (auto simp: fun_eq_iff slotsOf_def)
    then show ?thesis
      using own_handOver [OF own x y] True name stuck c(2) by (simp add: registerAdd_def p Let_def noStuck_upd updCtl_swap)
  next
    case False
    obtain rs where rs: "pxyClose now pxy (svc_res s) = Inr rs" "ownInv t A ((slotsOf s)((i, None) := None)) rs"
      using own_close [OF own x] by blast
    have slots: "ctlSlots (send r (freePortsNum cfg k (c\<lparr> ct_pending := None \<rparr>))) = (ctlSlots c)(None := None)" for r k
    proof -
      have "holds (send r (freePortsNum cfg k (c\<lparr> ct_pending := None \<rparr>))) = holds c" by (rule holds_fields) simp_all
      then show ?thesis by (auto simp: fun_eq_iff ctlSlots_def split: option.split)
    qed
    show ?thesis
      using rs False c slotsOf_set [of s i c, OF c(1) slots] stuck
      by (simp add: registerAdd_def p Let_def noStuck_upd updCtl_swap)
  qed
qed

lemma close_own:
  assumes c: "svc_ctls s i = Some c" "ct_phase c = Started" and own: "ownInv t A (slotsOf s) (svc_res s)" and stuck: "noStuck s"
  shows "ownInv t A (slotsOf (CloseCtlProxy cfg now i c name s)) (svc_res (CloseCtlProxy cfg now i c name s)) \<and>
    noStuck (CloseCtlProxy cfg now i c name s)"
proof (cases "fmlookup (ct_proxies c) name")
  case None
  then show ?thesis using own stuck by (simp add: CloseCtlProxy_def)
next
  case (Some pxy)
  then have "slotsOf s (i, Some name) = Some pxy" using c by (simp add: slotsOf_Some ctlSlots_def holds_phases)
  then obtain rs where rs: "pxyClose now pxy (svc_res s) = Inr rs" "ownInv t A ((slotsOf s)((i, Some name) := None)) rs"
    using own_close [OF own] by blast
  have "ctlSlots ((freePortsNum cfg (rn_conf pxy) c)\<lparr> ct_proxies := fmdrop name (ct_proxies c) \<rparr>) = (ctlSlots c)(Some name := None)"
    using c(2) by (auto simp: fun_eq_iff ctlSlots_def holds_phases split: option.split)
  from slotsOf_set [OF c(1) this] show ?thesis
    using rs Some stuck c(2) by (simp add: CloseCtlProxy_def Let_def noStuck_upd updCtl_swap)
qed

lemma stopOne_own:
  assumes c: "svc_ctls s i = Some c" "ct_phase c = Stopping (n # ns)" and ok: "ctlOk cfg c"
    and own: "ownInv t A (slotsOf s) (svc_res s)" and stuck: "noStuck s"
  shows "ownInv t A (slotsOf (stopOne now i c n ns s)) (svc_res (stopOne now i c n ns s)) \<and> noStuck (stopOne now i c n ns s)"
proof -
  obtain pxy where pxy: "fmlookup (ct_proxies c) n = Some pxy"
    using ctlOkD(6) [OF ok c(2)] by (auto simp: fmlookup_dom'_iff)
  then have "slotsOf s (i, Some n) = Some pxy" using c by (simp add: slotsOf_Some ctlSlots_def holds_stages)
  then obtain rs where rs: "pxyClose now pxy (svc_res s) = Inr rs" "ownInv t A ((slotsOf s)((i, Some n) := None)) rs"
    using own_close [OF own] by blast
  have "ctlSlots (c\<lparr> ct_phase := Stopping ns \<rparr>) = (ctlSlots c)(Some n := None)"
    using holds_rest [of n ns] ctlOkD(5) [OF ok c(2)] c(2)
    by (auto simp: fun_eq_iff ctlSlots_def holds_stages restrict_map_def split: option.split)
  from slotsOf_set [OF c(1) this] show ?thesis
    using rs pxy stuck by (simp add: stopOne_def noStuck_upd updCtl_swap)
qed

lemma cmAdd_ctls:
  "svc_ctls (snd (cmAdd rid i s)) j = (if svc_byRunID s rid = Some j then map_option Replaced (svc_ctls s j) else svc_ctls s j)"
  by (auto simp: cmAdd_def Let_def split: option.split)

lemma own_step:
  assumes inv: "serviceInv s" and ctls: "ctlsOk cfg s" and reg: "regInv (heldBy s) (svc_pxys s)"
    and own: "ownInv t A (slotsOf s) (svc_res s)" and stuck: "noStuck s" and step: "svc_step (systemOk t) cfg s s'"
  shows "ownInv t A (slotsOf s') (svc_res s') \<and> noStuck s'"
proof -
  have at: "ctlOk cfg c" if "svc_ctls s i = Some c" for i c using ctls that unfolding ctlsOk_def by blast
  have keep: "ownInv t A (slotsOf (updCtl i c' s)) (svc_res s) \<and> noStuck (updCtl i c' s)"
    if "svc_ctls s i = Some c" "holds c' = holds c" "ct_pending c' = ct_pending c" "\<And>f. ct_phase c' \<noteq> Stuck f" for i c c'
    using slotsOf_keep [OF that(1) ctlSlots_same] that own stuck by (simp add: noStuck_upd)
  have same: "ownInv t A (slotsOf (updCtl i c' s)) (svc_res s) \<and> noStuck (updCtl i c' s)"
    if c: "svc_ctls s i = Some c" and f: "ct_phase c' = ct_phase c \<and> ct_proxies c' = ct_proxies c \<and> ct_pending c' = ct_pending c" for i c c'
    using keep [OF c holds_fields, of c'] f c stuck by (simp add: noStuck_def)
  show ?thesis using step
  proof cases
    case (login now randID refused runID loginPool)
    show ?thesis
    proof (rule RegisterControl_cases [OF login])
      fix rid c assume new: "NewControl cfg now rid loginPool = Inr c" and s':
        "s' = updCtl (svc_next s) (c\<lparr> ct_phase := Waiting (fst (cmAdd rid (svc_next s) s)) \<rparr>) (snd (cmAdd rid (svc_next s) s))
          \<lparr> svc_next := svc_next s + 1 \<rparr>"
      have none: "svc_ctls s (svc_next s) = None"
        using inv sessInvD(1) [of "sessView s" _ _ "svc_next s"] sessView_Some [of s "svc_next s"]
        unfolding serviceInv_def by (cases "svc_ctls s (svc_next s)") auto
      have rep: "ctlSlots (Replaced d) = ctlSlots d" "ct_phase (Replaced d) = ct_phase d" for d
        by (intro ctlSlots_same holds_fields; simp add: Replaced_def) (simp add: Replaced_def)
      have ctls': "svc_ctls s' j = (if j = svc_next s then Some (c\<lparr> ct_phase := Waiting (fst (cmAdd rid (svc_next s) s)) \<rparr>)
          else if svc_byRunID s rid = Some j then map_option Replaced (svc_ctls s j) else svc_ctls s j)" for j
        by (simp add: s' cmAdd_ctls)
      have fresh: "ctlSlots (c\<lparr> ct_phase := Waiting old \<rparr>) q = None" for old q
        using NewControl_fields [OF new] by (simp add: ctlSlots_def holds_phases split: option.split)
      have "slotsOf s' x = slotsOf s x" for x
        by (cases "svc_ctls s (fst x)") (use none in \<open>auto simp: slotsOf_def ctls' fresh rep\<close>)
      then have "slotsOf s' = slotsOf s" by (rule ext)
      moreover have "noStuck s'" using stuck by (auto simp: noStuck_def ctls' rep split: if_splits)
      moreover have "svc_res s' = svc_res s" by (simp add: s' cmAdd_def Let_def split: option.split)
      ultimately show ?thesis using own by simp
    qed (use own stuck in simp)
  next
    case (start i c old)
    have "holds (Start c) = holds c" "ct_pending (Start c) = ct_pending c"
      using start(3) ctlOkD(3) [OF at [OF start(2)] start(3)] by (simp_all add: Start_def holds_phases fun_eq_iff)
    then show ?thesis using keep [OF start(2)] by (simp add: start(1) startControl_def Start_def updCtl_swap)
  next
    case (work i c w r c')
    then show ?thesis using same [OF work(2), of c'] handler_fields(1) [OF work(3)] by simp
  next
    case (take i c later r c')
    then show ?thesis using same [OF take(2), of c'] handler_fields(2) [OF take(3)] by simp
  next
    case (new_proxy i c env plugin m c' rs)
    have phase: "ct_phase c' = Started" using handler_fields(3) [OF new_proxy(6)] new_proxy(3) by simp
    have "ownInv t A (slotsOf s') (svc_res s')"
    proof (cases plugin)
      case (Inl e)
      then have "c' = send (NewProxyResp (np_ProxyName m) (Inl (PluginError e))) c" "rs = svc_res s"
        using new_proxy(6) by (auto simp: handleNewProxy_def)
      then show ?thesis using same [OF new_proxy(2), of c'] by (simp add: new_proxy(1) updCtl_swap)
    next
      case (Inr m')
      then show ?thesis
        using registerRun_own [OF new_proxy(2-4) own new_proxy(5)] new_proxy(6) by (simp add: new_proxy(1) handleNewProxy_def)
    qed
    then show ?thesis using phase stuck by (simp add: new_proxy(1) noStuck_upd)
  next
    case (add i c p now)
    then show ?thesis using registerAdd_own [OF add(2-4) at reg own stuck] by blast
  next
    case (close_proxy i c now name)
    then show ?thesis using close_own [OF close_proxy(2,3) own stuck] by blast
  next
    case (ping i c now refused)
    then show ?thesis using same [OF ping(2), of "handlePing now refused c"] by (simp add: ping(1) handlePing_def)
  next
    case (shutdown i c)
    then show ?thesis using same [OF shutdown(2), of "c\<lparr> ct_shutdown := True \<rparr>"] by (simp add: shutdown(1))
  next
    case (stop i c order)
    then have "holds (stopBegin order c) = holds c"
      by (simp add: stopBegin_def holds_stages holds_phases holds_all)
    then show ?thesis using keep [OF stop(2)] by (simp add: stop(1) stopBegin_def)
  next
    case (stop_one i c n ns now)
    then show ?thesis using stopOne_own [OF stop_one(2,3) at own stuck] by blast
  next
    case (stop_end i c)
    then show ?thesis using keep [OF stop_end(2), of "c\<lparr> ct_phase := Finished \<rparr>"] by (simp add: stop_end stopEnd_def holds_phases updCtl_swap noStuck_swap)
  next
    case (del i c)
    then show ?thesis using own stuck by (simp add: cmDel_def)
  next
    case (metric e)
    then show ?thesis using own stuck by simp
  qed
qed

lemma own_reach:
  assumes "svc_reach (systemOk t) cfg s" and "0 \<notin> AllowPorts cfg"
  shows "ownInv t (allowed (AllowPorts cfg)) (slotsOf s) (svc_res s) \<and> noStuck s"
  using assms(1)
proof induction
  case init
  have "tcpView (NewTCPGroupCtl pm) = emptyTable" "muxView (NewTCPMuxGroupCtl r) = emptyTable" for pm r
    by (simp_all add: tcpView_def muxView_def emptyTable_def NewTCPGroupCtl_def NewTCPMuxGroupCtl_def)
  moreover have "tcpPairs (part tcpOf (\<lambda>_ :: slot. None)) = (\<lambda>_. [])" "muxHeld (part muxOf (\<lambda>_ :: slot. None)) = (\<lambda>_. [])"
    by (simp_all add: fun_eq_iff tcpPairs_def muxHeld_def part_def)
  moreover have "tcpOwner (part tcpOf (\<lambda>_. None)) (NewTCPGroupCtl pm) y = None" for pm and y :: "slot + nat"
    by (cases y) (simp_all add: part_def NewTCPGroupCtl_def)
  moreover have "usedPorts (PortManager.NewManager n a P) = Map.empty" for n a P by (simp add: PortManager.NewManager_def)
  moreover have "poolInv (allowed (AllowPorts cfg)) (PortManager.NewManager n a (AllowPorts cfg))" for n a
    using reachable_inv [OF portReachable.start] assms(2) by (auto simp: poolInv_def allowed_def MinPort_def)
  moreover have "slotsOf (newService cfg) = (\<lambda>_. None)" by (simp add: fun_eq_iff slotsOf_def newService_def)
  ultimately show ?case
    by (simp add: ownInv_def tcpOwn_def muxOwn_def visOwn_def holeOk_def noStuck_def newService_def NewResources_def linv_empty
        ownsPorts_def groupPorts_def part_def NewVisitorManager_def NewTCPGroupCtl_def)
next
  case (step s s')
  then show ?case using own_step serviceInv_reach reach_inv by blast
qed

section \<open>Sessions come to their end\<close>

abbreviation svc_steps :: "bool \<Rightarrow> server_setup \<Rightarrow> service \<Rightarrow> service \<Rightarrow> bool" where
  "svc_steps t cfg \<equiv> (svc_step (systemOk t) cfg)\<^sup>*\<^sup>*"

lemma steps_reach: "svc_steps t cfg s s' \<Longrightarrow> svc_reach (systemOk t) cfg s \<Longrightarrow> svc_reach (systemOk t) cfg s'"
  by (induction rule: rtranclp_induct) (auto intro: svc_reach.step)

text \<open>The proxies of a control that stops are closed one by one, and the control is done.\<close>

lemma stopping_ends:
  assumes "svc_reach (systemOk t) cfg s" and "0 \<notin> AllowPorts cfg" and "svc_ctls s j = Some c" and "ct_phase c = Stopping ns"
  shows "\<exists>s' d. svc_steps t cfg s s' \<and> svc_ctls s' = (svc_ctls s)(j \<mapsto> d) \<and> ct_phase d = Finished"
  using assms(1,3,4)
proof (induction ns arbitrary: s c)
  case Nil
  have "svc_step (systemOk t) cfg s (stopEnd j c s)" by (rule svc_step.stop_end [OF Nil(2,3)])
  then have "svc_steps t cfg s (stopEnd j c s)" by (rule r_into_rtranclp)
  then show ?case by (intro exI [of _ "stopEnd j c s"] exI [of _ "c\<lparr> ct_phase := Finished \<rparr>"]) (simp add: stopEnd_def)
next
  case (Cons n ns)
  have own: "ownInv t (allowed (AllowPorts cfg)) (slotsOf s) (svc_res s)" using own_reach Cons.prems(1) assms(2) by blast
  have ok: "ctlOk cfg c" using reach_inv [OF Cons.prems(1)] Cons.prems(2) unfolding ctlsOk_def by blast
  obtain pxy where pxy: "fmlookup (ct_proxies c) n = Some pxy"
    using ctlOkD(6) [OF ok Cons.prems(3)] by (auto simp: fmlookup_dom'_iff)
  then have "slotsOf s (j, Some n) = Some pxy" using Cons.prems by (simp add: slotsOf_Some ctlSlots_def holds_stages)
  then obtain rs where rs: "pxyClose 0 pxy (svc_res s) = Inr rs" using own_close [OF own] by blast
  let ?s1 = "stopOne 0 j c n ns s" and ?c1 = "c\<lparr> ct_phase := Stopping ns \<rparr>"
  have step: "svc_step (systemOk t) cfg s ?s1" by (rule svc_step.stop_one [OF Cons.prems(2,3)])
  have s1: "svc_ctls ?s1 = (svc_ctls s)(j \<mapsto> ?c1)" using pxy rs by (simp add: stopOne_def)
  obtain s' d where "svc_steps t cfg ?s1 s'" "svc_ctls s' = (svc_ctls ?s1)(j \<mapsto> d)" "ct_phase d = Finished"
    using Cons.IH [OF svc_reach.step [OF Cons.prems(1) step], of ?c1] by (auto simp: s1 fun_upd_same simp del: fun_upd_apply)
  then show ?case using step s1 by (intro exI [of _ s'] exI [of _ d]) (simp add: converse_rtranclp_into_rtranclp)
qed

lemma registerAdd_started:
  assumes "svc_reach (systemOk t) cfg s" and "0 \<notin> AllowPorts cfg" and c: "svc_ctls s j = Some c" "ct_phase c = Started"
  shows "\<exists>s' d. svc_steps t cfg s s' \<and> svc_ctls s' = (svc_ctls s)(j \<mapsto> d) \<and> ct_phase d = Started \<and> ct_pending d = None"
proof (cases "ct_pending c")
  case None
  then show ?thesis using c by (intro exI [of _ s] exI [of _ c]) (auto simp: map_upd_triv)
next
  case (Some p)
  obtain name ty addr pxy where p: "p = (name, ty, addr, pxy)" by (cases p) auto
  have own: "ownInv t (allowed (AllowPorts cfg)) (slotsOf s) (svc_res s)" using own_reach assms(1,2) by blast
  have "slotsOf s (j, None) = Some pxy" using c Some p by (simp add: slotsOf_Some ctlSlots_def)
  then obtain rs where rs: "pxyClose 0 pxy (svc_res s) = Inr rs" using own_close [OF own] by blast
  have "svc_step (systemOk t) cfg s (registerAdd cfg 0 j c p s)" by (rule svc_step.add [OF c Some])
  then have "svc_steps t cfg s (registerAdd cfg 0 j c p s)" by (rule r_into_rtranclp)
  moreover have "\<exists>d. svc_ctls (registerAdd cfg 0 j c p s) = (svc_ctls s)(j \<mapsto> d) \<and> ct_phase d = Started \<and> ct_pending d = None"
    using rs c by (cases "svc_pxys s name = None") (auto simp: registerAdd_def p Let_def intro!: exI)
  ultimately show ?thesis by blast
qed

lemma session_ends:
  assumes reach: "svc_reach (systemOk t) cfg s" and ports: "0 \<notin> AllowPorts cfg" and c: "svc_ctls s j = Some c"
    and phase: "\<And>old. ct_phase c \<noteq> Waiting old"
  shows "\<exists>s' d. svc_steps t cfg s s' \<and> svc_ctls s' = (svc_ctls s)(j \<mapsto> d) \<and> ct_phase d = Finished"
proof (cases "ct_phase c")
  case Finished
  then show ?thesis using c by (intro exI [of _ s] exI [of _ c]) (auto simp: map_upd_triv)
next
  case (Stopping ns)
  then show ?thesis using stopping_ends [OF reach ports c] by blast
next
  case (Stuck f)
  then show ?thesis using own_reach [OF reach ports] c by (auto simp: noStuck_def)
next
  case (Waiting old)
  then show ?thesis using phase by blast
next
  case Started
  obtain s1 d where s1: "svc_steps t cfg s s1" "svc_ctls s1 = (svc_ctls s)(j \<mapsto> d)" "ct_phase d = Started" "ct_pending d = None"
    using registerAdd_started [OF reach ports c Started] by blast
  obtain order where order: "distinct order" "set order = fmdom' (ct_proxies d)"
    using finite_distinct_list [of "fmdom' (ct_proxies d)"] by auto
  let ?d2 = "d\<lparr> ct_shutdown := True \<rparr>"
  let ?s2 = "updCtl j ?d2 s1"
  let ?s3 = "updCtl j (stopBegin order ?d2) ?s2"
  have "svc_step (systemOk t) cfg s1 ?s2" by (rule svc_step.shutdown) (use s1 in simp_all)
  moreover have "svc_step (systemOk t) cfg ?s2 ?s3" by (rule svc_step.stop) (use s1 order in simp_all)
  ultimately have steps: "svc_steps t cfg s ?s3" using s1(1) by (meson rtranclp.rtrancl_into_rtrancl)
  obtain s' e where "svc_steps t cfg ?s3 s'" "svc_ctls s' = (svc_ctls ?s3)(j \<mapsto> e)" "ct_phase e = Finished"
    using stopping_ends [OF steps_reach [OF steps reach] ports, of j "stopBegin order ?d2" order] by (auto simp: stopBegin_def)
  then show ?thesis
    using steps s1(2) by (intro exI [of _ s'] exI [of _ e]) (auto intro: rtranclp_trans)
qed

text \<open>A login starts: the control it waits for, if any, can always come to its end before.\<close>

lemma login_can_start:
  assumes "svc_reach (systemOk t) cfg s" and "0 \<notin> AllowPorts cfg" and "svc_ctls s i = Some c" and "ct_phase c = Waiting old"
  shows "\<exists>s' d. svc_steps t cfg s s' \<and> svc_ctls s' i = Some d \<and> ct_phase d = Started \<and> (\<forall>k > i. svc_ctls s' k = svc_ctls s k)"
  using assms(1,3,4)
proof (induction i arbitrary: s c old rule: less_induct)
  case (less i)
  have start: "\<exists>s' d. svc_steps t cfg s0 s' \<and> svc_ctls s' i = Some d \<and> ct_phase d = Started \<and> (\<forall>k > i. svc_ctls s' k = svc_ctls s0 k)"
    if c0: "svc_ctls s0 i = Some c" and fin: "\<forall>j. old = Some j \<longrightarrow> (\<exists>d. svc_ctls s0 j = Some d \<and> ct_phase d = Finished)" for s0
  proof -
    have "svc_step (systemOk t) cfg s0 (startControl i c s0)" by (rule svc_step.start [OF c0 less.prems(3) fin])
    then have "svc_steps t cfg s0 (startControl i c s0)" by (rule r_into_rtranclp)
    then show ?thesis by (intro exI [of _ "startControl i c s0"] exI [of _ "Start c"]) (simp add: startControl_def Start_def)
  qed
  show ?case
  proof (cases old)
    case None
    then show ?thesis using start less.prems(2) by simp
  next
    case (Some j)
    have "newest (sessView s) i (ct_loginRunID c) (Some j)"
      using sessInvD(2) [OF serviceInv_reach [OF less.prems(1), unfolded serviceInv_def] sessView_Some [OF less.prems(2)]]
        less.prems(3) Some by simp
    then obtain b where ji: "j < i" and b: "svc_ctls s j = Some b"
      by (auto simp: newest_def sessView_def split: option.splits)
    have "\<exists>s1 b1. svc_steps t cfg s s1 \<and> svc_ctls s1 j = Some b1 \<and> (\<forall>old. ct_phase b1 \<noteq> Waiting old) \<and> (\<forall>k > j. svc_ctls s1 k = svc_ctls s k)"
    proof (cases "\<exists>o1. ct_phase b = Waiting o1")
      case True
      then obtain o1 where o1: "ct_phase b = Waiting o1" by blast
      from less.IH [OF ji less.prems(1) b o1] show ?thesis by (metis ctl_phase.distinct(1))
    next
      case False
      then show ?thesis using b by (intro exI [of _ s] exI [of _ b]) auto
    qed
    then obtain s1 b1 where s1: "svc_steps t cfg s s1" "svc_ctls s1 j = Some b1" "\<And>old. ct_phase b1 \<noteq> Waiting old"
        "\<forall>k > j. svc_ctls s1 k = svc_ctls s k" by blast
    obtain s2 d where s2: "svc_steps t cfg s1 s2" "svc_ctls s2 = (svc_ctls s1)(j \<mapsto> d)" "ct_phase d = Finished"
      using session_ends [OF steps_reach [OF s1(1) less.prems(1)] assms(2) s1(2,3)] by blast
    have "svc_ctls s2 i = Some c" using s2(2) s1(4) ji less.prems(2) by simp
    then obtain s3 e where s3: "svc_steps t cfg s2 s3" "svc_ctls s3 i = Some e" "ct_phase e = Started" "\<forall>k > i. svc_ctls s3 k = svc_ctls s2 k"
      using start [of s2] s2 Some by auto
    have "svc_steps t cfg s s3" using s1(1) s2(1) s3(1) by (meson rtranclp_trans)
    moreover have "\<forall>k > i. svc_ctls s3 k = svc_ctls s k" using s3(4) s2(2) s1(4) ji by simp
    ultimately show ?thesis using s3(2,3) by blast
  qed
qed

section \<open>An example\<close>

definition webMsg :: new_proxy where
  "webMsg = emptyMsg\<lparr> np_ProxyName := ''web'', np_ProxyType := ''tcp'', np_RemotePort := 7000 \<rparr>"

definition webBase :: base_conf where
  "webBase = (defaultBaseProxyConf ''tcp'')\<lparr> ProxyName := ''web'', ProxyType := ''tcp'' \<rparr>"

definition webAddr :: string where
  "webAddr = '':'' @ showInt 7000"

definition webRunning :: running where
  "webRunning = \<lparr> rn_conf = TCPProxyConf webBase 7000, rn_held = TcpHeld 7000 OwnListener \<rparr>"

definition webPool :: port_manager where
  "webPool = snd (acquireIn (re_ports sampleEnv) ''web'' 7000 (pool (rs_tcp sampleResources)))"

definition webResources :: resources where
  "webResources = sampleResources\<lparr> rs_tcp := (rs_tcp sampleResources)\<lparr> pool := webPool \<rparr> \<rparr>"

definition webPending :: control where
  "webPending = (sampleSess ''r1'')\<lparr> ct_portsUsedNum := 1, ct_pending := Some (''web'', ''tcp'', webAddr, webRunning) \<rparr>"

text \<open>The first client has registered a tcp proxy.\<close>

definition sampleWeb :: service where
  "sampleWeb = registerAdd sampleSetup 5 0 webPending (''web'', ''tcp'', webAddr, webRunning)
     (updCtl 0 webPending (sampleIdle\<lparr> svc_res := webResources \<rparr>))"

lemma sampleEnv_ok: "systemOk t sampleEnv sampleResources"
  by (auto simp: systemOk_def sampleEnv_def sampleResources_def NewResources_def sampleSetup_def NewTCPGroupCtl_def
      PortManager.NewManager_def rangeOrder_def)

lemma sampleSetup_ports: "0 \<notin> AllowPorts sampleSetup"
  by (simp add: sampleSetup_def)

lemma web_conf: "NewProxyConfFromMsg webMsg (server_conf.truncate sampleSetup) = Inr (TCPProxyConf webBase 7000)"
  by code_simp

lemma web_acquire: "acquireIn (re_ports sampleEnv) ''web'' 7000 (pool (rs_tcp sampleResources)) = (Inr 7000, webPool)"
proof -
  have "pool (rs_tcp sampleResources) = PortManager.NewManager ''tcp'' ''0.0.0.0'' {7000, 7001}"
    by (simp add: sampleResources_def NewResources_def sampleSetup_def NewTCPGroupCtl_def)
  then have "fst (acquireIn (re_ports sampleEnv) ''web'' 7000 (pool (rs_tcp sampleResources))) = Inr 7000"
    by (simp add: sampleEnv_def Acquire_def newCtx_def PortManager.NewManager_def reservedFor_def Let_def)
  then show ?thesis by (simp only: webPool_def prod_eq_iff fst_conv snd_conv simp_thms)
qed

lemma web_base: "Group webBase = []" "ProxyConf.ProxyName webBase = ''web''" "re_listenErr sampleEnv = None"
  by (simp_all add: webBase_def defaultBaseProxyConf_def sampleEnv_def)

lemma web_tcpRun:
  "tcpRun (re_ports sampleEnv) (re_listenErr sampleEnv) (re_now sampleEnv) addr webBase 7000 (rs_tcp sampleResources) =
    (Inr (webAddr, 7000, OwnListener), (rs_tcp sampleResources)\<lparr> pool := webPool \<rparr>)"
  unfolding tcpRun_def web_base web_acquire by (simp add: webAddr_def)

lemma web_run:
  "handleNewProxy sampleEnv sampleSetup (Inr webMsg) webMsg (sampleSess ''r1'') sampleResources = (webPending, webResources)"
proof -
  have "pxyRun sampleEnv (service_conf.truncate sampleSetup) (TCPProxyConf webBase 7000) sampleResources =
      Inr (Inr (webAddr, webRunning), webResources)"
    by (simp add: web_tcpRun webRunning_def webResources_def)
  then show ?thesis
    by (simp add: handleNewProxy_def registerRun_def web_conf countPortsNum_def Let_def)
      (simp add: webPending_def webMsg_def sampleSess_def freshCtl_def)
qed

lemma sampleWeb_reach: "svc_reach (systemOk t) sampleSetup sampleWeb"
proof -
  have c: "svc_ctls sampleIdle 0 = Some (sampleSess ''r1'')" "ct_phase (sampleSess ''r1'') = Started" "ct_pending (sampleSess ''r1'') = None"
    "svc_res sampleIdle = sampleResources"
    by (simp_all add: sampleIdle_def sampleSess_def freshCtl_def)
  have n: "handleNewProxy sampleEnv sampleSetup (Inr webMsg) webMsg (sampleSess ''r1'') (svc_res sampleIdle) = (webPending, webResources)"
    using web_run c(4) by simp
  have "svc_reach (systemOk t) sampleSetup (updCtl 0 webPending (sampleIdle\<lparr> svc_res := webResources \<rparr>))"
    by (rule svc_reach.step [OF sampleIdle_reach svc_step.new_proxy [OF c(1-3) _ n]]) (simp add: c sampleEnv_ok)
  then show ?thesis unfolding sampleWeb_def
    by (rule svc_reach.step, intro svc_step.add) (simp_all add: webPending_def c)
qed

lemma sampleWeb_pxys: "svc_pxys sampleWeb ''web'' = Some webRunning"
  by (simp add: sampleWeb_def registerAdd_def sampleIdle_def Let_def)

lemma sampleWeb_res: "svc_res sampleWeb = webResources"
  by (simp add: sampleWeb_def registerAdd_def sampleIdle_def Let_def)

lemma sampleWeb_slot: "slotsOf sampleWeb (0, Some ''web'') = Some webRunning"
  by (simp add: slotsOf_def ctlSlots_def holds_def ownedNames_def restrict_map_def sampleWeb_def registerAdd_def Let_def sampleIdle_def
      webPending_def webRunning_def sampleSess_def freshCtl_def webBase_def)

section \<open>Owners and the state\<close>

text \<open>The owner that a holder stands for: itself, or its group.\<close>

lemma tcpOwn_owner:
  assumes own: "tcpOwn t A T s" and x: "T x = Some (rp, l)"
  shows "tcpOwner T s (case l of OwnListener \<Rightarrow> Inl x | OfGroup i ln \<Rightarrow> Inr i) = Some rp"
proof (cases l)
  case OwnListener
  then show ?thesis using x by simp
next
  case (OfGroup i ln)
  note D = tcpOwnD [OF own]
  obtain tg where tg: "objs s i = Some tg" "g_realPort tg = rp" using D(4) x OfGroup unfolding groupPorts_def by blast
  have "(i, ln) \<in> set (tcpPairs T x)" using x OfGroup by (simp add: tcpPairs_def)
  then have "ln \<in> set (g_lns tg)" using heldOkD(1) [of "tcpView s" "tcpPairs T" i ln x] D(2) tg(1) by (auto simp: linv_def tcpView_def)
  then show ?thesis using OfGroup tg by (cases "g_lns tg") simp_all
qed

lemma tcpOwn_exclusive:
  assumes own: "tcpOwn t A T s" and x: "T x = Some (rp, l)"
  shows "rp \<in> dom (usedPorts (pool s))"
    and "T y = Some (rp, l') \<Longrightarrow> x \<noteq> y \<Longrightarrow> \<exists>i k k'. l = OfGroup i k \<and> l' = OfGroup i k'"
proof -
  note P = ownsPortsD [OF tcpOwnD(3) [OF own]]
  show "rp \<in> dom (usedPorts (pool s))" by (rule P(1) [OF tcpOwn_owner [OF own x]])
  show "\<exists>i k k'. l = OfGroup i k \<and> l' = OfGroup i k'" if y: "T y = Some (rp, l')" "x \<noteq> y"
    using P(2) [OF tcpOwn_owner [OF own x] tcpOwn_owner [OF own y(1)]] y(2) by (cases l; cases l') simp_all
qed

lemma tcpOwn_used:
  assumes own: "tcpOwn True A T s"
  shows "dom (usedPorts (pool s)) = {rp. \<exists>x l. T x = Some (rp, l)}"
proof -
  note D = tcpOwnD [OF own]
  have "\<exists>x l. T x = Some (rp, l)" if y: "tcpOwner T s y = Some rp" for y rp
  proof (cases y)
    case (Inl x)
    then have "T x = Some (rp, OwnListener)" using y by (auto split: option.splits tcp_listener.splits)
    then show ?thesis by blast
  next
    case (Inr i)
    then obtain tg where tg: "objs s i = Some tg" "g_lns tg \<noteq> []" "g_realPort tg = rp" using y by (auto split: option.splits if_splits)
    then obtain x where "(i, hd (g_lns tg)) \<in> set (tcpPairs T x)"
      using heldOkD(2) [of "tcpView s" "tcpPairs T" i _ "hd (g_lns tg)"] D(2) by (auto simp: linv_def tcpView_def)
    then obtain rp' where x: "T x = Some (rp', OfGroup i (hd (g_lns tg)))"
      by (cases "T x") (auto simp: tcpPairs_def split: tcp_listener.splits)
    then have "rp' = rp" using D(4) tg unfolding groupPorts_def by fastforce
    then show ?thesis using x by blast
  qed
  then have "dom (usedPorts (pool s)) \<subseteq> {rp. \<exists>x l. T x = Some (rp, l)}" using ownsPortsD(3) [OF D(3)] by (fastforce simp: ran_def)
  then show ?thesis using tcpOwn_exclusive(1) [OF own] by blast
qed

lemma slot_tcp: "part tcpOf S x = Some (rp, l) \<longleftrightarrow> (\<exists>pxy. S x = Some pxy \<and> rn_held pxy = TcpHeld rp l)"
  by (auto simp: part_def tcpOf_def split: option.splits held.splits)

lemma registered_slot:
  assumes "svc_reach ok cfg s" and "svc_pxys s n = Some pxy"
  shows "\<exists>i. slotsOf s (i, Some n) = Some pxy"
proof -
  obtain i where "heldBy s i n = Some pxy" using regInvD(2) [of "heldBy s" "svc_pxys s"] reach_inv [OF assms(1)] assms(2) by blast
  then show ?thesis by (auto simp: heldBy_def slotsOf_def ctlSlots_def split: option.splits)
qed

lemma own_parts:
  assumes "svc_reach (systemOk t) cfg s" and "0 \<notin> AllowPorts cfg"
  shows "tcpOwn t (allowed (AllowPorts cfg)) (part tcpOf (slotsOf s)) (rs_tcp (svc_res s))"
    and "visOwn (part visOf (slotsOf s)) (rs_visitors (svc_res s))" and "noStuck s"
  using own_reach [OF assms] by (simp_all add: ownInv_def)

section \<open>Properties\<close>









text \<open>
  C13: who visits a secret proxy. In every reachable state a visitor is admitted exactly when a control holds
  or registers an stcp or sudp proxy of the name, the listener is open, and the signature is that of the proxy's
  secret key.
\<close>

theorem visitor_admission:
  assumes "svc_reach (systemOk t) cfg s" and "0 \<notin> AllowPorts cfg"
  shows "visitorConn authKey isClosed n ts sign (rs_visitors (svc_res s)) = None \<longleftrightarrow>
    \<not> isClosed n \<and> (\<exists>x pxy. slotsOf s x = Some pxy \<and> rn_held pxy = VisitorHeld \<and> GetName pxy = n \<and>
      authKey (secretOf (rn_conf pxy)) ts = sign)"
proof -
  note D = visOwnD [OF own_parts(2) [OF assms]]
  have slot: "part visOf (slotsOf s) x = Some (n, k) \<longleftrightarrow>
      (\<exists>pxy. slotsOf s x = Some pxy \<and> rn_held pxy = VisitorHeld \<and> GetName pxy = n \<and> secretOf (rn_conf pxy) = k)" for x n k
    by (auto simp: part_def visOf_def split: option.splits held.splits)
  have "visitorConn authKey isClosed n ts sign (rs_visitors (svc_res s)) = None \<longleftrightarrow>
      \<not> isClosed n \<and> (\<exists>x k. part visOf (slotsOf s) x = Some (n, k) \<and> authKey k ts = sign)"
  proof (cases "n \<in> visitorListeners (rs_visitors (svc_res s))")
    case False
    then show ?thesis using D(1) [of n] by (simp add: visitorConn_def)
  next
    case True
    then obtain x k where x: "part visOf (slotsOf s) x = Some (n, k)" using D(1) by blast
    then have k: "skMap (rs_visitors (svc_res s)) n = Some k" using D(2) by blast
    have "k' = k" if "part visOf (slotsOf s) y = Some (n, k')" for y k'
    proof -
      have "skMap (rs_visitors (svc_res s)) n = Some k'" using that D(2) by blast
      then show ?thesis using k by simp
    qed
    then have "(\<exists>y k'. part visOf (slotsOf s) y = Some (n, k') \<and> authKey k' ts = sign) \<longleftrightarrow> authKey k ts = sign" using x by blast
    then show ?thesis using k True by (simp add: visitorConn_def)
  qed
  moreover have "(\<exists>x k. part visOf (slotsOf s) x = Some (n, k) \<and> authKey k ts = sign) \<longleftrightarrow>
      (\<exists>x pxy. slotsOf s x = Some pxy \<and> rn_held pxy = VisitorHeld \<and> GetName pxy = n \<and> authKey (secretOf (rn_conf pxy)) ts = sign)"
    unfolding slot by auto
  ultimately show ?thesis by simp
qed

theorem visitor_admission_witness:
  "visitorConn (\<lambda>k t. k) (\<lambda>_. False) ''web'' 5 [] (rs_visitors (svc_res sampleWeb)) \<noteq> None"
proof -
  have "\<not> (slotsOf sampleWeb x = Some pxy \<and> rn_held pxy = VisitorHeld)" for x pxy
    by (auto simp: slotsOf_def ctlSlots_def holds_def restrict_map_def sampleWeb_def registerAdd_def Let_def sampleIdle_def
        webPending_def webRunning_def sampleSess_def freshCtl_def split: option.splits if_splits)
  then show ?thesis unfolding visitor_admission [OF sampleWeb_reach sampleSetup_ports] by blast
qed

end
