(* ===== verification/ClientLink.thy ===== *)
theory ClientLink
  imports ProxyManager ServerEntry ServerOwnership
begin

text \<open>
  One session of a client with the server: the manager of frpc and its control at frps, joined by the messages
  that the client has sent and the server has not handled yet, and the answers on their way back
  (\<^verbatim>\<open>client/control.go\<close>, \<open>msgHandler\<close> and \<open>HandleNewProxyResp\<close>). Both sides take their own steps at any time. The
  plugins of the server may reject a registration, but leave it as it is otherwise.
\<close>

section \<open>State\<close>

text \<open>How many messages of the client its control has handled, and how many of the control the client has.\<close>

record link =
  lk_client :: manager
  lk_server :: service
  lk_read :: nat
  lk_got :: nat

section \<open>Answers\<close>

text \<open>The answer to a registration as the client reads it; \<open>errText\<close> is the text of an error.\<close>

definition respError :: "(reg_error \<Rightarrow> string) \<Rightarrow> bool \<Rightarrow> string \<Rightarrow> (reg_error, string) result \<Rightarrow> string" where
  "respError errText detailed name r =
     (case r of Inl e \<Rightarrow> GenerateResponseErrorString (''new proxy ['' @ name @ ''] error'') (errText e) detailed | Inr a \<Rightarrow> [])"

definition respAddr :: "(reg_error, string) result \<Rightarrow> string" where
  "respAddr r = (case r of Inl e \<Rightarrow> [] | Inr a \<Rightarrow> a)"

fun handleAnswer :: "(reg_error \<Rightarrow> string) \<Rightarrow> bool \<Rightarrow> int \<Rightarrow> string option \<Rightarrow> ctl_msg \<Rightarrow> manager \<Rightarrow> manager" where
  "handleAnswer errText detailed now runErr (NewProxyResp name r) pm =
     snd (StartProxy now runErr name (respAddr r) (respError errText detailed name r) pm)"
| "handleAnswer errText detailed now runErr (LoginResp rid) pm = pm"
| "handleAnswer errText detailed now runErr ReqWorkConn pm = pm"
| "handleAnswer errText detailed now runErr (Pong ok1) pm = pm"

section \<open>Steps\<close>

fun isAnswer :: "ctl_msg \<Rightarrow> bool" where
  "isAnswer (NewProxyResp n r) \<longleftrightarrow> True"
| "isAnswer _ \<longleftrightarrow> False"

text \<open>What the other steps of the server leave of a control: its proxies and its answers.\<close>

definition sameProxies :: "control \<Rightarrow> control \<Rightarrow> bool" where
  "sameProxies c c' \<longleftrightarrow> ct_proxies c' = ct_proxies c \<and> ct_pending c' = ct_pending c \<and> ct_phase c' = ct_phase c \<and>
     (\<exists>out. ct_sent c' = ct_sent c @ out \<and> list_all (\<lambda>m. \<not> isAnswer m) out)"

definition mayReject :: "new_proxy \<Rightarrow> (string, new_proxy) result \<Rightarrow> bool" where
  "mayReject m plug \<longleftrightarrow> (case plug of Inl e \<Rightarrow> True | Inr m' \<Rightarrow> m' = m)"

inductive link_step ::
  "(run_env \<Rightarrow> resources \<Rightarrow> bool) \<Rightarrow> server_setup \<Rightarrow> (reg_error \<Rightarrow> string) \<Rightarrow> bool \<Rightarrow> nat \<Rightarrow> link \<Rightarrow> link \<Rightarrow> bool"
for ok cfg errText detailed i where
  client: "mgr_step (lk_client l) pm \<Longrightarrow> link_step ok cfg errText detailed i l (l\<lparr> lk_client := pm \<rparr>)"
| answer: "svc_ctls (lk_server l) i = Some c \<Longrightarrow> lk_got l < length (ct_sent c) \<Longrightarrow>
    link_step ok cfg errText detailed i l
      (l\<lparr> lk_client := handleAnswer errText detailed now runErr (ct_sent c ! lk_got l) (lk_client l), lk_got := lk_got l + 1 \<rparr>)"
| request: "svc_ctls (lk_server l) i = Some c \<Longrightarrow> ct_phase c = Started \<Longrightarrow> ct_pending c = None \<Longrightarrow>
    lk_read l < length (pm_sent (lk_client l)) \<Longrightarrow> pm_sent (lk_client l) ! lk_read l = SendNewProxy m \<Longrightarrow>
    ok env (svc_res (lk_server l)) \<Longrightarrow> mayReject m plug \<Longrightarrow>
    handleNewProxy env cfg plug m c (svc_res (lk_server l)) = (c', rs) \<Longrightarrow>
    link_step ok cfg errText detailed i l
      (l\<lparr> lk_server := updCtl i c' ((lk_server l)\<lparr> svc_res := rs \<rparr>), lk_read := lk_read l + 1 \<rparr>)"
| registered: "svc_ctls (lk_server l) i = Some c \<Longrightarrow> ct_phase c = Started \<Longrightarrow> ct_pending c = Some p \<Longrightarrow>
    link_step ok cfg errText detailed i l (l\<lparr> lk_server := registerAdd cfg now i c p (lk_server l) \<rparr>)"
| close: "svc_ctls (lk_server l) i = Some c \<Longrightarrow> ct_phase c = Started \<Longrightarrow> ct_pending c = None \<Longrightarrow>
    lk_read l < length (pm_sent (lk_client l)) \<Longrightarrow> pm_sent (lk_client l) ! lk_read l = SendCloseProxy n \<Longrightarrow>
    link_step ok cfg errText detailed i l
      (l\<lparr> lk_server := CloseCtlProxy cfg now i c n (lk_server l), lk_read := lk_read l + 1 \<rparr>)"
| other: "svc_step ok cfg (lk_server l) s \<Longrightarrow> svc_ctls (lk_server l) i = Some c \<Longrightarrow> svc_ctls s i = Some c' \<Longrightarrow> sameProxies c c' \<Longrightarrow>
    link_step ok cfg errText detailed i l (l\<lparr> lk_server := s \<rparr>)"

text \<open>A session begins when its login ends, with a new manager at the client.\<close>

inductive link_reach ::
  "(run_env \<Rightarrow> resources \<Rightarrow> bool) \<Rightarrow> server_setup \<Rightarrow> (reg_error \<Rightarrow> string) \<Rightarrow> bool \<Rightarrow> nat \<Rightarrow> link \<Rightarrow> bool"
for ok cfg errText detailed i where
  begins: "svc_reach ok cfg s \<Longrightarrow> svc_ctls s i = Some c \<Longrightarrow> ct_phase c = Waiting old \<Longrightarrow>
    (\<forall>j. old = Some j \<longrightarrow> (\<exists>d. svc_ctls s j = Some d \<and> ct_phase d = Finished)) \<Longrightarrow>
    link_reach ok cfg errText detailed i \<lparr> lk_client = ProxyManager.NewManager, lk_server = startControl i c s, lk_read = 0, lk_got = 0 \<rparr>"
| step: "link_reach ok cfg errText detailed i l \<Longrightarrow> link_step ok cfg errText detailed i l l' \<Longrightarrow> link_reach ok cfg errText detailed i l'"

section \<open>The client's side\<close>

lemma stopAll_sent: "stopAll ns pm = Inr pm' \<Longrightarrow> \<exists>out. pm_sent pm' = pm_sent pm @ out"
proof (induction ns arbitrary: pm)
  case (Cons n ns)
  show ?case
  proof (cases "pm_proxies pm n")
    case (Some w)
    then obtain out w' where o1: "Stop w = Inr (out, w')" "stopAll ns (HandleEvent out (setProxy n None pm)) = Inr pm'"
      using Cons.prems by (auto split: sum.splits)
    have "\<exists>o1. pm_sent (HandleEvent out (setProxy n None pm)) = pm_sent pm @ o1" by (simp add: HandleEvent_def)
    then show ?thesis using Cons.IH [OF o1(2)] by auto
  qed (use Cons in auto)
qed simp

lemma sent_grows:
  "mgr_step pm pm' \<Longrightarrow> \<exists>out. pm_sent pm' = pm_sent pm @ out"
  "\<exists>out. pm_sent (handleAnswer errText detailed now runErr a pm) = pm_sent pm @ out"
proof -
  show "mgr_step pm pm' \<Longrightarrow> \<exists>out. pm_sent pm' = pm_sent pm @ out"
  proof (induction rule: mgr_step.induct)
    case (reload cfgs order1 pm order2 pm')
    then obtain pm1 where "stopAll (delNames cfgs order1 pm) pm = Inr pm1" "pm' = addAll cfgs order2 pm1"
      by (auto simp: Reload_def split: sum.splits)
    then show ?case using stopAll_sent by (auto simp: addAll_spec)
  next
    case (closed order pm pm')
    then show ?case using stopAll_sent by (simp add: Close_def)
  qed (auto simp: workerStep_def HandleEvent_def split: prod.split)
  show "\<exists>out. pm_sent (handleAnswer errText detailed now runErr a pm) = pm_sent pm @ out"
    by (cases a) (auto simp: StartProxy_def HandleEvent_def split: option.split prod.split)
qed

text \<open>Only an answer makes a proxy run.\<close>

definition runsAt :: "manager \<Rightarrow> string \<Rightarrow> string \<Rightarrow> bool" where
  "runsAt pm n a \<longleftrightarrow> (\<exists>w. pm_proxies pm n = Some w \<and> phase w = ProxyPhaseRunning \<and> ws_RemoteAddr (w_status w) = a)"

lemma checkWorker_runs:
  "checkWorker now h w = (out, w') \<Longrightarrow> phase w' = ProxyPhaseRunning \<Longrightarrow> w' = w"
  by (auto simp: checkWorker_def split: if_splits)

lemma runs_step:
  assumes "mgrInv pm" and "mgr_step pm pm'" and "runsAt pm' n a"
  shows "runsAt pm n a"
  using assms(2)
proof cases
  case (reload cfgs order1 order2)
  then have "pm_proxies pm' n = (case cfgs n of None \<Rightarrow> None
      | Some c \<Rightarrow> (case pm_proxies pm n of None \<Rightarrow> Some (NewWrapper c)
          | Some w \<Rightarrow> if Compare (ws_Cfg (w_status w)) c then Some w else Some (NewWrapper c)))"
    using Reload_ok [OF assms(1)] by fastforce
  then show ?thesis using assms(3) by (auto simp: runsAt_def split: option.splits if_splits)
next
  case (worker k w now h)
  then show ?thesis
    using assms(3) checkWorker_runs [of now h w] by (cases "checkWorker now h w") (auto simp: runsAt_def workerStep_def split: if_splits)
next
  case (closed order)
  then have "pm_proxies pm' = (\<lambda>n. if n \<in> set order then None else pm_proxies pm n)"
    using stopAll_ok [OF assms(1), of order] by (auto simp: Close_def)
  then show ?thesis using assms(3) by (auto simp: runsAt_def split: if_splits)
qed (use assms(3) in \<open>auto simp: runsAt_def statusNormalCallback_def statusFailedCallback_def phase_def split: if_splits\<close>)

lemma runs_answer:
  assumes "runsAt (handleAnswer errText detailed now runErr m pm) n a"
    and nonempty: "\<And>e. errText e \<noteq> []"
  shows "runsAt pm n a \<or> m = NewProxyResp n (Inr a)"
proof (cases m)
  case (NewProxyResp k r)
  have err: "respError errText detailed k r = [] \<Longrightarrow> r = Inr (respAddr r)"
    using nonempty by (cases r) (auto simp: respError_def respAddr_def GenerateResponseErrorString_def split: if_splits)
  show ?thesis
  proof (cases "pm_proxies pm k")
    case None
    then show ?thesis using assms(1) by (simp add: NewProxyResp StartProxy_def)
  next
    case (Some w)
    show ?thesis
    proof (cases "n = k")
      case True
      then show ?thesis
        using assms(1) Some err
        by (auto simp: NewProxyResp StartProxy_def runsAt_def SetRunningStatus_def Let_def wrapper_field_defs split: if_splits option.splits)
    next
      case False
      then show ?thesis using assms(1) Some by (auto simp: NewProxyResp StartProxy_def runsAt_def split: prod.splits)
    qed
  qed
qed (use assms(1) in simp_all)

section \<open>The server's side\<close>

text \<open>What a running proxy keeps of the message that registered it; the port may be another.\<close>

fun withoutPort :: "proxy_conf \<Rightarrow> proxy_conf" where
  "withoutPort (TCPProxyConf b p) = TCPProxyConf b 0"
| "withoutPort (UDPProxyConf b p) = UDPProxyConf b 0"
| "withoutPort c = c"

definition madeFrom :: "server_setup \<Rightarrow> new_proxy \<Rightarrow> running \<Rightarrow> bool" where
  "madeFrom cfg m pxy \<longleftrightarrow>
     map_sum id withoutPort (NewProxyConfFromMsg m (server_conf.truncate cfg)) = Inr (withoutPort (rn_conf pxy))"

lemma pxyRun_port:
  "pxyRun env sc c rs = Inr (Inr (addr, pxy), rs') \<Longrightarrow> withoutPort (rn_conf pxy) = withoutPort c"
  by (cases c) (auto split: prod.splits sum.splits option.splits)

text \<open>A message that registers a proxy is answered with an error, runs the proxy, or panics.\<close>

lemma request_cases:
  assumes "handleNewProxy env cfg plug m c rs = (c', rs')" and "mayReject m plug" and "ct_pending c = None"
  shows "ct_phase c' = ct_phase c \<and> ct_proxies c' = ct_proxies c \<and>
    (ct_pending c' = None \<and> (\<exists>out. ct_sent c' = ct_sent c @ out \<and> (\<forall>n a. NewProxyResp n (Inr a) \<notin> set out)) \<or>
     ct_sent c' = ct_sent c \<and> (\<exists>ty addr pxy. ct_pending c' = Some (np_ProxyName m, ty, addr, pxy) \<and> madeFrom cfg m pxy))"
proof (cases plug)
  case (Inl e)
  then show ?thesis using assms(1,3) by (auto simp: handleNewProxy_def send_def)
next
  case (Inr m')
  then have run: "registerRun env cfg m c rs = (c', rs')" using assms(1,2) by (simp add: handleNewProxy_def mayReject_def)
  show ?thesis
  proof (cases "NewProxyConfFromMsg m (server_conf.truncate cfg)")
    case (Inl e)
    then show ?thesis using run assms(3) by (auto simp: registerRun_def send_def)
  next
    case (Inr conf)
    show ?thesis
    proof (cases "0 < MaxPortsPerClient cfg \<and> MaxPortsPerClient cfg < ct_portsUsedNum c + usedPortsNum conf")
      case True
      then show ?thesis using run Inr assms(3) by (auto simp: registerRun_def send_def)
    next
      case False
      have sent: "ct_sent (countPortsNum cfg conf c) = ct_sent c" "ct_sent (freePortsNum cfg conf d) = ct_sent d" for d
        by (simp_all add: countPortsNum_def freePortsNum_def)
      have part2: "(case pxyRun env (service_conf.truncate cfg) conf rs of
               Inl p \<Rightarrow> ((countPortsNum cfg conf c)\<lparr> ct_shutdown := True \<rparr>, rs)
             | Inr (Inl e, rs') \<Rightarrow> (send (NewProxyResp (np_ProxyName m) (Inl (RunError e))) (freePortsNum cfg conf (countPortsNum cfg conf c)), rs')
             | Inr (Inr (addr, pxy), rs') \<Rightarrow>
                 ((countPortsNum cfg conf c)\<lparr> ct_pending := Some (np_ProxyName m, if np_ProxyType m = [] then ''tcp'' else np_ProxyType m, addr, pxy) \<rparr>,
                  rs')) = (c', rs')"
        using run Inr False by (simp add: registerRun_def Let_def del: not_less)
      show ?thesis
      proof (cases "pxyRun env (service_conf.truncate cfg) conf rs")
        case (Inl p)
        then show ?thesis using part2 sent assms(3) by auto
      next
        case r: (Inr q)
        obtain x rs1 where q: "q = (x, rs1)" by fastforce
        show ?thesis
        proof (cases x)
          case (Inl e)
          then show ?thesis using part2 r q sent assms(3) by (auto simp: send_def)
        next
          case x: (Inr ap)
          obtain addr pxy where ap: "ap = (addr, pxy)" by fastforce
          have "madeFrom cfg m pxy" using pxyRun_port r q x ap Inr by (simp add: madeFrom_def)
          then show ?thesis using part2 r q x ap sent by auto
        qed
      qed
    qed
  qed
qed

lemma registerAdd_cases:
  assumes "svc_ctls s i = Some c"
  shows "\<exists>c'. svc_ctls (registerAdd cfg now i c (name, ty, addr, pxy) s) i = Some c' \<and> ct_phase c' = ct_phase c \<and> ct_pending c' = None \<and>
    (ct_proxies c' = fmupd (GetName pxy) pxy (ct_proxies c) \<and> ct_sent c' = ct_sent c @ [NewProxyResp name (Inr addr)] \<or>
     ct_proxies c' = ct_proxies c \<and> (\<exists>out. ct_sent c' = ct_sent c @ out \<and> (\<forall>n a. NewProxyResp n (Inr a) \<notin> set out)))"
proof -
  have sent: "ct_sent (freePortsNum cfg k d) = ct_sent d" for k d by (simp add: freePortsNum_def)
  show ?thesis
  proof (cases "svc_pxys s name")
    case None
    then show ?thesis by (simp add: registerAdd_def Let_def send_def)
  next
    case (Some q)
    then show ?thesis by (cases "pxyClose now pxy (svc_res s)") (auto simp: registerAdd_def Let_def send_def sent)
  qed
qed

lemma CloseCtlProxy_cases:
  assumes "svc_ctls s i = Some c"
  shows "\<exists>c'. svc_ctls (CloseCtlProxy cfg now i c n s) i = Some c' \<and>
    ((\<exists>f. ct_phase c' = Stuck f) \<or>
     ct_phase c' = ct_phase c \<and> ct_pending c' = ct_pending c \<and> ct_sent c' = ct_sent c \<and> ct_proxies c' = fmdrop n (ct_proxies c))"
proof -
  have sent: "ct_sent (freePortsNum cfg k d) = ct_sent d" for k d by (simp add: freePortsNum_def)
  show ?thesis
  proof (cases "fmlookup (ct_proxies c) n")
    case None
    then have "fmdrop n (ct_proxies c) = ct_proxies c" by (intro fmap_ext) simp
    then show ?thesis using assms None by (simp add: CloseCtlProxy_def)
  next
    case (Some pxy)
    then show ?thesis by (cases "pxyClose now pxy (svc_res s)") (simp_all add: CloseCtlProxy_def Let_def sent)
  qed
qed

section \<open>Both sides\<close>

lemma isClose_iff: "isClose m \<longleftrightarrow> (\<exists>n. m = SendCloseProxy n)"
  by (cases m) simp_all

text \<open>The messages about a proxy that the control has handled.\<close>

definition handledOf :: "link \<Rightarrow> string \<Rightarrow> client_msg list" where
  "handledOf l n = filter (\<lambda>m. msgName m = n) (take (lk_read l) (pm_sent (lk_client l)))"

text \<open>
  The control has a proxy only if it was told to run it after it was last told to close it; and what it
  confirmed it has, until it is told to close it.
\<close>

definition toldOk :: "server_setup \<Rightarrow> (string \<Rightarrow> client_msg list) \<Rightarrow> control \<Rightarrow> bool" where
  "toldOk cfg D c \<longleftrightarrow>
     (\<forall>n pxy. fmlookup (ct_proxies c) n = Some pxy \<longrightarrow> (\<exists>m. SendNewProxy m \<in> set (sinceClose (D n)) \<and> madeFrom cfg m pxy)) \<and>
     (\<forall>n ty addr pxy. ct_pending c = Some (n, ty, addr, pxy) \<longrightarrow> (\<exists>m. SendNewProxy m \<in> set (sinceClose (D n)) \<and> madeFrom cfg m pxy)) \<and>
     (\<forall>n a. NewProxyResp n (Inr a) \<in> set (ct_sent c) \<and> list_all (\<lambda>m. \<not> isClose m) (D n) \<longrightarrow> fmlookup (ct_proxies c) n \<noteq> None)"

lemma toldOkD:
  assumes "toldOk cfg D c"
  shows "fmlookup (ct_proxies c) n = Some pxy \<Longrightarrow> \<exists>m. SendNewProxy m \<in> set (sinceClose (D n)) \<and> madeFrom cfg m pxy"
    and "ct_pending c = Some (n, ty, addr, pxy) \<Longrightarrow> \<exists>m. SendNewProxy m \<in> set (sinceClose (D n)) \<and> madeFrom cfg m pxy"
    and "NewProxyResp n (Inr a) \<in> set (ct_sent c) \<Longrightarrow> list_all (\<lambda>m. \<not> isClose m) (D n) \<Longrightarrow> fmlookup (ct_proxies c) n \<noteq> None"
  using assms unfolding toldOk_def by blast+

lemma toldOkI:
  assumes "\<And>n pxy. fmlookup (ct_proxies c) n = Some pxy \<Longrightarrow> \<exists>m. SendNewProxy m \<in> set (sinceClose (D n)) \<and> madeFrom cfg m pxy"
    and "\<And>n ty addr pxy. ct_pending c = Some (n, ty, addr, pxy) \<Longrightarrow> \<exists>m. SendNewProxy m \<in> set (sinceClose (D n)) \<and> madeFrom cfg m pxy"
    and "\<And>n a. NewProxyResp n (Inr a) \<in> set (ct_sent c) \<Longrightarrow> list_all (\<lambda>m. \<not> isClose m) (D n) \<Longrightarrow> fmlookup (ct_proxies c) n \<noteq> None"
  shows "toldOk cfg D c"
  unfolding toldOk_def using assms by blast

lemma toldOk_same:
  assumes "toldOk cfg D c" and "ct_proxies c' = ct_proxies c" and "ct_pending c' = ct_pending c \<or> ct_pending c' = None"
    and "ct_sent c' = ct_sent c @ out" and "\<forall>n a. NewProxyResp n (Inr a) \<notin> set out"
  shows "toldOk cfg D c'"
proof (rule toldOkI)
  show "\<exists>m. SendNewProxy m \<in> set (sinceClose (D n)) \<and> madeFrom cfg m pxy" if "fmlookup (ct_proxies c') n = Some pxy" for n pxy
    using that toldOkD(1) [OF assms(1)] assms(2) by simp
  show "\<exists>m. SendNewProxy m \<in> set (sinceClose (D n)) \<and> madeFrom cfg m pxy" if "ct_pending c' = Some (n, ty, addr, pxy)" for n ty addr pxy
  proof -
    have "ct_pending c = Some (n, ty, addr, pxy)" using that assms(3) by auto
    then show ?thesis by (rule toldOkD(2) [OF assms(1)])
  qed
  show "fmlookup (ct_proxies c') n \<noteq> None"
    if "NewProxyResp n (Inr a) \<in> set (ct_sent c')" "list_all (\<lambda>m. \<not> isClose m) (D n)" for n a
    using that toldOkD(3) [OF assms(1)] assms(2,4,5) by auto
qed

lemma toldOk_request:
  assumes "toldOk cfg D c" and "\<And>n. D' n = (if n = np_ProxyName m then D n @ [SendNewProxy m] else D n)"
    and "handleNewProxy env cfg plug m c rs = (c', rs')" and "mayReject m plug" and "ct_pending c = None"
  shows "toldOk cfg D' c'"
proof -
  note R = request_cases [OF assms(3-5)]
  have more: "\<exists>k. SendNewProxy k \<in> set (sinceClose (D' n)) \<and> madeFrom cfg k pxy"
    if "\<exists>k. SendNewProxy k \<in> set (sinceClose (D n)) \<and> madeFrom cfg k pxy" for n pxy
    using that by (auto simp: assms(2))
  show ?thesis
  proof (rule toldOkI)
    show "\<exists>k. SendNewProxy k \<in> set (sinceClose (D' n)) \<and> madeFrom cfg k pxy" if "fmlookup (ct_proxies c') n = Some pxy" for n pxy
      using that R more toldOkD(1) [OF assms(1)] by simp
    show "\<exists>k. SendNewProxy k \<in> set (sinceClose (D' n)) \<and> madeFrom cfg k pxy" if "ct_pending c' = Some (n, ty, addr, pxy)" for n ty addr pxy
      using that R by (auto simp: assms(2))
    show "fmlookup (ct_proxies c') n \<noteq> None"
      if "NewProxyResp n (Inr a) \<in> set (ct_sent c')" "list_all (\<lambda>m. \<not> isClose m) (D' n)" for n a
    proof -
      have "NewProxyResp n (Inr a) \<in> set (ct_sent c)" using that(1) R by auto
      moreover have "list_all (\<lambda>m. \<not> isClose m) (D n)" using that(2) by (simp add: assms(2) split: if_splits)
      ultimately show ?thesis using toldOkD(3) [OF assms(1)] R by simp
    qed
  qed
qed

lemma toldOk_registered:
  assumes "toldOk cfg D c" and "ct_pending c = Some (n, ty, addr, pxy)" and "GetName pxy = n"
    and "ct_proxies c' = fmupd n pxy (ct_proxies c)" and "ct_sent c' = ct_sent c @ [NewProxyResp n (Inr addr)]" and "ct_pending c' = None"
  shows "toldOk cfg D c'"
  by (rule toldOkI) (use assms toldOkD [OF assms(1)] in \<open>auto split: if_splits\<close>)

lemma toldOk_close:
  assumes "toldOk cfg D c" and "\<And>k. D' k = (if k = n then D k @ [SendCloseProxy n] else D k)" and "ct_pending c = None"
    and "ct_proxies c' = fmdrop n (ct_proxies c)" and "ct_sent c' = ct_sent c" and "ct_pending c' = None"
  shows "toldOk cfg D' c'"
  by (rule toldOkI) (use assms(2-) toldOkD [OF assms(1)] in \<open>auto split: if_splits\<close>)

definition linkInv :: "server_setup \<Rightarrow> (reg_error \<Rightarrow> string) \<Rightarrow> nat \<Rightarrow> link \<Rightarrow> bool" where
  "linkInv cfg errText i l \<longleftrightarrow> mgr_reach (lk_client l) \<and> lk_read l \<le> length (pm_sent (lk_client l)) \<and>
     (\<exists>c. svc_ctls (lk_server l) i = Some c \<and> ct_phase c = Started \<and> toldOk cfg (handledOf l) c \<and> lk_got l \<le> length (ct_sent c) \<and>
        (\<forall>n a. runsAt (lk_client l) n a \<longrightarrow> NewProxyResp n (Inr a) \<in> set (take (lk_got l) (ct_sent c))))"

lemma handledOf_read:
  assumes "lk_read l < length (pm_sent (lk_client l))" and "pm_sent (lk_client l) ! lk_read l = m"
  shows "handledOf (l\<lparr> lk_server := s, lk_read := Suc (lk_read l) \<rparr>) n = (if n = msgName m then handledOf l n @ [m] else handledOf l n)"
  using assms by (simp add: handledOf_def take_Suc_conv_app_nth)

lemma handledOf_grows:
  assumes "pm_sent pm = pm_sent (lk_client l) @ out" and "lk_read l \<le> length (pm_sent (lk_client l))"
  shows "handledOf (l\<lparr> lk_client := pm \<rparr>) = handledOf l" "handledOf (l\<lparr> lk_client := pm, lk_got := k \<rparr>) = handledOf l"
  using assms by (simp_all add: handledOf_def fun_eq_iff)

lemma handledOf_server [simp]: "handledOf (l\<lparr> lk_server := s \<rparr>) = handledOf l"
  by (simp add: handledOf_def fun_eq_iff)

lemma link_svc: "link_reach ok cfg errText detailed i l \<Longrightarrow> svc_reach ok cfg (lk_server l)"
proof (induction rule: link_reach.induct)
  case (begins s c old)
  have "svc_step ok cfg s (startControl i c s)" by (rule svc_step.start [OF begins(2-4)])
  then show ?case using svc_reach.step [OF begins(1)] by simp
next
  case (step l l')
  from step.hyps(2) have "lk_server l' = lk_server l \<or> svc_step ok cfg (lk_server l) (lk_server l')"
  proof cases
    case (request c m env plug c' rs)
    show ?thesis using svc_step.new_proxy [where ok = ok, OF request(2-4,7,9)] by (simp add: request(1))
  next
    case (registered c p now)
    show ?thesis using svc_step.add [where ok = ok, OF registered(2-4)] by (simp add: registered(1))
  next
    case (close c n now)
    show ?thesis using svc_step.close_proxy [where ok = ok, OF close(2-4)] by (simp add: close(1))
  next
    case (other s c c')
    then show ?thesis by simp
  qed simp_all
  then show ?case using step.IH svc_reach.step by metis
qed

lemma linkInv_parts:
  assumes "linkInv cfg errText i l"
  obtains c where "mgr_reach (lk_client l)" "lk_read l \<le> length (pm_sent (lk_client l))" "svc_ctls (lk_server l) i = Some c"
    "ct_phase c = Started" "toldOk cfg (handledOf l) c" "lk_got l \<le> length (ct_sent c)"
    "\<And>n a. runsAt (lk_client l) n a \<Longrightarrow> NewProxyResp n (Inr a) \<in> set (take (lk_got l) (ct_sent c))"
  using assms unfolding linkInv_def by blast

lemma linkInv_server:
  assumes inv: "linkInv cfg errText i l" and c: "svc_ctls (lk_server l) i = Some c"
    and c': "svc_ctls s i = Some c'" "ct_phase c' = Started" "ct_sent c' = ct_sent c @ out"
    and k: "k \<le> length (pm_sent (lk_client l))" and told: "toldOk cfg (handledOf (l\<lparr> lk_server := s, lk_read := k \<rparr>)) c'"
  shows "linkInv cfg errText i (l\<lparr> lk_server := s, lk_read := k \<rparr>)"
proof -
  obtain d where d: "mgr_reach (lk_client l)" "svc_ctls (lk_server l) i = Some d" "lk_got l \<le> length (ct_sent d)"
    "\<And>n a. runsAt (lk_client l) n a \<Longrightarrow> NewProxyResp n (Inr a) \<in> set (take (lk_got l) (ct_sent d))"
    by (rule linkInv_parts [OF inv]) blast
  then have "d = c" using c by simp
  then show ?thesis using d c' k told unfolding linkInv_def by simp
qed

lemma linkInv_step:
  assumes inv: "linkInv cfg errText i l" and reach: "svc_reach (systemOk t) cfg (lk_server l)" and ports: "0 \<notin> AllowPorts cfg"
    and nonempty: "\<And>e. errText e \<noteq> []" and st: "link_step (systemOk t) cfg errText detailed i l l'"
    and reach': "svc_reach (systemOk t) cfg (lk_server l')"
  shows "linkInv cfg errText i l'"
proof -
  obtain d where d: "mgr_reach (lk_client l)" "lk_read l \<le> length (pm_sent (lk_client l))" "svc_ctls (lk_server l) i = Some d"
    "ct_phase d = Started" "toldOk cfg (handledOf l) d" "lk_got l \<le> length (ct_sent d)"
    "\<And>n a. runsAt (lk_client l) n a \<Longrightarrow> NewProxyResp n (Inr a) \<in> set (take (lk_got l) (ct_sent d))"
    using inv unfolding linkInv_def by blast
  have l: "l\<lparr> lk_server := s, lk_read := lk_read l \<rparr> = l\<lparr> lk_server := s \<rparr>" for s by (cases l) simp
  from st show ?thesis
  proof cases
    case (client pm)
    obtain out where out: "pm_sent pm = pm_sent (lk_client l) @ out" using sent_grows(1) [OF client(2)] by blast
    have "mgr_reach pm" by (rule mgr_reach.step [OF d(1) client(2)])
    moreover have "runsAt pm n a \<Longrightarrow> runsAt (lk_client l) n a" for n a by (rule runs_step [OF mgr_reach_inv [OF d(1)] client(2)])
    ultimately show ?thesis using d out unfolding linkInv_def client(1) handledOf_grows(1) [OF out d(2)] by auto
  next
    case (answer c now runErr)
    let ?m = "ct_sent c ! lk_got l" let ?pm = "handleAnswer errText detailed now runErr ?m (lk_client l)"
    have c: "c = d" using answer(2) d(3) by simp
    obtain out where out: "pm_sent ?pm = pm_sent (lk_client l) @ out" using sent_grows(2) by blast
    have "mgr_reach ?pm"
    proof (cases ?m)
      case (NewProxyResp n r)
      then show ?thesis using mgr_reach.answer [OF d(1) surjective_pairing] by simp
    qed (use d(1) in simp_all)
    moreover have "NewProxyResp n (Inr a) \<in> set (take (Suc (lk_got l)) (ct_sent d))" if "runsAt ?pm n a" for n a
      using runs_answer [OF that nonempty] d(7) [of n a] answer(3) c by (auto simp: take_Suc_conv_app_nth)
    ultimately show ?thesis
      using d answer(3) c out unfolding linkInv_def answer(1) handledOf_grows(2) [OF out d(2)] by auto
  next
    case (request c m env plug c' rs)
    have c: "c = d" using request(2) d(3) by simp
    note R = request_cases [OF request(9,8,4)]
    have "\<exists>out. ct_sent c' = ct_sent d @ out" using R c by auto
    then obtain out where out: "ct_sent c' = ct_sent d @ out" by blast
    have told: "toldOk cfg (handledOf l') c'"
      unfolding request(1)
      by (rule toldOk_request [OF d(5) _ request(9) [unfolded c] request(8) request(4) [unfolded c]])
        (simp add: handledOf_read [OF request(5,6)])
    show ?thesis unfolding request(1)
      by (rule linkInv_server [OF inv d(3), where c' = c' and out = out])
        (use R c d(4) out request(5) told in \<open>simp_all add: request(1)\<close>)
  next
    case (registered c p now)
    have c: "c = d" using registered(2) d(3) by simp
    obtain n ty addr pxy where p: "p = (n, ty, addr, pxy)" by (metis prod_cases4)
    have "ctlOk cfg d" using reach_inv [OF reach] d(3) unfolding ctlsOk_def by blast
    then have name: "GetName pxy = n" using ctlOkD(2) [of cfg d n ty addr pxy] registered(4) c p by simp
    obtain c' where c': "svc_ctls (registerAdd cfg now i c p (lk_server l)) i = Some c'" "ct_phase c' = ct_phase d" "ct_pending c' = None"
      "ct_proxies c' = fmupd n pxy (ct_proxies d) \<and> ct_sent c' = ct_sent d @ [NewProxyResp n (Inr addr)] \<or>
       ct_proxies c' = ct_proxies d \<and> (\<exists>out. ct_sent c' = ct_sent d @ out \<and> (\<forall>n a. NewProxyResp n (Inr a) \<notin> set out))"
      using registerAdd_cases [OF d(3), of cfg now n ty addr pxy] c p name by blast
    have told: "toldOk cfg (handledOf l) c'"
      using c'(4)
    proof
      assume "ct_proxies c' = fmupd n pxy (ct_proxies d) \<and> ct_sent c' = ct_sent d @ [NewProxyResp n (Inr addr)]"
      then show ?thesis using toldOk_registered [OF d(5), of n ty addr pxy c'] registered(4) c p name c'(3) by simp
    next
      assume "ct_proxies c' = ct_proxies d \<and> (\<exists>out. ct_sent c' = ct_sent d @ out \<and> (\<forall>n a. NewProxyResp n (Inr a) \<notin> set out))"
      then show ?thesis using toldOk_same [OF d(5), of c'] c'(3) by blast
    qed
    have "\<exists>out. ct_sent c' = ct_sent d @ out" using c'(4) by auto
    then obtain out where "ct_sent c' = ct_sent d @ out" by blast
    then have "linkInv cfg errText i (l\<lparr> lk_server := registerAdd cfg now i c p (lk_server l), lk_read := lk_read l \<rparr>)"
      by (intro linkInv_server [OF inv d(3) c'(1)]) (use c' d told in \<open>simp_all add: l\<close>)
    then show ?thesis by (simp add: registered(1) l)
  next
    case (close c n now)
    have c: "c = d" using close(2) d(3) by simp
    obtain c' where c': "svc_ctls (CloseCtlProxy cfg now i c n (lk_server l)) i = Some c'"
      "(\<exists>f. ct_phase c' = Stuck f) \<or>
       ct_phase c' = ct_phase d \<and> ct_pending c' = ct_pending d \<and> ct_sent c' = ct_sent d \<and> ct_proxies c' = fmdrop n (ct_proxies d)"
      using CloseCtlProxy_cases [OF d(3), of cfg now n] c by blast
    have "noStuck (lk_server l')" using own_parts(3) [OF reach' ports] .
    then have "\<not> (\<exists>f. ct_phase c' = Stuck f)" using c'(1) by (auto simp: noStuck_def close(1))
    then have f: "ct_phase c' = Started" "ct_pending c' = None" "ct_sent c' = ct_sent d" "ct_proxies c' = fmdrop n (ct_proxies d)"
      using c'(2) d(4) close(4) c by auto
    have told: "toldOk cfg (handledOf l') c'"
      unfolding close(1)
      by (rule toldOk_close [OF d(5) _ close(4) [unfolded c] f(4,3,2)]) (simp add: handledOf_read [OF close(5,6)])
    show ?thesis unfolding close(1)
      by (rule linkInv_server [OF inv d(3) c'(1) f(1), where out = "[]"]) (use f close(5) told in \<open>simp_all add: close(1)\<close>)
  next
    case (other s c c')
    have c: "c = d" using other(3) d(3) by simp
    obtain out where out: "ct_sent c' = ct_sent d @ out" "list_all (\<lambda>m. \<not> isAnswer m) out"
      and f: "ct_proxies c' = ct_proxies d" "ct_pending c' = ct_pending d" "ct_phase c' = ct_phase d"
      using other(5) c by (auto simp: sameProxies_def)
    have "NewProxyResp n r \<notin> set out" for n r using out(2) by (auto simp: list_all_iff)
    then have "toldOk cfg (handledOf l) c'" using toldOk_same [OF d(5) f(1) _ out(1)] f(2) by simp
    then have "linkInv cfg errText i (l\<lparr> lk_server := s, lk_read := lk_read l \<rparr>)"
      by (intro linkInv_server [OF inv d(3) other(4)]) (use f d out in \<open>simp_all add: l\<close>)
    then show ?thesis by (simp add: other(1) l)
  qed
qed

lemma link_inv:
  assumes "link_reach (systemOk t) cfg errText detailed i l" and "0 \<notin> AllowPorts cfg" and "\<And>e. errText e \<noteq> []"
  shows "linkInv cfg errText i l"
  using assms(1)
proof induction
  case (begins s c old)
  have "ctlOk cfg c" using reach_inv [OF begins(1)] begins(2) unfolding ctlsOk_def by blast
  then have "ct_proxies c = fmempty" "ct_pending c = None" using ctlOkD(3,4) begins(3) by blast+
  moreover have "pm_sent ProxyManager.NewManager = []" "pm_proxies ProxyManager.NewManager = Map.empty"
    by (simp_all add: ProxyManager.NewManager_def)
  ultimately show ?case
    by (auto simp: linkInv_def startControl_def Start_def toldOk_def runsAt_def mgr_reach.start)
next
  case (step l l')
  show ?case
    by (rule linkInv_step [OF step.IH link_svc [OF step.hyps(1)] assms(2,3) step.hyps(2) link_svc [OF link_reach.step [OF step.hyps]]])
qed

text \<open>Answers to a proxy that waits for its start, and to one that runs.\<close>

lemma answer_starts:
  assumes "pm_proxies pm n = Some w" and "phase w = ProxyPhaseWaitStart" and "respError errText detailed n r = []"
  shows "\<exists>w'. pm_proxies (handleAnswer errText detailed now None (NewProxyResp n r) pm) n = Some w' \<and> phase w' = ProxyPhaseRunning"
    and "pm_sent (handleAnswer errText detailed now None (NewProxyResp n r) pm) = pm_sent pm"
  using assms by (simp_all add: StartProxy_def SetRunningStatus_def Let_def)

lemma answer_ignored:
  assumes "pm_proxies pm n = Some w" and "phase w = ProxyPhaseRunning"
  shows "pm_proxies (handleAnswer errText detailed now runErr (NewProxyResp n r) pm) n = Some w"
    and "pm_sent (handleAnswer errText detailed now runErr (NewProxyResp n r) pm) = pm_sent pm"
  using assms by (simp_all add: StartProxy_def SetRunningStatus_def)

lemma plugin_rejects:
  "handleNewProxy env cfg (Inl e) m c rs = (send (NewProxyResp (np_ProxyName m) (Inl (PluginError e))) c, rs)"
  by (simp add: handleNewProxy_def)

lemma reject_step:
  assumes "link_reach ok cfg errText detailed i l" and c: "svc_ctls (lk_server l) i = Some c" "ct_phase c = Started" "ct_pending c = None"
    and "lk_read l < length (pm_sent (lk_client l))" and "pm_sent (lk_client l) ! lk_read l = SendNewProxy m" and "ok env (svc_res (lk_server l))"
  shows "\<exists>l'. link_reach ok cfg errText detailed i l' \<and> lk_client l' = lk_client l \<and> lk_got l' = lk_got l \<and> lk_read l' = Suc (lk_read l) \<and>
    svc_ctls (lk_server l') i = Some (send (NewProxyResp (np_ProxyName m) (Inl (PluginError e))) c)"
proof -
  have "mayReject m (Inl e)" by (simp add: mayReject_def)
  from link_reach.step [OF assms(1) link_step.request [where ok = ok, OF c assms(5-7) this plugin_rejects]]
  show ?thesis by (intro exI conjI) (assumption, simp_all)
qed

lemma answer_step:
  assumes "link_reach ok cfg errText detailed i l" and "svc_ctls (lk_server l) i = Some c" and "lk_got l < length (ct_sent c)"
    and "ct_sent c ! lk_got l = a"
  shows "\<exists>l'. link_reach ok cfg errText detailed i l' \<and> lk_client l' = handleAnswer errText detailed now runErr a (lk_client l) \<and>
    lk_got l' = Suc (lk_got l) \<and> lk_read l' = lk_read l \<and> lk_server l' = lk_server l"
  using link_reach.step [OF assms(1) link_step.answer [where ok = ok, OF assms(2,3)]] assms(4)
  by (intro exI conjI) (assumption, simp_all)

section \<open>An example\<close>

text \<open>A client with one tcp proxy, from its login to the answer that the proxy runs.\<close>

definition webConf :: proxy_conf where
  "webConf = TCPProxyConf webBase 7000"

definition webServer :: service where
  "webServer = (newService sampleSetup)\<lparr> svc_ctls := [0 \<mapsto> sampleSess ''r1''], svc_next := 1, svc_byRunID := [''r1'' \<mapsto> 0],
     svc_events := [MNewClient] \<rparr>"

definition webLink :: link where
  "webLink = \<lparr> lk_client = ProxyManager.NewManager, lk_server = webServer, lk_read = 0, lk_got = 0 \<rparr>"

definition webWaiting :: wrapper where
  "webWaiting = snd (checkWorker 1 0 (NewWrapper webConf))"

definition webManager :: manager where
  "webManager = \<lparr> pm_proxies = [''web'' \<mapsto> webWaiting], pm_sendClosed = False, pm_sent = [SendNewProxy webMsg] \<rparr>"

lemma webLink_reach: "link_reach ok sampleSetup errText detailed 0 webLink"
proof -
  let ?c = "(freshCtl 0 ''r1'' 0)\<lparr> ct_sent := [], ct_phase := Waiting None \<rparr>"
  let ?s0 = "newService sampleSetup"
  let ?s1 = "updCtl 0 ?c (?s0\<lparr> svc_byRunID := [''r1'' \<mapsto> 0] \<rparr>)\<lparr> svc_next := 1 \<rparr>"
  have "NewControl sampleSetup 0 ''r1'' 0 = Inr ?c" by (simp add: NewControl_def freshCtl_def sampleSetup_def)
  then have "RegisterControl sampleSetup 0 [] False ''r1'' 0 ?s0 = Inr ?s1"
    by (simp add: RegisterControl_def cmAdd_def Let_def updCtl_def newService_def)
  then have "svc_reach ok sampleSetup ?s1" using svc_reach.step [OF svc_reach.init] svc_step.login by blast
  then have "link_reach ok sampleSetup errText detailed 0
      \<lparr> lk_client = ProxyManager.NewManager, lk_server = startControl 0 ?c ?s1, lk_read = 0, lk_got = 0 \<rparr>"
    by (rule link_reach.begins [where old = None]) (simp_all add: updCtl_def)
  moreover have "startControl 0 ?c ?s1 = webServer"
    by (simp add: startControl_def updCtl_def Start_def freshCtl_def webServer_def newService_def) (simp add: sampleSess_def freshCtl_def)
  ultimately show ?thesis by (simp add: webLink_def)
qed

lemma web_marshal: "MarshalToMsg webConf emptyMsg = webMsg"
  by code_simp

lemma web_keyed: "wellKeyed [''web'' \<mapsto> webConf]"
  by (simp add: wellKeyed_def webConf_def webBase_def)

lemma web_start:
  "Reload [''web'' \<mapsto> webConf] [] [''web''] \<lparr> pm_proxies = Map.empty, pm_sendClosed = False, pm_sent = ms \<rparr> =
     Inr \<lparr> pm_proxies = [''web'' \<mapsto> NewWrapper webConf], pm_sendClosed = False, pm_sent = ms \<rparr>"
  "workerStep 1 0 ''web'' (NewWrapper webConf) \<lparr> pm_proxies = [''web'' \<mapsto> NewWrapper webConf], pm_sendClosed = False, pm_sent = ms \<rparr> =
     \<lparr> pm_proxies = [''web'' \<mapsto> webWaiting], pm_sendClosed = False, pm_sent = ms @ [SendNewProxy webMsg] \<rparr>"
  by (simp_all add: Reload_def delNames_def setProxy_def workerStep_def HandleEvent_def webWaiting_def checkWorker_def mayStart_def web_marshal)

text \<open>From a manager without proxies to one whose proxy waits for its start.\<close>

lemma web_client:
  assumes "link_reach ok sampleSetup errText detailed 0 l"
    and "lk_client l = \<lparr> pm_proxies = Map.empty, pm_sendClosed = False, pm_sent = ms \<rparr>"
  shows "link_reach ok sampleSetup errText detailed 0
    (l\<lparr> lk_client := \<lparr> pm_proxies = [''web'' \<mapsto> webWaiting], pm_sendClosed = False, pm_sent = ms @ [SendNewProxy webMsg] \<rparr> \<rparr>)"
proof -
  let ?pm = "\<lparr> pm_proxies = [''web'' \<mapsto> NewWrapper webConf], pm_sendClosed = False, pm_sent = ms \<rparr>"
  have "mgr_step (lk_client l) ?pm"
    unfolding assms(2) by (rule mgr_step.reload [OF web_keyed _ _ web_start(1)]) (simp_all add: rangeOf_def)
  note r = link_reach.step [OF assms(1) link_step.client [OF this]]
  have "mgr_step (lk_client (l\<lparr> lk_client := ?pm \<rparr>)) (workerStep 1 0 ''web'' (NewWrapper webConf) ?pm)"
    by (simp, rule mgr_step.worker) simp
  from link_reach.step [OF r link_step.client [OF this]] show ?thesis unfolding web_start(2) by simp
qed

definition webAsked :: link where
  "webAsked = webLink\<lparr> lk_client := webManager \<rparr>"

lemma webAsked_reach: "link_reach ok sampleSetup errText detailed 0 webAsked"
  using web_client [OF webLink_reach, of "[]"] by (simp add: webAsked_def webManager_def webLink_def ProxyManager.NewManager_def)

lemma webWaiting_phase: "phase webWaiting = ProxyPhaseWaitStart" "ws_Cfg (w_status webWaiting) = webConf" "ws_Name (w_status webWaiting) = ''web''"
  by (simp_all add: webWaiting_def checkWorker_def mayStart_def) (simp_all add: webConf_def webBase_def)

text \<open>The server runs the proxy and answers.\<close>

definition webHolding :: control where
  "webHolding = (sampleSess ''r1'')\<lparr> ct_portsUsedNum := 1, ct_proxies := fmupd ''web'' webRunning fmempty,
     ct_sent := [LoginResp ''r1'', NewProxyResp ''web'' (Inr webAddr)] \<rparr>"

definition webServing :: service where
  "webServing = webServer\<lparr> svc_ctls := [0 \<mapsto> webHolding], svc_pxys := [''web'' \<mapsto> webRunning], svc_res := webResources,
     svc_events := [MNewClient, MNewProxy 5 ''web'' ''tcp''] \<rparr>"

definition webServed :: link where
  "webServed = webAsked\<lparr> lk_server := webServing, lk_read := 1 \<rparr>"

lemma webServed_reach: "link_reach (systemOk t) sampleSetup errText detailed 0 webServed"
proof -
  have res: "svc_res webServer = sampleResources" by (simp add: webServer_def newService_def sampleResources_def)
  have c: "svc_ctls (lk_server webAsked) 0 = Some (sampleSess ''r1'')" "ct_phase (sampleSess ''r1'') = Started"
      "ct_pending (sampleSess ''r1'') = None" "svc_res (lk_server webAsked) = sampleResources"
    by (simp_all add: webAsked_def webLink_def res) (simp_all add: webServer_def sampleSess_def freshCtl_def)
  have m: "lk_read webAsked < length (pm_sent (lk_client webAsked))" "pm_sent (lk_client webAsked) ! lk_read webAsked = SendNewProxy webMsg"
    by (simp_all add: webAsked_def webManager_def webLink_def)
  have run: "handleNewProxy sampleEnv sampleSetup (Inr webMsg) webMsg (sampleSess ''r1'') (svc_res (lk_server webAsked)) = (webPending, webResources)"
    using web_run c(4) by simp
  have "mayReject webMsg (Inr webMsg)" "systemOk t sampleEnv (svc_res (lk_server webAsked))"
    by (simp_all add: mayReject_def c(4) sampleEnv_ok)
  note r1 = link_reach.step [OF webAsked_reach link_step.request [where ok = "systemOk t", OF c(1-3) m this(2,1) run]]
  let ?l1 = "webAsked\<lparr> lk_server := updCtl 0 webPending ((lk_server webAsked)\<lparr> svc_res := webResources \<rparr>), lk_read := lk_read webAsked + 1 \<rparr>"
  have "svc_ctls (lk_server ?l1) 0 = Some webPending" "ct_phase webPending = Started"
      "ct_pending webPending = Some (''web'', ''tcp'', webAddr, webRunning)"
    by (simp_all add: webPending_def sampleSess_def freshCtl_def)
  from link_reach.step [OF r1 link_step.registered [where ok = "systemOk t", OF this, of sampleSetup errText detailed 5]]
  show ?thesis
    by (simp add: registerAdd_def webServed_def webAsked_def webLink_def webServing_def webHolding_def webPending_def webServer_def newService_def
        updCtl_def send_def sampleSess_def freshCtl_def webRunning_def webBase_def)
qed

text \<open>The client reads the answer of its login, which changes nothing.\<close>

lemma login_read:
  assumes "link_reach ok sampleSetup errText detailed 0 l" and "svc_ctls (lk_server l) 0 = Some c" and "ct_sent c = LoginResp rid # ms" and "lk_got l = 0"
  shows "\<exists>l'. link_reach ok sampleSetup errText detailed 0 l' \<and> lk_client l' = lk_client l \<and> lk_got l' = 1 \<and> lk_read l' = lk_read l \<and>
    lk_server l' = lk_server l"
  using answer_step [OF assms(1,2), of "LoginResp rid" 0 None] assms(3,4) by simp

lemma webRuns:
  "\<exists>l w. link_reach (systemOk t) sampleSetup errText detailed 0 l \<and> lk_server l = webServing \<and> lk_read l = 1 \<and>
     pm_sent (lk_client l) = [SendNewProxy webMsg] \<and> pm_proxies (lk_client l) ''web'' = Some w \<and> phase w = ProxyPhaseRunning"
proof -
  have c: "svc_ctls (lk_server webServed) 0 = Some webHolding" "ct_sent webHolding = [LoginResp ''r1'', NewProxyResp ''web'' (Inr webAddr)]"
      "lk_got webServed = 0"
    by (simp_all add: webServed_def webServing_def webHolding_def webAsked_def webLink_def)
  obtain l1 where l1: "link_reach (systemOk t) sampleSetup errText detailed 0 l1" "lk_client l1 = lk_client webServed" "lk_got l1 = 1"
      "lk_read l1 = lk_read webServed" "lk_server l1 = lk_server webServed"
    using login_read [OF webServed_reach [of t errText detailed] c] by blast
  obtain l2 where l2: "link_reach (systemOk t) sampleSetup errText detailed 0 l2"
      "lk_client l2 = handleAnswer errText detailed 0 None (NewProxyResp ''web'' (Inr webAddr)) (lk_client l1)"
      "lk_read l2 = lk_read l1" "lk_server l2 = lk_server l1"
    using answer_step [OF l1(1), of webHolding "NewProxyResp ''web'' (Inr webAddr)" 0 None] c l1 by auto
  have "lk_client l1 = webManager" by (simp add: l1(2) webServed_def webAsked_def)
  then have "pm_proxies (lk_client l1) ''web'' = Some webWaiting" "pm_sent (lk_client l1) = [SendNewProxy webMsg]" by (simp_all add: webManager_def)
  from answer_starts [OF this(1) webWaiting_phase(1), of errText detailed "Inr webAddr" 0] this(2) l1 l2 show ?thesis
    by (auto simp: respError_def webServed_def simp del: handleAnswer.simps)
qed

text \<open>The client removes the proxy and adds it again while the answer is on its way.\<close>

definition webAgain :: manager where
  "webAgain = \<lparr> pm_proxies = [''web'' \<mapsto> webWaiting], pm_sendClosed = False,
     pm_sent = [SendNewProxy webMsg, SendCloseProxy ''web'', SendNewProxy webMsg] \<rparr>"

lemma webAgain_reach: "link_reach (systemOk t) sampleSetup errText detailed 0 (webServed\<lparr> lk_client := webAgain \<rparr>)"
proof -
  let ?gone = "\<lparr> pm_proxies = Map.empty, pm_sendClosed = False, pm_sent = [SendNewProxy webMsg, SendCloseProxy ''web''] \<rparr>"
  have client: "lk_client webServed = webManager" by (simp add: webServed_def webAsked_def)
  have "\<not> w_closeCh webWaiting" by (simp add: webWaiting_def checkWorker_def mayStart_def)
  then have "Reload Map.empty [''web''] [] webManager = Inr ?gone"
    using webWaiting_phase(3) by (simp add: Reload_def delNames_def mustDel_def webManager_def Stop_def closeMsg_def HandleEvent_def setProxy_def)
  moreover have "wellKeyed Map.empty" "rangeOf [''web''] (pm_proxies webManager)" "rangeOf [] Map.empty"
    by (simp_all add: wellKeyed_def rangeOf_def webManager_def)
  ultimately have "mgr_step (lk_client webServed) ?gone" unfolding client by (intro mgr_step.reload)
  from web_client [OF link_reach.step [OF webServed_reach link_step.client [OF this]], of "[SendNewProxy webMsg, SendCloseProxy ''web'']"]
  show ?thesis by (simp add: webAgain_def)
qed

lemma web_closed_env: "systemOk t sampleEnv (svc_res (CloseCtlProxy sampleSetup now 0 webHolding ''web'' webServing))"
proof -
  have p: "pool (rs_tcp sampleResources) = PortManager.NewManager ''tcp'' ''0.0.0.0'' {7000, 7001}"
    by (simp add: sampleResources_def NewResources_def sampleSetup_def NewTCPGroupCtl_def)
  have w: "webPool = snd (Acquire (\<lambda>_. True) [7000, 7001] 0 ''web'' 7000 (PortManager.NewManager ''tcp'' ''0.0.0.0'' {7000, 7001}))"
    by (simp add: webPool_def p sampleEnv_def)
  have "freePorts (Release now 7000 webPool) = {7000, 7001}" "usedPorts (Release now 7000 webPool) = Map.empty"
    unfolding w by (auto simp: Acquire_def newCtx_def PortManager.NewManager_def reservedFor_def Let_def takePort_def setPort_def Release_def fun_eq_iff)
  moreover have "svc_res (CloseCtlProxy sampleSetup now 0 webHolding ''web'' webServing) =
      webResources\<lparr> rs_tcp := (rs_tcp webResources)\<lparr> pool := Release now 7000 webPool \<rparr> \<rparr>"
    by (simp add: CloseCtlProxy_def webHolding_def webRunning_def pxyClose_def tcpClose_def webServing_def webResources_def Let_def)
  ultimately show ?thesis by (simp add: systemOk_def sampleEnv_def rangeOrder_def insert_commute)
qed

section \<open>Properties\<close>





text \<open>
  C36: a rejection without a reason counts as success. When a plugin of the server rejects a registration and gives no reason,
  and errors are sent in detail, which is the default, the answer is the one of a success: everything is
  handled, frpc shows the proxy as running, and frps does not have it.
\<close>

theorem silent_rejection_runs:
  assumes "link_reach ok cfg errText True i l" and "svc_ctls (lk_server l) i = Some c" and "ct_phase c = Started" and "ct_pending c = None"
    and "lk_read l + 1 = length (pm_sent (lk_client l))" and "pm_sent (lk_client l) ! lk_read l = SendNewProxy m"
    and "lk_got l = length (ct_sent c)" and "fmlookup (ct_proxies c) (np_ProxyName m) = None"
    and "pm_proxies (lk_client l) (np_ProxyName m) = Some w" and "phase w = ProxyPhaseWaitStart"
    and "errText (PluginError []) = []" and "ok env (svc_res (lk_server l))"
  shows "\<exists>l' w' c'. link_reach ok cfg errText True i l' \<and> pm_proxies (lk_client l') (np_ProxyName m) = Some w' \<and> phase w' = ProxyPhaseRunning \<and>
    lk_read l' = length (pm_sent (lk_client l')) \<and> svc_ctls (lk_server l') i = Some c' \<and> lk_got l' = length (ct_sent c') \<and>
    ct_pending c' = None \<and> fmlookup (ct_proxies c') (np_ProxyName m) = None"
proof -
  let ?a = "NewProxyResp (np_ProxyName m) (Inl (PluginError []))"
  obtain l1 where l1: "link_reach ok cfg errText True i l1" "lk_client l1 = lk_client l" "lk_got l1 = lk_got l" "lk_read l1 = Suc (lk_read l)"
      "svc_ctls (lk_server l1) i = Some (send ?a c)"
    using reject_step [OF assms(1-4) _ assms(6,12), of "[]"] assms(5) by auto
  obtain l2 where l2: "link_reach ok cfg errText True i l2" "lk_client l2 = handleAnswer errText True 0 None ?a (lk_client l)"
      "lk_got l2 = Suc (lk_got l)" "lk_read l2 = Suc (lk_read l)" "lk_server l2 = lk_server l1"
    using answer_step [OF l1(1,5), of ?a 0 None] l1 assms(7) by (auto simp: send_def)
  have "respError errText True (np_ProxyName m) (Inl (PluginError [])) = []"
    using assms(11) by (simp add: respError_def GenerateResponseErrorString_def)
  from answer_starts [OF assms(9,10) this] show ?thesis
    using l1 l2 assms(4,5,7,8) by (intro exI [of _ l2]) (auto simp: send_def)
qed

theorem silent_rejection_runs_witness:
  "\<exists>l' w' c'. link_reach (systemOk True) sampleSetup (\<lambda>e. case e of PluginError s \<Rightarrow> s | _ \<Rightarrow> ''error'') True 0 l' \<and>
     pm_proxies (lk_client l') ''web'' = Some w' \<and> phase w' = ProxyPhaseRunning \<and>
     svc_ctls (lk_server l') 0 = Some c' \<and> fmlookup (ct_proxies c') ''web'' = None"
proof -
  let ?e = "\<lambda>e. case e of PluginError s \<Rightarrow> s | _ \<Rightarrow> ''error''"
  have c: "svc_ctls (lk_server webAsked) 0 = Some (sampleSess ''r1'')" "ct_sent (sampleSess ''r1'') = [LoginResp ''r1'']" "lk_got webAsked = 0"
      "ct_phase (sampleSess ''r1'') = Started" "ct_pending (sampleSess ''r1'') = None" "ct_proxies (sampleSess ''r1'') = fmempty"
    by (simp_all add: webAsked_def webLink_def webServer_def sampleSess_def freshCtl_def)
  obtain l where l: "link_reach (systemOk True) sampleSetup ?e True 0 l" "lk_client l = lk_client webAsked" "lk_got l = 1"
      "lk_read l = lk_read webAsked" "lk_server l = lk_server webAsked"
    using login_read [OF webAsked_reach [of "systemOk True" ?e True] c(1-3)] by blast
  have client: "lk_client l = webManager" "lk_read l = 0" by (simp_all add: l(2,4) webAsked_def webLink_def)
  have m: "lk_read l + 1 = length (pm_sent (lk_client l))" "pm_sent (lk_client l) ! lk_read l = SendNewProxy webMsg" "np_ProxyName webMsg = ''web''"
      "pm_proxies (lk_client l) ''web'' = Some webWaiting"
    by (simp_all add: client webManager_def webMsg_def)
  have "systemOk True sampleEnv (svc_res (lk_server l))"
    using sampleEnv_ok by (simp add: l(5) webAsked_def webLink_def webServer_def newService_def sampleResources_def)
  then show ?thesis
    using silent_rejection_runs [of "systemOk True" sampleSetup ?e 0 l "sampleSess ''r1''" webMsg webWaiting sampleEnv]
      l(1,3,5) c m webWaiting_phase(1) by auto
qed

text \<open>
  An answer is matched with its proxy by name alone. When a proxy is closed and registered again while the first answer is on
  its way, that answer starts the second one, and the error that the second registration meets is ignored: everything is
  handled, frpc shows the proxy as running, and frps does not have it.
\<close>

lemma stale_answer_runs:
  assumes "link_reach (systemOk t) cfg errText detailed i l" and "0 \<notin> AllowPorts cfg"
    and "svc_ctls (lk_server l) i = Some c" and "ct_phase c = Started" and "ct_pending c = None"
    and "lk_read l + 2 = length (pm_sent (lk_client l))" and "pm_sent (lk_client l) ! lk_read l = SendCloseProxy (np_ProxyName m)"
    and "pm_sent (lk_client l) ! (lk_read l + 1) = SendNewProxy m"
    and "lk_got l + 1 = length (ct_sent c)" and "ct_sent c ! lk_got l = NewProxyResp (np_ProxyName m) (Inr a)"
    and "pm_proxies (lk_client l) (np_ProxyName m) = Some w" and "phase w = ProxyPhaseWaitStart"
    and "systemOk t env (svc_res (CloseCtlProxy cfg now i c (np_ProxyName m) (lk_server l)))"
  shows "\<exists>l' w' c'. link_reach (systemOk t) cfg errText detailed i l' \<and>
    pm_proxies (lk_client l') (np_ProxyName m) = Some w' \<and> phase w' = ProxyPhaseRunning \<and>
    lk_read l' = length (pm_sent (lk_client l')) \<and> svc_ctls (lk_server l') i = Some c' \<and> lk_got l' = length (ct_sent c') \<and>
    ct_pending c' = None \<and> fmlookup (ct_proxies c') (np_ProxyName m) = None"
proof -
  let ?n = "np_ProxyName m" let ?s1 = "CloseCtlProxy cfg now i c (np_ProxyName m) (lk_server l)"
  let ?l1 = "l\<lparr> lk_server := ?s1, lk_read := lk_read l + 1 \<rparr>"
  let ?bad = "NewProxyResp ?n (Inl (PluginError ''quota''))" let ?good = "NewProxyResp ?n (Inr a)"
  have r1: "link_reach (systemOk t) cfg errText detailed i ?l1"
    by (rule link_reach.step [OF assms(1)], intro link_step.close [OF assms(3-5) _ assms(7)]) (use assms(6) in simp)
  obtain c1 where c1: "svc_ctls ?s1 i = Some c1"
      "(\<exists>f. ct_phase c1 = Stuck f) \<or>
       ct_phase c1 = ct_phase c \<and> ct_pending c1 = ct_pending c \<and> ct_sent c1 = ct_sent c \<and> ct_proxies c1 = fmdrop ?n (ct_proxies c)"
    using CloseCtlProxy_cases [OF assms(3), of cfg now ?n] by blast
  have "noStuck ?s1" using own_parts(3) [OF link_svc [OF r1] assms(2)] by simp
  then have f: "ct_phase c1 = Started" "ct_pending c1 = None" "ct_sent c1 = ct_sent c" "ct_proxies c1 = fmdrop ?n (ct_proxies c)"
    using c1 assms(4,5) unfolding noStuck_def by auto
  obtain l2 where l2: "link_reach (systemOk t) cfg errText detailed i l2" "lk_client l2 = lk_client l" "lk_got l2 = lk_got l"
      "lk_read l2 = Suc (Suc (lk_read l))" "svc_ctls (lk_server l2) i = Some (send ?bad c1)"
    using reject_step [OF r1, of c1 m env "''quota''"] c1(1) f(1,2) assms(6,8,13) by auto
  obtain l3 where l3: "link_reach (systemOk t) cfg errText detailed i l3" "lk_client l3 = handleAnswer errText detailed 0 None ?good (lk_client l)"
      "lk_got l3 = Suc (lk_got l)" "lk_read l3 = lk_read l2" "lk_server l3 = lk_server l2"
    using answer_step [OF l2(1,5), of ?good 0 None] l2(2,3) f(3) assms(9,10) by (auto simp: send_def nth_append)
  obtain w' where w': "pm_proxies (lk_client l3) ?n = Some w'" "phase w' = ProxyPhaseRunning" "pm_sent (lk_client l3) = pm_sent (lk_client l)"
    using answer_starts [OF assms(11,12), of errText detailed "Inr a" 0] by (auto simp: l3(2) respError_def)
  have sent: "ct_sent (send ?bad c1) = ct_sent c @ [?bad]" by (simp add: send_def f(3))
  have "svc_ctls (lk_server l3) i = Some (send ?bad c1)" using l2(5) l3(5) by simp
  from answer_step [OF l3(1) this, of ?bad 0 None] obtain l4 where l4: "link_reach (systemOk t) cfg errText detailed i l4"
      "lk_client l4 = handleAnswer errText detailed 0 None ?bad (lk_client l3)" "lk_got l4 = Suc (lk_got l3)" "lk_read l4 = lk_read l3"
      "lk_server l4 = lk_server l3"
    using l3(3) assms(9) by (auto simp: sent nth_append)
  note ign = answer_ignored [OF w'(1,2), of errText detailed 0 None]
  have "lk_got l4 = length (ct_sent (send ?bad c1))" using l3(3) l4(3) assms(9) by (simp add: sent)
  moreover have "lk_read l4 = length (pm_sent (lk_client l4))" using l2(4) l3(4) l4(2,4) assms(6) w'(3) ign(2) by simp
  ultimately show ?thesis
    using l4(1,2) ign(1) w'(2) l2(5) l3(5) l4(5) f(2,4) by (intro exI [of _ l4] exI [of _ w'] exI [of _ "send ?bad c1"]) simp
qed

end
