(* ===== verification/Backoff.thy ===== *)
theory Backoff
  imports Prelude
begin

text \<open>
  How long frpc waits before it logs in again, \<^verbatim>\<open>keepControllerWorking\<close> of \<^verbatim>\<open>client/service.go\<close>: between controls, with a
  delay that doubles within a minute, and between attempts that fail, with one that doubles up to a bound.
  Durations are in nanoseconds; the random numbers and the clock are parameters.
\<close>

definition sec :: int where "sec = 1000000000"

text \<open>The ratios are in thousandths; \<open>rnd\<close> is the random number, below the length of the range.\<close>

definition RandomSleep :: "int \<Rightarrow> int \<Rightarrow> int \<Rightarrow> int \<Rightarrow> int" where
  "RandomSleep duration mn mx rnd = (let n = (if mx \<le> mn then mn else rnd + mn) in goQuot (duration * n) 1000)"

definition rndOk :: "int \<Rightarrow> int \<Rightarrow> int \<Rightarrow> bool" where
  "rndOk mn mx rnd \<longleftrightarrow> mn < mx \<longrightarrow> 0 \<le> rnd \<and> rnd < mx - mn"

record backoff =
  bo_cutoffTime :: int
  bo_reconnectDelay :: int
  bo_reconnectCounts :: int
  bo_delayTime :: int

definition newBackoff :: "int \<Rightarrow> backoff" where
  "newBackoff now = \<lparr> bo_cutoffTime = now + 60 * sec, bo_reconnectDelay = sec, bo_reconnectCounts = 1, bo_delayTime = sec \<rparr>"

text \<open>A control has ended: the sleep, and what is counted. \<open>now\<close> is the time after the sleep.\<close>

definition reconnectSleep :: "int \<Rightarrow> backoff \<Rightarrow> int" where
  "reconnectSleep rnd b =
     (if bo_reconnectCounts b > 3 then RandomSleep (bo_reconnectDelay b) 900 1100 rnd else RandomSleep sec 0 500 rnd)"

definition reconnectCount :: "int \<Rightarrow> backoff \<Rightarrow> backoff" where
  "reconnectCount now b =
     (let b1 = (if bo_reconnectCounts b > 3 then b\<lparr> bo_reconnectDelay := bo_reconnectDelay b * 2 \<rparr> else b);
          b2 = b1\<lparr> bo_reconnectCounts := bo_reconnectCounts b1 + 1 \<rparr> in
      if now > bo_cutoffTime b2
      then b2\<lparr> bo_cutoffTime := now + 60 * sec, bo_reconnectDelay := sec, bo_reconnectCounts := 1 \<rparr> else b2)"

text \<open>An attempt that fails, with its sleep, and one that succeeds.\<close>

definition failSleep :: "int \<Rightarrow> backoff \<Rightarrow> int" where
  "failSleep rnd b = RandomSleep (bo_delayTime b) 900 1100 rnd"

definition loginFailed :: "backoff \<Rightarrow> backoff" where
  "loginFailed b = (let d = bo_delayTime b * 2 in b\<lparr> bo_delayTime := (if d > 20 * sec then 20 * sec else d) \<rparr>)"

definition loginSucceeded :: "backoff \<Rightarrow> backoff" where
  "loginSucceeded b = b\<lparr> bo_delayTime := sec \<rparr>"

lemmas backoff_defs [go_defs] =
  RandomSleep_def newBackoff_def reconnectSleep_def reconnectCount_def failSleep_def loginFailed_def loginSucceeded_def

text \<open>
  The loop with the time: controls end at any later time, and the clock after a sleep has advanced by at least
  the sleep.
\<close>

inductive backoff_run :: "int \<Rightarrow> int \<Rightarrow> backoff \<Rightarrow> bool" for t0 where
  start: "backoff_run t0 t0 (newBackoff t0)"
| ended: "backoff_run t0 t b \<Longrightarrow> t \<le> woken \<Longrightarrow>
    (if bo_reconnectCounts b > 3 then rndOk 900 1100 rnd else rndOk 0 500 rnd) \<Longrightarrow>
    woken + reconnectSleep rnd b \<le> now \<Longrightarrow> backoff_run t0 now (reconnectCount now b)"
| failed: "backoff_run t0 t b \<Longrightarrow> rndOk 900 1100 rnd \<Longrightarrow> t + failSleep rnd b \<le> now \<Longrightarrow> backoff_run t0 now (loginFailed b)"
| succeeded: "backoff_run t0 t b \<Longrightarrow> t \<le> now \<Longrightarrow> backoff_run t0 now (loginSucceeded b)"

section \<open>Lemmas\<close>

lemma RandomSleep_bounds:
  assumes "0 \<le> e" and "0 \<le> mn" and "mn < mx" and "rndOk mn mx rnd"
  shows "e * mn \<le> RandomSleep (1000 * e) mn mx rnd" "RandomSleep (1000 * e) mn mx rnd \<le> e * mx"
proof -
  let ?n = "rnd + mn"
  have n: "mn \<le> ?n" "?n \<le> mx" using assms(3,4) by (auto simp: rndOk_def)
  have "RandomSleep (1000 * e) mn mx rnd = goQuot (1000 * e * ?n) 1000" using assms(3) by (simp add: RandomSleep_def)
  also have "\<dots> = e * ?n" using goQuot_mult [of 1000 "e * ?n"] by (simp add: mult_ac)
  finally have s: "RandomSleep (1000 * e) mn mx rnd = e * ?n" .
  show "e * mn \<le> RandomSleep (1000 * e) mn mx rnd" "RandomSleep (1000 * e) mn mx rnd \<le> e * mx"
    unfolding s using n assms(1) by (simp_all add: mult_left_mono)
qed

lemma sleep_bounds:
  assumes "0 \<le> m" and "rndOk 900 1100 rnd"
  shows "9 * (m * sec) \<le> 10 * RandomSleep (m * sec) 900 1100 rnd" "10 * RandomSleep (m * sec) 900 1100 rnd \<le> 11 * (m * sec)"
proof -
  have e: "m * sec = 1000 * (m * 1000000)" by (simp add: sec_def)
  have "0 \<le> m * 1000000" using assms(1) by simp
  from RandomSleep_bounds [OF this _ _ assms(2)]
  have "m * 1000000 * 900 \<le> RandomSleep (m * sec) 900 1100 rnd" "RandomSleep (m * sec) 900 1100 rnd \<le> m * 1000000 * 1100"
    unfolding e by simp_all
  then show "9 * (m * sec) \<le> 10 * RandomSleep (m * sec) 900 1100 rnd" "10 * RandomSleep (m * sec) 900 1100 rnd \<le> 11 * (m * sec)"
    by (simp_all add: sec_def)
qed

lemma short_sleep: "rndOk 0 500 rnd \<Longrightarrow> 0 \<le> RandomSleep sec 0 500 rnd \<and> 2 * RandomSleep sec 0 500 rnd \<le> sec"
  using RandomSleep_bounds [of 1000000 0 500 rnd] by (simp add: sec_def)

text \<open>
  The delay is a power of two, and the time since the counts were reset is at least nine tenths of the
  sum of the delays before it.
\<close>

definition backoffInv :: "int \<Rightarrow> backoff \<Rightarrow> bool" where
  "backoffInv t b \<longleftrightarrow>
     (\<exists>k. bo_reconnectDelay b = 2 ^ k * sec \<and> bo_reconnectCounts b \<le> 4 + int k \<and> (0 < k \<longrightarrow> bo_reconnectCounts b = 4 + int k)) \<and>
     1 \<le> bo_reconnectCounts b \<and> 9 * (bo_reconnectDelay b - sec) \<le> 10 * (t - (bo_cutoffTime b - 60 * sec)) \<and>
     bo_cutoffTime b - 60 * sec \<le> t \<and> bo_reconnectDelay b \<le> 64 * sec \<and>
     bo_delayTime b \<in> {sec, 2 * sec, 4 * sec, 8 * sec, 16 * sec, 20 * sec}"

lemma power_le_64: "2 ^ k * sec \<le> 67 * sec \<Longrightarrow> 2 ^ k * sec \<le> 64 * sec \<and> k \<le> 6"
proof -
  assume "2 ^ k * sec \<le> 67 * sec"
  then have le: "(2::int) ^ k \<le> 67" by (simp add: sec_def)
  have "k \<le> 6"
  proof (rule ccontr)
    assume "\<not> k \<le> 6"
    then have "(2::int) ^ 7 \<le> 2 ^ k" by (intro power_increasing) simp_all
    then show False using le by simp
  qed
  then have "(2::int) ^ k \<le> 2 ^ 6" by (intro power_increasing) simp_all
  then show ?thesis using \<open>k \<le> 6\<close> by (simp add: sec_def)
qed

lemma backoffInv_ended:
  assumes "backoffInv t b" and "t \<le> woken" and "if bo_reconnectCounts b > 3 then rndOk 900 1100 rnd else rndOk 0 500 rnd"
    and "woken + reconnectSleep rnd b \<le> now"
  shows "backoffInv now (reconnectCount now b)"
proof -
  obtain k where k: "bo_reconnectDelay b = 2 ^ k * sec" "bo_reconnectCounts b \<le> 4 + int k" "0 < k \<longrightarrow> bo_reconnectCounts b = 4 + int k"
    using assms(1) by (auto simp: backoffInv_def)
  have I: "1 \<le> bo_reconnectCounts b" "9 * (bo_reconnectDelay b - sec) \<le> 10 * (t - (bo_cutoffTime b - 60 * sec))"
      "bo_cutoffTime b - 60 * sec \<le> t" "bo_delayTime b \<in> {sec, 2 * sec, 4 * sec, 8 * sec, 16 * sec, 20 * sec}"
    using assms(1) by (auto simp: backoffInv_def)
  show ?thesis
  proof (cases "now > bo_cutoffTime b")
    case True
    then have b': "reconnectCount now b = b\<lparr> bo_cutoffTime := now + 60 * sec, bo_reconnectDelay := sec, bo_reconnectCounts := 1 \<rparr>"
      by (simp add: reconnectCount_def Let_def)
    show ?thesis unfolding b' backoffInv_def using I(4) by (auto simp: sec_def intro!: exI [of _ 0])
  next
    case early: False
    show ?thesis
    proof (cases "bo_reconnectCounts b > 3")
      case True
      let ?b = "b\<lparr> bo_reconnectDelay := bo_reconnectDelay b * 2, bo_reconnectCounts := bo_reconnectCounts b + 1 \<rparr>"
      have b': "reconnectCount now b = ?b" using True early by (simp add: reconnectCount_def Let_def)
      have slept: "9 * (2 ^ k * sec) \<le> 10 * reconnectSleep rnd b"
        using True assms(3) sleep_bounds(1) [of "2 ^ k" rnd] by (simp add: reconnectSleep_def k(1))
      have e: "9 * (2 ^ Suc k * sec - sec) \<le> 10 * (now - (bo_cutoffTime b - 60 * sec))"
        using slept I(2) assms(2,4) by (simp add: k(1))
      then have "2 ^ Suc k * sec \<le> 67 * sec" using early by (simp add: sec_def)
      then have "2 ^ Suc k * sec \<le> 64 * sec" using power_le_64 by blast
      moreover have "0 \<le> reconnectSleep rnd b"
      proof -
        have "(0::int) \<le> 9 * (2 ^ k * sec)" by (simp add: sec_def)
        then show ?thesis using slept by linarith
      qed
      moreover have "bo_reconnectCounts b + 1 = 4 + int (Suc k)" using k(2,3) True by (cases "k = 0") auto
      ultimately show ?thesis
        unfolding b' backoffInv_def using I e assms(2,4) k(1) by (auto intro!: exI [of _ "Suc k"])
    next
      case False
      let ?b = "b\<lparr> bo_reconnectCounts := bo_reconnectCounts b + 1 \<rparr>"
      have b': "reconnectCount now b = ?b" using False early by (simp add: reconnectCount_def Let_def)
      have "k = 0" using k(3) False by auto
      moreover have "0 \<le> reconnectSleep rnd b" using False assms(3) short_sleep by (simp add: reconnectSleep_def)
      ultimately show ?thesis unfolding b' backoffInv_def using I k(1) False assms(2,4) by (auto simp: sec_def intro!: exI [of _ 0])
    qed
  qed
qed

lemma backoffInv_later: "backoffInv t b \<Longrightarrow> t \<le> now \<Longrightarrow> backoffInv now b"
  by (auto simp: backoffInv_def)

lemma backoffInv_delay:
  "backoffInv t b \<Longrightarrow> d \<in> {sec, 2 * sec, 4 * sec, 8 * sec, 16 * sec, 20 * sec} \<Longrightarrow> backoffInv t (b\<lparr> bo_delayTime := d \<rparr>)"
  by (simp add: backoffInv_def)

lemma failSleep_nonneg: "backoffInv t b \<Longrightarrow> rndOk 900 1100 rnd \<Longrightarrow> 0 \<le> failSleep rnd b \<and> failSleep rnd b \<le> 22 * sec"
proof -
  assume "backoffInv t b" and r: "rndOk 900 1100 rnd"
  then obtain m where m: "bo_delayTime b = m * sec" "1 \<le> m" "m \<le> 20" by (auto simp: backoffInv_def sec_def)
  show ?thesis using sleep_bounds [of m rnd] m r by (simp add: failSleep_def sec_def)
qed

lemma backoff_run_inv: "backoff_run t0 t b \<Longrightarrow> backoffInv t b"
proof (induction rule: backoff_run.induct)
  case start
  then show ?case by (auto simp: backoffInv_def newBackoff_def sec_def intro!: exI [of _ 0])
next
  case (ended t b woken rnd now)
  then show ?case using backoffInv_ended by blast
next
  case (failed t b rnd now)
  then have "backoffInv now b" using failSleep_nonneg [OF failed.IH failed.hyps(2)] backoffInv_later [OF failed.IH] by simp
  moreover have "bo_delayTime (loginFailed b) \<in> {sec, 2 * sec, 4 * sec, 8 * sec, 16 * sec, 20 * sec}"
    using failed.IH by (auto simp: backoffInv_def loginFailed_def Let_def sec_def)
  ultimately show ?case using backoffInv_delay by (simp add: loginFailed_def Let_def)
next
  case (succeeded t b now)
  then show ?case using backoffInv_later backoffInv_delay by (simp add: loginSucceeded_def)
qed

section \<open>Properties\<close>

text \<open>
  C34: the waits are bounded, and so is the number of sessions. In every run, frpc sleeps at most 70.4 seconds after a
  session has ended and at most 22 seconds after a login that failed. The counts are reset with the first session that
  ends more than a minute after the last reset, and before that at most nine sessions end.
\<close>

theorem backoff_bounded:
  assumes "backoff_run t0 t b"
  shows "bo_reconnectCounts b \<le> 10 \<and>
    (\<forall>rnd. (if bo_reconnectCounts b > 3 then rndOk 900 1100 rnd else rndOk 0 500 rnd) \<longrightarrow>
      0 \<le> reconnectSleep rnd b \<and> 10 * reconnectSleep rnd b \<le> 704 * sec) \<and>
    (\<forall>rnd. rndOk 900 1100 rnd \<longrightarrow> 0 \<le> failSleep rnd b \<and> failSleep rnd b \<le> 22 * sec) \<and>
    (\<forall>now. bo_cutoffTime b < now \<longrightarrow> bo_reconnectCounts (reconnectCount now b) = 1)"
proof -
  note inv = backoff_run_inv [OF assms]
  obtain k where k: "bo_reconnectDelay b = 2 ^ k * sec" "bo_reconnectCounts b \<le> 4 + int k" "2 ^ k * sec \<le> 64 * sec"
    using inv by (auto simp: backoffInv_def)
  then have "k \<le> 6" using power_le_64 [of k] by (simp add: sec_def)
  have "0 \<le> reconnectSleep rnd b \<and> 10 * reconnectSleep rnd b \<le> 704 * sec"
    if r: "if bo_reconnectCounts b > 3 then rndOk 900 1100 rnd else rndOk 0 500 rnd" for rnd
  proof (cases "bo_reconnectCounts b > 3")
    case True
    then have s: "9 * (2 ^ k * sec) \<le> 10 * reconnectSleep rnd b" "10 * reconnectSleep rnd b \<le> 11 * (2 ^ k * sec)"
      using r sleep_bounds [of "2 ^ k" rnd] by (simp_all add: reconnectSleep_def k(1))
    have "0 \<le> 2 ^ k * sec" by (simp add: sec_def)
    then show ?thesis using s k(3) by linarith
  next
    case False
    then show ?thesis using r short_sleep [of rnd] by (simp add: reconnectSleep_def sec_def)
  qed
  moreover have "bo_reconnectCounts (reconnectCount now b) = 1" if "bo_cutoffTime b < now" for now
    using that by (simp add: reconnectCount_def Let_def)
  ultimately show ?thesis using k(2) \<open>k \<le> 6\<close> failSleep_nonneg [OF inv] by auto
qed

theorem backoff_bounded_witness: "10 * reconnectSleep 7 (reconnectCount sec (newBackoff 0)) \<le> 704 * sec"
proof -
  have "rndOk 0 500 0" by (simp add: rndOk_def)
  then have "backoff_run 0 sec (reconnectCount sec (newBackoff 0))"
    by (intro backoff_run.ended [OF backoff_run.start, of 0 0 0]) (simp_all add: newBackoff_def reconnectSleep_def RandomSleep_def goQuot_def sec_def)
  moreover have "\<not> bo_reconnectCounts (reconnectCount sec (newBackoff 0)) > 3" by (simp add: newBackoff_def reconnectCount_def Let_def)
  moreover have "rndOk 0 500 7" by (simp add: rndOk_def)
  ultimately show ?thesis using backoff_bounded by (metis (full_types))
qed

end
