(* ===== verification/Visitors.thy ===== *)
theory Visitors
  imports ProxyConf
begin

text \<open>
  The visitors of frpc: their configurations (\<^verbatim>\<open>pkg/config/visitor.go\<close>) and their manager
  (\<^verbatim>\<open>client/visitor_manager.go\<close>), which opens a local socket for each and closes it when the visitor goes. The
  sockets that the system has bound are shared with all other programs; which addresses the
  system lets a program listen on is a parameter.
\<close>

section \<open>Configurations\<close>

record visitor_base =
  vb_ProxyName :: string
  vb_ProxyType :: string
  vb_UseEncryption :: bool
  vb_UseCompression :: bool
  vb_Role :: string
  vb_Sk :: string
  vb_ServerName :: string
  vb_BindAddr :: string
  vb_BindPort :: int

datatype visitor_conf = STCPVisitorConf visitor_base | XTCPVisitorConf visitor_base | SUDPVisitorConf visitor_base

fun visitorBase :: "visitor_conf \<Rightarrow> visitor_base" where
  "visitorBase (STCPVisitorConf b) = b"
| "visitorBase (XTCPVisitorConf b) = b"
| "visitorBase (SUDPVisitorConf b) = b"

fun mapVisitor :: "(visitor_base \<Rightarrow> visitor_base) \<Rightarrow> visitor_conf \<Rightarrow> visitor_conf" where
  "mapVisitor f (STCPVisitorConf b) = STCPVisitorConf (f b)"
| "mapVisitor f (XTCPVisitorConf b) = XTCPVisitorConf (f b)"
| "mapVisitor f (SUDPVisitorConf b) = SUDPVisitorConf (f b)"

definition zeroVisitor :: visitor_base where
  "zeroVisitor = \<lparr> vb_ProxyName = [], vb_ProxyType = [], vb_UseEncryption = False, vb_UseCompression = False, vb_Role = [],
     vb_Sk = [], vb_ServerName = [], vb_BindAddr = [], vb_BindPort = 0 \<rparr>"

definition DefaultVisitorConf :: "string \<Rightarrow> visitor_conf option" where
  "DefaultVisitorConf ty =
     (if ty = ''stcp'' then Some (STCPVisitorConf zeroVisitor)
      else if ty = ''xtcp'' then Some (XTCPVisitorConf zeroVisitor)
      else if ty = ''sudp'' then Some (SUDPVisitorConf zeroVisitor)
      else None)"

definition baseVisitorCompare :: "visitor_base \<Rightarrow> visitor_base \<Rightarrow> bool" where
  "baseVisitorCompare cfg cmp =
     (if vb_ProxyName cfg \<noteq> vb_ProxyName cmp \<or> vb_ProxyType cfg \<noteq> vb_ProxyType cmp \<or>
         vb_UseEncryption cfg \<noteq> vb_UseEncryption cmp \<or> vb_UseCompression cfg \<noteq> vb_UseCompression cmp \<or>
         vb_Role cfg \<noteq> vb_Role cmp \<or> vb_Sk cfg \<noteq> vb_Sk cmp \<or> vb_ServerName cfg \<noteq> vb_ServerName cmp \<or>
         vb_BindAddr cfg \<noteq> vb_BindAddr cmp \<or> vb_BindPort cfg \<noteq> vb_BindPort cmp
      then False else True)"

fun visitorCompare :: "visitor_conf \<Rightarrow> visitor_conf \<Rightarrow> bool" where
  "visitorCompare (STCPVisitorConf b) (STCPVisitorConf b') = baseVisitorCompare b b'"
| "visitorCompare (XTCPVisitorConf b) (XTCPVisitorConf b') = baseVisitorCompare b b'"
| "visitorCompare (SUDPVisitorConf b) (SUDPVisitorConf b') = baseVisitorCompare b b'"
| "visitorCompare _ _ = False"

datatype visitor_conf_error =
  VisitorTypeEmpty string | VisitorType string string | InvalidRole | NoBindAddr | NoBindPort

definition visitorCheck :: "visitor_base \<Rightarrow> visitor_conf_error option" where
  "visitorCheck b =
     (if vb_Role b \<noteq> ''visitor'' then Some InvalidRole
      else if vb_BindAddr b = [] then Some NoBindAddr
      else if vb_BindPort b \<le> 0 then Some NoBindPort
      else None)"

definition visitorFromIni :: "string \<Rightarrow> string \<Rightarrow> visitor_base \<Rightarrow> visitor_base" where
  "visitorFromIni prefix name b =
     b\<lparr> vb_ProxyName := prefix @ name, vb_ServerName := prefix @ vb_ServerName b,
        vb_BindAddr := (if vb_BindAddr b = [] then ''127.0.0.1'' else vb_BindAddr b) \<rparr>"

text \<open>\<open>mapTo\<close> is the mapping of the keys of a section to the fields by the library.\<close>

type_synonym visitor_map = "ini_section \<Rightarrow> visitor_conf \<Rightarrow> (string, visitor_conf) result"

definition NewVisitorConfFromIni :: "visitor_map \<Rightarrow> string \<Rightarrow> string \<Rightarrow> ini_section \<Rightarrow> (visitor_conf_error, visitor_conf) result" where
  "NewVisitorConfFromIni mapTo prefix name sec =
     (let ty = (case map_of sec ''type'' of None \<Rightarrow> [] | Some t \<Rightarrow> t) in
      if ty = [] then Inl (VisitorTypeEmpty name)
      else (case DefaultVisitorConf ty of
          None \<Rightarrow> Inl (VisitorType name ty)
        | Some conf \<Rightarrow>
            (case mapTo sec conf of
               Inl e \<Rightarrow> Inl (VisitorType name ty)
             | Inr conf' \<Rightarrow>
                 let c = mapVisitor (visitorFromIni prefix name) conf' in
                 (case visitorCheck (visitorBase c) of Some e \<Rightarrow> Inl e | None \<Rightarrow> Inr c))))"

section \<open>Sockets\<close>

text \<open>A local address, with whether it is one of udp.\<close>

datatype sock = Sock bool string int

fun sockOf :: "visitor_conf \<Rightarrow> sock" where
  "sockOf (STCPVisitorConf b) = Sock False (vb_BindAddr b) (vb_BindPort b)"
| "sockOf (XTCPVisitorConf b) = Sock False (vb_BindAddr b) (vb_BindPort b)"
| "sockOf (SUDPVisitorConf b) = Sock True (vb_BindAddr b) (vb_BindPort b)"

text \<open>A visitor that runs, or ran and is closed; a second close does nothing.\<close>

record visitor =
  vi_conf :: visitor_conf
  vi_closed :: bool

definition visitorRun :: "(sock \<Rightarrow> bool) \<Rightarrow> visitor_conf \<Rightarrow> sock set \<Rightarrow> (visitor \<times> sock set) option" where
  "visitorRun listens cfg socks =
     (if sockOf cfg \<in> socks \<or> \<not> listens (sockOf cfg) then None
      else Some (\<lparr> vi_conf = cfg, vi_closed = False \<rparr>, insert (sockOf cfg) socks))"

definition closeVisitor :: "visitor \<Rightarrow> sock set \<Rightarrow> visitor \<times> sock set" where
  "closeVisitor v socks = (if vi_closed v then (v, socks) else (v\<lparr> vi_closed := True \<rparr>, socks - {sockOf (vi_conf v)}))"

section \<open>The manager\<close>

record visitors =
  vm_cfgs :: "string \<rightharpoonup> visitor_conf"
  vm_visitors :: "string \<rightharpoonup> visitor"
  vm_stopped :: bool

definition NewVisitors :: visitors where
  "NewVisitors = \<lparr> vm_cfgs = Map.empty, vm_visitors = Map.empty, vm_stopped = False \<rparr>"

definition startVisitor :: "(sock \<Rightarrow> bool) \<Rightarrow> visitor_conf \<Rightarrow> visitors \<times> sock set \<Rightarrow> visitors \<times> sock set" where
  "startVisitor listens cfg st =
     (case visitorRun listens cfg (snd st) of
        None \<Rightarrow> st
      | Some (v, socks) \<Rightarrow> ((fst st)\<lparr> vm_visitors := (vm_visitors (fst st))(vb_ProxyName (visitorBase cfg) \<mapsto> v) \<rparr>, socks))"

text \<open>A tick of the loop that starts what does not run; a range over a map takes its order as an argument.\<close>

fun visitorsTick :: "(sock \<Rightarrow> bool) \<Rightarrow> string list \<Rightarrow> visitors \<times> sock set \<Rightarrow> visitors \<times> sock set" where
  "visitorsTick listens [] st = st"
| "visitorsTick listens (n # ns) st =
     (case vm_cfgs (fst st) n of
        None \<Rightarrow> visitorsTick listens ns st
      | Some cfg \<Rightarrow> visitorsTick listens ns
          (if vm_visitors (fst st) (vb_ProxyName (visitorBase cfg)) = None then startVisitor listens cfg st else st))"

text \<open>The first loop of a reload, over the old configurations, and the second, over the new ones.\<close>

fun removeVisitors :: "(string \<rightharpoonup> visitor_conf) \<Rightarrow> string list \<Rightarrow> visitors \<times> sock set \<Rightarrow> visitors \<times> sock set" where
  "removeVisitors cfgs [] st = st"
| "removeVisitors cfgs (n # ns) (vm, socks) =
     (case vm_cfgs vm n of
        None \<Rightarrow> removeVisitors cfgs ns (vm, socks)
      | Some old \<Rightarrow>
          if (case cfgs n of None \<Rightarrow> True | Some cfg \<Rightarrow> \<not> visitorCompare old cfg)
          then removeVisitors cfgs ns
            (vm\<lparr> vm_cfgs := (vm_cfgs vm)(n := None), vm_visitors := (vm_visitors vm)(n := None) \<rparr>,
             case vm_visitors vm n of None \<Rightarrow> socks | Some v \<Rightarrow> snd (closeVisitor v socks))
          else removeVisitors cfgs ns (vm, socks))"

fun addVisitors :: "(sock \<Rightarrow> bool) \<Rightarrow> (string \<rightharpoonup> visitor_conf) \<Rightarrow> string list \<Rightarrow> visitors \<times> sock set \<Rightarrow> visitors \<times> sock set" where
  "addVisitors listens cfgs [] st = st"
| "addVisitors listens cfgs (n # ns) (vm, socks) =
     (case cfgs n of
        None \<Rightarrow> addVisitors listens cfgs ns (vm, socks)
      | Some cfg \<Rightarrow>
          if vm_cfgs vm n = None
          then addVisitors listens cfgs ns (startVisitor listens cfg (vm\<lparr> vm_cfgs := (vm_cfgs vm)(n \<mapsto> cfg) \<rparr>, socks))
          else addVisitors listens cfgs ns (vm, socks))"

definition visitorsReload ::
  "(sock \<Rightarrow> bool) \<Rightarrow> (string \<rightharpoonup> visitor_conf) \<Rightarrow> string list \<Rightarrow> string list \<Rightarrow> visitors \<times> sock set \<Rightarrow> visitors \<times> sock set" where
  "visitorsReload listens cfgs order1 order2 st = addVisitors listens cfgs order2 (removeVisitors cfgs order1 st)"

text \<open>Closing closes every visitor, but leaves it, and its configuration, in the maps.\<close>

fun closeAll :: "string list \<Rightarrow> visitors \<times> sock set \<Rightarrow> visitors \<times> sock set" where
  "closeAll [] st = st"
| "closeAll (n # ns) (vm, socks) =
     (case vm_visitors vm n of
        None \<Rightarrow> closeAll ns (vm, socks)
      | Some v \<Rightarrow> closeAll ns (vm\<lparr> vm_visitors := (vm_visitors vm)(n \<mapsto> fst (closeVisitor v socks)) \<rparr>, snd (closeVisitor v socks)))"

definition visitorsClose :: "string list \<Rightarrow> visitors \<times> sock set \<Rightarrow> visitors \<times> sock set" where
  "visitorsClose order st = (let (vm, socks) = closeAll order st in (vm\<lparr> vm_stopped := True \<rparr>, socks))"

lemmas visitor_defs [go_defs] =
  visitorRun_def closeVisitor_def startVisitor_def visitorsReload_def visitorsClose_def NewVisitors_def

lemma visitorCompare_eq: "visitorCompare c c' \<longleftrightarrow> c = c'"
  by (cases c; cases c') (auto simp: baseVisitorCompare_def)

section \<open>Steps\<close>

text \<open>
  A reload, a tick, which may also come after the manager is closed, a close, and what the other programs
  do with their sockets. \<open>others\<close> are their sockets.
\<close>

definition visitorsKeyed :: "(string \<rightharpoonup> visitor_conf) \<Rightarrow> bool" where
  "visitorsKeyed cfgs \<longleftrightarrow> (\<forall>n c. cfgs n = Some c \<longrightarrow> vb_ProxyName (visitorBase c) = n)"

definition rangeOver :: "string list \<Rightarrow> (string \<rightharpoonup> 'a) \<Rightarrow> bool" where
  "rangeOver order m \<longleftrightarrow> distinct order \<and> set order = dom m"

inductive vm_step :: "sock set \<Rightarrow> visitors \<times> sock set \<Rightarrow> sock set \<Rightarrow> visitors \<times> sock set \<Rightarrow> bool" where
  reload: "visitorsKeyed cfgs \<Longrightarrow> rangeOver order1 (vm_cfgs (fst st)) \<Longrightarrow> rangeOver order2 cfgs \<Longrightarrow>
    vm_step others st others (visitorsReload listens cfgs order1 order2 st)"
| tick: "rangeOver order (vm_cfgs (fst st)) \<Longrightarrow> vm_step others st others (visitorsTick listens order st)"
| close: "rangeOver order (vm_visitors (fst st)) \<Longrightarrow> vm_step others st others (visitorsClose order st)"
| bind: "s \<notin> snd st \<Longrightarrow> vm_step others st (insert s others) (fst st, insert s (snd st))"
| unbind: "s \<in> others \<Longrightarrow> vm_step others st (others - {s}) (fst st, snd st - {s})"

inductive vm_reach :: "sock set \<Rightarrow> visitors \<times> sock set \<Rightarrow> bool" where
  start: "vm_reach others (NewVisitors, others)"
| step: "vm_reach others st \<Longrightarrow> vm_step others st others' st' \<Longrightarrow> vm_reach others' st'"

section \<open>Invariant\<close>

definition openAt :: "visitors \<Rightarrow> string \<Rightarrow> sock \<Rightarrow> bool" where
  "openAt vm n s \<longleftrightarrow> (\<exists>v. vm_visitors vm n = Some v \<and> \<not> vi_closed v \<and> sockOf (vi_conf v) = s)"

definition ownSocks :: "visitors \<Rightarrow> sock set" where
  "ownSocks vm = {s. \<exists>n. openAt vm n s}"

definition visitorsInv :: "sock set \<Rightarrow> visitors \<times> sock set \<Rightarrow> bool" where
  "visitorsInv others st \<longleftrightarrow>
     (\<forall>n v. vm_visitors (fst st) n = Some v \<longrightarrow> vm_cfgs (fst st) n = Some (vi_conf v)) \<and>
     visitorsKeyed (vm_cfgs (fst st)) \<and>
     snd st = others \<union> ownSocks (fst st) \<and> others \<inter> ownSocks (fst st) = {} \<and>
     (\<forall>n m s. openAt (fst st) n s \<and> openAt (fst st) m s \<longrightarrow> n = m)"

lemma visitorsInvD:
  assumes "visitorsInv others (vm, socks)"
  shows "vm_visitors vm n = Some v \<Longrightarrow> vm_cfgs vm n = Some (vi_conf v)" "visitorsKeyed (vm_cfgs vm)"
    "socks = others \<union> ownSocks vm" "others \<inter> ownSocks vm = {}" "openAt vm n s \<Longrightarrow> openAt vm m s \<Longrightarrow> n = m"
    "openAt vm n s \<Longrightarrow> s \<notin> others"
  using assms unfolding visitorsInv_def ownSocks_def fst_conv snd_conv by blast+

lemma openAt_upd:
  "openAt (vm\<lparr> vm_cfgs := c, vm_visitors := (vm_visitors vm)(k := x) \<rparr>) n s \<longleftrightarrow>
     (if n = k then \<exists>v. x = Some v \<and> \<not> vi_closed v \<and> sockOf (vi_conf v) = s else openAt vm n s)"
  "openAt (vm\<lparr> vm_visitors := (vm_visitors vm)(k := x) \<rparr>) n s \<longleftrightarrow>
     (if n = k then \<exists>v. x = Some v \<and> \<not> vi_closed v \<and> sockOf (vi_conf v) = s else openAt vm n s)"
  "openAt (vm\<lparr> vm_cfgs := c \<rparr>) n s \<longleftrightarrow> openAt vm n s" "openAt (vm\<lparr> vm_stopped := b \<rparr>) n s \<longleftrightarrow> openAt vm n s"
  by (auto simp: openAt_def)

lemma startVisitor_inv:
  assumes "visitorsInv others (vm, socks)" and "vm_cfgs vm n = Some cfg" and "vm_visitors vm n = None"
    and "startVisitor listens cfg (vm, socks) = st"
  shows "visitorsInv others st" "vm_cfgs (fst st) = vm_cfgs vm" "vm_stopped (fst st) = vm_stopped vm"
    "m \<noteq> n \<Longrightarrow> vm_visitors (fst st) m = vm_visitors vm m"
    "vm_visitors (fst st) n = (if sockOf cfg \<in> socks \<or> \<not> listens (sockOf cfg) then None else Some \<lparr> vi_conf = cfg, vi_closed = False \<rparr>)"
proof -
  note I = visitorsInvD [OF assms(1)]
  have name: "vb_ProxyName (visitorBase cfg) = n" using I(2) assms(2) by (simp add: visitorsKeyed_def)
  show "visitorsInv others st"
  proof (cases "sockOf cfg \<in> socks \<or> \<not> listens (sockOf cfg)")
    case True
    then show ?thesis using assms(1,4) by (simp add: startVisitor_def visitorRun_def split: if_splits)
  next
    case False
    let ?vm = "vm\<lparr> vm_visitors := (vm_visitors vm)(n \<mapsto> \<lparr> vi_conf = cfg, vi_closed = False \<rparr>) \<rparr>"
    have st: "st = (?vm, insert (sockOf cfg) socks)" using False assms(4) name by (auto simp: startVisitor_def visitorRun_def)
    have at: "openAt ?vm m s \<longleftrightarrow> (if m = n then s = sockOf cfg else openAt vm m s)" for m s by (auto simp: openAt_upd)
    have none: "\<not> openAt vm n s" for s using assms(3) by (simp add: openAt_def)
    have own: "ownSocks ?vm = insert (sockOf cfg) (ownSocks vm)"
      using none unfolding ownSocks_def at by (auto intro: exI [of _ n]) (metis)
    have new: "sockOf cfg \<notin> others" "\<not> openAt vm m (sockOf cfg)" for m using False I(3) by (auto simp: ownSocks_def)
    show ?thesis
      unfolding visitorsInv_def st fst_conv snd_conv own at
      using I assms(2) new by (auto split: if_splits)
  qed
  show "vm_cfgs (fst st) = vm_cfgs vm" "vm_stopped (fst st) = vm_stopped vm"
    "m \<noteq> n \<Longrightarrow> vm_visitors (fst st) m = vm_visitors vm m"
    "vm_visitors (fst st) n = (if sockOf cfg \<in> socks \<or> \<not> listens (sockOf cfg) then None else Some \<lparr> vi_conf = cfg, vi_closed = False \<rparr>)"
    using assms(3,4) name by (auto simp: startVisitor_def visitorRun_def split: if_splits)
qed

text \<open>Closing the visitor of a name, whether it is removed or stays.\<close>

lemma closeVisitor_inv:
  assumes "visitorsInv others (vm, socks)" and "vm_visitors vm n = Some v" and "x = None \<or> x = Some (fst (closeVisitor v socks))"
    and "cfgs = vm_cfgs vm \<or> cfgs = (vm_cfgs vm)(n := None) \<and> x = None"
  shows "visitorsInv others (vm\<lparr> vm_cfgs := cfgs, vm_visitors := (vm_visitors vm)(n := x) \<rparr>, snd (closeVisitor v socks))"
proof -
  note I = visitorsInvD [OF assms(1)]
  let ?vm = "vm\<lparr> vm_cfgs := cfgs, vm_visitors := (vm_visitors vm)(n := x) \<rparr>"
  have closed: "x = Some w \<Longrightarrow> vi_closed w \<and> vi_conf w = vi_conf v" for w using assms(3) by (auto simp: closeVisitor_def)
  have at: "openAt ?vm m s \<longleftrightarrow> m \<noteq> n \<and> openAt vm m s" for m s using closed by (cases x) (simp_all add: openAt_upd)
  have was: "openAt vm n s \<longleftrightarrow> \<not> vi_closed v \<and> s = sockOf (vi_conf v)" for s using assms(2) by (auto simp: openAt_def)
  have others_n: "openAt vm m (sockOf (vi_conf v)) \<Longrightarrow> \<not> vi_closed v \<Longrightarrow> m = n" for m using I(5) was by blast
  have own: "ownSocks ?vm = (if vi_closed v then ownSocks vm else ownSocks vm - {sockOf (vi_conf v)})"
  proof (cases "vi_closed v")
    case True
    then have "\<not> openAt vm n s" for s by (simp add: was)
    then have "m \<noteq> n \<and> openAt vm m s \<longleftrightarrow> openAt vm m s" for m s by auto
    then show ?thesis using True by (simp add: ownSocks_def at)
  next
    case False
    then have "(\<exists>m. m \<noteq> n \<and> openAt vm m s) \<longleftrightarrow> (\<exists>m. openAt vm m s) \<and> s \<noteq> sockOf (vi_conf v)" for s
      using was [of s] others_n by metis
    then show ?thesis using False by (auto simp: ownSocks_def at)
  qed
  have "\<not> vi_closed v \<Longrightarrow> sockOf (vi_conf v) \<notin> others" using was I(6) by blast
  then have "snd (closeVisitor v socks) = others \<union> ownSocks ?vm" using I(3) by (auto simp: own closeVisitor_def)
  moreover have "others \<inter> ownSocks ?vm = {}" using I(4) by (auto simp: own)
  moreover have "openAt ?vm a s \<and> openAt ?vm b s \<longrightarrow> a = b" for a b s unfolding at using I(5) by blast
  moreover have "vm_visitors ?vm m = Some w \<longrightarrow> vm_cfgs ?vm m = Some (vi_conf w)" for m w
  proof (cases "m = n")
    case True
    then show ?thesis using I(1) [OF assms(2)] assms(4) closed [of w] by auto
  next
    case False
    then show ?thesis using I(1) [of m w] assms(4) by auto
  qed
  moreover have "visitorsKeyed (vm_cfgs ?vm)" using I(2) assms(4) by (auto simp: visitorsKeyed_def split: if_splits)
  ultimately show ?thesis unfolding visitorsInv_def fst_conv snd_conv by simp
qed

text \<open>The loops: what they keep, and what they leave in the maps.\<close>

lemma visitorsTick_inv:
  assumes "visitorsInv others st" and "visitorsTick listens order st = st'"
  shows "visitorsInv others st' \<and> vm_cfgs (fst st') = vm_cfgs (fst st) \<and> vm_stopped (fst st') = vm_stopped (fst st) \<and>
    (\<forall>n v. vm_visitors (fst st) n = Some v \<longrightarrow> vm_visitors (fst st') n = Some v)"
  using assms
proof (induction order arbitrary: st)
  case (Cons n ns)
  obtain vm socks where st: "st = (vm, socks)" by fastforce
  show ?case
  proof (cases "vm_cfgs vm n")
    case None
    then show ?thesis using Cons.IH [OF Cons.prems(1)] Cons.prems(2) by (simp add: st)
  next
    case (Some cfg)
    have name: "vb_ProxyName (visitorBase cfg) = n"
      using visitorsInvD(2) [OF Cons.prems(1) [unfolded st]] Some by (simp add: visitorsKeyed_def)
    show ?thesis
    proof (cases "vm_visitors vm n")
      case None
      note S = startVisitor_inv [OF Cons.prems(1) [unfolded st] Some None, of listens, OF refl]
      have "visitorsTick listens ns (startVisitor listens cfg (vm, socks)) = st'" using Cons.prems(2) Some None name by (simp add: st)
      note R = Cons.IH [OF S(1) this]
      have "vm_visitors (fst st') m = Some w" if "vm_visitors vm m = Some w" for m w
      proof -
        have "m \<noteq> n" using that None by auto
        then show ?thesis using R S(4) that by simp
      qed
      then show ?thesis using R S(2,3) by (simp add: st)
    next
      case v: (Some v)
      then show ?thesis using Cons.IH [OF Cons.prems(1)] Cons.prems(2) Some name by (simp add: st)
    qed
  qed
qed simp

lemma removeVisitors_inv:
  assumes "visitorsInv others st" and "removeVisitors cfgs order st = st'"
  shows "visitorsInv others st' \<and> vm_stopped (fst st') = vm_stopped (fst st) \<and>
    vm_cfgs (fst st') = (\<lambda>n. if n \<in> set order \<and> cfgs n \<noteq> vm_cfgs (fst st) n then None else vm_cfgs (fst st) n) \<and>
    vm_visitors (fst st') = (\<lambda>n. if n \<in> set order \<and> cfgs n \<noteq> vm_cfgs (fst st) n then None else vm_visitors (fst st) n)"
  using assms
proof (induction order arbitrary: st)
  case (Cons n ns)
  obtain vm socks where st: "st = (vm, socks)" by fastforce
  note I = visitorsInvD [OF Cons.prems(1) [unfolded st]]
  show ?case
  proof (cases "vm_cfgs vm n")
    case None
    then have "vm_visitors vm n = None" using I(1) [of n] by (cases "vm_visitors vm n") auto
    then show ?thesis using Cons.IH [OF Cons.prems(1)] Cons.prems(2) None by (auto simp: st fun_eq_iff)
  next
    case (Some old)
    show ?thesis
    proof (cases "cfgs n = Some old")
      case True
      then show ?thesis using Cons.IH [OF Cons.prems(1)] Cons.prems(2) Some by (auto simp: st visitorCompare_eq fun_eq_iff)
    next
      case False
      then have gone: "case cfgs n of None \<Rightarrow> True | Some cfg \<Rightarrow> \<not> visitorCompare old cfg"
        by (auto simp: visitorCompare_eq split: option.split)
      let ?vm = "vm\<lparr> vm_cfgs := (vm_cfgs vm)(n := None), vm_visitors := (vm_visitors vm)(n := None) \<rparr>"
      let ?socks = "case vm_visitors vm n of None \<Rightarrow> socks | Some v \<Rightarrow> snd (closeVisitor v socks)"
      have run: "removeVisitors cfgs ns (?vm, ?socks) = st'" using Cons.prems(2) Some gone by (simp add: st)
      have inv: "visitorsInv others (?vm, ?socks)"
      proof (cases "vm_visitors vm n")
        case None
        then have "openAt ?vm m s \<longleftrightarrow> openAt vm m s" for m s by (simp add: openAt_def)
        then have "ownSocks ?vm = ownSocks vm" by (simp add: ownSocks_def)
        then show ?thesis using Cons.prems(1) None by (simp add: st visitorsInv_def openAt_upd) (auto simp: visitorsKeyed_def openAt_def)
      next
        case v: (Some v)
        show ?thesis using closeVisitor_inv [OF Cons.prems(1) [unfolded st] v, of None "(vm_cfgs vm)(n := None)"] v by simp
      qed
      from Cons.IH [OF inv run] show ?thesis using False Some by (simp add: st fun_eq_iff)
    qed
  qed
qed simp

lemma addVisitors_inv:
  assumes "visitorsInv others st" and "addVisitors listens cfgs order st = st'" and "visitorsKeyed cfgs"
  shows "visitorsInv others st' \<and> vm_stopped (fst st') = vm_stopped (fst st) \<and>
    vm_cfgs (fst st') = (\<lambda>n. if n \<in> set order \<and> vm_cfgs (fst st) n = None then cfgs n else vm_cfgs (fst st) n) \<and>
    (\<forall>n. vm_cfgs (fst st) n \<noteq> None \<longrightarrow> vm_visitors (fst st') n = vm_visitors (fst st) n)"
  using assms(1,2)
proof (induction order arbitrary: st)
  case (Cons n ns)
  obtain vm socks where st: "st = (vm, socks)" by fastforce
  note I = visitorsInvD [OF Cons.prems(1) [unfolded st]]
  show ?case
  proof (cases "cfgs n = None \<or> vm_cfgs vm n \<noteq> None")
    case True
    then have "addVisitors listens cfgs ns st = st'" using Cons.prems(2) by (auto simp: st split: option.splits)
    then show ?thesis using Cons.IH [OF Cons.prems(1)] True by (auto simp: st fun_eq_iff)
  next
    case False
    then obtain cfg where cfg: "cfgs n = Some cfg" "vm_cfgs vm n = None" by auto
    then have none: "vm_visitors vm n = None" using I(1) [of n] by (cases "vm_visitors vm n") auto
    let ?vm = "vm\<lparr> vm_cfgs := (vm_cfgs vm)(n \<mapsto> cfg) \<rparr>"
    have "vb_ProxyName (visitorBase cfg) = n" using assms(3) cfg(1) by (simp add: visitorsKeyed_def)
    then have inv: "visitorsInv others (?vm, socks)"
      using Cons.prems(1) none by (simp add: st visitorsInv_def openAt_upd ownSocks_def) (auto simp: visitorsKeyed_def)
    note S = startVisitor_inv [OF inv, of n cfg listens, simplified, OF none refl]
    have "addVisitors listens cfgs ns (startVisitor listens cfg (?vm, socks)) = st'" using Cons.prems(2) cfg by (simp add: st)
    note R = Cons.IH [OF S(1) this]
    have cfgs: "vm_cfgs (fst st') = (\<lambda>m. if m \<in> set (n # ns) \<and> vm_cfgs (fst st) m = None then cfgs m else vm_cfgs (fst st) m)"
      using R S(2) cfg by (auto simp: st fun_eq_iff)
    have "vm_visitors (fst st') m = vm_visitors (fst st) m" if "vm_cfgs (fst st) m \<noteq> None" for m
    proof -
      have "m \<noteq> n" using that cfg by (auto simp: st)
      then have "vm_cfgs (fst (startVisitor listens cfg (?vm, socks))) m \<noteq> None" using that S(2) by (simp add: st)
      then show ?thesis using R S(4) [OF \<open>m \<noteq> n\<close>] by (simp add: st)
    qed
    then show ?thesis using R S(3) cfgs by (simp add: st)
  qed
qed simp

lemma closeAll_inv:
  assumes "visitorsInv others st" and "closeAll order st = st'"
  shows "visitorsInv others st' \<and> vm_cfgs (fst st') = vm_cfgs (fst st) \<and>
    (\<forall>n. vm_visitors (fst st') n = map_option (\<lambda>v. if n \<in> set order then v\<lparr> vi_closed := True \<rparr> else v) (vm_visitors (fst st) n))"
  using assms
proof (induction order arbitrary: st)
  case (Cons n ns)
  obtain vm socks where st: "st = (vm, socks)" by fastforce
  show ?case
  proof (cases "vm_visitors vm n")
    case None
    have "map_option (\<lambda>v. if m = n \<or> m \<in> set ns then v\<lparr> vi_closed := True \<rparr> else v) (vm_visitors vm m) =
        map_option (\<lambda>v. if m \<in> set ns then v\<lparr> vi_closed := True \<rparr> else v) (vm_visitors vm m)" for m
      using None by (cases "m = n") simp_all
    then show ?thesis using Cons.IH [OF Cons.prems(1)] Cons.prems(2) None by (simp add: st)
  next
    case (Some v)
    let ?vm = "vm\<lparr> vm_visitors := (vm_visitors vm)(n \<mapsto> fst (closeVisitor v socks)) \<rparr>"
    have inv: "visitorsInv others (?vm, snd (closeVisitor v socks))"
      using closeVisitor_inv [OF Cons.prems(1) [unfolded st] Some, of "Some (fst (closeVisitor v socks))" "vm_cfgs vm"] by simp
    have "closeAll ns (?vm, snd (closeVisitor v socks)) = st'" using Cons.prems(2) Some by (simp add: st)
    note R = Cons.IH [OF inv this]
    have closed: "fst (closeVisitor v socks) = v\<lparr> vi_closed := True \<rparr>" by (cases v) (simp add: closeVisitor_def)
    show ?thesis using R Some by (auto simp: st closed)
  qed
qed (simp add: option.map_ident)

lemma visitorsClose_inv:
  assumes "visitorsInv others st" and "rangeOver order (vm_visitors (fst st))" and "visitorsClose order st = st'"
  shows "visitorsInv others st'" "ownSocks (fst st') = {}" "vm_stopped (fst st')"
proof -
  obtain vm socks where c: "closeAll order st = (vm, socks)" by fastforce
  note C = closeAll_inv [OF assms(1) c]
  have st': "st' = (vm\<lparr> vm_stopped := True \<rparr>, socks)" using assms(3) c by (simp add: visitorsClose_def)
  have "visitorsInv others (vm, socks)" using C by simp
  then show "visitorsInv others st'" unfolding st' visitorsInv_def ownSocks_def openAt_upd fst_conv snd_conv by simp
  have "vm_visitors vm n = Some v \<Longrightarrow> n \<in> set order" for n v
    using C assms(2) by (auto simp: rangeOver_def)
  then have "\<not> openAt vm n s" for n s using C by (auto simp: openAt_def)
  then show "ownSocks (fst st') = {}" by (simp add: st' ownSocks_def openAt_upd)
  show "vm_stopped (fst st')" by (simp add: st')
qed

text \<open>Before the manager is closed, no visitor is.\<close>

definition noneClosed :: "visitors \<Rightarrow> bool" where
  "noneClosed vm \<longleftrightarrow> (\<forall>n v. vm_visitors vm n = Some v \<longrightarrow> \<not> vi_closed v)"

lemma startVisitor_noneClosed: "noneClosed (fst st) \<Longrightarrow> noneClosed (fst (startVisitor listens cfg st))"
  by (auto simp: startVisitor_def visitorRun_def noneClosed_def)

lemma loops_noneClosed:
  "noneClosed (fst st) \<Longrightarrow> noneClosed (fst (visitorsTick listens order st))"
  "noneClosed (fst st) \<Longrightarrow> noneClosed (fst (removeVisitors cfgs order st))"
  "noneClosed (fst st) \<Longrightarrow> noneClosed (fst (addVisitors listens cfgs order st))"
proof -
  show "noneClosed (fst st) \<Longrightarrow> noneClosed (fst (visitorsTick listens order st))"
  proof (induction order arbitrary: st)
    case (Cons n ns)
    then show ?case by (cases "vm_cfgs (fst st) n") (simp_all add: startVisitor_noneClosed)
  qed simp
  show "noneClosed (fst st) \<Longrightarrow> noneClosed (fst (removeVisitors cfgs order st))"
  proof (induction cfgs order st rule: removeVisitors.induct)
    case (2 cfgs n ns vm socks)
    show ?case
    proof (cases "vm_cfgs vm n")
      case (Some old)
      have "noneClosed (vm\<lparr> vm_cfgs := (vm_cfgs vm)(n := None), vm_visitors := (vm_visitors vm)(n := None) \<rparr>)"
        using 2(4) by (auto simp: noneClosed_def)
      then show ?thesis using 2(2,3) [OF Some] 2(4) Some by simp
    qed (use 2 in simp)
  qed simp
  show "noneClosed (fst st) \<Longrightarrow> noneClosed (fst (addVisitors listens cfgs order st))"
  proof (induction listens cfgs order st rule: addVisitors.induct)
    case (2 listens cfgs n ns vm socks)
    show ?case
    proof (cases "cfgs n")
      case (Some cfg)
      have "noneClosed (fst (startVisitor listens cfg (vm\<lparr> vm_cfgs := (vm_cfgs vm)(n \<mapsto> cfg) \<rparr>, socks)))"
        using 2(4) by (intro startVisitor_noneClosed) (simp add: noneClosed_def)
      then show ?thesis using 2(2,3) [OF Some] 2(4) Some by simp
    qed (use 2 in simp)
  qed simp
qed

lemma vm_step_inv:
  assumes "vm_step others st others' st'" and "visitorsInv others st" and "vm_stopped (fst st) \<or> noneClosed (fst st)"
  shows "visitorsInv others' st' \<and> (vm_stopped (fst st') \<or> noneClosed (fst st'))"
  using assms(1)
proof cases
  case (reload cfgs order1 order2 listens)
  note R = removeVisitors_inv [OF assms(2) refl, of cfgs order1]
  note A = addVisitors_inv [OF conjunct1 [OF R] refl reload(3), of listens order2]
  have "noneClosed (fst st) \<Longrightarrow> noneClosed (fst (visitorsReload listens cfgs order1 order2 st))"
    unfolding visitorsReload_def by (intro loops_noneClosed)
  then show ?thesis using R A assms(3) unfolding reload(1,2) visitorsReload_def by metis
next
  case (tick order listens)
  then show ?thesis using visitorsTick_inv [OF assms(2) refl, of listens order] assms(3) loops_noneClosed(1) [of st listens order] by metis
next
  case (close order)
  then show ?thesis using visitorsClose_inv [OF assms(2) close(3) refl] by simp
next
  case (bind s)
  have "s \<notin> others" "s \<notin> ownSocks (fst st)" using bind(3) assms(2) by (auto simp: visitorsInv_def)
  then show ?thesis using bind assms(2,3) by (auto simp: visitorsInv_def)
next
  case (unbind s)
  have "s \<notin> ownSocks (fst st)" using unbind(3) assms(2) by (auto simp: visitorsInv_def)
  then show ?thesis using unbind assms(2,3) by (auto simp: visitorsInv_def)
qed

lemma vm_reach_inv: "vm_reach others st \<Longrightarrow> visitorsInv others st \<and> (vm_stopped (fst st) \<or> noneClosed (fst st))"
proof (induction rule: vm_reach.induct)
  case (start others)
  then show ?case by (simp add: visitorsInv_def NewVisitors_def ownSocks_def openAt_def visitorsKeyed_def noneClosed_def)
next
  case (step others st others' st')
  then show ?case using vm_step_inv by blast
qed

text \<open>When the addresses are different and the system lets the client have them, a tick starts every visitor.\<close>

lemma tick_starts_all:
  assumes "visitorsInv others st"
    and distinct_socks: "\<And>n m c d. vm_cfgs (fst st) n = Some c \<Longrightarrow> vm_cfgs (fst st) m = Some d \<Longrightarrow> sockOf c = sockOf d \<Longrightarrow> n = m"
    and free: "\<And>n c. vm_cfgs (fst st) n = Some c \<Longrightarrow> sockOf c \<notin> others \<and> listens (sockOf c)"
    and "n \<in> set order" and "vm_cfgs (fst st) n = Some c"
  shows "vm_visitors (fst (visitorsTick listens order st)) n \<noteq> None"
  using assms
proof (induction order arbitrary: st)
  case (Cons k ns)
  obtain vm socks where st: "st = (vm, socks)" by fastforce
  note I = visitorsInvD [OF Cons.prems(1) [unfolded st]]
  let ?st1 = "case vm_cfgs vm k of None \<Rightarrow> st
    | Some cfg \<Rightarrow> if vm_visitors vm (vb_ProxyName (visitorBase cfg)) = None then startVisitor listens cfg st else st"
  have one: "visitorsTick listens [k] st = ?st1" by (simp add: st split: option.split)
  have run: "visitorsTick listens (k # ns) st = visitorsTick listens ns ?st1" by (simp add: st split: option.split)
  note O = visitorsTick_inv [OF Cons.prems(1) one]
  have first: "vm_visitors (fst ?st1) k \<noteq> None" if c: "vm_cfgs vm k = Some c" for c
  proof (cases "vm_visitors vm k")
    case None
    have name: "vb_ProxyName (visitorBase c) = k" using I(2) c by (simp add: visitorsKeyed_def)
    have "\<not> openAt vm m (sockOf c)" for m
    proof
      assume "openAt vm m (sockOf c)"
      then obtain v where v: "vm_visitors vm m = Some v" "sockOf (vi_conf v) = sockOf c" by (auto simp: openAt_def)
      then have "m = k" using Cons.prems(2) [of m "vi_conf v" k c] I(1) [OF v(1)] c by (simp add: st)
      then show False using None v(1) by simp
    qed
    then have "sockOf c \<notin> socks" "listens (sockOf c)" using I(3) Cons.prems(3) [of k c] c by (auto simp: st ownSocks_def)
    then show ?thesis using startVisitor_inv(5) [OF Cons.prems(1) [unfolded st] c None refl, of listens] c None name by (simp add: st)
  next
    case (Some v)
    then show ?thesis using O by (simp add: st)
  qed
  show ?case
  proof (cases "n = k")
    case True
    then obtain v where "vm_visitors (fst ?st1) n = Some v" using first [of c] Cons.prems(5) by (auto simp: st)
    then show ?thesis unfolding run using visitorsTick_inv [OF conjunct1 [OF O] refl, of listens ns] by auto
  next
    case False
    have "n \<in> set ns" using Cons.prems(4) False by simp
    moreover have "vm_cfgs (fst ?st1) = vm_cfgs (fst st)" using O by simp
    ultimately show ?thesis unfolding run using Cons.IH [of ?st1] O Cons.prems(2,3,5) by simp
  qed
qed simp

text \<open>A tick that was due when the manager was closed still starts what did not run, and nothing closes it.\<close>

lemma tick_after_close:
  assumes "visitorsInv others (vm, socks)" and "vm_cfgs vm n = Some c" and "vm_visitors vm n = None"
    and "sockOf c \<notin> socks" and "listens (sockOf c)"
  shows "openAt (fst (visitorsTick listens [n] (vm, socks))) n (sockOf c)"
proof -
  have "vb_ProxyName (visitorBase c) = n" using visitorsInvD(2) [OF assms(1)] assms(2) by (simp add: visitorsKeyed_def)
  then show ?thesis using startVisitor_inv(5) [OF assms(1-3) refl, of listens] assms(2-5) by (simp add: openAt_def)
qed

section \<open>Properties\<close>

definition sampleVisitor :: "int \<Rightarrow> visitor_conf" where
  "sampleVisitor port = STCPVisitorConf (zeroVisitor\<lparr> vb_ProxyName := ''ssh'', vb_ProxyType := ''stcp'', vb_Role := ''visitor'',
     vb_ServerName := ''ssh'', vb_BindAddr := ''127.0.0.1'', vb_BindPort := port \<rparr>)"

definition sampleVisitors :: visitors where
  "sampleVisitors = \<lparr> vm_cfgs = [''ssh'' \<mapsto> sampleVisitor 6000],
     vm_visitors = [''ssh'' \<mapsto> \<lparr> vi_conf = sampleVisitor 6000, vi_closed = False \<rparr>], vm_stopped = False \<rparr>"

lemma sampleVisitors_reach: "vm_reach {} (sampleVisitors, {Sock False ''127.0.0.1'' 6000})"
proof -
  let ?cfgs = "[''ssh'' \<mapsto> sampleVisitor 6000]"
  have "visitorsReload (\<lambda>_. True) ?cfgs [] [''ssh''] (NewVisitors, {}) = (sampleVisitors, {Sock False ''127.0.0.1'' 6000})"
    by (simp add: visitor_defs sampleVisitors_def sampleVisitor_def)
  moreover have "visitorsKeyed ?cfgs" "rangeOver [] (vm_cfgs (fst (NewVisitors, {})))" "rangeOver [''ssh''] ?cfgs"
    by (simp_all add: visitorsKeyed_def sampleVisitor_def rangeOver_def NewVisitors_def)
  ultimately show ?thesis using vm_reach.step [OF vm_reach.start [of "{}"] vm_step.reload] by metis
qed

text \<open>
  C23: no socket is lost. In every reachable state of the manager, after any reloads, ticks and closes, the bound
  sockets are those of other programs and exactly one for each visitor that is open, which is one of the
  current configuration; and closing the manager gives all of its sockets back.
\<close>

theorem visitor_sockets_exact:
  assumes "vm_reach others (vm, socks)" and "rangeOver order (vm_visitors vm)"
  shows "socks = others \<union> {s. \<exists>n. openAt vm n s} \<and> others \<inter> {s. \<exists>n. openAt vm n s} = {} \<and>
    (\<forall>n m s. openAt vm n s \<and> openAt vm m s \<longrightarrow> n = m) \<and>
    (\<forall>n s. openAt vm n s \<longrightarrow> (\<exists>c. vm_cfgs vm n = Some c \<and> sockOf c = s)) \<and>
    snd (visitorsClose order (vm, socks)) = others"
proof -
  have inv: "visitorsInv others (vm, socks)" using vm_reach_inv [OF assms(1)] by simp
  have range: "rangeOver order (vm_visitors (fst (vm, socks)))" using assms(2) by simp
  have "openAt vm n s \<Longrightarrow> \<exists>c. vm_cfgs vm n = Some c \<and> sockOf c = s" for n s
    using visitorsInvD(1) [OF inv] by (auto simp: openAt_def)
  moreover have "snd (visitorsClose order (vm, socks)) = others"
    using visitorsClose_inv [OF inv range refl] by (simp add: visitorsInv_def)
  ultimately show ?thesis using visitorsInvD(3-5) [OF inv] unfolding ownSocks_def by blast
qed

theorem visitor_sockets_exact_witness:
  "snd (visitorsClose [''ssh''] (sampleVisitors, {Sock False ''127.0.0.1'' 6000})) = {}"
proof -
  have "rangeOver [''ssh''] (vm_visitors sampleVisitors)" by (simp add: sampleVisitors_def rangeOver_def)
  from visitor_sockets_exact [OF sampleVisitors_reach this] show ?thesis by blast
qed

text \<open>
  C31: a reload takes effect at the latest with the next tick. When the new configurations have different addresses,
  which no other program uses and the system lets the client listen on, then after a reload and a tick exactly
  the configured visitors run, each as configured, whatever failed in the reload; and the reload does not
  touch a visitor whose configuration is the same.
\<close>

theorem visitors_follow_reload:
  assumes "vm_reach others (vm, socks)" and "\<not> vm_stopped vm"
    and "visitorsKeyed cfgs" and "rangeOver order1 (vm_cfgs vm)" and "rangeOver order2 cfgs" and "rangeOver order3 cfgs"
    and "\<And>n m c d. cfgs n = Some c \<Longrightarrow> cfgs m = Some d \<Longrightarrow> sockOf c = sockOf d \<Longrightarrow> n = m"
    and "\<And>n c. cfgs n = Some c \<Longrightarrow> sockOf c \<notin> others \<and> listens (sockOf c)"
    and "st1 = visitorsReload listens' cfgs order1 order2 (vm, socks)" and "st2 = visitorsTick listens order3 st1"
  shows "vm_cfgs (fst st2) = cfgs \<and>
    vm_visitors (fst st2) = (\<lambda>n. map_option (\<lambda>c. \<lparr> vi_conf = c, vi_closed = False \<rparr>) (cfgs n)) \<and>
    snd st2 = others \<union> sockOf ` ran cfgs \<and>
    (\<forall>n v. vm_visitors vm n = Some v \<and> cfgs n = Some (vi_conf v) \<longrightarrow> vm_visitors (fst st1) n = Some v)"
proof -
  have inv: "visitorsInv others (vm, socks)" using vm_reach_inv [OF assms(1)] by simp
  have keys: "set order1 = dom (vm_cfgs vm)" "set order2 = dom cfgs" "set order3 = dom cfgs" using assms(4-6) by (simp_all add: rangeOver_def)
  note R = removeVisitors_inv [OF inv refl, of cfgs order1]
  note A = addVisitors_inv [OF conjunct1 [OF R] refl assms(3), of listens' order2]
  have step: "vm_step others (vm, socks) others st1"
    using vm_step.reload [where st = "(vm, socks)"] assms(3-5) by (simp add: assms(9))
  have st1: "visitorsInv others st1" using vm_reach_inv [OF vm_reach.step [OF assms(1) step]] by simp
  have removed: "vm_cfgs (fst (removeVisitors cfgs order1 (vm, socks))) = (\<lambda>n. if cfgs n \<noteq> vm_cfgs vm n then None else vm_cfgs vm n)"
    using R keys(1) by (auto simp: fun_eq_iff)
  have cfgs1: "vm_cfgs (fst st1) = cfgs"
    using A keys(2) by (auto simp: assms(9) visitorsReload_def removed fun_eq_iff)
  have same: "vm_visitors (fst st1) n = Some v" if v: "vm_visitors vm n = Some v" "cfgs n = Some (vi_conf v)" for n v
  proof -
    have c: "vm_cfgs vm n = Some (vi_conf v)" by (rule visitorsInvD(1) [OF inv v(1)])
    then have "vm_visitors (fst (removeVisitors cfgs order1 (vm, socks))) n = Some v" using R v by simp
    then show ?thesis using A c v(2) by (simp add: assms(9) visitorsReload_def removed)
  qed
  note T = visitorsTick_inv [OF st1 assms(10) [symmetric]]
  have cfgs2: "vm_cfgs (fst st2) = cfgs" using T cfgs1 by simp
  have "noneClosed (fst st2)"
  proof -
    have "noneClosed (fst (vm, socks))" using vm_reach_inv [OF assms(1)] assms(2) by simp
    then show ?thesis unfolding assms(9,10) visitorsReload_def by (intro loops_noneClosed)
  qed
  then have runs: "vm_visitors (fst st2) n = map_option (\<lambda>c. \<lparr> vi_conf = c, vi_closed = False \<rparr>) (cfgs n)" for n
  proof (cases "cfgs n")
    case None
    then show ?thesis using T cfgs2 by (cases "vm_visitors (fst st2) n") (auto simp: visitorsInv_def)
  next
    case (Some c)
    have "vm_visitors (fst st2) n \<noteq> None"
      unfolding assms(10) by (rule tick_starts_all [OF st1, where c = c]) (use assms(7,8) Some keys(3) in \<open>auto simp: cfgs1\<close>)
    then obtain v where v: "vm_visitors (fst st2) n = Some v" by auto
    then have "vi_conf v = c" "\<not> vi_closed v"
      using T cfgs2 Some \<open>noneClosed (fst st2)\<close> by (auto simp: visitorsInv_def noneClosed_def)
    then show ?thesis using v Some by (cases v) simp
  qed
  have "openAt (fst st2) n s \<longleftrightarrow> (\<exists>c. cfgs n = Some c \<and> s = sockOf c)" for n s by (auto simp: openAt_def runs)
  then have "ownSocks (fst st2) = sockOf ` ran cfgs" by (auto simp: ownSocks_def ran_def)
  then have "snd st2 = others \<union> sockOf ` ran cfgs" using T by (simp add: visitorsInv_def)
  then show ?thesis using cfgs2 runs same by (simp add: fun_eq_iff)
qed

theorem visitors_follow_reload_witness:
  "snd (visitorsTick (\<lambda>_. True) [''ssh''] (visitorsReload (\<lambda>_. False) [''ssh'' \<mapsto> sampleVisitor 7000] [''ssh''] [''ssh'']
     (sampleVisitors, {Sock False ''127.0.0.1'' 6000}))) = {Sock False ''127.0.0.1'' 7000}"
proof -
  let ?cfgs = "[''ssh'' \<mapsto> sampleVisitor 7000]"
  have "visitorsKeyed ?cfgs" "rangeOver [''ssh''] (vm_cfgs sampleVisitors)" "rangeOver [''ssh''] ?cfgs" "\<not> vm_stopped sampleVisitors"
    by (simp_all add: visitorsKeyed_def sampleVisitor_def rangeOver_def sampleVisitors_def)
  note cfgs = this
  have d: "?cfgs n = Some c \<Longrightarrow> ?cfgs m = Some d \<Longrightarrow> sockOf c = sockOf d \<Longrightarrow> n = m" for n m c d by (simp split: if_splits)
  have f: "?cfgs n = Some c \<Longrightarrow> sockOf c \<notin> {} \<and> (\<lambda>_. True) (sockOf c)" for n c by simp
  have "sockOf ` ran ?cfgs = {Sock False ''127.0.0.1'' 7000}" by (simp add: sampleVisitor_def)
  then show ?thesis
    using visitors_follow_reload [OF sampleVisitors_reach cfgs(4,1,2,3,3) d f refl refl] by (simp only: Un_empty_left)
qed

end
