(* ===== verification/ClientService.thy ===== *)
theory ClientService
  imports ProxyManager Visitors
begin

text \<open>
  The service of frpc, \<^verbatim>\<open>client/service.go\<close>, with what its controls (\<^verbatim>\<open>client/control.go\<close>) do when they are made, when
  their connection ends and when they are closed: the first login, the loop that logs in again
  (\<^verbatim>\<open>keepControllerWorking\<close>), reloads and the close of the service, which all run at the same time. A control is
  named by a number, as the code holds pointers to it. Whether a login succeeds and which addresses the
  visitors can listen on is left open.
\<close>

section \<open>State\<close>

text \<open>
  The way of a control: its connection works; it broke, and nothing is sent any more; its proxies are closed;
  its visitors are closed too, which the loop of the service waits for.
\<close>

datatype ctl_stage = Up | Broken | ProxiesClosed | Released

record client_ctl =
  cc_pm :: manager
  cc_vm :: visitors
  cc_stage :: ctl_stage

text \<open>
  Where the goroutine is that logs in: in the first login, waiting for the control to end, logging in
  again, with a new control that is not yet the one of the service, or gone.
\<close>

datatype loop_state = FirstLogin | Waiting | Reconnecting | Made nat | Gone

type_synonym client_cfgs = "(string \<rightharpoonup> proxy_conf) \<times> (string \<rightharpoonup> visitor_conf)"

text \<open>\<open>cs_reloads\<close> are the reloads that have stored their configurations but not yet told a control.\<close>

record client_service =
  cs_cfgs :: client_cfgs
  cs_ctl :: "nat option"
  cs_exit :: bool
  cs_runID :: string
  cs_loop :: loop_state
  cs_reloads :: "client_cfgs list"
  cs_ctls :: "nat \<rightharpoonup> client_ctl"
  cs_next :: nat
  cs_socks :: "sock set"

definition NewClientService :: "client_cfgs \<Rightarrow> sock set \<Rightarrow> client_service" where
  "NewClientService cfgs socks = \<lparr> cs_cfgs = cfgs, cs_ctl = None, cs_exit = False, cs_runID = [], cs_loop = FirstLogin,
     cs_reloads = [], cs_ctls = Map.empty, cs_next = 0, cs_socks = socks \<rparr>"

section \<open>Controls\<close>

text \<open>The orders in which ranges over maps go, and the addresses one can listen on.\<close>

record choices =
  ch_listens :: "sock \<Rightarrow> bool"
  ch_proxies :: "string list"
  ch_newProxies :: "string list"
  ch_visitors :: "string list"
  ch_newVisitors :: "string list"

definition choicesOk :: "client_cfgs \<Rightarrow> client_ctl \<Rightarrow> choices \<Rightarrow> bool" where
  "choicesOk cfgs c ch \<longleftrightarrow> rangeOf (ch_proxies ch) (pm_proxies (cc_pm c)) \<and> rangeOf (ch_newProxies ch) (fst cfgs) \<and>
     rangeOver (ch_visitors ch) (vm_cfgs (cc_vm c)) \<and> rangeOver (ch_newVisitors ch) (snd cfgs)"

text \<open>\<^verbatim>\<open>ReloadConf\<close> of a control: the visitors, then the proxies.\<close>

definition ctlReload :: "choices \<Rightarrow> client_cfgs \<Rightarrow> client_ctl \<Rightarrow> sock set \<Rightarrow> (go_panic, client_ctl \<times> sock set) result" where
  "ctlReload ch cfgs c socks =
     (let (vm, socks') = visitorsReload (ch_listens ch) (snd cfgs) (ch_visitors ch) (ch_newVisitors ch) (cc_vm c, socks) in
      case Reload (fst cfgs) (ch_proxies ch) (ch_newProxies ch) (cc_pm c) of
        Inl p \<Rightarrow> Inl p
      | Inr pm \<Rightarrow> Inr (c\<lparr> cc_pm := pm, cc_vm := vm \<rparr>, socks'))"

text \<open>\<open>NewControl\<close> loads the visitors, and \<open>Run\<close> the proxies.\<close>

definition emptyCtl :: client_ctl where
  "emptyCtl = \<lparr> cc_pm = ProxyManager.NewManager, cc_vm = NewVisitors, cc_stage = Up \<rparr>"

definition makeCtl :: "choices \<Rightarrow> client_cfgs \<Rightarrow> sock set \<Rightarrow> (go_panic, client_ctl \<times> sock set) result" where
  "makeCtl ch cfgs socks = ctlReload ch cfgs emptyCtl socks"

text \<open>\<open>GracefulClose\<close>; the connection that it closes ends the control later.\<close>

definition closeProxies :: "string list \<Rightarrow> client_ctl \<Rightarrow> (go_panic, client_ctl) result" where
  "closeProxies order c = (case ProxyManager.Close order (cc_pm c) of Inl p \<Rightarrow> Inl p | Inr pm \<Rightarrow> Inr (c\<lparr> cc_pm := pm \<rparr>))"

definition closeVisitors :: "string list \<Rightarrow> client_ctl \<Rightarrow> sock set \<Rightarrow> client_ctl \<times> sock set" where
  "closeVisitors order c socks = (let (vm, socks') = visitorsClose order (cc_vm c, socks) in (c\<lparr> cc_vm := vm \<rparr>, socks'))"

definition ctlClose :: "string list \<Rightarrow> string list \<Rightarrow> client_ctl \<Rightarrow> sock set \<Rightarrow> (go_panic, client_ctl \<times> sock set) result" where
  "ctlClose order order' c socks =
     (case closeProxies order c of Inl p \<Rightarrow> Inl p | Inr c' \<Rightarrow> Inr (closeVisitors order' c' socks))"

definition setCtl :: "nat \<Rightarrow> client_ctl \<times> sock set \<Rightarrow> client_service \<Rightarrow> client_service" where
  "setCtl i cs s = s\<lparr> cs_ctls := (cs_ctls s)(i \<mapsto> fst cs), cs_socks := snd cs \<rparr>"

lemmas service_defs [go_defs] =
  NewClientService_def ctlReload_def emptyCtl_def makeCtl_def closeProxies_def closeVisitors_def ctlClose_def setCtl_def

section \<open>Steps\<close>

definition confsOf :: "manager \<Rightarrow> string \<Rightarrow> proxy_conf option" where
  "confsOf pm n = map_option (\<lambda>w. ws_Cfg (w_status w)) (pm_proxies pm n)"

definition cfgsOk :: "client_cfgs \<Rightarrow> bool" where
  "cfgsOk cfgs \<longleftrightarrow> wellKeyed (fst cfgs) \<and> visitorsKeyed (snd cfgs)"

text \<open>
  The steps: a login that fails or succeeds, after which the new control gets its configurations; the new control
  becomes that of the service, which closes the old one; the end of a connection in three moves, and the
  loop that notices it; a reload in two moves; the close of the service; and what proxies and visitors
  do on their own. With \<open>calm\<close>, no reload begins while a new control is not yet that of the service or
  another reload is under way.
\<close>

inductive cs_step :: "bool \<Rightarrow> bool \<Rightarrow> client_service \<Rightarrow> client_service \<Rightarrow> bool" for calm loginFailExit where
  refused: "cs_loop s = FirstLogin \<or> cs_loop s = Reconnecting \<Longrightarrow>
    cs_step calm loginFailExit s (if cs_loop s = FirstLogin \<and> loginFailExit then s\<lparr> cs_loop := Gone \<rparr> else s)"
| login: "cs_loop s = FirstLogin \<or> cs_loop s = Reconnecting \<Longrightarrow> choicesOk (cs_cfgs s) emptyCtl ch \<Longrightarrow>
    makeCtl ch (cs_cfgs s) (cs_socks s) = Inr cs \<Longrightarrow>
    cs_step calm loginFailExit s
      ((setCtl (cs_next s) cs s)\<lparr> cs_runID := runID, cs_next := Suc (cs_next s), cs_loop := Made (cs_next s) \<rparr>)"
| first: "cs_loop s = Made i \<Longrightarrow> cs_ctl s = None \<Longrightarrow> cs_step calm loginFailExit s (s\<lparr> cs_ctl := Some i, cs_loop := Waiting \<rparr>)"
| replace: "cs_loop s = Made i \<Longrightarrow> cs_ctl s = Some j \<Longrightarrow> cs_ctls s j = Some c \<Longrightarrow>
    rangeOf order (pm_proxies (cc_pm c)) \<Longrightarrow> rangeOver order' (vm_visitors (cc_vm c)) \<Longrightarrow>
    ctlClose order order' c (cs_socks s) = Inr cs \<Longrightarrow>
    cs_step calm loginFailExit s ((setCtl j cs s)\<lparr> cs_ctl := Some i, cs_loop := Waiting \<rparr>)"
| broken: "cs_ctls s i = Some c \<Longrightarrow> cc_stage c = Up \<Longrightarrow>
    cs_step calm loginFailExit s
      (setCtl i (c\<lparr> cc_pm := (cc_pm c)\<lparr> pm_sendClosed := True \<rparr>, cc_stage := Broken \<rparr>, cs_socks s) s)"
| proxies: "cs_ctls s i = Some c \<Longrightarrow> cc_stage c = Broken \<Longrightarrow> rangeOf order (pm_proxies (cc_pm c)) \<Longrightarrow>
    closeProxies order c = Inr c' \<Longrightarrow> cs_step calm loginFailExit s (setCtl i (c'\<lparr> cc_stage := ProxiesClosed \<rparr>, cs_socks s) s)"
| visitors: "cs_ctls s i = Some c \<Longrightarrow> cc_stage c = ProxiesClosed \<Longrightarrow> rangeOver order (vm_visitors (cc_vm c)) \<Longrightarrow>
    closeVisitors order c (cs_socks s) = (c', socks) \<Longrightarrow>
    cs_step calm loginFailExit s (setCtl i (c'\<lparr> cc_stage := Released \<rparr>, socks) s)"
| notice: "cs_loop s = Waiting \<Longrightarrow> cs_ctl s = Some i \<Longrightarrow> cs_ctls s i = Some c \<Longrightarrow> cc_stage c = Released \<Longrightarrow>
    cs_step calm loginFailExit s (s\<lparr> cs_loop := (if cs_exit s then Gone else Reconnecting) \<rparr>)"
| reload: "cfgsOk cfgs \<Longrightarrow> calm \<longrightarrow> (\<forall>i. cs_loop s \<noteq> Made i) \<and> cs_reloads s = [] \<Longrightarrow>
    cs_step calm loginFailExit s (s\<lparr> cs_cfgs := cfgs, cs_reloads := cs_reloads s @ [cfgs] \<rparr>)"
| no_ctl: "cfgs \<in> set (cs_reloads s) \<Longrightarrow> cs_ctl s = None \<Longrightarrow>
    cs_step calm loginFailExit s (s\<lparr> cs_reloads := remove1 cfgs (cs_reloads s) \<rparr>)"
| apply_reload: "cfgs \<in> set (cs_reloads s) \<Longrightarrow> cs_ctl s = Some i \<Longrightarrow> cs_ctls s i = Some c \<Longrightarrow> choicesOk cfgs c ch \<Longrightarrow>
    ctlReload ch cfgs c (cs_socks s) = Inr cs \<Longrightarrow>
    cs_step calm loginFailExit s ((setCtl i cs s)\<lparr> cs_reloads := remove1 cfgs (cs_reloads s) \<rparr>)"
| close_early: "cs_ctl s = None \<Longrightarrow> cs_step calm loginFailExit s (s\<lparr> cs_exit := True \<rparr>)"
| close: "cs_ctl s = Some i \<Longrightarrow> cs_ctls s i = Some c \<Longrightarrow>
    rangeOf order (pm_proxies (cc_pm c)) \<Longrightarrow> rangeOver order' (vm_visitors (cc_vm c)) \<Longrightarrow>
    ctlClose order order' c (cs_socks s) = Inr cs \<Longrightarrow> cs_step calm loginFailExit s ((setCtl i cs s)\<lparr> cs_exit := True \<rparr>)"
| proxy: "cs_ctls s i = Some c \<Longrightarrow> mgr_step (cc_pm c) pm \<or> (\<exists>now e n a err r. StartProxy now e n a err (cc_pm c) = (r, pm)) \<Longrightarrow>
    confsOf pm = confsOf (cc_pm c) \<Longrightarrow> pm_sendClosed pm = pm_sendClosed (cc_pm c) \<Longrightarrow>
    cs_step calm loginFailExit s (setCtl i (c\<lparr> cc_pm := pm \<rparr>, cs_socks s) s)"
| tick: "cs_ctls s i = Some c \<Longrightarrow> \<not> vm_stopped (cc_vm c) \<Longrightarrow> rangeOver order (vm_cfgs (cc_vm c)) \<Longrightarrow>
    visitorsTick listens order (cc_vm c, cs_socks s) = (vm, socks) \<Longrightarrow>
    cs_step calm loginFailExit s (setCtl i (c\<lparr> cc_vm := vm \<rparr>, socks) s)"
| bind: "k \<notin> cs_socks s \<Longrightarrow> cs_step calm loginFailExit s (s\<lparr> cs_socks := insert k (cs_socks s) \<rparr>)"
| unbind: "k \<in> cs_socks s \<Longrightarrow> (\<And>i c. cs_ctls s i = Some c \<Longrightarrow> k \<notin> ownSocks (cc_vm c)) \<Longrightarrow>
    cs_step calm loginFailExit s (s\<lparr> cs_socks := cs_socks s - {k} \<rparr>)"

inductive cs_reach :: "bool \<Rightarrow> bool \<Rightarrow> client_cfgs \<Rightarrow> sock set \<Rightarrow> client_service \<Rightarrow> bool" for calm loginFailExit cfgs socks where
  start: "cs_reach calm loginFailExit cfgs socks (NewClientService cfgs socks)"
| step: "cs_reach calm loginFailExit cfgs socks s \<Longrightarrow> cs_step calm loginFailExit s s' \<Longrightarrow> cs_reach calm loginFailExit cfgs socks s'"

section \<open>The operations of a control\<close>

text \<open>A control has the configurations: of proxies up to what \<open>Compare\<close> tells apart.\<close>

definition agrees :: "client_cfgs \<Rightarrow> client_ctl \<Rightarrow> bool" where
  "agrees cfgs c \<longleftrightarrow> rel_fun (=) (rel_option Compare) (confsOf (cc_pm c)) (fst cfgs) \<and> vm_cfgs (cc_vm c) = snd cfgs"

lemma visitorsReload_inv:
  assumes "visitorsInv others st" and "visitorsKeyed cfgs" and "rangeOver order1 (vm_cfgs (fst st))" and "rangeOver order2 cfgs"
    and "visitorsReload listens cfgs order1 order2 st = st'"
  shows "visitorsInv others st'" "vm_cfgs (fst st') = cfgs" "vm_stopped (fst st') = vm_stopped (fst st)"
proof -
  note R = removeVisitors_inv [OF assms(1) refl, of cfgs order1]
  note A = addVisitors_inv [OF conjunct1 [OF R] refl assms(2), of listens order2]
  show "visitorsInv others st'" "vm_stopped (fst st') = vm_stopped (fst st)" using A R by (simp_all add: assms(5) [symmetric] visitorsReload_def)
  have "set order1 = dom (vm_cfgs (fst st))" "set order2 = dom cfgs" using assms(3,4) by (simp_all add: rangeOver_def)
  then show "vm_cfgs (fst st') = cfgs" using A R by (auto simp: assms(5) [symmetric] visitorsReload_def fun_eq_iff)
qed

lemma ctlReload_ok:
  assumes "mgrInv (cc_pm c)" and "visitorsInv others (cc_vm c, socks)" and "cfgsOk cfgs" and "choicesOk cfgs c ch"
  shows "\<exists>c' socks'. ctlReload ch cfgs c socks = Inr (c', socks') \<and> mgrInv (cc_pm c') \<and> visitorsInv others (cc_vm c', socks') \<and>
    agrees cfgs c' \<and> cc_stage c' = cc_stage c \<and> vm_stopped (cc_vm c') = vm_stopped (cc_vm c) \<and>
    pm_sendClosed (cc_pm c') = pm_sendClosed (cc_pm c)"
proof -
  obtain vm socks' where vm: "visitorsReload (ch_listens ch) (snd cfgs) (ch_visitors ch) (ch_newVisitors ch) (cc_vm c, socks) = (vm, socks')"
    by fastforce
  have V: "visitorsInv others (vm, socks')" "vm_cfgs vm = snd cfgs" "vm_stopped vm = vm_stopped (cc_vm c)"
    using visitorsReload_inv [OF assms(2) _ _ _ vm] assms(3,4) by (simp_all add: cfgsOk_def choicesOk_def)
  obtain pm where pm: "Reload (fst cfgs) (ch_proxies ch) (ch_newProxies ch) (cc_pm c) = Inr pm" "mgrInv pm"
      "pm_sendClosed pm = pm_sendClosed (cc_pm c)"
      "pm_proxies pm = (\<lambda>n. case fst cfgs n of None \<Rightarrow> None
        | Some k \<Rightarrow> (case pm_proxies (cc_pm c) n of None \<Rightarrow> Some (NewWrapper k)
            | Some w \<Rightarrow> if Compare (ws_Cfg (w_status w)) k then Some w else Some (NewWrapper k)))"
    using Reload_ok [OF assms(1), of "fst cfgs" "ch_proxies ch" "ch_newProxies ch"] assms(3,4) by (auto simp: cfgsOk_def choicesOk_def)
  have "rel_option Compare (confsOf pm n) (fst cfgs n)" for n
    by (auto simp: confsOf_def pm(4) Compare_refl NewWrapper_def Let_def split: option.split)
  then have "agrees cfgs (c\<lparr> cc_pm := pm, cc_vm := vm \<rparr>)" using V(2) by (auto simp: agrees_def rel_fun_def)
  then show ?thesis using V pm(1-3) by (simp add: ctlReload_def vm)
qed

lemma closeProxies_ok:
  assumes "mgrInv (cc_pm c)" and "rangeOf order (pm_proxies (cc_pm c))"
  shows "\<exists>c'. closeProxies order c = Inr c' \<and> mgrInv (cc_pm c') \<and> pm_proxies (cc_pm c') = Map.empty \<and> cc_vm c' = cc_vm c \<and>
    cc_stage c' = cc_stage c \<and> pm_sendClosed (cc_pm c') = pm_sendClosed (cc_pm c)"
proof -
  obtain pm where "stopAll order (cc_pm c) = Inr pm" "mgrInv pm" "pm_sendClosed pm = pm_sendClosed (cc_pm c)"
      "pm_proxies pm = (\<lambda>n. if n \<in> set order then None else pm_proxies (cc_pm c) n)"
    using stopAll_ok [OF assms(1), of order] by blast
  moreover have "pm_proxies (cc_pm c) n = None" if "n \<notin> set order" for n using that assms(2) by (auto simp: rangeOf_def)
  ultimately show ?thesis by (auto simp: closeProxies_def ProxyManager.Close_def fun_eq_iff)
qed

lemma closeVisitors_ok:
  assumes "visitorsInv others (cc_vm c, socks)" and "rangeOver order (vm_visitors (cc_vm c))" and "closeVisitors order c socks = (c', socks')"
  shows "visitorsInv others (cc_vm c', socks')" "ownSocks (cc_vm c') = {}" "vm_stopped (cc_vm c')" "cc_pm c' = cc_pm c" "cc_stage c' = cc_stage c"
proof -
  obtain vm where vm: "visitorsClose order (cc_vm c, socks) = (vm, socks')" "c' = c\<lparr> cc_vm := vm \<rparr>"
    using assms(3) by (auto simp: closeVisitors_def split: prod.splits)
  have "rangeOver order (vm_visitors (fst (cc_vm c, socks)))" using assms(2) by simp
  from visitorsClose_inv [OF assms(1) this vm(1)]
  show "visitorsInv others (cc_vm c', socks')" "ownSocks (cc_vm c') = {}" "vm_stopped (cc_vm c')" "cc_pm c' = cc_pm c" "cc_stage c' = cc_stage c"
    by (simp_all add: vm(2))
qed

text \<open>A closed control has no proxy and no socket.\<close>

definition stopped :: "client_ctl \<Rightarrow> bool" where
  "stopped c \<longleftrightarrow> pm_proxies (cc_pm c) = Map.empty \<and> ownSocks (cc_vm c) = {} \<and> vm_stopped (cc_vm c)"

lemma ctlClose_ok:
  assumes "mgrInv (cc_pm c)" and "visitorsInv others (cc_vm c, socks)"
    and "rangeOf order (pm_proxies (cc_pm c))" and "rangeOver order' (vm_visitors (cc_vm c))"
  shows "\<exists>c' socks'. ctlClose order order' c socks = Inr (c', socks') \<and> mgrInv (cc_pm c') \<and> visitorsInv others (cc_vm c', socks') \<and>
    stopped c' \<and> cc_stage c' = cc_stage c \<and> pm_sendClosed (cc_pm c') = pm_sendClosed (cc_pm c)"
proof -
  obtain c1 where c1: "closeProxies order c = Inr c1" "mgrInv (cc_pm c1)" "pm_proxies (cc_pm c1) = Map.empty" "cc_vm c1 = cc_vm c"
      "cc_stage c1 = cc_stage c" "pm_sendClosed (cc_pm c1) = pm_sendClosed (cc_pm c)"
    using closeProxies_ok [OF assms(1,3)] by blast
  obtain c' socks' where c': "closeVisitors order' c1 socks = (c', socks')" by fastforce
  have "visitorsInv others (cc_vm c1, socks)" "rangeOver order' (vm_visitors (cc_vm c1))" using assms(2,4) c1(4) by simp_all
  from closeVisitors_ok [OF this c'] show ?thesis using c1 c' by (simp add: ctlClose_def stopped_def)
qed

section \<open>Invariant\<close>

text \<open>The sockets of each control are bound, and no two controls share one.\<close>

definition othersOf :: "client_service \<Rightarrow> nat \<Rightarrow> sock set" where
  "othersOf s i = (case cs_ctls s i of None \<Rightarrow> cs_socks s | Some c \<Rightarrow> cs_socks s - ownSocks (cc_vm c))"

definition socksInv :: "client_service \<Rightarrow> bool" where
  "socksInv s \<longleftrightarrow> (\<forall>i c. cs_ctls s i = Some c \<longrightarrow> visitorsInv (othersOf s i) (cc_vm c, cs_socks s)) \<and>
     (\<forall>i j c d. cs_ctls s i = Some c \<and> cs_ctls s j = Some d \<and> i \<noteq> j \<longrightarrow> ownSocks (cc_vm c) \<inter> ownSocks (cc_vm d) = {})"

lemma visitorsInv_others: "visitorsInv others (vm, socks) \<Longrightarrow> others = socks - ownSocks vm"
  by (auto simp: visitorsInv_def)

lemma visitorsInv_shared:
  "visitorsInv others (vm, socks) \<Longrightarrow> ownSocks vm \<subseteq> socks' \<Longrightarrow> visitorsInv (socks' - ownSocks vm) (vm, socks')"
  unfolding visitorsInv_def fst_conv snd_conv by blast

lemma socksInv_set:
  assumes "socksInv s" and "visitorsInv (othersOf s i) (cc_vm c', socks')"
  shows "socksInv (setCtl i (c', socks') s)"
proof -
  have mine: "othersOf s i = socks' - ownSocks (cc_vm c')" "socks' = othersOf s i \<union> ownSocks (cc_vm c')"
    using visitorsInv_others [OF assms(2)] assms(2) by (auto simp: visitorsInv_def)
  have other: "ownSocks (cc_vm d) \<subseteq> othersOf s i" "visitorsInv (othersOf s j) (cc_vm d, cs_socks s)" if "cs_ctls s j = Some d" "j \<noteq> i" for j d
  proof -
    show inv: "visitorsInv (othersOf s j) (cc_vm d, cs_socks s)" using assms(1) that(1) by (simp add: socksInv_def)
    then have "ownSocks (cc_vm d) \<subseteq> cs_socks s" by (auto simp: visitorsInv_def)
    moreover have "ownSocks (cc_vm c) \<inter> ownSocks (cc_vm d) = {}" if "cs_ctls s i = Some c" for c
      using assms(1) that \<open>cs_ctls s j = Some d\<close> \<open>j \<noteq> i\<close> unfolding socksInv_def by blast
    ultimately show "ownSocks (cc_vm d) \<subseteq> othersOf s i" by (cases "cs_ctls s i") (auto simp: othersOf_def)
  qed
  let ?s = "setCtl i (c', socks') s"
  have "visitorsInv (othersOf ?s j) (cc_vm d, cs_socks ?s)" if d: "cs_ctls ?s j = Some d" for j d
  proof (cases "j = i")
    case True
    then show ?thesis using d assms(2) mine(1) by (simp add: setCtl_def othersOf_def)
  next
    case False
    then have dj: "cs_ctls s j = Some d" using d by (simp add: setCtl_def)
    have "ownSocks (cc_vm d) \<subseteq> socks'" using other(1) [OF dj False] mine(2) by blast
    from visitorsInv_shared [OF other(2) [OF dj False] this] show ?thesis using dj False by (simp add: setCtl_def othersOf_def)
  qed
  moreover have "ownSocks (cc_vm c1) \<inter> ownSocks (cc_vm d) = {}"
    if "cs_ctls ?s k = Some c1" "cs_ctls ?s j = Some d" "k \<noteq> j" for k j c1 d
  proof -
    have fresh: "ownSocks (cc_vm d') \<inter> ownSocks (cc_vm c') = {}" if "cs_ctls s j' = Some d'" "j' \<noteq> i" for j' d'
      using other(1) [OF that] mine(1) by blast
    show ?thesis
    proof (cases "k = i")
      case True
      then show ?thesis using that fresh [of j d] by (simp add: setCtl_def Int_commute)
    next
      case False
      show ?thesis
      proof (cases "j = i")
        case True
        then show ?thesis using that False fresh [of k c1] by (simp add: setCtl_def)
      next
        case j: False
        have "cs_ctls s k = Some c1" "cs_ctls s j = Some d" using that False j by (simp_all add: setCtl_def)
        then show ?thesis using assms(1) that(3) unfolding socksInv_def by blast
      qed
    qed
  qed
  ultimately show ?thesis unfolding socksInv_def by blast
qed

definition csInv :: "client_service \<Rightarrow> bool" where
  "csInv s \<longleftrightarrow> cfgsOk (cs_cfgs s) \<and> list_all cfgsOk (cs_reloads s) \<and> socksInv s \<and>
     (\<forall>i c. cs_ctls s i = Some c \<longrightarrow> i < cs_next s \<and> mgrInv (cc_pm c)) \<and>
     (\<forall>i. cs_ctl s = Some i \<longrightarrow> cs_ctls s i \<noteq> None) \<and>
     (\<forall>i. cs_loop s = Made i \<longrightarrow> cs_ctls s i \<noteq> None \<and> cs_ctl s \<noteq> Some i) \<and>
     (\<forall>i c. cs_ctls s i = Some c \<and> cs_ctl s \<noteq> Some i \<and> cs_loop s \<noteq> Made i \<longrightarrow> stopped c)"

lemma csInvD:
  assumes "csInv s"
  shows "cfgsOk (cs_cfgs s)" "cfgs \<in> set (cs_reloads s) \<Longrightarrow> cfgsOk cfgs" "socksInv s"
    "cs_ctls s i = Some c \<Longrightarrow> i < cs_next s" "cs_ctls s i = Some c \<Longrightarrow> mgrInv (cc_pm c)"
    "cs_ctl s = Some i \<Longrightarrow> cs_ctls s i \<noteq> None" "cs_loop s = Made i \<Longrightarrow> cs_ctls s i \<noteq> None" "cs_loop s = Made i \<Longrightarrow> cs_ctl s \<noteq> Some i"
    "cs_ctls s i = Some c \<Longrightarrow> cs_ctl s \<noteq> Some i \<Longrightarrow> cs_loop s \<noteq> Made i \<Longrightarrow> stopped c"
    "cs_ctls s i = Some c \<Longrightarrow> visitorsInv (othersOf s i) (cc_vm c, cs_socks s)"
  using assms unfolding csInv_def socksInv_def list_all_iff by blast+

lemma csInvI:
  assumes "cfgsOk (cs_cfgs s)" and "\<And>cfgs. cfgs \<in> set (cs_reloads s) \<Longrightarrow> cfgsOk cfgs" and "socksInv s"
    and "\<And>i c. cs_ctls s i = Some c \<Longrightarrow> i < cs_next s" and "\<And>i c. cs_ctls s i = Some c \<Longrightarrow> mgrInv (cc_pm c)"
    and "\<And>i. cs_ctl s = Some i \<Longrightarrow> cs_ctls s i \<noteq> None"
    and "\<And>i. cs_loop s = Made i \<Longrightarrow> cs_ctls s i \<noteq> None" and "\<And>i. cs_loop s = Made i \<Longrightarrow> cs_ctl s \<noteq> Some i"
    and "\<And>i c. cs_ctls s i = Some c \<Longrightarrow> cs_ctl s \<noteq> Some i \<Longrightarrow> cs_loop s \<noteq> Made i \<Longrightarrow> stopped c"
  shows "csInv s"
  unfolding csInv_def list_all_iff using assms by blast

text \<open>A move of one control that leaves it stopped, if it is an old one.\<close>

lemma csInv_set:
  assumes "csInv s" and "cs_ctls s i = Some c" and "mgrInv (cc_pm c')" and "visitorsInv (othersOf s i) (cc_vm c', socks')"
    and "cs_ctl s \<noteq> Some i \<Longrightarrow> cs_loop s \<noteq> Made i \<Longrightarrow> stopped c \<Longrightarrow> stopped c'"
  shows "csInv (setCtl i (c', socks') s)"
proof -
  note I = csInvD [OF assms(1)]
  have sk: "socksInv (setCtl i (c', socks') s)" by (rule socksInv_set [OF I(3) assms(4)])
  have old: "stopped d" if "cs_ctls (setCtl i (c', socks') s) j = Some d" "cs_ctl s \<noteq> Some j" "cs_loop s \<noteq> Made j" for j d
  proof (cases "j = i")
    case True
    then have "stopped c" using I(9) [OF assms(2)] that(2,3) by simp
    then show ?thesis using assms(5) that True by (simp add: setCtl_def)
  next
    case False
    then show ?thesis using I(9) [of j d] that by (simp add: setCtl_def)
  qed
  have fields: "cs_ctl (setCtl i (c', socks') s) = cs_ctl s" "cs_loop (setCtl i (c', socks') s) = cs_loop s"
    by (simp_all add: setCtl_def)
  show ?thesis
  proof (rule csInvI)
    show "socksInv (setCtl i (c', socks') s)" by (rule sk)
    show "stopped d" if "cs_ctls (setCtl i (c', socks') s) j = Some d" "cs_ctl (setCtl i (c', socks') s) \<noteq> Some j"
        "cs_loop (setCtl i (c', socks') s) \<noteq> Made j" for j d
      using old that fields by simp
    show "j < cs_next (setCtl i (c', socks') s)" "mgrInv (cc_pm d)" if "cs_ctls (setCtl i (c', socks') s) j = Some d" for j d
      using that I(4,5) [of j d] I(4) [OF assms(2)] assms(3) by (auto simp: setCtl_def split: if_splits)
  qed (use I(1,2,6-8) in \<open>auto simp: setCtl_def\<close>)
qed

lemma stopped_proxies: "stopped c \<Longrightarrow> confsOf pm = confsOf (cc_pm c) \<Longrightarrow> stopped (c\<lparr> cc_pm := pm \<rparr>)"
  by (auto simp: stopped_def confsOf_def fun_eq_iff)

lemma cs_step_inv:
  assumes "csInv s" and "cs_step calm loginFailExit s s'"
  shows "csInv s'"
  using assms(2)
proof cases
  case refused
  then show ?thesis using assms(1) by (auto simp: csInv_def socksInv_def othersOf_def)
next
  case (login ch cs runID)
  have none: "cs_ctls s (cs_next s) = None" using csInvD(4) [OF assms(1), of "cs_next s"] by fastforce
  then have fresh: "visitorsInv (othersOf s (cs_next s)) (cc_vm emptyCtl, cs_socks s)"
    by (simp add: othersOf_def emptyCtl_def visitorsInv_def NewVisitors_def ownSocks_def openAt_def visitorsKeyed_def)
  have "mgrInv (cc_pm emptyCtl)" by (simp add: emptyCtl_def mgrInv_def ProxyManager.NewManager_def about_def)
  from ctlReload_ok [OF this fresh csInvD(1) [OF assms(1)] login(3)] obtain c' socks' where
      c': "cs = (c', socks')" "mgrInv (cc_pm c')" "visitorsInv (othersOf s (cs_next s)) (cc_vm c', socks')"
    using login(4) by (auto simp: makeCtl_def)
  note I = csInvD [OF assms(1)]
  have "socksInv (setCtl (cs_next s) (c', socks') s)" by (rule socksInv_set [OF I(3) c'(3)])
  then have sk: "socksInv s'" by (simp add: login(1) c'(1) socksInv_def othersOf_def)
  have ctls: "cs_ctls s' = (cs_ctls s)(cs_next s \<mapsto> c')" "cs_ctl s' = cs_ctl s" "cs_loop s' = Made (cs_next s)" "cs_next s' = Suc (cs_next s)"
      "cs_cfgs s' = cs_cfgs s" "cs_reloads s' = cs_reloads s"
    by (simp_all add: login(1) c'(1) setCtl_def)
  have "stopped d" if "cs_ctls s' i = Some d" "cs_ctl s' \<noteq> Some i" "cs_loop s' \<noteq> Made i" for i d
    using that I(9) [of i d] login(2) by (auto simp: ctls)
  moreover have "cs_ctl s \<noteq> Some (cs_next s)" using I(6) none by auto
  ultimately show ?thesis
    using sk I(1,2,6) c'(2) less_SucI [OF I(4)] I(5) by (auto simp: csInv_def ctls list_all_iff)
next
  case (first i)
  then show ?thesis using assms(1) by (auto simp: csInv_def socksInv_def othersOf_def)
next
  case (replace i j c order order' cs)
  note I = csInvD [OF assms(1)]
  obtain c' socks' where c': "cs = (c', socks')" "mgrInv (cc_pm c')" "visitorsInv (othersOf s j) (cc_vm c', socks')" "stopped c'"
    using ctlClose_ok [OF I(5) [OF replace(4)] I(10) [OF replace(4)] replace(5,6)] replace(7) by auto
  have "csInv (setCtl j (c', socks') s)" by (rule csInv_set [OF assms(1) replace(4) c'(2,3)]) (rule c'(4))
  note J = csInvD [OF this]
  have "j \<noteq> i" using I(8) [OF replace(2)] replace(3) by auto
  have sk: "socksInv s'" using J(3) by (simp add: replace(1) c'(1) socksInv_def othersOf_def)
  have old: "stopped d" if "cs_ctls s' k = Some d" "k \<noteq> i" for k d
    using that J(9) [of k d] c'(4) replace(2,3) by (cases "k = j") (auto simp: replace(1) c'(1) setCtl_def)
  show ?thesis
  proof (rule csInvI)
    show "stopped d" if "cs_ctls s' k = Some d" "cs_ctl s' \<noteq> Some k" for k d
      using that old [of k d] by (simp add: replace(1))
    show "k < cs_next s'" "mgrInv (cc_pm d)" if "cs_ctls s' k = Some d" for k d
      using that J(4,5) [of k d] by (simp_all add: replace(1) c'(1))
    show "cs_ctls s' k \<noteq> None" if "cs_ctl s' = Some k" for k
      using that I(7) [OF replace(2)] \<open>j \<noteq> i\<close> by (simp add: replace(1) c'(1) setCtl_def)
  qed (use sk I(1,2) in \<open>auto simp: replace(1) setCtl_def\<close>)
next
  case (broken i c)
  show ?thesis unfolding broken(1)
    by (rule csInv_set [OF assms(1) broken(2)])
       (use csInvD(5,10) [OF assms(1) broken(2)] in \<open>simp_all add: closed_channel_inv stopped_def\<close>)
next
  case (proxies i c order c')
  obtain d where "closeProxies order c = Inr d" "mgrInv (cc_pm d)" "pm_proxies (cc_pm d) = Map.empty" "cc_vm d = cc_vm c"
    using closeProxies_ok [OF csInvD(5) [OF assms(1) proxies(2)] proxies(4)] by blast
  then show ?thesis unfolding proxies(1)
    by (intro csInv_set [OF assms(1) proxies(2)]) (use proxies(5) csInvD(10) [OF assms(1) proxies(2)] in \<open>simp_all add: stopped_def\<close>)
next
  case (visitors i c order c' socks)
  note V = closeVisitors_ok [OF csInvD(10) [OF assms(1) visitors(2)] visitors(4,5)]
  show ?thesis unfolding visitors(1)
    by (rule csInv_set [OF assms(1) visitors(2)]) (use V csInvD(5) [OF assms(1) visitors(2)] in \<open>simp_all add: stopped_def\<close>)
next
  case (notice i c)
  then show ?thesis using assms(1) by (auto simp: csInv_def socksInv_def othersOf_def)
next
  case (reload cfgs)
  then show ?thesis using assms(1) by (auto simp: csInv_def socksInv_def othersOf_def)
next
  case (no_ctl cfgs)
  then show ?thesis using assms(1) by (auto simp: csInv_def socksInv_def othersOf_def list_all_iff dest: in_set_remove1 [THEN iffD1, rotated] notin_set_remove1)
next
  case (apply_reload cfgs i c ch cs)
  note I = csInvD [OF assms(1)]
  obtain c' socks' where c': "cs = (c', socks')" "mgrInv (cc_pm c')" "visitorsInv (othersOf s i) (cc_vm c', socks')"
    using ctlReload_ok [OF I(5) [OF apply_reload(4)] I(10) [OF apply_reload(4)] I(2) [OF apply_reload(2)] apply_reload(5)] apply_reload(6) by auto
  have "csInv (setCtl i (c', socks') s)" by (rule csInv_set [OF assms(1) apply_reload(4) c'(2,3)]) (use apply_reload(3) in simp)
  then show ?thesis unfolding apply_reload(1) c'(1)
    by (auto simp: csInv_def setCtl_def socksInv_def othersOf_def list_all_iff dest: notin_set_remove1)
next
  case close_early
  then show ?thesis using assms(1) by (auto simp: csInv_def socksInv_def othersOf_def)
next
  case (close i c order order' cs)
  note I = csInvD [OF assms(1)]
  obtain c' socks' where c': "cs = (c', socks')" "mgrInv (cc_pm c')" "visitorsInv (othersOf s i) (cc_vm c', socks')" "stopped c'"
    using ctlClose_ok [OF I(5) [OF close(3)] I(10) [OF close(3)] close(4,5)] close(6) by auto
  have "csInv (setCtl i (c', socks') s)" by (rule csInv_set [OF assms(1) close(3) c'(2,3)]) (rule c'(4))
  then show ?thesis unfolding close(1) c'(1) by (auto simp: csInv_def setCtl_def socksInv_def othersOf_def)
next
  case (proxy i c pm)
  have "mgrInv pm" using proxy(3) csInvD(5) [OF assms(1) proxy(2)] mgr_step_inv StartProxy_inv by blast
  then show ?thesis unfolding proxy(1)
    by (intro csInv_set [OF assms(1) proxy(2)]) (use proxy(4) csInvD(10) [OF assms(1) proxy(2)] in \<open>simp_all add: stopped_proxies\<close>)
next
  case (tick i c order listens vm socks)
  have "visitorsInv (othersOf s i) (vm, socks)" using visitorsTick_inv [OF csInvD(10) [OF assms(1) tick(2)] tick(5)] by simp
  then show ?thesis unfolding tick(1)
    by (intro csInv_set [OF assms(1) tick(2)]) (use tick(3) csInvD(5) [OF assms(1) tick(2)] in \<open>simp_all add: stopped_def\<close>)
next
  case (bind k)
  note I = csInvD [OF assms(1)]
  have "visitorsInv (othersOf s' i) (cc_vm c, cs_socks s')" if c: "cs_ctls s' i = Some c" for i c
  proof -
    have inv: "visitorsInv (othersOf s i) (cc_vm c, cs_socks s)" using I(10) c by (simp add: bind(1))
    then have "ownSocks (cc_vm c) \<subseteq> cs_socks s'" by (auto simp: bind(1) visitorsInv_def)
    from visitorsInv_shared [OF inv this] show ?thesis using c by (simp add: bind(1) othersOf_def)
  qed
  then have "socksInv s'" using I(3) by (simp add: socksInv_def bind(1))
  then show ?thesis using assms(1) by (simp add: csInv_def bind(1))
next
  case (unbind k)
  note I = csInvD [OF assms(1)]
  have "visitorsInv (othersOf s' i) (cc_vm c, cs_socks s')" if c: "cs_ctls s' i = Some c" for i c
  proof -
    have inv: "visitorsInv (othersOf s i) (cc_vm c, cs_socks s)" using I(10) c by (simp add: unbind(1))
    then have "ownSocks (cc_vm c) \<subseteq> cs_socks s'" using unbind(3) [of i c] c by (auto simp: unbind(1) visitorsInv_def)
    from visitorsInv_shared [OF inv this] show ?thesis using c by (simp add: unbind(1) othersOf_def)
  qed
  then have "socksInv s'" using I(3) by (simp add: socksInv_def unbind(1))
  then show ?thesis using assms(1) by (simp add: csInv_def unbind(1))
qed

lemma cs_reach_inv: "cs_reach calm f cfgs socks s \<Longrightarrow> cfgsOk cfgs \<Longrightarrow> csInv s"
proof (induction rule: cs_reach.induct)
  case start
  then show ?case by (simp add: csInv_def NewClientService_def socksInv_def)
next
  case (step s s')
  then show ?case using cs_step_inv by blast
qed

section \<open>Configurations of the running control\<close>

text \<open>When reloads are calm, what the service has stored is what a new or working control has loaded.\<close>

definition loaded :: "client_service \<Rightarrow> nat \<Rightarrow> bool" where
  "loaded s i \<longleftrightarrow> cs_loop s = Made i \<or> cs_loop s = Waiting \<and> cs_ctl s = Some i \<and> \<not> cs_exit s \<and> cs_reloads s = []"

definition agreeInv :: "client_service \<Rightarrow> bool" where
  "agreeInv s \<longleftrightarrow> (cs_reloads s = [] \<or> cs_reloads s = [cs_cfgs s]) \<and>
     (\<forall>i c. cs_ctls s i = Some c \<and> cc_stage c = Up \<and> loaded s i \<longrightarrow> agrees (cs_cfgs s) c)"

lemma agreeInvD:
  assumes "agreeInv s"
  shows "cs_reloads s = [] \<or> cs_reloads s = [cs_cfgs s]"
    "cs_ctls s i = Some c \<Longrightarrow> cc_stage c = Up \<Longrightarrow> loaded s i \<Longrightarrow> agrees (cs_cfgs s) c"
  using assms unfolding agreeInv_def by blast+

lemma agreeInv_set:
  assumes "agreeInv s" and "cs_ctls s i = Some c" and "cc_stage c' = Up \<Longrightarrow> cc_stage c = Up"
    and "cc_stage c' = Up \<Longrightarrow> agrees (cs_cfgs s) c \<Longrightarrow> agrees (cs_cfgs s) c'"
  shows "agreeInv (setCtl i (c', socks') s)"
proof -
  have A: "agrees (cs_cfgs s) d" if "((cs_ctls s)(i \<mapsto> c')) j = Some d" "cc_stage d = Up" "loaded s j" for j d
    using that agreeInvD(2) [OF assms(1), of j] assms(2-4) by (cases "j = i") auto
  have fields: "cs_reloads (setCtl i (c', socks') s) = cs_reloads s" "cs_cfgs (setCtl i (c', socks') s) = cs_cfgs s"
      "cs_ctls (setCtl i (c', socks') s) = (cs_ctls s)(i \<mapsto> c')" "loaded (setCtl i (c', socks') s) = loaded s"
    by (simp_all add: setCtl_def loaded_def fun_eq_iff)
  show ?thesis unfolding agreeInv_def fields using A agreeInvD(1) [OF assms(1)] by blast
qed

lemma agrees_proxy: "confsOf pm = confsOf (cc_pm c) \<Longrightarrow> agrees cfgs (c\<lparr> cc_pm := pm \<rparr>) \<longleftrightarrow> agrees cfgs c"
  by (simp add: agrees_def)

lemma agree_step:
  assumes "csInv s" and "agreeInv s" and "cs_step True loginFailExit s s'"
  shows "agreeInv s'"
proof -
  note I = csInvD [OF assms(1)] and A = agreeInvD [OF assms(2)]
  show ?thesis
    using assms(3)
  proof cases
    case refused
    then show ?thesis using assms(2) by (auto simp: agreeInv_def loaded_def)
  next
    case (login ch cs runID)
    have none: "cs_ctls s (cs_next s) = None" using I(4) [of "cs_next s"] by fastforce
    have fresh: "visitorsInv (cs_socks s) (cc_vm emptyCtl, cs_socks s)"
      by (simp add: emptyCtl_def visitorsInv_def NewVisitors_def ownSocks_def openAt_def visitorsKeyed_def)
    have "mgrInv (cc_pm emptyCtl)" by (simp add: emptyCtl_def mgrInv_def ProxyManager.NewManager_def about_def)
    from ctlReload_ok [OF this fresh I(1) login(3)] obtain c' socks' where c': "cs = (c', socks')" "agrees (cs_cfgs s) c'"
      using login(4) by (auto simp: makeCtl_def)
    have "loaded s' i \<longleftrightarrow> i = cs_next s" for i by (auto simp: login(1) loaded_def)
    then show ?thesis using A(1) c' by (simp add: agreeInv_def login(1) setCtl_def)
  next
    case (first i)
    have "loaded s' k \<Longrightarrow> loaded s k" for k using first by (auto simp: loaded_def)
    then show ?thesis using A by (auto simp: agreeInv_def first(1))
  next
    case (replace i j c order order' cs)
    have "i \<noteq> j" using I(8) [OF replace(2)] replace(3) by auto
    moreover have "loaded s' k \<Longrightarrow> k = i \<and> loaded s k" for k using replace(2) by (auto simp: replace(1) loaded_def)
    ultimately show ?thesis using A by (auto simp: agreeInv_def replace(1) setCtl_def)
  next
    case (broken i c)
    show ?thesis unfolding broken(1) by (rule agreeInv_set [OF assms(2) broken(2)]) simp_all
  next
    case (proxies i c order c')
    show ?thesis unfolding proxies(1) by (rule agreeInv_set [OF assms(2) proxies(2)]) simp_all
  next
    case (visitors i c order c' socks)
    show ?thesis unfolding visitors(1) by (rule agreeInv_set [OF assms(2) visitors(2)]) simp_all
  next
    case (notice i c)
    then show ?thesis using A by (simp add: agreeInv_def loaded_def)
  next
    case (reload cfgs)
    then have "\<not> loaded s' i" for i by (simp add: loaded_def)
    then show ?thesis using reload(3) by (simp add: agreeInv_def reload(1))
  next
    case (no_ctl cfgs)
    then have "cs_reloads s = [cs_cfgs s]" "cfgs = cs_cfgs s" using A(1) by auto
    moreover have "loaded s' i \<Longrightarrow> loaded s i" for i using no_ctl by (auto simp: loaded_def)
    ultimately show ?thesis using A(2) by (auto simp: agreeInv_def no_ctl(1))
  next
    case (apply_reload cfgs i c ch cs)
    have r: "cs_reloads s = [cs_cfgs s]" "cfgs = cs_cfgs s" using A(1) apply_reload(2) by auto
    obtain c' socks' where c': "cs = (c', socks')" "agrees (cs_cfgs s) c'"
      using ctlReload_ok [OF I(5) [OF apply_reload(4)] I(10) [OF apply_reload(4)] I(2) [OF apply_reload(2)] apply_reload(5)] apply_reload(6) r(2)
      by auto
    have "loaded s' k \<Longrightarrow> k = i \<or> loaded s k" for k using apply_reload(3) by (auto simp: apply_reload(1) setCtl_def loaded_def)
    then show ?thesis using A(2) c' r by (auto simp: agreeInv_def apply_reload(1) setCtl_def)
  next
    case close_early
    then show ?thesis using A by (auto simp: agreeInv_def loaded_def)
  next
    case (close i c order order' cs)
    have "loaded s' k \<Longrightarrow> k \<noteq> i \<and> loaded s k" for k using I(8) [of k] close(2) by (auto simp: close(1) setCtl_def loaded_def)
    then show ?thesis using A by (auto simp: agreeInv_def close(1) setCtl_def)
  next
    case (proxy i c pm)
    show ?thesis unfolding proxy(1) by (rule agreeInv_set [OF assms(2) proxy(2)]) (simp_all add: agrees_proxy proxy(4))
  next
    case (tick i c order listens vm socks)
    have "vm_cfgs vm = vm_cfgs (cc_vm c)" using visitorsTick_inv [OF I(10) [OF tick(2)] tick(5)] by simp
    then show ?thesis unfolding tick(1) by (intro agreeInv_set [OF assms(2) tick(2)]) (simp_all add: agrees_def)
  next
    case (bind k)
    have "loaded s' i \<longleftrightarrow> loaded s i" for i by (simp add: bind(1) loaded_def)
    then show ?thesis using A by (auto simp: agreeInv_def bind(1))
  next
    case (unbind k)
    have "loaded s' i \<longleftrightarrow> loaded s i" for i by (simp add: unbind(1) loaded_def)
    then show ?thesis using A by (auto simp: agreeInv_def unbind(1))
  qed
qed

lemma cs_reach_agree: "cs_reach True f cfgs socks s \<Longrightarrow> cfgsOk cfgs \<Longrightarrow> agreeInv s"
proof (induction rule: cs_reach.induct)
  case start
  then show ?case by (simp add: agreeInv_def NewClientService_def)
next
  case (step s s')
  then show ?case using agree_step cs_reach_inv by blast
qed

section \<open>Runs\<close>

text \<open>Maps of the program are finite, so their ranges have an order.\<close>

lemma finite_order: "finite (dom m) \<Longrightarrow> \<exists>order. rangeOf order m" "finite (dom m) \<Longrightarrow> \<exists>order. rangeOver order m"
  using finite_distinct_list [of "dom m"] by (auto simp: rangeOf_def rangeOver_def)

definition finiteCfgs :: "client_cfgs \<Rightarrow> bool" where
  "finiteCfgs cfgs \<longleftrightarrow> finite (dom (fst cfgs)) \<and> finite (dom (snd cfgs))"

definition finiteCtl :: "client_ctl \<Rightarrow> bool" where
  "finiteCtl c \<longleftrightarrow> finite (dom (pm_proxies (cc_pm c))) \<and> finite (dom (vm_cfgs (cc_vm c)))"

lemma finiteCtl_visitors: "finiteCtl c \<Longrightarrow> visitorsInv others (cc_vm c, socks) \<Longrightarrow> finite (dom (vm_visitors (cc_vm c)))"
proof -
  assume "finiteCtl c" and inv: "visitorsInv others (cc_vm c, socks)"
  have "dom (vm_visitors (cc_vm c)) \<subseteq> dom (vm_cfgs (cc_vm c))" using visitorsInvD(1) [OF inv] by blast
  then show ?thesis using \<open>finiteCtl c\<close> finite_subset by (auto simp: finiteCtl_def)
qed

lemma agrees_finite: "agrees cfgs c \<Longrightarrow> finiteCfgs cfgs \<Longrightarrow> finiteCtl c"
proof -
  assume a: "agrees cfgs c" and f: "finiteCfgs cfgs"
  have "pm_proxies (cc_pm c) n = None \<longleftrightarrow> fst cfgs n = None" for n
    using a by (auto simp: agrees_def rel_fun_def confsOf_def elim!: allE [of _ n] split: option.splits)
  then have "dom (pm_proxies (cc_pm c)) = dom (fst cfgs)" by (auto simp: dom_def)
  then show ?thesis using a f by (simp add: finiteCtl_def finiteCfgs_def agrees_def)
qed

lemma choices_exist: "finiteCfgs cfgs \<Longrightarrow> finiteCtl c \<Longrightarrow> \<exists>ch. choicesOk cfgs c ch"
proof -
  assume f: "finiteCfgs cfgs" "finiteCtl c"
  obtain a where "rangeOf a (pm_proxies (cc_pm c))" using finite_order(1) f(2) finiteCtl_def by blast
  moreover obtain b where "rangeOf b (fst cfgs)" using finite_order(1) f(1) finiteCfgs_def by blast
  moreover obtain d where "rangeOver d (vm_cfgs (cc_vm c))" using finite_order(2) f(2) finiteCtl_def by blast
  moreover obtain e where "rangeOver e (snd cfgs)" using finite_order(2) f(1) finiteCfgs_def by blast
  ultimately have "choicesOk cfgs c \<lparr> ch_listens = \<lambda>_. True, ch_proxies = a, ch_newProxies = b, ch_visitors = d, ch_newVisitors = e \<rparr>"
    by (simp add: choicesOk_def)
  then show ?thesis by blast
qed

lemma emptyCtl_ok:
  "mgrInv (cc_pm emptyCtl)" "visitorsInv socks (cc_vm emptyCtl, socks)" "finiteCtl emptyCtl" "cc_stage emptyCtl = Up"
  by (simp_all add: emptyCtl_def mgrInv_def ProxyManager.NewManager_def about_def visitorsInv_def NewVisitors_def ownSocks_def openAt_def
      visitorsKeyed_def finiteCtl_def)

lemma closeVisitors_cfgs:
  assumes "visitorsInv others (cc_vm c, socks)" and "closeVisitors order c socks = (c', socks')"
  shows "vm_cfgs (cc_vm c') = vm_cfgs (cc_vm c)"
proof -
  obtain vm socks1 where v: "closeAll order (cc_vm c, socks) = (vm, socks1)" by fastforce
  then show ?thesis using closeAll_inv [OF assms(1) v] assms(2) by (auto simp: closeVisitors_def visitorsClose_def)
qed

text \<open>A login that succeeds, and the new control's taking over.\<close>

lemma login_step:
  assumes "csInv s" and "cs_loop s = FirstLogin \<or> cs_loop s = Reconnecting" and "finiteCfgs (cs_cfgs s)"
  shows "\<exists>s' c. cs_step calm f s s' \<and> cs_loop s' = Made (cs_next s) \<and> cs_ctls s' = (cs_ctls s)(cs_next s \<mapsto> c) \<and> cc_stage c = Up \<and>
    agrees (cs_cfgs s) c \<and> cs_ctl s' = cs_ctl s \<and> cs_cfgs s' = cs_cfgs s \<and> cs_reloads s' = cs_reloads s \<and> cs_exit s' = cs_exit s"
proof -
  obtain ch where ch: "choicesOk (cs_cfgs s) emptyCtl ch" using choices_exist [OF assms(3) emptyCtl_ok(3)] by blast
  obtain c socks' where c: "makeCtl ch (cs_cfgs s) (cs_socks s) = Inr (c, socks')" "agrees (cs_cfgs s) c" "cc_stage c = Up"
    using ctlReload_ok [OF emptyCtl_ok(1) emptyCtl_ok(2) [of "cs_socks s"] csInvD(1) [OF assms(1)] ch] emptyCtl_ok(4) unfolding makeCtl_def by metis
  let ?s = "(setCtl (cs_next s) (c, socks') s)\<lparr> cs_runID := cs_runID s, cs_next := Suc (cs_next s), cs_loop := Made (cs_next s) \<rparr>"
  have "cs_step calm f s ?s" by (rule cs_step.login [OF assms(2) ch c(1)])
  then show ?thesis using c(2,3) by (intro exI [of _ ?s] exI [of _ c]) (simp add: setCtl_def)
qed

lemma replace_step:
  assumes "csInv s" and "cs_loop s = Made i" and "cs_ctl s = Some j" and "cs_ctls s j = Some d" and "finiteCtl d"
  shows "\<exists>s' d'. cs_step calm f s s' \<and> cs_loop s' = Waiting \<and> cs_ctl s' = Some i \<and> cs_ctls s' = (cs_ctls s)(j \<mapsto> d') \<and> i \<noteq> j \<and>
    cs_cfgs s' = cs_cfgs s \<and> cs_reloads s' = cs_reloads s \<and> cs_exit s' = cs_exit s"
proof -
  note I = csInvD [OF assms(1)]
  obtain order order' where o: "rangeOf order (pm_proxies (cc_pm d))" "rangeOver order' (vm_visitors (cc_vm d))"
    using finite_order finiteCtl_visitors [OF assms(5) I(10) [OF assms(4)]] assms(5) by (metis finiteCtl_def)
  obtain d' socks' where d': "ctlClose order order' d (cs_socks s) = Inr (d', socks')"
    using ctlClose_ok [OF I(5) [OF assms(4)] I(10) [OF assms(4)] o] by blast
  have "i \<noteq> j" using I(8) [OF assms(2)] assms(3) by auto
  let ?s = "(setCtl j (d', socks') s)\<lparr> cs_ctl := Some i, cs_loop := Waiting \<rparr>"
  have "cs_step calm f s ?s" by (rule cs_step.replace [OF assms(2-4) o d'])
  then show ?thesis using \<open>i \<noteq> j\<close> by (intro exI [of _ ?s] exI [of _ d']) (simp add: setCtl_def)
qed

lemma close_step:
  assumes "csInv s" and "cs_ctl s = Some j" and "cs_ctls s j = Some d" and "finiteCtl d"
  shows "\<exists>s' d'. cs_step calm f s s' \<and> cs_exit s' \<and> cs_ctls s' = (cs_ctls s)(j \<mapsto> d') \<and> finiteCtl d' \<and> cc_stage d' = cc_stage d \<and>
    cs_loop s' = cs_loop s \<and> cs_ctl s' = cs_ctl s \<and> cs_cfgs s' = cs_cfgs s \<and> cs_reloads s' = cs_reloads s \<and> cs_next s' = cs_next s"
proof -
  note I = csInvD [OF assms(1)]
  obtain order order' where o: "rangeOf order (pm_proxies (cc_pm d))" "rangeOver order' (vm_visitors (cc_vm d))"
    using finite_order finiteCtl_visitors [OF assms(4) I(10) [OF assms(3)]] assms(4) by (metis finiteCtl_def)
  obtain d' socks' where d': "ctlClose order order' d (cs_socks s) = Inr (d', socks')" "stopped d'" "cc_stage d' = cc_stage d"
    using ctlClose_ok [OF I(5) [OF assms(3)] I(10) [OF assms(3)] o] by blast
  obtain d1 where d1: "closeProxies order d = Inr d1" "cc_vm d1 = cc_vm d"
    using closeProxies_ok [OF I(5) [OF assms(3)] o(1)] by blast
  then have "closeVisitors order' d1 (cs_socks s) = (d', socks')" using d'(1) by (simp add: ctlClose_def)
  then have "vm_cfgs (cc_vm d') = vm_cfgs (cc_vm d)"
    using closeVisitors_cfgs [of _ d1 "cs_socks s" order' d' socks'] I(10) [OF assms(3)] d1(2) by simp
  then have "finiteCtl d'" using d'(2) assms(4) by (simp add: finiteCtl_def stopped_def)
  moreover let ?s = "(setCtl j (d', socks') s)\<lparr> cs_exit := True \<rparr>"
  have "cs_step calm f s ?s" by (rule cs_step.close [OF assms(2,3) o d'(1)])
  ultimately show ?thesis using d'(3) by (intro exI [of _ ?s] exI [of _ d']) (simp add: setCtl_def)
qed

lemma cs_reach_step: "cs_reach calm f cfgs socks s \<Longrightarrow> cs_step calm f s s' \<Longrightarrow> cs_reach calm f cfgs socks s'"
  by (rule cs_reach.step)

text \<open>A session that has begun and broken: the service logs in again.\<close>

lemma lost_session:
  assumes "cs_reach calm f cfgs socks s" and "cfgsOk cfgs" and "cs_loop s = Waiting" and "cs_ctl s = Some i" and "cs_ctls s i = Some c"
    and "cc_stage c = Up" and "finiteCtl c" and "\<not> cs_exit s"
  shows "\<exists>s' d. cs_reach calm f cfgs socks s' \<and> cs_loop s' = Reconnecting \<and> cs_ctl s' = Some i \<and> cs_ctls s' i = Some d \<and> finiteCtl d \<and>
    cs_cfgs s' = cs_cfgs s \<and> cs_reloads s' = cs_reloads s \<and> cs_exit s' = cs_exit s"
proof -
  let ?c1 = "c\<lparr> cc_pm := (cc_pm c)\<lparr> pm_sendClosed := True \<rparr>, cc_stage := Broken \<rparr>"
  let ?s1 = "setCtl i (?c1, cs_socks s) s"
  have r1: "cs_reach calm f cfgs socks ?s1" by (rule cs_reach_step [OF assms(1) cs_step.broken [OF assms(5,6)]])
  have c1: "cs_ctls ?s1 i = Some ?c1" "cc_stage ?c1 = Broken" "finiteCtl ?c1" using assms(7) by (simp_all add: setCtl_def finiteCtl_def)
  note I1 = csInvD [OF cs_reach_inv [OF r1 assms(2)]]
  obtain order where o: "rangeOf order (pm_proxies (cc_pm ?c1))" using finite_order(1) c1(3) by (metis finiteCtl_def)
  obtain c2 where c2: "closeProxies order ?c1 = Inr c2" "pm_proxies (cc_pm c2) = Map.empty" "cc_vm c2 = cc_vm ?c1"
    using closeProxies_ok [OF I1(5) [OF c1(1)] o] by blast
  let ?c3 = "c2\<lparr> cc_stage := ProxiesClosed \<rparr>"
  let ?s2 = "setCtl i (?c3, cs_socks ?s1) ?s1"
  have r2: "cs_reach calm f cfgs socks ?s2" by (rule cs_reach_step [OF r1 cs_step.proxies [OF c1(1,2) o c2(1)]])
  have c3: "cs_ctls ?s2 i = Some ?c3" "cc_stage ?c3 = ProxiesClosed" "finiteCtl ?c3"
    using assms(7) c2 by (simp_all add: setCtl_def finiteCtl_def)
  note I2 = csInvD [OF cs_reach_inv [OF r2 assms(2)]]
  obtain order' where o': "rangeOver order' (vm_visitors (cc_vm ?c3))"
    using finite_order(2) finiteCtl_visitors [OF c3(3) I2(10) [OF c3(1)]] by blast
  obtain c4 socks4 where c4: "closeVisitors order' ?c3 (cs_socks ?s2) = (c4, socks4)" by fastforce
  let ?c5 = "c4\<lparr> cc_stage := Released \<rparr>"
  let ?s3 = "setCtl i (?c5, socks4) ?s2"
  have r3: "cs_reach calm f cfgs socks ?s3" by (rule cs_reach_step [OF r2 cs_step.visitors [OF c3(1,2) o' c4]])
  have c5: "cs_ctls ?s3 i = Some ?c5" "cc_stage ?c5 = Released" "cs_loop ?s3 = Waiting" "cs_ctl ?s3 = Some i" "\<not> cs_exit ?s3"
    using assms(3,4,8) by (simp_all add: setCtl_def)
  have "vm_cfgs (cc_vm c4) = vm_cfgs (cc_vm ?c3)" "cc_pm c4 = cc_pm ?c3"
    using closeVisitors_cfgs [OF I2(10) [OF c3(1)] c4] closeVisitors_ok(4) [OF I2(10) [OF c3(1)] o' c4] by simp_all
  then have "finiteCtl ?c5" using c3(3) by (simp add: finiteCtl_def)
  moreover have "cs_reach calm f cfgs socks (?s3\<lparr> cs_loop := Reconnecting \<rparr>)"
    using cs_reach_step [OF r3 cs_step.notice [OF c5(3,4,1,2)]] c5(5) by simp
  ultimately show ?thesis
    by (intro exI [of _ "?s3\<lparr> cs_loop := Reconnecting \<rparr>"] exI [of _ ?c5]) (simp add: setCtl_def assms(4))
qed

section \<open>Properties\<close>

text \<open>A client with one proxy, which has lost its connection and logs in again.\<close>

definition sampleCfgs :: "int \<Rightarrow> client_cfgs" where
  "sampleCfgs port = ([''ssh'' \<mapsto> sampleProxy port], Map.empty)"

lemma sampleCfgs_ok: "cfgsOk (sampleCfgs port)" "finiteCfgs (sampleCfgs port)"
  by (simp_all add: cfgsOk_def sampleCfgs_def wellKeyed_def visitorsKeyed_def sampleProxy_def finiteCfgs_def)

lemma sample_session:
  "\<exists>s c. cs_reach calm f (sampleCfgs 6000) socks s \<and> cs_loop s = Waiting \<and> cs_ctl s = Some 0 \<and> cs_ctls s 0 = Some c \<and> cc_stage c = Up \<and>
     agrees (sampleCfgs 6000) c \<and> cs_cfgs s = sampleCfgs 6000 \<and> cs_reloads s = [] \<and> \<not> cs_exit s"
proof -
  let ?s0 = "NewClientService (sampleCfgs 6000) socks"
  have r0: "cs_reach calm f (sampleCfgs 6000) socks ?s0" by (rule cs_reach.start)
  have f0: "cs_loop ?s0 = FirstLogin \<or> cs_loop ?s0 = Reconnecting" "cs_cfgs ?s0 = sampleCfgs 6000" "cs_next ?s0 = 0" "cs_ctl ?s0 = None"
    "cs_reloads ?s0 = []" "\<not> cs_exit ?s0"
    by (simp_all add: NewClientService_def)
  obtain s1 c where s1: "cs_step calm f ?s0 s1" "cs_loop s1 = Made 0" "cs_ctls s1 0 = Some c" "cc_stage c = Up" "agrees (sampleCfgs 6000) c"
      "cs_ctl s1 = None" "cs_cfgs s1 = sampleCfgs 6000" "cs_reloads s1 = []" "\<not> cs_exit s1"
    using login_step [OF cs_reach_inv [OF r0 sampleCfgs_ok(1)] f0(1), of calm f] sampleCfgs_ok(2) f0 by fastforce
  have "cs_reach calm f (sampleCfgs 6000) socks (s1\<lparr> cs_ctl := Some 0, cs_loop := Waiting \<rparr>)"
    using cs_reach_step [OF cs_reach_step [OF r0 s1(1)] cs_step.first [OF s1(2,6)]] .
  then show ?thesis using s1 by (intro exI [of _ "s1\<lparr> cs_ctl := Some 0, cs_loop := Waiting \<rparr>"] exI [of _ c]) simp
qed

lemma sample_lost:
  "\<exists>s d. cs_reach calm f (sampleCfgs 6000) socks s \<and> cs_loop s = Reconnecting \<and> cs_ctl s = Some 0 \<and> cs_ctls s 0 = Some d \<and> finiteCtl d \<and>
     cs_cfgs s = sampleCfgs 6000 \<and> cs_reloads s = [] \<and> \<not> cs_exit s"
proof -
  obtain s c where s: "cs_reach calm f (sampleCfgs 6000) socks s" "cs_loop s = Waiting" "cs_ctl s = Some 0" "cs_ctls s 0 = Some c"
      "cc_stage c = Up" "agrees (sampleCfgs 6000) c" "cs_cfgs s = sampleCfgs 6000" "cs_reloads s = []" "\<not> cs_exit s"
    using sample_session [of calm f socks] by blast
  from lost_session [OF s(1) sampleCfgs_ok(1) s(2-5) agrees_finite [OF s(6) sampleCfgs_ok(2)] s(9)] show ?thesis using s(7-9) by simp
qed

lemma sample_made:
  "\<exists>s i c d. cs_reach calm f (sampleCfgs 6000) socks s \<and> cs_loop s = Made i \<and> i \<noteq> 0 \<and> cs_ctl s = Some 0 \<and> cs_ctls s 0 = Some d \<and>
     finiteCtl d \<and> cs_ctls s i = Some c \<and> cc_stage c = Up \<and> agrees (sampleCfgs 6000) c \<and> cs_reloads s = []"
proof -
  obtain s d where s: "cs_reach calm f (sampleCfgs 6000) socks s" "cs_loop s = Reconnecting" "cs_ctl s = Some 0" "cs_ctls s 0 = Some d"
      "finiteCtl d" "cs_cfgs s = sampleCfgs 6000" "cs_reloads s = []"
    using sample_lost [of calm f socks] by blast
  note I = cs_reach_inv [OF s(1) sampleCfgs_ok(1)]
  obtain s' c where s': "cs_step calm f s s'" "cs_loop s' = Made (cs_next s)" "cs_ctls s' = (cs_ctls s)(cs_next s \<mapsto> c)" "cc_stage c = Up"
      "agrees (sampleCfgs 6000) c" "cs_ctl s' = cs_ctl s" "cs_reloads s' = cs_reloads s"
    using login_step [OF I, of calm f] s(2,6) sampleCfgs_ok(2) by auto
  have "cs_next s \<noteq> 0" using csInvD(4) [OF I s(4)] by simp
  then show ?thesis using cs_reach_step [OF s(1) s'(1)] s s'
    by (intro exI [of _ s'] exI [of _ "cs_next s"] exI [of _ c] exI [of _ d]) simp
qed



text \<open>
  C7: the running session follows the configurations. As long as no reload begins while a new control takes over or
  another reload is under way, a control whose connection works, and to which every reload has been passed on,
  has exactly the proxies (up to the text of their bandwidths) and the visitors that were last loaded, also
  after any number of lost connections and logins.
\<close>

theorem session_follows_configuration:
  assumes "cs_reach True f cfgs socks s" and "cfgsOk cfgs" and "cs_loop s = Waiting" and "cs_ctl s = Some i" and "cs_ctls s i = Some c"
    and "cc_stage c = Up" and "\<not> cs_exit s" and "cs_reloads s = []"
  shows "(\<forall>n. rel_option (\<lambda>w k. withoutBwText (ws_Cfg (w_status w)) = withoutBwText k) (pm_proxies (cc_pm c) n) (fst (cs_cfgs s) n)) \<and>
    vm_cfgs (cc_vm c) = snd (cs_cfgs s)"
proof -
  have a: "agrees (cs_cfgs s) c"
    by (rule agreeInvD(2) [OF cs_reach_agree [OF assms(1,2)] assms(5,6)]) (simp add: loaded_def assms(3,4,7,8))
  have eq: "Compare = (\<lambda>x y. withoutBwText x = withoutBwText y)" by (intro ext) (simp add: compare_is_equality)
  have "rel_option Compare (confsOf (cc_pm c) n) (fst (cs_cfgs s) n)" for n using a by (simp add: agrees_def rel_fun_def)
  then show ?thesis using a unfolding eq confsOf_def option.rel_map by (simp add: agrees_def)
qed

theorem session_follows_configuration_witness:
  "\<exists>s c. cs_reach True True (sampleCfgs 6000) {} s \<and> cs_ctl s = Some 0 \<and> cs_ctls s 0 = Some c \<and>
     (\<forall>n. rel_option (\<lambda>w k. withoutBwText (ws_Cfg (w_status w)) = withoutBwText k) (pm_proxies (cc_pm c) n) (fst (sampleCfgs 6000) n))"
proof -
  obtain s c where s: "cs_reach True True (sampleCfgs 6000) {} s" "cs_loop s = Waiting" "cs_ctl s = Some 0" "cs_ctls s 0 = Some c"
      "cc_stage c = Up" "\<not> cs_exit s" "cs_reloads s = []" "cs_cfgs s = sampleCfgs 6000"
    using sample_session [of True True "{}"] by blast
  from session_follows_configuration [OF s(1) sampleCfgs_ok(1) s(2-7)] show ?thesis using s(1,3,4,8) by auto
qed



text \<open>
  Closing the service while it logs in again does not end it: whether to exit is looked at only when a
  control has ended, so the login goes on and, when it succeeds, a new control runs all proxies for good.
\<close>

lemma closed_service_comes_back:
  assumes "cs_reach calm f cfgs socks s" and "cfgsOk cfgs" and "cs_loop s = Reconnecting" and "cs_ctl s = Some j"
    and "cs_ctls s j = Some d" and "finiteCtl d" and "finiteCfgs (cs_cfgs s)"
  shows "\<exists>s' i c. cs_reach calm f cfgs socks s' \<and> cs_exit s' \<and> cs_loop s' = Waiting \<and> cs_ctl s' = Some i \<and> cs_ctls s' i = Some c \<and>
    cc_stage c = Up \<and> agrees (cs_cfgs s) c"
proof -
  obtain s1 d1 where s1: "cs_step calm f s s1" "cs_exit s1" "cs_ctls s1 = (cs_ctls s)(j \<mapsto> d1)" "finiteCtl d1" "cs_loop s1 = Reconnecting"
      "cs_ctl s1 = Some j" "cs_cfgs s1 = cs_cfgs s"
    using close_step [OF cs_reach_inv [OF assms(1,2)] assms(4-6), of calm f] assms(3,4) by auto
  have r1: "cs_reach calm f cfgs socks s1" by (rule cs_reach_step [OF assms(1) s1(1)])
  note I1 = cs_reach_inv [OF r1 assms(2)]
  obtain s2 c where s2: "cs_step calm f s1 s2" "cs_loop s2 = Made (cs_next s1)" "cs_ctls s2 = (cs_ctls s1)(cs_next s1 \<mapsto> c)" "cc_stage c = Up"
      "agrees (cs_cfgs s) c" "cs_ctl s2 = Some j" "cs_exit s2"
    using login_step [OF I1, of calm f] s1(2,5-7) assms(7) by auto
  have r2: "cs_reach calm f cfgs socks s2" by (rule cs_reach_step [OF r1 s2(1)])
  have new: "cs_next s1 \<noteq> j" using csInvD(4) [OF I1, of j d1] s1(3) by auto
  then have d2: "cs_ctls s2 j = Some d1" by (simp add: s2(3) s1(3))
  obtain s3 d3 where s3: "cs_step calm f s2 s3" "cs_loop s3 = Waiting" "cs_ctl s3 = Some (cs_next s1)" "cs_ctls s3 = (cs_ctls s2)(j \<mapsto> d3)"
      "cs_exit s3 = cs_exit s2"
    using replace_step [OF cs_reach_inv [OF r2 assms(2)] s2(2,6) d2 s1(4), of calm f] by blast
  then show ?thesis using cs_reach_step [OF r2 s3(1)] s2 new
    by (intro exI [of _ s3] exI [of _ "cs_next s1"] exI [of _ c]) simp
qed

end
