(* ===== verification/ClientConf.thy ===== *)
theory ClientConf
  imports Ranges ClientService "HOL-Library.AList"
begin

text \<open>
  The proxies and visitors in a configuration file of frpc, \<^verbatim>\<open>pkg/config/client.go\<close>: sections whose name begins with
  \<^verbatim>\<open>range:\<close> are templates for one proxy per port, and the other sections are read as proxies or visitors. The file is that of a
  library, with its operations as parameters and what its documentation says of them as \<open>iniLaws\<close>.
\<close>

section \<open>The library\<close>

record 'f ini_lib =
  il_Sections :: "'f \<Rightarrow> string list"
  il_Section :: "'f \<Rightarrow> string \<Rightarrow> ini_section"
  il_NewSection :: "string \<Rightarrow> 'f \<Rightarrow> (string, 'f) result"
  il_NewKey :: "string \<Rightarrow> string \<Rightarrow> string \<Rightarrow> 'f \<Rightarrow> 'f"

text \<open>
  Sections and the keys of a section have different names, and keys are not empty. A new section is appended, unless there
  is one of its name; a section needs a name. A new key replaces the value of one of its name, and only changes its section.
\<close>

definition iniLaws :: "'f ini_lib \<Rightarrow> bool" where
  "iniLaws lib \<longleftrightarrow>
     (\<forall>f. distinct (il_Sections lib f) \<and> (\<forall>n. distinct (map fst (il_Section lib f n)) \<and> [] \<notin> fst ` set (il_Section lib f n))) \<and>
     (\<forall>name f. name \<noteq> [] \<longrightarrow> (\<exists>f'. il_NewSection lib name f = Inr f' \<and>
        il_Sections lib f' = il_Sections lib f @ (if name \<in> set (il_Sections lib f) then [] else [name]) \<and>
        (\<forall>n. map_of (il_Section lib f' n) =
           (if n = name \<and> name \<notin> set (il_Sections lib f) then Map.empty else map_of (il_Section lib f n))))) \<and>
     (\<forall>sec k v f. sec \<in> set (il_Sections lib f) \<and> k \<noteq> [] \<longrightarrow> il_Sections lib (il_NewKey lib sec k v f) = il_Sections lib f \<and>
        (\<forall>n. map_of (il_Section lib (il_NewKey lib sec k v f) n) =
           (if n = sec then (map_of (il_Section lib f n))(k \<mapsto> v) else map_of (il_Section lib f n))))"

text \<open>\<^verbatim>\<open>section.Key(k).String()\<close>, which is empty for a key that does not exist.\<close>

definition keyOf :: "ini_section \<Rightarrow> string \<Rightarrow> string" where
  "keyOf sec k = (case map_of sec k of None \<Rightarrow> [] | Some v \<Rightarrow> v)"

section \<open>Templates\<close>

datatype template_error =
  PortsEmpty | LocalPorts range_error | RemotePorts range_error | PortsDiffer | PortsNecessary | SectionError string

fun copySection :: "'f ini_lib \<Rightarrow> ini_section \<Rightarrow> string \<Rightarrow> 'f \<Rightarrow> 'f" where
  "copySection lib [] target f = f"
| "copySection lib ((k, v) # kvs) target f = copySection lib kvs target (il_NewKey lib target k v f)"

definition trimPrefix :: "string \<Rightarrow> string \<Rightarrow> string" where
  "trimPrefix s p = (if hasPrefix s p then drop (length p) s else s)"

definition templateName :: "string \<Rightarrow> nat \<Rightarrow> string" where
  "templateName name i = trimSpace (trimPrefix name ''range:'') @ ''_'' @ showNat i"

text \<open>The loop over the ports; the keys of a section come in any order, of which this is one.\<close>

fun renderLoop ::
  "'f ini_lib \<Rightarrow> string \<Rightarrow> nat \<Rightarrow> (64 word \<times> 64 word) list \<Rightarrow> 'f \<Rightarrow> (template_error, 'f) result" where
  "renderLoop lib name i [] f = Inr f"
| "renderLoop lib name i ((l, r) # ports) f =
     (case il_NewSection lib (templateName name i) f of
        Inl e \<Rightarrow> Inl (SectionError e)
      | Inr f1 \<Rightarrow>
          let f2 = copySection lib (il_Section lib f1 name) (templateName name i) f1;
              f3 = il_NewKey lib (templateName name i) ''local_port'' (showInt (sint l)) f2;
              f4 = il_NewKey lib (templateName name i) ''remote_port'' (showInt (sint r)) f3 in
          renderLoop lib name (Suc i) ports f4)"

definition renderRangeProxyTemplates :: "'f ini_lib \<Rightarrow> string \<Rightarrow> 'f \<Rightarrow> (template_error, 'f) result option" where
  "renderRangeProxyTemplates lib name f =
     (let localPortStr = keyOf (il_Section lib f name) ''local_port'';
          remotePortStr = keyOf (il_Section lib f name) ''remote_port'' in
      if localPortStr = [] \<or> remotePortStr = [] then Some (Inl PortsEmpty)
      else case ParseRangeNumbers localPortStr of
        None \<Rightarrow> None
      | Some (Inl e) \<Rightarrow> Some (Inl (LocalPorts e))
      | Some (Inr localPorts) \<Rightarrow>
          (case ParseRangeNumbers remotePortStr of
             None \<Rightarrow> None
           | Some (Inl e) \<Rightarrow> Some (Inl (RemotePorts e))
           | Some (Inr remotePorts) \<Rightarrow>
               if length localPorts \<noteq> length remotePorts then Some (Inl PortsDiffer)
               else if length localPorts = 0 then Some (Inl PortsNecessary)
               else Some (renderLoop lib name 0 (zip localPorts remotePorts) f)))"

fun renderAll :: "'f ini_lib \<Rightarrow> string list \<Rightarrow> 'f \<Rightarrow> (string \<times> template_error, 'f) result option" where
  "renderAll lib [] f = Some (Inr f)"
| "renderAll lib (name # names) f =
     (case renderRangeProxyTemplates lib name f of
        None \<Rightarrow> None
      | Some (Inl e) \<Rightarrow> Some (Inl (name, e))
      | Some (Inr f') \<Rightarrow> renderAll lib names f')"

section \<open>Loading\<close>

datatype load_error =
  Template string template_error | ProxyError string conf_error | VisitorError visitor_conf_error | BadRole string

definition skipped :: "string list \<Rightarrow> string \<Rightarrow> bool" where
  "skipped start name \<longleftrightarrow> name = ''DEFAULT'' \<or> name = ''common'' \<or> hasPrefix name ''range:'' \<or> (start \<noteq> [] \<and> name \<notin> set start)"

fun loadSections ::
  "ini_map \<Rightarrow> visitor_map \<Rightarrow> float_bytes \<Rightarrow> string \<Rightarrow> string list \<Rightarrow> 'f ini_lib \<Rightarrow> 'f \<Rightarrow> string list \<Rightarrow> client_cfgs
     \<Rightarrow> (load_error, client_cfgs) result"
where
  "loadSections pmap vmap fb prefix start lib f [] cfgs = Inr cfgs"
| "loadSections pmap vmap fb prefix start lib f (name # names) cfgs =
     (if skipped start name then loadSections pmap vmap fb prefix start lib f names cfgs
      else
        let sec = il_Section lib f name; role0 = keyOf sec ''role''; role = (if role0 = [] then ''server'' else role0) in
        if role = ''server'' then
          (case NewProxyConfFromIni pmap fb prefix name sec of
             Inl e \<Rightarrow> Inl (ProxyError name e)
           | Inr c \<Rightarrow> loadSections pmap vmap fb prefix start lib f names ((fst cfgs)(prefix @ name \<mapsto> c), snd cfgs))
        else if role = ''visitor'' then
          (case NewVisitorConfFromIni vmap prefix name sec of
             Inl e \<Rightarrow> Inl (VisitorError e)
           | Inr c \<Rightarrow> loadSections pmap vmap fb prefix start lib f names (fst cfgs, (snd cfgs)(prefix @ name \<mapsto> c)))
        else Inl (BadRole name))"

definition LoadAllProxyConfsFromIni ::
  "ini_map \<Rightarrow> visitor_map \<Rightarrow> float_bytes \<Rightarrow> 'f ini_lib \<Rightarrow> string \<Rightarrow> 'f \<Rightarrow> string list \<Rightarrow> (load_error, client_cfgs) result option"
where
  "LoadAllProxyConfsFromIni pmap vmap fb lib user f start =
     (let prefix = (if user \<noteq> [] then user @ ''.'' else user) in
      case renderAll lib (filter (\<lambda>n. hasPrefix n ''range:'') (il_Sections lib f)) f of
        None \<Rightarrow> None
      | Some (Inl (name, e)) \<Rightarrow> Some (Inl (Template name e))
      | Some (Inr f') \<Rightarrow> Some (loadSections pmap vmap fb prefix start lib f' (il_Sections lib f') (Map.empty, Map.empty)))"

lemmas client_conf_defs [go_defs] =
  keyOf_def trimPrefix_def templateName_def renderRangeProxyTemplates_def skipped_def LoadAllProxyConfsFromIni_def

section \<open>Lemmas\<close>

lemma iniLawsD:
  assumes "iniLaws lib"
  shows "distinct (il_Sections lib f)" "distinct (map fst (il_Section lib f n))" "[] \<notin> fst ` set (il_Section lib f n)"
    and "name \<noteq> [] \<Longrightarrow> \<exists>f'. il_NewSection lib name f = Inr f' \<and>
        il_Sections lib f' = il_Sections lib f @ (if name \<in> set (il_Sections lib f) then [] else [name]) \<and>
        (\<forall>n. map_of (il_Section lib f' n) =
           (if n = name \<and> name \<notin> set (il_Sections lib f) then Map.empty else map_of (il_Section lib f n)))"
    and "sec \<in> set (il_Sections lib f) \<Longrightarrow> k \<noteq> [] \<Longrightarrow> il_Sections lib (il_NewKey lib sec k v f) = il_Sections lib f"
    and "sec \<in> set (il_Sections lib f) \<Longrightarrow> k \<noteq> [] \<Longrightarrow> map_of (il_Section lib (il_NewKey lib sec k v f) n) =
           (if n = sec then (map_of (il_Section lib f n))(k \<mapsto> v) else map_of (il_Section lib f n))"
  using assms unfolding iniLaws_def by blast+

lemma copySection_keys:
  assumes "iniLaws lib" and "target \<in> set (il_Sections lib f)" and "distinct (map fst kvs)" and "[] \<notin> fst ` set kvs"
  shows "il_Sections lib (copySection lib kvs target f) = il_Sections lib f \<and>
    map_of (il_Section lib (copySection lib kvs target f) n) =
      (if n = target then map_of (il_Section lib f n) ++ map_of kvs else map_of (il_Section lib f n))"
  using assms(2-)
proof (induction kvs arbitrary: f)
  case (Cons kv kvs)
  obtain k v where kv: "kv = (k, v)" by fastforce
  have k: "k \<noteq> []" "k \<notin> fst ` set kvs" using Cons.prems(2,3) kv by auto
  let ?f = "il_NewKey lib target k v f"
  note N = iniLawsD(5,6) [OF assms(1) Cons.prems(1) k(1), of v]
  have IH: "il_Sections lib (copySection lib kvs target ?f) = il_Sections lib f \<and>
      map_of (il_Section lib (copySection lib kvs target ?f) n) =
        (if n = target then map_of (il_Section lib ?f n) ++ map_of kvs else map_of (il_Section lib ?f n))"
    using Cons.IH [of ?f] Cons.prems N(1) by simp
  have "map_of kvs k = None" using k(2) by (simp add: map_of_eq_None_iff)
  then have "(m(k \<mapsto> v)) ++ map_of kvs = m ++ map_of ((k, v) # kvs)" for m :: "string \<rightharpoonup> string"
    by (auto simp: map_add_def fun_eq_iff split: option.split)
  then show ?case using IH N by (simp add: kv)
qed simp

lemma templateName_inject: "templateName name i = templateName name j \<longleftrightarrow> i = j"
  by (simp add: templateName_def)

lemma templateName_nonempty: "templateName name i \<noteq> []"
  by (simp add: templateName_def)

text \<open>What the loop makes of a template.\<close>

definition expanded :: "ini_section \<Rightarrow> 64 word \<times> 64 word \<Rightarrow> string \<rightharpoonup> string" where
  "expanded sec p = (map_of sec)(''local_port'' \<mapsto> showInt (sint (fst p)), ''remote_port'' \<mapsto> showInt (sint (snd p)))"

lemma renderLoop_ok:
  assumes "iniLaws lib" and "name \<in> set (il_Sections lib f)" and "\<And>j. i \<le> j \<Longrightarrow> j < i + length ports \<Longrightarrow> templateName name j \<notin> set (il_Sections lib f)"
  shows "\<exists>f'. renderLoop lib name i ports f = Inr f' \<and>
    il_Sections lib f' = il_Sections lib f @ map (templateName name) [i..<i + length ports] \<and>
    (\<forall>j < length ports. map_of (il_Section lib f' (templateName name (i + j))) = expanded (il_Section lib f name) (ports ! j)) \<and>
    (\<forall>n \<in> set (il_Sections lib f). map_of (il_Section lib f' n) = map_of (il_Section lib f n))"
  using assms(2,3)
proof (induction ports arbitrary: i f)
  case (Cons p ports)
  let ?t = "templateName name i" and ?sec = "il_Section lib f name"
  have new: "?t \<notin> set (il_Sections lib f)" using Cons.prems(2) [of i] by simp
  then have "?t \<noteq> name" using Cons.prems(1) by auto
  obtain f1 where f1: "il_NewSection lib ?t f = Inr f1" "il_Sections lib f1 = il_Sections lib f @ [?t]"
      "\<And>n. map_of (il_Section lib f1 n) = (if n = ?t then Map.empty else map_of (il_Section lib f n))"
    using iniLawsD(4) [OF assms(1) templateName_nonempty, of name i f] new by auto
  have t1: "?t \<in> set (il_Sections lib f1)" by (simp add: f1(2))
  define f2 where "f2 = copySection lib (il_Section lib f1 name) ?t f1"
  have C: "il_Sections lib f2 = il_Sections lib f1" "\<And>n. map_of (il_Section lib f2 n) =
      (if n = ?t then map_of (il_Section lib f1 n) ++ map_of (il_Section lib f1 name) else map_of (il_Section lib f1 n))"
    unfolding f2_def using copySection_keys [OF assms(1) t1 iniLawsD(2,3) [OF assms(1)]] by simp_all
  have t2: "?t \<in> set (il_Sections lib f2)" using C t1 by simp
  define f3 where "f3 = il_NewKey lib ?t ''local_port'' (showInt (sint (fst p))) f2"
  have f3: "il_Sections lib f3 = il_Sections lib f2" "\<And>n. map_of (il_Section lib f3 n) =
      (if n = ?t then (map_of (il_Section lib f2 n))(''local_port'' \<mapsto> showInt (sint (fst p))) else map_of (il_Section lib f2 n))"
    unfolding f3_def using iniLawsD(5,6) [OF assms(1) t2] by simp_all
  define f4 where "f4 = il_NewKey lib ?t ''remote_port'' (showInt (sint (snd p))) f3"
  have t3: "?t \<in> set (il_Sections lib f3)" using t2 f3(1) by simp
  have f4: "il_Sections lib f4 = il_Sections lib f3" "\<And>n. map_of (il_Section lib f4 n) =
      (if n = ?t then (map_of (il_Section lib f3 n))(''remote_port'' \<mapsto> showInt (sint (snd p))) else map_of (il_Section lib f3 n))"
    unfolding f4_def using iniLawsD(5,6) [OF assms(1) t3] by simp_all
  have sections: "il_Sections lib f4 = il_Sections lib f @ [?t]" using f4(1) f3(1) C f1(2) by simp
  have this1: "map_of (il_Section lib f4 ?t) = expanded ?sec p"
    using f4(2) f3(2) C f1(3) \<open>?t \<noteq> name\<close> by (simp add: expanded_def)
  have others: "map_of (il_Section lib f4 n) = map_of (il_Section lib f n)" if "n \<noteq> ?t" for n
    using that f4(2) f3(2) C f1(3) by simp
  have fresh: "templateName name j \<notin> set (il_Sections lib f4)" if "Suc i \<le> j" "j < Suc i + length ports" for j
    using that Cons.prems(2) [of j] by (simp add: sections templateName_inject)
  have "name \<in> set (il_Sections lib f4)" using Cons.prems(1) by (simp add: sections)
  obtain f' where f': "renderLoop lib name (Suc i) ports f4 = Inr f'"
      "il_Sections lib f' = il_Sections lib f4 @ map (templateName name) [Suc i..<Suc i + length ports]"
      "\<And>j. j < length ports \<Longrightarrow> map_of (il_Section lib f' (templateName name (Suc i + j))) = expanded (il_Section lib f4 name) (ports ! j)"
      "\<And>n. n \<in> set (il_Sections lib f4) \<Longrightarrow> map_of (il_Section lib f' n) = map_of (il_Section lib f4 n)"
    using Cons.IH [where i = "Suc i" and f = f4, OF \<open>name \<in> set (il_Sections lib f4)\<close> fresh] by blast
  have same: "expanded (il_Section lib f4 name) q = expanded ?sec q" for q
    using others [of name] \<open>?t \<noteq> name\<close> by (simp add: expanded_def)
  have run: "renderLoop lib name i (p # ports) f = Inr f'"
    using f1(1) f'(1) by (cases p) (simp add: f2_def f3_def f4_def Let_def)
  have secs: "il_Sections lib f' = il_Sections lib f @ map (templateName name) [i..<i + length (p # ports)]"
  proof -
    have "[i..<i + length (p # ports)] = i # [Suc i..<Suc i + length ports]" by (simp add: upt_conv_Cons del: upt_Suc)
    then show ?thesis unfolding f'(2) sections by (simp del: upt_Suc)
  qed
  have each: "map_of (il_Section lib f' (templateName name (i + j))) = expanded ?sec ((p # ports) ! j)" if j: "j < length (p # ports)" for j
  proof (cases j)
    case 0
    have "map_of (il_Section lib f' ?t) = map_of (il_Section lib f4 ?t)" by (rule f'(4)) (simp add: sections)
    then show ?thesis using this1 0 by simp
  next
    case (Suc k)
    then show ?thesis using f'(3) [of k] j same by simp
  qed
  have "map_of (il_Section lib f' n) = map_of (il_Section lib f n)" if "n \<in> set (il_Sections lib f)" for n
  proof -
    have "n \<noteq> ?t" using that new by auto
    then show ?thesis using f'(4) [of n] that others by (simp add: sections)
  qed
  then show ?case using run secs each by blast
qed simp

lemma no_ports: "ParseRangeNumbers [] = Some (Inl NumberInvalid)"
  by (simp add: ParseRangeNumbers_def trimSpace_def ParseInt_def Let_def)

section \<open>Loading\<close>

lemma ProxyName_keeps:
  "UnmarshalFromIni pmap fb prefix name sec c = Inr c' \<Longrightarrow> ProxyName (GetBaseInfo c') = prefix @ name"
proof -
  assume "UnmarshalFromIni pmap fb prefix name sec c = Inr c'"
  then obtain c1 b where b: "decorate fb prefix name sec (GetBaseInfo c1) = Inr b" "c' = afterIni sec (updBase b c1)"
    by (auto simp: UnmarshalFromIni_def preUnmarshalFromIni_def split: sum.splits)
  have "GetBaseInfo c' = b" unfolding b(2) by (cases c1) simp_all
  moreover have "ProxyName b = prefix @ name" using b(1) by (auto simp: decorate_def Let_def split: sum.splits)
  ultimately show ?thesis by simp
qed

lemma loaded_proxy_name: "NewProxyConfFromIni pmap fb prefix name sec = Inr c \<Longrightarrow> ProxyName (GetBaseInfo c) = prefix @ name"
  by (auto simp: NewProxyConfFromIni_def Let_def split: option.splits sum.splits if_splits dest: ProxyName_keeps)

lemma loaded_visitor_name: "NewVisitorConfFromIni vmap prefix name sec = Inr c \<Longrightarrow> vb_ProxyName (visitorBase c) = prefix @ name"
proof -
  assume "NewVisitorConfFromIni vmap prefix name sec = Inr c"
  then obtain c1 where "c = mapVisitor (visitorFromIni prefix name) c1"
    by (auto simp: NewVisitorConfFromIni_def Let_def split: option.splits sum.splits if_splits)
  then show ?thesis by (cases c1) (simp_all add: visitorFromIni_def)
qed

text \<open>What a section stands for.\<close>

definition roleOf :: "ini_section \<Rightarrow> string" where
  "roleOf sec = (if keyOf sec ''role'' = [] then ''server'' else keyOf sec ''role'')"

definition loadedFrom :: "ini_map \<Rightarrow> visitor_map \<Rightarrow> float_bytes \<Rightarrow> string \<Rightarrow> ini_section \<Rightarrow> string \<Rightarrow> client_cfgs \<Rightarrow> bool" where
  "loadedFrom pmap vmap fb prefix sec name cfgs \<longleftrightarrow>
     (if roleOf sec = ''server''
      then (\<exists>c. NewProxyConfFromIni pmap fb prefix name sec = Inr c \<and> fst cfgs (prefix @ name) = Some c \<and> snd cfgs (prefix @ name) = None)
      else roleOf sec = ''visitor'' \<and>
        (\<exists>c. NewVisitorConfFromIni vmap prefix name sec = Inr c \<and> snd cfgs (prefix @ name) = Some c \<and> fst cfgs (prefix @ name) = None))"

lemma loadSections_spec:
  assumes "loadSections pmap vmap fb prefix start lib f names cfgs = Inr cfgs'" and "distinct names"
    and "\<And>n. n \<in> set names \<Longrightarrow> fst cfgs (prefix @ n) = None \<and> snd cfgs (prefix @ n) = None"
  shows "(\<forall>n \<in> set names. \<not> skipped start n \<longrightarrow> loadedFrom pmap vmap fb prefix (il_Section lib f n) n cfgs') \<and>
    (\<forall>k. k \<notin> {prefix @ n |n. n \<in> set names \<and> \<not> skipped start n} \<longrightarrow> fst cfgs' k = fst cfgs k \<and> snd cfgs' k = snd cfgs k)"
  using assms
proof (induction names arbitrary: cfgs)
  case (Cons name names)
  show ?case
  proof (cases "skipped start name")
    case True
    then show ?thesis using Cons.IH [of cfgs] Cons.prems by auto
  next
    case False
    let ?sec = "il_Section lib f name"
    have names: "name \<notin> set names" "distinct names" using Cons.prems(2) by simp_all
    note run = Cons.prems(1) [unfolded loadSections.simps Let_def, folded roleOf_def]
    obtain cfgs1 where rest: "loadSections pmap vmap fb prefix start lib f names cfgs1 = Inr cfgs'"
        and this1: "loadedFrom pmap vmap fb prefix ?sec name cfgs1"
        and other: "\<And>k. k \<noteq> prefix @ name \<Longrightarrow> fst cfgs1 k = fst cfgs k \<and> snd cfgs1 k = snd cfgs k"
    proof (cases "roleOf ?sec = ''server''")
      case True
      then obtain c where c: "NewProxyConfFromIni pmap fb prefix name ?sec = Inr c"
          "loadSections pmap vmap fb prefix start lib f names ((fst cfgs)(prefix @ name \<mapsto> c), snd cfgs) = Inr cfgs'"
        using run False by (auto split: sum.splits)
      show thesis by (rule that [OF c(2)]) (use c(1) True Cons.prems(3) [of name] in \<open>simp_all add: loadedFrom_def\<close>)
    next
      case server: False
      then have "roleOf ?sec = ''visitor''" using run False by (auto split: if_splits)
      then obtain c where c: "NewVisitorConfFromIni vmap prefix name ?sec = Inr c"
          "loadSections pmap vmap fb prefix start lib f names (fst cfgs, (snd cfgs)(prefix @ name \<mapsto> c)) = Inr cfgs'"
        using run False by (auto split: sum.splits)
      show thesis
        by (rule that [OF c(2)]) (use c(1) \<open>roleOf ?sec = ''visitor''\<close> Cons.prems(3) [of name] in \<open>simp_all add: loadedFrom_def\<close>)
    qed
    have free: "fst cfgs1 (prefix @ n) = None \<and> snd cfgs1 (prefix @ n) = None" if "n \<in> set names" for n
      using Cons.prems(3) [of n] other [of "prefix @ n"] names(1) that by auto
    note R = Cons.IH [OF rest names(2) free]
    have "prefix @ name \<notin> {prefix @ n |n. n \<in> set names \<and> \<not> skipped start n}" using names(1) by auto
    then have "fst cfgs' (prefix @ name) = fst cfgs1 (prefix @ name)" "snd cfgs' (prefix @ name) = snd cfgs1 (prefix @ name)"
      using R by blast+
    then have "loadedFrom pmap vmap fb prefix ?sec name cfgs'" using this1 by (simp add: loadedFrom_def)
    moreover have "fst cfgs' k = fst cfgs k \<and> snd cfgs' k = snd cfgs k"
      if "k \<notin> {prefix @ n |n. n \<in> set (name # names) \<and> \<not> skipped start n}" for k
    proof -
      have "k \<noteq> prefix @ name" "k \<notin> {prefix @ n |n. n \<in> set names \<and> \<not> skipped start n}" using that False by auto
      then show ?thesis using R other by simp
    qed
    ultimately show ?thesis using R by auto
  qed
qed simp

section \<open>A library\<close>

text \<open>A library with the laws, for the examples: later entries of a list stand before earlier ones of the same name.\<close>

type_synonym listed_file = "(string \<times> ini_section) list"

definition listedSection :: "listed_file \<Rightarrow> string \<Rightarrow> ini_section" where
  "listedSection f n = AList.clearjunk (filter (\<lambda>kv. fst kv \<noteq> []) (case map_of f n of None \<Rightarrow> [] | Some s \<Rightarrow> s))"

definition listed :: "listed_file ini_lib" where
  "listed = \<lparr> il_Sections = (\<lambda>f. remdups (map fst f)), il_Section = listedSection,
     il_NewSection = (\<lambda>name f. if name = [] then Inl ''empty section name'' else if name \<in> fst ` set f then Inr f else Inr (f @ [(name, [])])),
     il_NewKey = (\<lambda>sec k v f. (sec, (k, v) # listedSection f sec) # f) \<rparr>"

lemma listedSection_keys: "distinct (map fst (listedSection f n))" "[] \<notin> fst ` set (listedSection f n)"
proof -
  show "distinct (map fst (listedSection f n))" by (simp add: listedSection_def distinct_clearjunk)
  have "fst ` set (listedSection f n) \<subseteq> fst ` set (filter (\<lambda>kv. fst kv \<noteq> []) (case map_of f n of None \<Rightarrow> [] | Some s \<Rightarrow> s))"
    by (simp add: listedSection_def dom_clearjunk)
  then show "[] \<notin> fst ` set (listedSection f n)" by auto
qed

lemma listedSection_id: "[] \<notin> fst ` set s \<Longrightarrow> map_of f n = Some s \<Longrightarrow> map_of (listedSection f n) = map_of s"
proof -
  assume s: "[] \<notin> fst ` set s" "map_of f n = Some s"
  then have "filter (\<lambda>kv. fst kv \<noteq> []) s = s" by (intro filter_True) force
  then show ?thesis using s by (simp add: listedSection_def map_of_clearjunk)
qed

lemma remdups_snoc: "n \<notin> set xs \<Longrightarrow> remdups (xs @ [n]) = remdups xs @ [n]"
  by (induction xs) auto

lemma listed_laws: "iniLaws listed"
proof -
  have new: "il_NewSection listed name f = Inr (if name \<in> fst ` set f then f else f @ [(name, [])])" if "name \<noteq> []" for name f
    using that by (simp add: listed_def)
  have map_new: "map_of (listedSection (f @ [(name, [])]) n) = (if n = name then Map.empty else map_of (listedSection f n))"
    if "name \<notin> fst ` set f" for name f n
  proof -
    have "map_of f name = None" using that by (simp add: map_of_eq_None_iff)
    then show ?thesis by (auto simp: listedSection_def map_add_def split: option.split)
  qed
  have key: "map_of (listedSection ((sec, (k, v) # listedSection f sec) # f) n) =
      (if n = sec then (map_of (listedSection f n))(k \<mapsto> v) else map_of (listedSection f n))" if "k \<noteq> []" for sec k v f n
  proof (cases "n = sec")
    case True
    have "[] \<notin> fst ` set ((k, v) # listedSection f sec)" using listedSection_keys(2) that by auto
    then show ?thesis using listedSection_id [of "(k, v) # listedSection f sec" "(sec, (k, v) # listedSection f sec) # f" sec] True by simp
  next
    case False
    then show ?thesis by (simp add: listedSection_def)
  qed
  have names: "distinct (il_Sections listed f)" "il_Section listed = listedSection" "set (il_Sections listed f) = fst ` set f" for f
    by (simp_all add: listed_def)
  have new_section: "\<exists>f'. il_NewSection listed name f = Inr f' \<and>
      il_Sections listed f' = il_Sections listed f @ (if name \<in> set (il_Sections listed f) then [] else [name]) \<and>
      (\<forall>n. map_of (il_Section listed f' n) =
         (if n = name \<and> name \<notin> set (il_Sections listed f) then Map.empty else map_of (il_Section listed f n)))"
    if n: "name \<noteq> []" for name f
  proof (cases "name \<in> fst ` set f")
    case True
    then show ?thesis using new [OF n, of f] names by simp
  next
    case False
    have "remdups (map fst f @ [name]) = remdups (map fst f) @ [name]" by (rule remdups_snoc) (use False in simp)
    then have "il_Sections listed (f @ [(name, [])]) = il_Sections listed f @ [name]" by (simp add: listed_def)
    then show ?thesis using new [OF n, of f] False map_new [OF False] names by simp
  qed
  have new_key: "il_NewKey listed sec k v f = (sec, (k, v) # listedSection f sec) # f" for sec k v f by (simp add: listed_def)
  have kept: "il_Sections listed (il_NewKey listed sec k v f) = il_Sections listed f" if "sec \<in> set (il_Sections listed f)" for sec k v f
    using that unfolding new_key by (simp add: listed_def)
  show ?thesis
    unfolding iniLaws_def using names(1) listedSection_keys new_section kept key unfolding names(2) new_key by blast
qed

section \<open>Properties\<close>

text \<open>
  C33: a template with as many local as remote ports becomes one section per port. The new sections are named by the
  template and their position, follow the others, and have the keys of the template, with their own two ports; no
  other section changes, as long as the file has no section of these names.
\<close>

theorem range_template_expands:
  assumes "iniLaws lib" and "name \<in> set (il_Sections lib f)"
    and "ParseRangeNumbers (keyOf (il_Section lib f name) ''local_port'') = Some (Inr ls)"
    and "ParseRangeNumbers (keyOf (il_Section lib f name) ''remote_port'') = Some (Inr rs)"
    and "length ls = length rs" and "ls \<noteq> []" and "\<And>i. i < length ls \<Longrightarrow> templateName name i \<notin> set (il_Sections lib f)"
  shows "\<exists>f'. renderRangeProxyTemplates lib name f = Some (Inr f') \<and>
    il_Sections lib f' = il_Sections lib f @ map (templateName name) [0..<length ls] \<and>
    (\<forall>i < length ls. map_of (il_Section lib f' (templateName name i)) = (map_of (il_Section lib f name))
       (''local_port'' \<mapsto> showInt (sint (ls ! i)), ''remote_port'' \<mapsto> showInt (sint (rs ! i)))) \<and>
    (\<forall>n \<in> set (il_Sections lib f). map_of (il_Section lib f' n) = map_of (il_Section lib f n))"
proof -
  have given: "keyOf (il_Section lib f name) ''local_port'' \<noteq> []" "keyOf (il_Section lib f name) ''remote_port'' \<noteq> []"
    using assms(3,4) no_ports by auto
  have fresh: "templateName name j \<notin> set (il_Sections lib f)" if "0 \<le> j" "j < 0 + length (zip ls rs)" for j
    using that assms(5,7) by simp
  have len: "length (zip ls rs) = length ls" using assms(5) by simp
  have nth: "zip ls rs ! i = (ls ! i, rs ! i)" if "i < length ls" for i using that assms(5) by simp
  have "rs \<noteq> []" using assms(5,6) by auto
  then have run: "renderRangeProxyTemplates lib name f = Some (renderLoop lib name 0 (zip ls rs) f)"
    using given assms(3-6) by (simp add: renderRangeProxyTemplates_def Let_def)
  show ?thesis
    using renderLoop_ok [where i = 0 and ports = "zip ls rs", OF assms(1,2) fresh] unfolding run len by (auto simp: nth expanded_def)
qed

definition sampleFile :: listed_file where
  "sampleFile = [(''common'', []), (''range:ssh'', [(''type'', ''tcp''), (''local_port'', ''6000,6002''), (''remote_port'', ''7000,7001'')])]"

lemma sampleFile_ports: "ParseRangeNumbers ''6000,6002'' = Some (Inr [6000, 6002])" "ParseRangeNumbers ''7000,7001'' = Some (Inr [7000, 7001])"
  by code_simp+

theorem range_template_expands_witness:
  "\<exists>f'. renderRangeProxyTemplates listed ''range:ssh'' sampleFile = Some (Inr f') \<and>
     il_Sections listed f' = [''common'', ''range:ssh'', ''ssh_0'', ''ssh_1''] \<and>
     map_of (il_Section listed f' ''ssh_1'') = [''type'' \<mapsto> ''tcp'', ''local_port'' \<mapsto> ''6002'', ''remote_port'' \<mapsto> ''7001'']"
proof -
  have names: "il_Sections listed sampleFile = [''common'', ''range:ssh'']" by (simp add: listed_def sampleFile_def)
  have sec: "map_of (il_Section listed sampleFile ''range:ssh'') =
      [''type'' \<mapsto> ''tcp'', ''local_port'' \<mapsto> ''6000,6002'', ''remote_port'' \<mapsto> ''7000,7001'']"
    using listedSection_id [where f = sampleFile and n = "''range:ssh''"] by (simp add: listed_def sampleFile_def fun_eq_iff)
  have t: "templateName ''range:ssh'' i = ''ssh_'' @ showNat i" for i
    by (simp add: templateName_def trimPrefix_def hasPrefix_def trimSpace_def goSpace_def)
  have digits: "showNat 0 = ''0''" "showNat (Suc 0) = ''1''" "showInt 6002 = ''6002''" "showInt 7001 = ''7001''" by (simp_all add: showInt_def showNat.simps digitChar_def)
  have fresh: "templateName ''range:ssh'' i \<notin> set (il_Sections listed sampleFile)" for i by (simp add: t names)
  obtain f' where f': "renderRangeProxyTemplates listed ''range:ssh'' sampleFile = Some (Inr f')"
      "il_Sections listed f' = il_Sections listed sampleFile @ map (templateName ''range:ssh'') [0..<length [6000, 6002 :: 64 word]]"
      "\<And>i. i < length [6000, 6002 :: 64 word] \<Longrightarrow> map_of (il_Section listed f' (templateName ''range:ssh'' i)) =
         (map_of (il_Section listed sampleFile ''range:ssh''))
           (''local_port'' \<mapsto> showInt (sint ([6000, 6002 :: 64 word] ! i)), ''remote_port'' \<mapsto> showInt (sint ([7000, 7001 :: 64 word] ! i)))"
    using range_template_expands [OF listed_laws _ _ _ _ _ fresh, where ls = "[6000, 6002]" and rs = "[7000, 7001]"]
    by (simp add: names keyOf_def sec sampleFile_ports) blast
  have "il_Sections listed f' = [''common'', ''range:ssh'', ''ssh_0'', ''ssh_1'']" unfolding f'(2) by (simp add: names t digits upt_rec)
  moreover have "map_of (il_Section listed f' ''ssh_1'') = [''type'' \<mapsto> ''tcp'', ''local_port'' \<mapsto> ''6002'', ''remote_port'' \<mapsto> ''7001'']"
    using f'(3) [of 1] by (simp add: t digits sec)
  ultimately show ?thesis using f'(1) by blast
qed


definition sampleVisitorFile :: listed_file where
  "sampleVisitorFile = [(''common'', []), (''ssh'', [(''type'', ''stcp''), (''role'', ''visitor'')])]"

lemma sampleVisitorFile_sections: "il_Sections listed sampleVisitorFile = [''common'', ''ssh'']"
  "il_Section listed sampleVisitorFile ''ssh'' = [(''type'', ''stcp''), (''role'', ''visitor'')]"
  by (simp_all add: listed_def listedSection_def sampleVisitorFile_def)

lemma sampleVisitorFile_loads:
  "LoadAllProxyConfsFromIni (\<lambda>_ _. Inl []) (\<lambda>_ _. Inr (sampleVisitor 6000)) (\<lambda>_ _. Inl []) listed ''ann'' sampleVisitorFile [] =
     Some (Inr (Map.empty, [''ann.ssh'' \<mapsto> mapVisitor (visitorFromIni ''ann.'' ''ssh'') (sampleVisitor 6000)]))"
  by (simp add: LoadAllProxyConfsFromIni_def sampleVisitorFile_sections hasPrefix_def skipped_def keyOf_def Let_def
      NewVisitorConfFromIni_def DefaultVisitorConf_def sampleVisitor_def visitorFromIni_def visitorCheck_def)


end
