(* ===== verification/Spec2Isabelle.thy ===== *)
theory Spec2Isabelle
  imports PortManager ProxyManager HttpProxies DashViews DashboardApi WebRouting Ranges ClientLink VhostLookup Backoff ClientConf
begin

text \<open>
  frp exposes servers behind a firewall: \<^verbatim>\<open>frpc\<close> runs beside them and keeps a control connection to
  \<^verbatim>\<open>frps\<close>, which listens in public and hands what arrives to the proxies that the clients have registered.
  Each has a web interface. This development models the logic of both in Isabelle/HOL and proves what
  makes it correct, and where it is not, what goes wrong.

  \<^bold>\<open>The program and the theories.\<close> Prelude, Interfaces, Decimal and GoStrings hold what the others share:
  results, panics, collections of rules, the locales, and strings of Go as lists of bytes.

  \<^item> Server, resources of the proxies: PortManager (\<^verbatim>\<open>server/ports\<close>), TCPGroups (\<^verbatim>\<open>server/group/tcp.go\<close>),
    ServerProxies (\<^verbatim>\<open>server/proxy/tcp.go\<close>, \<^verbatim>\<open>udp.go\<close>), Routers and VhostLookup (\<^verbatim>\<open>pkg/util/vhost\<close>), HttpProxies
    (\<^verbatim>\<open>server/group/http.go\<close>, \<^verbatim>\<open>server/proxy/http.go\<close>), ServerResources (the other types, \<^verbatim>\<open>tcpmux\<close> groups,
    visitors, nat hole: all that a running proxy takes and gives back).
  \<^item> Server, sessions: ServerControl has the state of the service, its operations and their steps
    (\<^verbatim>\<open>server/control.go\<close>, \<^verbatim>\<open>server/service.go\<close>, \<^verbatim>\<open>server/proxy/proxy.go\<close>); ServerSessions proves its invariants.
    ListenerGroups is the specification of both kinds of groups; Ownership says who owns what the managers
    gave out, and ServerOwnership that this holds in every reachable state.
  \<^item> Server, entry: Auth (\<^verbatim>\<open>pkg/auth\<close>), Versions (\<^verbatim>\<open>pkg/util/version\<close>) and ServerPlugins (\<^verbatim>\<open>pkg/plugin/server\<close>)
    decide about what clients send; ServerEntry has the handlers that ask them, as steps that refine those of
    the sessions.
  \<^item> Client: Health (\<^verbatim>\<open>client/health\<close>), ProxyWrapper and ProxyManager (\<^verbatim>\<open>client/proxy\<close>), Visitors
    (\<^verbatim>\<open>client/visitor_manager.go\<close>, \<^verbatim>\<open>pkg/config/visitor.go\<close>), ClientService (the service with its controls, what
    \<^verbatim>\<open>client/service.go\<close> does between and during sessions, as a step relation), Backoff (its waits), AdminApi
    (\<^verbatim>\<open>client/admin_api.go\<close>).
  \<^item> Both sides: ClientLink joins the manager of a client with its control at the server, by the messages and
    answers on their way (\<^verbatim>\<open>client/control.go\<close>).
  \<^item> Configuration: ProxyConf (\<^verbatim>\<open>pkg/config/proxy.go\<close>, \<^verbatim>\<open>types.go\<close>, and the messages of \<^verbatim>\<open>pkg/msg\<close>), Ranges
    (\<^verbatim>\<open>pkg/util/util\<close>), ClientConf (\<^verbatim>\<open>pkg/config/client.go\<close>: the proxies and visitors of a file, with the templates
    of ranges).
  \<^item> Statistics: Counters (\<^verbatim>\<open>pkg/util/metric\<close>), MemMetrics (\<^verbatim>\<open>pkg/metrics/mem\<close>), DashboardApi
    (\<^verbatim>\<open>server/dashboard_api.go\<close>).
  \<^item> Web interfaces: JsValue and JsDate (the values, coercions and dates of JavaScript that the pages use),
    VueViews and Templates (what Vue makes of requests and of templates), DashProxy, DashChart, DashViews and
    FrpsPages (\<^verbatim>\<open>web/frps\<close>), AdminViews and FrpcPages (\<^verbatim>\<open>web/frpc\<close>), Webpack (the development servers),
    WebRouting (the routes of \<^verbatim>\<open>server/dashboard.go\<close> and \<^verbatim>\<open>client/admin.go\<close>, and which page request reaches them).

  This theory joins them: what the pages show is what the handlers send, which is what the statistics
  and the registry hold.

  \<^bold>\<open>How the state corresponds.\<close> A Go struct or a JavaScript class is a record with the fields of the source, a
  method a function that takes and returns it. Shared objects that are changed through pointers, the groups and the
  contexts of ports, live in a store from numbers to records. A Go map is a partial function, and a loop over
  a map takes the order as an argument: a theorem about it holds for every order. A failed call is a value of a
  sum type, a panic too. Integers are words where the code lets them wrap (counters, numbers of a list), and
  integers elsewhere. What is concurrent in the source is a step relation whose steps are what the code does
  under one lock or between two waits, and theorems are about all reachable states.

  \<^bold>\<open>What is proved.\<close> Invariants of each component and that every operation keeps them; for the server, one
  session per client, an exact registry, exclusive ports that are all given back, closes that never panic, and
  logins that always can start, and let in exactly by version, key and plugins; for the client, that the server
  was told the truth, that reloading reconciles, that the session has the stored configuration unless a reload comes at
  a bad moment, that old controls hold nothing and that the visitors' sockets are exactly the configured ones; for both, that the server runs nothing that the client does not
  want, and what the client may believe;
  round trips of configurations and messages, and what a file gives; bounds of the waits; the routing table and the lookup of hosts against their
  specifications; statistics against the history of calls; the rows, charts and requests of the pages against
  the server's state; and defects, each as a theorem about a run that shows it.

  \<^bold>\<open>Parameters, bounds and fuel.\<close> The operating system (which ports are free, whether listening fails), the clock,
  random numbers, hashes and regular expressions of libraries, the decoding of ini files and JSON, the DOM and
  the browser are arguments of the definitions; what is assumed of them stands in each theorem. There is no fuel:
  the one loop of the code that may not end (a range up to the greatest 64-bit number) is a partial function
  whose domain is proved. Theorems about the reachable states of the server assume, where they say so, that the
  system does not give a port twice and, for ports that are given back, that the server can listen on a port it got: when
  it cannot, the member of a group that fails leaks its port. Port 0 is not in the allowed ports: it would mean a
  random port.

  \<^bold>\<open>Not modelled.\<close> Bytes on connections: dialling, TLS, KCP, websockets, multiplexing, encryption and compression,
  the copying between connections, the work connections and heartbeats of the client, and the exchange of packets
  at the nat hole. The common section of the files with its defaults, and templates with environment variables. The libraries
  for ini files, JSON, OIDC, HTTP and prometheus. Logs, command lines, style sheets, tests. In the server's steps the run of a proxy is one
  step, so the race between a member that joins a group and the last one that leaves it is not in the step relation;
  TCPGroups and HttpProxies show it. The second close of a udp proxy by its own goroutine is not in the step
  relation either; ServerProxies shows what it does. A tick of the visitors that races with their close is shown in
  Visitors, not in the steps of the service.
\<close>

section \<open>From the server's statistics to the pages\<close>

text \<open>
  What a page of the dashboard gets for the reply of a handler: the body of a success is JSON, the body
  of a failure is a plain text, which \<open>res.json()\<close> rejects.
\<close>

definition replyOf :: "api_reply \<Rightarrow> reply" where
  "replyOf r = (if fst r = 200 then Json (snd r) else Rejected ''SyntaxError'')"

text \<open>The reply to the request of the traffic page; a panic of the handler ends the connection.\<close>

definition trafficAnswer :: "(int \<Rightarrow> int) \<Rightarrow> int \<Rightarrow> string \<Rightarrow> server_statistics \<Rightarrow> reply" where
  "trafficAnswer midnight now name s =
     (case fst (GetProxyTraffic midnight now name s) of
        Inl e \<Rightarrow> Rejected ''TypeError''
      | Inr info \<Rightarrow> replyOf (APIProxyTraffic info))"

definition infoAnswer ::
  "(int \<Rightarrow> int) \<Rightarrow> int \<Rightarrow> string \<Rightarrow> server_conf \<Rightarrow> string list \<Rightarrow> server_statistics \<Rightarrow> reply" where
  "infoAnswer midnight now ver cfg types s = replyOf (APIServerInfo ver cfg types (fst (GetServer midnight now s)))"

definition listAnswer ::
  "(int \<Rightarrow> int) \<Rightarrow> (int \<Rightarrow> string) \<Rightarrow> int \<Rightarrow> (string \<rightharpoonup> proxy_conf) \<Rightarrow> string \<Rightarrow> string list \<Rightarrow> server_statistics \<Rightarrow> reply"
where
  "listAnswer midnight fmt now registered ty names s =
     replyOf (APIProxyByType registered (fst (GetProxiesByType midnight fmt now ty names s)))"

text \<open>The cells of one row of the TCP table, for a proxy that is online and for one that is not.\<close>

lemma online_port_cells:
  assumes "registered (px_Name ps) = Some (TCPProxyConf b p)" and "px_Type ps = ''tcp''"
  shows "tableCells fs tcpColumns (portRow (projr (TcpProxy (statsJson registered ps)))) =
     [(''Name'', JStr (px_Name ps)), (''Port'', JNum p), (''Connections'', JNum (px_CurConns ps)),
      (''Traffic In'', JStr (fs (JNum (sint (px_TodayTrafficIn ps))))),
      (''Traffic Out'', JStr (fs (JNum (sint (px_TodayTrafficOut ps))))), (''status'', JStr ''online'')]"
proof -
  have conf: "jsField (statsJson registered ps) ''conf'' = outConf ''tcp'' (TCPProxyConf b p)"
    using assms by (simp add: statsJson_def confAndStatus_def)
  have "\<not> nullish (outConf ''tcp'' (TCPProxyConf b p))"
    by (simp add: outConf_def unmarshalInto_def getConfByType_def)
  then show ?thesis
    using assms by (subst portRow_cells) (simp_all add: conf remote_port_out, simp_all add: statsJson_def confAndStatus_def)
qed

lemma offline_port_cells:
  assumes "registered (px_Name ps) = None"
  shows "tableCells fs tcpColumns (portRow (projr (TcpProxy (statsJson registered ps)))) =
     [(''Name'', JStr (px_Name ps)), (''Port'', JStr []), (''Connections'', JNum (px_CurConns ps)),
      (''Traffic In'', JStr (fs (JNum (sint (px_TodayTrafficIn ps))))),
      (''Traffic Out'', JStr (fs (JNum (sint (px_TodayTrafficOut ps))))), (''status'', JStr ''offline'')]"
  using assms
  by (simp add: statsJson_def confAndStatus_def dash_row_defs dash_record_defs Let_def tableCells_def column_defs
      row_defs cellOf_def formatTrafficIn_def formatTrafficOut_def)

text \<open>
  C20: the traffic page of a proxy shows the truth: under the label of each of the last seven days stands
  the total of everything the proxy received on that day, as counted by any history of calls on the
  server since the proxy was registered (a fixed offset from UTC, the same day on both machines, a clock
  that does not go back a day); nothing fails on the page.
\<close>
theorem traffic_page_true_totals:
  assumes "s = memRun (fixedMidnight off) f es0 (newServerMetrics (fixedMidnight off) t00)"
    and "\<forall>d. ss_ProxyStatistics s name = Some d \<longrightarrow> ps_ProxyType d \<noteq> ty"
    and "list_all (keeps name ty) es"
    and "sorted (fixedDay off t0 # map (fixedDay off \<circ> eventTime) (inHistory name ty es) @ [fixedDay off t])"
    and page: "element name" "proxy_name v = JStr name" and k: "k < 7"
    and v': "v' = trafficReply element (fixedDay off t) (trafficAnswer (fixedMidnight off) t name
        (memRun (fixedMidnight off) f (MNewProxy t0 name ty # es) s)) v"
  shows "(\<exists>opt out. shownOption (last (tr_drawings v')) = Some opt \<and>
      barsUnder opt k = Some (dateLabel (fixedDay off t - int (6 - k)),
        JNum (sint (dayTotal (fixedDay off) (inHistory name ty es) (fixedDay off t - int (6 - k)))), out)) \<and>
    tr_unhandled v' = tr_unhandled v"
proof -
  let ?D = "fixedDay off t" and ?json = "\<lambda>xs. map (\<lambda>n. JNum (sint n)) xs"
  obtain info where info: "fst (GetProxyTraffic (fixedMidnight off) t name
        (memRun (fixedMidnight off) f (MNewProxy t0 name ty # es) s)) = Inr (Some info)"
      and ins: "pt_TrafficIn info = map (\<lambda>i. dayTotal (fixedDay off) (inHistory name ty es) (?D - int i)) [0..<7]"
      and outs: "length (pt_TrafficOut info) = 7"
    using proxy_traffic_totals [OF assms(1-4)] by blast
  have "length (?json (pt_TrafficIn info)) = 7" "length (?json (pt_TrafficOut info)) = 7"
    by (simp_all add: ins outs)
  from chart_bars [of element name, OF page(1) this k, of ?D] obtain opt where
      opt: "snd (DrawProxyTrafficChart element ?D name (JArr (?json (pt_TrafficIn info))) (JArr (?json (pt_TrafficOut info)))) = None"
        "shownOption (DrawProxyTrafficChart element ?D name (JArr (?json (pt_TrafficIn info))) (JArr (?json (pt_TrafficOut info)))) = Some opt"
      and bars: "barsUnder opt k = Some (dateLabel (?D - int (6 - k)), ?json (pt_TrafficIn info) ! (6 - k),
          ?json (pt_TrafficOut info) ! (6 - k))"
    by blast
  have "trafficAnswer (fixedMidnight off) t name (memRun (fixedMidnight off) f (MNewProxy t0 name ty # es) s) =
      Json (trafficJson info)"
    by (simp only: trafficAnswer_def info sum.case) (simp add: replyOf_def APIProxyTraffic_def)
  then have "v' = v\<lparr> tr_drawings := tr_drawings v @ [DrawProxyTrafficChart element ?D name
      (JArr (?json (pt_TrafficIn info))) (JArr (?json (pt_TrafficOut info)))] \<rparr>"
    using opt(1) page(2) by (simp add: v' trafficReply_def trafficJson_def)
  moreover have "?json (pt_TrafficIn info) ! (6 - k) =
      JNum (sint (dayTotal (fixedDay off) (inHistory name ty es) (?D - int (6 - k))))"
    using k by (simp add: ins)
  ultimately show ?thesis using opt(2) bars by simp
qed

theorem traffic_page_true_totals_witness:
  "\<exists>opt out. shownOption (last (tr_drawings (trafficReply (\<lambda>_. True) 19783
      (trafficAnswer (fixedMidnight 0) (19783 * dayNs) ''web''
        (memRun (fixedMidnight 0) (\<lambda>_. []) [MNewProxy (19782 * dayNs) ''web'' ''tcp'', MIn (19782 * dayNs) ''web'' ''tcp'' 10]
          (memRun (fixedMidnight 0) (\<lambda>_. []) [] (newServerMetrics (fixedMidnight 0) 0))))
      \<lparr> proxy_name = JStr ''web'', tr_requests = [], tr_drawings = [], tr_messages = [], tr_unhandled = 0 \<rparr>))) = Some opt \<and>
    barsUnder opt 5 = Some (JStr ''2024-2-29'', JNum 10, out)"
proof -
  let ?es = "[MIn (19782 * dayNs) ''web'' ''tcp'' 10]"
  let ?v = "\<lparr> proxy_name = JStr ''web'', tr_requests = [], tr_drawings = [], tr_messages = [], tr_unhandled = 0 \<rparr>"
  have day: "fixedDay 0 (n * dayNs) = n" for n by (simp add: fixedDay_def dayNs_def)
  have label: "dateLabel 19782 = JStr ''2024-2-29''" by code_simp
  have "(\<exists>opt out. shownOption (last (tr_drawings (trafficReply (\<lambda>_. True) (fixedDay 0 (19783 * dayNs))
      (trafficAnswer (fixedMidnight 0) (19783 * dayNs) ''web''
        (memRun (fixedMidnight 0) (\<lambda>_. []) (MNewProxy (19782 * dayNs) ''web'' ''tcp'' # ?es)
          (memRun (fixedMidnight 0) (\<lambda>_. []) [] (newServerMetrics (fixedMidnight 0) 0)))) ?v))) = Some opt \<and>
      barsUnder opt 5 = Some (dateLabel (fixedDay 0 (19783 * dayNs) - int (6 - 5)),
        JNum (sint (dayTotal (fixedDay 0) (inHistory ''web'' ''tcp'' ?es) (fixedDay 0 (19783 * dayNs) - int (6 - 5)))), out)) \<and>
    tr_unhandled (trafficReply (\<lambda>_. True) (fixedDay 0 (19783 * dayNs))
      (trafficAnswer (fixedMidnight 0) (19783 * dayNs) ''web''
        (memRun (fixedMidnight 0) (\<lambda>_. []) (MNewProxy (19782 * dayNs) ''web'' ''tcp'' # ?es)
          (memRun (fixedMidnight 0) (\<lambda>_. []) [] (newServerMetrics (fixedMidnight 0) 0)))) ?v) = tr_unhandled ?v"
    by (rule traffic_page_true_totals [OF refl _ _ _ _ _ _ refl])
       (simp_all add: newServerMetrics_def inHistory_def day)
  then show ?thesis by (simp add: day label inHistory_def dayTotal_def)
qed

text \<open>
  The overview after any history of calls on the statistics in which no proxy is closed before one of its
  type was opened.
\<close>

lemma overview_of_events:
  assumes "\<forall>ty \<in> set countTypes. balanced ty es \<and> opened ty es - closed ty es < 2 ^ 31"
    and keys: "\<forall>ty. ty \<in> set types \<longleftrightarrow> opened ty es \<noteq> 0"
    and page: "element ''traffic''" "element ''proxies''"
    and v': "v' = overviewReply element
      (infoAnswer m now ver cfg types (memRun m f es (newServerMetrics m t0))) v"
  shows "proxy_counts v' = JNum (\<Sum>ty \<leftarrow> countTypes. int (opened ty es) - int (closed ty es)) \<and>
    map_option (sliceSum \<circ> pieData) (shownOption (last (drawings v'))) =
      Some (\<Sum>ty \<leftarrow> countTypes. int (opened ty es) - int (closed ty es)) \<and>
    client_counts v' = JNum (sv_ClientCounts (fst (GetServer m now (memRun m f es (newServerMetrics m t0))))) \<and>
    ov_unhandled v' = ov_unhandled v"
proof -
  let ?st = "fst (GetServer m now (memRun m f es (newServerMetrics m t0)))"
  let ?info = "snd (APIServerInfo ver cfg types ?st)"
  let ?tc = "JObj (List.map_filter (\<lambda>t. map_option (\<lambda>n. (t, JNum n)) (sv_ProxyTypeCounts ?st t)) types)"
  have answer: "infoAnswer m now ver cfg types (memRun m f es (newServerMetrics m t0)) = Json ?info"
    by (simp add: infoAnswer_def replyOf_def APIServerInfo_def)
  have tc: "jsField ?info ''proxy_type_count'' = ?tc" by (simp add: APIServerInfo_def)
  have count: "jsField ?tc ty = (if opened ty es = 0 then JUndef else JNum (int (opened ty es) - int (closed ty es)))"
    if "ty \<in> set countTypes" for ty
    using assms(1) that keys type_counts_served [of ty es m now f t0] by (simp add: map_filter_of)
  then have counts: "list_all (\<lambda>ty. countOrAbsent (jsField ?tc ty)) countTypes"
    by (simp add: list_all_iff countOrAbsent_def del: jsField.simps)
  have "countOf (jsField ?tc ty) = int (opened ty es) - int (closed ty es)" if "ty \<in> set countTypes" for ty
    using that assms(1) balancedD [of ty es] unfolding count [OF that] by (auto simp: countOf_def)
  then have sum: "(\<Sum>ty \<leftarrow> countTypes. countOf (jsField ?tc ty)) = (\<Sum>ty \<leftarrow> countTypes. int (opened ty es) - int (closed ty es))"
    by (metis (no_types, lifting) map_eq_conv)
  have "\<not> nullish ?tc" by simp
  note shown = overview_shows_counts [OF page tc this counts, of v]
  have "client_counts (overviewReply element (Json ?info) v) = jsField ?info ''client_counts''"
    by (subst overviewReply_ok [OF page]) (simp_all add: tc overviewShow_def APIServerInfo_def)
  then have "client_counts (overviewReply element (Json ?info) v) = JNum (sv_ClientCounts ?st)"
    by (simp add: APIServerInfo_def)
  with shown show ?thesis unfolding v' answer sum by blast
qed

text \<open>
  C35: the overview page counts what the server really has. In every reachable state of the service, the
  number of proxies it shows is the number of registered proxies of the seven types it adds up, which is
  also what the slices of its pie chart add up to, and the number of clients is the number of live
  sessions; nothing on the page fails. A registered proxy of type tcpmux is in neither number.
\<close>
theorem overview_counts_registered:
  assumes reach: "svc_reach ok cfg s"
    and small: "card (dom (svc_pxys s)) < 2 ^ 31" "card (liveCtls s) < 2 ^ 31"
    and keys: "\<forall>ty. ty \<in> set types \<longleftrightarrow> opened ty (svc_events s) \<noteq> 0"
    and page: "element ''traffic''" "element ''proxies''"
    and v': "v' = overviewReply element
      (infoAnswer m now ver sc types (memRun m f (svc_events s) (newServerMetrics m t0))) v"
  shows "proxy_counts v' = JNum (int (card (registeredOf countTypes s))) \<and>
    map_option (sliceSum \<circ> pieData) (shownOption (last (drawings v'))) = Some (int (card (registeredOf countTypes s))) \<and>
    client_counts v' = JNum (int (card (liveCtls s))) \<and> ov_unhandled v' = ov_unhandled v"
proof -
  let ?es = "svc_events s"
  have met: "metOk (svc_pxys s) ?es" using reach_inv [OF reach] by blast
  have each: "balanced ty ?es \<and> opened ty ?es = closed ty ?es + card (registeredOf [ty] s)" for ty
    using met by (simp add: metOk_def registeredOf_def)
  have "card (registeredOf [ty] s) < 2 ^ 31" for ty
    using small(1) registeredOf_le [OF met, of "[ty]"] by linarith
  then have "\<forall>ty \<in> set countTypes. balanced ty ?es \<and> opened ty ?es - closed ty ?es < 2 ^ 31" using each by simp
  note shown = overview_of_events [OF this keys page v']
  have "(\<Sum>ty \<leftarrow> countTypes. int (opened ty ?es) - int (closed ty ?es)) = int (card (registeredOf countTypes s))"
    using registeredOf_sum [OF met, of countTypes] each by (simp add: countTypes_def)
  moreover have "sv_ClientCounts (fst (GetServer m now (memRun m f ?es (newServerMetrics m t0)))) = int (card (liveCtls s))"
    using client_count_served [of ?es m now f t0] clientsOk_reach [OF reach] small(2) by (simp add: clientsOk_def)
  ultimately show ?thesis using shown by simp
qed

theorem overview_counts_registered_witness:
  "proxy_counts (overviewReply (\<lambda>_. True)
     (infoAnswer id 9 ''0.43.0'' (server_conf.truncate sampleSetup) [''xtcp'']
       (memRun id (\<lambda>_. []) [MNewClient, MNewClient, MNewProxy 5 ''p2p'' ''xtcp''] (newServerMetrics id 0))) overviewData) = JNum 1 \<and>
   client_counts (overviewReply (\<lambda>_. True)
     (infoAnswer id 9 ''0.43.0'' (server_conf.truncate sampleSetup) [''xtcp'']
       (memRun id (\<lambda>_. []) [MNewClient, MNewClient, MNewProxy 5 ''p2p'' ''xtcp''] (newServerMetrics id 0))) overviewData) = JNum 2"
proof -
  have es: "svc_events sampleP2P = [MNewClient, MNewClient, MNewProxy 5 ''p2p'' ''xtcp'']" by (simp add: sampleP2P_def)
  have live: "liveCtls sampleP2P = {0, 1}"
    by (auto simp: liveCtls_def sampleP2P_def sampleCtlP2P_def sampleSess_def freshCtl_def)
  have pxys: "svc_pxys sampleP2P = [''p2p'' \<mapsto> xtcpRunning]" by (simp add: sampleP2P_def)
  have reg: "registeredOf countTypes sampleP2P = {''p2p''}"
    by (auto simp: registeredOf_def pxys xtcpRunning_def countTypes_def)
  have "\<forall>ty. ty \<in> set [''xtcp''] \<longleftrightarrow> opened ty (svc_events sampleP2P) \<noteq> 0" by (auto simp: es opened_def)
  from overview_counts_registered [OF sampleP2P_any _ _ this _ _ refl, of "\<lambda>_. True" id 9 "''0.43.0''" _ "\<lambda>_. []" 0 overviewData]
  show ?thesis by (simp add: es live pxys reg)
qed



end
